(* ===== verification/Prelude.thy ===== *)
theory Prelude
  imports Complex_Main
    "HOL-Library.AList"
    "HOL-Library.Char_ord"
    "HOL-Library.List_Lexorder"
    "HOL-Library.Product_Lexorder"
    "HOL-Library.Multiset"
begin

text \<open>
  The vocabulary every component shares: Python exceptions and results, Python floats with
  their special values and comparison rules, the string methods the code calls, ordered
  dictionaries, stable sorting by a key, and the types of identifiers and timestamps.

  Conventions of the whole development:
  \<^item> A finite Python float is an exact real; rounding of the individual arithmetic operations is
    not modelled. NaN and the infinities are constructors of their own, because the code branches
    on them.
  \<^item> A Python string is a \<^typ>\<open>string\<close>, one \<^typ>\<open>char\<close> per code point, which covers the
    code points below 256; the token counter works over arbitrary code points (theory Tokens).
  \<^item> An exception is a value of the sum type, with \<^term>\<open>Inl\<close> the exception.
  \<^item> A timestamp is a number of microseconds since the epoch, the resolution of both Python's
    \<^verbatim>\<open>datetime\<close> and PostgreSQL's \<^verbatim>\<open>timestamptz\<close>.
\<close>

named_theorems py_defs \<open>definitions of the Python primitives, for evaluation\<close>
named_theorems bounded01 \<open>facts that a signal lies between 0 and 1\<close>

section \<open>Identifiers, timestamps, exceptions\<close>

type_synonym uuid = string
type_synonym timestamp = int

datatype py_exn = KeyError | TypeError | ValueError | OverflowError

type_synonym 'a res = "py_exn + 'a"

fun bind_res :: "'a res \<Rightarrow> ('a \<Rightarrow> 'b res) \<Rightarrow> 'b res" where
  "bind_res (Inl e) f = Inl e"
| "bind_res (Inr x) f = f x"

lemma bind_res_Inr_iff: "bind_res m f = Inr y \<longleftrightarrow> (\<exists>x. m = Inr x \<and> f x = Inr y)"
  by (cases m) auto

fun map_res :: "('a \<Rightarrow> 'b res) \<Rightarrow> 'a list \<Rightarrow> 'b list res" where
  "map_res f [] = Inr []"
| "map_res f (x # xs) =
     bind_res (f x) (\<lambda>y. bind_res (map_res f xs) (\<lambda>ys. Inr (y # ys)))"

lemma map_res_total: "(\<And>x. x \<in> set xs \<Longrightarrow> f x = Inr (g x)) \<Longrightarrow> map_res f xs = Inr (map g xs)"
  by (induction xs) auto

lemma map_res_length: "map_res f xs = Inr ys \<Longrightarrow> length ys = length xs"
  by (induction xs arbitrary: ys) (auto simp: bind_res_Inr_iff)

lemma map_res_set:
  "map_res f xs = Inr ys \<Longrightarrow> y \<in> set ys \<Longrightarrow> \<exists>x \<in> set xs. f x = Inr y"
  by (induction xs arbitrary: ys) (auto simp: bind_res_Inr_iff)

lemma map_res_map:
  "map_res f xs = Inr ys \<Longrightarrow> (\<And>x y. f x = Inr y \<Longrightarrow> h y = k x) \<Longrightarrow> map h ys = map k xs"
  by (induction xs arbitrary: ys) (auto simp: bind_res_Inr_iff)

lemma map_res_mset:
  assumes "mset xs = mset zs" and "map_res f xs = Inr ys"
  obtains ws where "map_res f zs = Inr ws" and "mset ws = mset ys"
proof -
  obtain g where g: "\<And>x. x \<in> set xs \<Longrightarrow> f x = Inr (g x)"
  proof -
    have "\<forall>x \<in> set xs. \<exists>y. f x = Inr y"
      using assms(2) by (induction xs arbitrary: ys) (auto simp: bind_res_Inr_iff)
    then show ?thesis using that by metis
  qed
  have sets: "set zs = set xs" using assms(1) by (metis set_mset_mset)
  have "ys = map g xs" using map_res_total[of xs f g] g assms(2) by simp
  moreover have "map_res f zs = Inr (map g zs)"
    by (rule map_res_total) (simp add: g sets)
  ultimately show ?thesis using that assms(1) by (metis mset_map)
qed

section \<open>Python floats\<close>

datatype pyfloat = Fin real | NaN | PosInf | NegInf

fun pf_lt :: "pyfloat \<Rightarrow> pyfloat \<Rightarrow> bool" where
  "pf_lt (Fin a) (Fin b) = (a < b)"
| "pf_lt (Fin a) PosInf = True"
| "pf_lt NegInf (Fin b) = True"
| "pf_lt NegInf PosInf = True"
| "pf_lt a b = False"

text \<open>Python's two-argument \<^verbatim>\<open>min\<close> and \<^verbatim>\<open>max\<close> keep the first argument unless the
  second is strictly better, so a NaN in second position is ignored.\<close>

definition py_min :: "pyfloat \<Rightarrow> pyfloat \<Rightarrow> pyfloat" where
  [py_defs]: "py_min a b = (if pf_lt b a then b else a)"

definition py_max :: "pyfloat \<Rightarrow> pyfloat \<Rightarrow> pyfloat" where
  [py_defs]: "py_max a b = (if pf_lt a b then b else a)"

fun is_fin :: "pyfloat \<Rightarrow> bool" where
  "is_fin (Fin _) = True"
| "is_fin _ = False"

fun fin_val :: "pyfloat \<Rightarrow> real" where
  "fin_val (Fin r) = r"
| "fin_val _ = 0"

fun pf_add :: "pyfloat \<Rightarrow> pyfloat \<Rightarrow> pyfloat" where
  "pf_add (Fin a) (Fin b) = Fin (a + b)"
| "pf_add NaN b = NaN"
| "pf_add a NaN = NaN"
| "pf_add PosInf NegInf = NaN"
| "pf_add NegInf PosInf = NaN"
| "pf_add PosInf b = PosInf"
| "pf_add NegInf b = NegInf"
| "pf_add a PosInf = PosInf"
| "pf_add a NegInf = NegInf"

text \<open>Division by a positive finite number.\<close>

fun pf_scale :: "pyfloat \<Rightarrow> real \<Rightarrow> pyfloat" where
  "pf_scale (Fin a) d = Fin (a / d)"
| "pf_scale a d = a"

definition clamp :: "real \<Rightarrow> real" where
  [py_defs]: "clamp x = max 0 (min 1 x)"

lemma clamp_bounds [bounded01]: "0 \<le> clamp x" "clamp x \<le> 1"
  by (auto simp: clamp_def)

lemma clamp_id [simp]: "0 \<le> x \<Longrightarrow> x \<le> 1 \<Longrightarrow> clamp x = x"
  by (simp add: clamp_def)

lemma clamp_mono: "x \<le> y \<Longrightarrow> clamp x \<le> clamp y"
  by (auto simp: clamp_def)

text \<open>\<^verbatim>\<open>round(x, n)\<close>: to the nearest multiple of ten to the minus \<open>n\<close>, ties to the even
  multiple.\<close>

definition round_even :: "real \<Rightarrow> int" where
  [py_defs]: "round_even y =
     (let f = \<lfloor>y\<rfloor>; d = y - of_int f
      in if d < 1 / 2 then f else if 1 / 2 < d then f + 1 else if even f then f else f + 1)"

definition py_round :: "nat \<Rightarrow> real \<Rightarrow> real" where
  [py_defs]: "py_round n x = of_int (round_even (x * 10 ^ n)) / 10 ^ n"

lemma round_even_of_int [simp]: "round_even (of_int k) = k"
  by (simp add: round_even_def)

lemma round_even_close: "\<bar>of_int (round_even y) - y\<bar> \<le> 1 / 2"
  by (auto simp: round_even_def Let_def; linarith)

lemma round_even_mono: "x \<le> y \<Longrightarrow> round_even x \<le> round_even y"
proof (rule ccontr)
  assume le: "x \<le> y" and "\<not> round_even x \<le> round_even y"
  then have lt: "round_even y + 1 \<le> round_even x" by simp
  then have "real_of_int (round_even y) + 1 \<le> real_of_int (round_even x)" by linarith
  with round_even_close[of x] round_even_close[of y] le
  have eq: "x = y" by linarith
  with lt show False by simp
qed

lemma py_round_mono: "x \<le> y \<Longrightarrow> py_round n x \<le> py_round n y"
  by (auto simp: py_round_def divide_right_mono round_even_mono mult_right_mono)

section \<open>Python strings\<close>

definition py_space :: "char \<Rightarrow> bool" where
  [py_defs]: "py_space c =
     (let n = (of_char c :: nat) in (9 \<le> n \<and> n \<le> 13) \<or> (28 \<le> n \<and> n \<le> 32) \<or> n = 133 \<or> n = 160)"

definition lstrip :: "string \<Rightarrow> string" where
  [py_defs]: "lstrip s = dropWhile py_space s"

definition strip :: "string \<Rightarrow> string" where
  [py_defs]: "strip s = rev (dropWhile py_space (rev (dropWhile py_space s)))"

definition lower_char :: "char \<Rightarrow> char" where
  [py_defs]: "lower_char c =
     (let n = (of_char c :: nat)
      in if (65 \<le> n \<and> n \<le> 90) \<or> (192 \<le> n \<and> n \<le> 222 \<and> n \<noteq> 215) then char_of (n + 32) else c)"

definition lower :: "string \<Rightarrow> string" where
  [py_defs]: "lower s = map lower_char s"

definition replace_char :: "char \<Rightarrow> char \<Rightarrow> string \<Rightarrow> string" where
  [py_defs]: "replace_char a b s = map (\<lambda>c. if c = a then b else c) s"

text \<open>\<^verbatim>\<open>s.split()\<close>: the maximal runs of non-space characters.\<close>

fun words_acc :: "string \<Rightarrow> string \<Rightarrow> string list" where
  "words_acc acc [] = (if acc = [] then [] else [rev acc])"
| "words_acc acc (c # cs) =
     (if py_space c then (if acc = [] then [] else [rev acc]) @ words_acc [] cs
      else words_acc (c # acc) cs)"

definition split_ws :: "string \<Rightarrow> string list" where
  [py_defs]: "split_ws s = words_acc [] s"

fun join :: "string \<Rightarrow> string list \<Rightarrow> string" where
  "join sep [] = []"
| "join sep [x] = x"
| "join sep (x # y # zs) = x @ sep @ join sep (y # zs)"

definition contains :: "string \<Rightarrow> string \<Rightarrow> bool" where
  [py_defs]: "contains s t = list_ex (\<lambda>i. take (length t) (drop i s) = t) [0..<Suc (length s)]"

abbreviation newline :: char where "newline \<equiv> CHR 0x0A"

lemma py_space_newline [simp]: "py_space newline"
  by (simp add: py_space_def)

lemma words_acc_no_space:
  "w \<in> set (words_acc acc s) \<Longrightarrow> \<forall>c \<in> set acc. \<not> py_space c \<Longrightarrow>
     (\<forall>c \<in> set w. \<not> py_space c) \<and> w \<noteq> []"
proof (induction acc s arbitrary: w rule: words_acc.induct)
  case (1 acc)
  then show ?case by (simp split: if_splits)
next
  case (2 acc c cs)
  show ?case
  proof (cases "py_space c")
    case True
    with 2 show ?thesis by (cases "acc = []") auto
  next
    case False
    with 2 show ?thesis by simp
  qed
qed

lemma set_join: "set (join sep xs) \<subseteq> set sep \<union> \<Union> (set ` set xs)"
  by (induction sep xs rule: join.induct) auto

lemma join_Nil_iff: "\<forall>x \<in> set xs. x \<noteq> [] \<Longrightarrow> join sep xs = [] \<longleftrightarrow> xs = []"
  by (cases "(sep, xs)" rule: join.cases) auto

lemma words_acc_Nil_iff: "words_acc acc s = [] \<longleftrightarrow> acc = [] \<and> list_all py_space s"
  by (induction acc s rule: words_acc.induct) auto

lemma strip_Nil_iff: "strip s = [] \<longleftrightarrow> list_all py_space s"
proof -
  have "strip s = [] \<longleftrightarrow> (\<forall>c \<in> set (dropWhile py_space s). py_space c)"
    by (simp add: strip_def)
  also have "\<dots> \<longleftrightarrow> dropWhile py_space s = []"
    by (metis dropWhile_eq_Nil_conv hd_dropWhile list.set_sel(1) list.set_cases set_dropWhileD)
  finally show ?thesis by (simp add: list_all_iff)
qed

section \<open>Dictionaries that keep insertion order\<close>

text \<open>\<^verbatim>\<open>d.update(e)\<close>; \<^const>\<open>AList.update\<close> replaces in place or appends, as a dict does.\<close>

definition dict_update :: "('k \<times> 'v) list \<Rightarrow> ('k \<times> 'v) list \<Rightarrow> ('k \<times> 'v) list" where
  [py_defs]: "dict_update d e = fold (\<lambda>(k, v). AList.update k v) e d"

definition dict_get :: "('k \<times> 'v) list \<Rightarrow> 'k \<Rightarrow> 'v \<Rightarrow> 'v" where
  [py_defs]: "dict_get d k v = (case map_of d k of None \<Rightarrow> v | Some x \<Rightarrow> x)"

lemma map_of_dict_update: "map_of (dict_update d e) k =
    (case map_of (rev e) k of None \<Rightarrow> map_of d k | Some v \<Rightarrow> Some v)"
proof (induction e arbitrary: d)
  case Nil
  then show ?case by (simp add: dict_update_def)
next
  case (Cons p e)
  obtain a b where p: "p = (a, b)" by fastforce
  have "map_of (dict_update d (p # e)) k = map_of (dict_update (AList.update a b d) e) k"
    by (simp add: dict_update_def p)
  also have "\<dots> = (case map_of (rev e) k of None \<Rightarrow> map_of (AList.update a b d) k | Some v \<Rightarrow> Some v)"
    by (rule Cons.IH)
  finally show ?case
    by (simp add: p update_conv' map_add_def split: option.splits)
qed

section \<open>Sorting\<close>

text \<open>Python's \<^verbatim>\<open>sorted(xs, key=f)\<close> and SQL's \<^verbatim>\<open>ORDER BY\<close> are \<^const>\<open>sort_key\<close>, which is
  stable. With a key that separates the elements the result does not depend on their order.\<close>

lemma sorted_map_inj_unique:
  fixes f :: "'a \<Rightarrow> 'k::linorder"
  assumes "mset xs = mset ys" "sorted (map f xs)" "sorted (map f ys)" "inj_on f (set xs)"
  shows "xs = ys"
proof -
  have "mset (map f xs) = mset (map f ys)" using assms(1) by simp
  then have "map f xs = map f ys"
    using assms(2,3) by (metis properties_for_sort)
  moreover have "set ys = set xs" using assms(1) by (metis set_mset_mset)
  ultimately show ?thesis using assms(4) by (metis Un_absorb inj_on_map_eq_map)
qed

lemma sort_key_perm_eq:
  fixes f :: "'a \<Rightarrow> 'k::linorder"
  assumes "mset xs = mset ys" "inj_on f (set xs)"
  shows "sort_key f xs = sort_key f ys"
  by (rule sorted_map_inj_unique[where f = f]) (use assms in auto)

lemma distinct_map_sort_key: "distinct (map f (sort_key g xs)) = distinct (map f xs)"
  by (metis mset_eq_imp_distinct_iff mset_map mset_sort)

lemma distinct_map_take: "distinct (map f xs) \<Longrightarrow> distinct (map f (take n xs))"
  by (metis distinct_take take_map)

lemma sorted_map_fst: "sorted (map (\<lambda>x. (f x, g x)) xs) \<Longrightarrow> sorted (map f xs)"
  for f :: "'a \<Rightarrow> 'k::linorder" and g :: "'a \<Rightarrow> 'l::linorder"
  by (induction xs) auto

lemma take_subset_set: "x \<in> set (take n xs) \<Longrightarrow> x \<in> set xs"
  by (rule in_set_takeD)

lemma sorted_take: "sorted (map f xs) \<Longrightarrow> sorted (map f (take n xs))"
  by (metis sorted_wrt_take take_map)

text \<open>The elements a sorted prefix keeps are no larger than those it leaves out.\<close>

lemma sorted_take_drop_le:
  assumes "sorted (map f xs)" "x \<in> set (take n xs)" "y \<in> set (drop n xs)"
  shows "f x \<le> f y"
proof -
  have "sorted (map f (take n xs) @ map f (drop n xs))"
    using assms(1) by (metis append_take_drop_id map_append)
  then show ?thesis using assms(2,3) by (auto simp: sorted_append)
qed

end
