(* ===== verification/Types.thy ===== *)
theory Types
  imports Prelude
begin

text \<open>
  The values that cross the read path (\<^verbatim>\<open>retrieve/types.py\<close>): the query, the candidate one or
  both retrieval paths propose, and the merged result with its record of degraded paths. A
  candidate's \<^verbatim>\<open>metadata\<close> is an untyped Python dictionary, so its values are of type \<open>pyval\<close>.
\<close>

datatype pydatetime = Naive int | Aware int

datatype pyval =
    PyNone
  | PyBool bool
  | PyInt int
  | PyFloat pyfloat
  | PyStr string
  | PyDatetime pydatetime
  | PyOther

text \<open>The two parsers of the Python library the features call on text: \<^verbatim>\<open>float(str)\<close> and
  \<^verbatim>\<open>datetime.fromisoformat\<close>. Every result about the features holds whatever they accept.\<close>

record pylib =
  float_of_str :: "string \<Rightarrow> pyfloat option"
  from_isoformat :: "string \<Rightarrow> pydatetime option"

datatype path = Semantic | Keyword

instantiation path :: linorder
begin

definition less_eq_path :: "path \<Rightarrow> path \<Rightarrow> bool" where
  "less_eq_path a b = (a = Keyword \<or> b = Semantic)"

definition less_path :: "path \<Rightarrow> path \<Rightarrow> bool" where
  "less_path a b = (a = Keyword \<and> b = Semantic)"

instance
proof
  fix x y z :: path
  show "(x < y) = (x \<le> y \<and> \<not> y \<le> x)" by (cases x; cases y) (auto simp: less_eq_path_def less_path_def)
  show "x \<le> x" by (cases x) (auto simp: less_eq_path_def)
  show "x \<le> y \<Longrightarrow> y \<le> z \<Longrightarrow> x \<le> z" by (auto simp: less_eq_path_def)
  show "x \<le> y \<Longrightarrow> y \<le> x \<Longrightarrow> x = y" by (cases x; cases y) (auto simp: less_eq_path_def)
  show "x \<le> y \<or> y \<le> x" by (cases x; cases y) (auto simp: less_eq_path_def)
qed

end

text \<open>\<^verbatim>\<open>RetrievalQuery\<close>\<close>

record query =
  q_text :: string
  q_subject :: uuid
  q_actor :: uuid
  q_semantic_top_k :: "nat option"
  q_keyword_top_k :: "nat option"

definition is_blank :: "query \<Rightarrow> bool" where
  "is_blank q = (strip (q_text q) = [])"

text \<open>\<^verbatim>\<open>RetrievalCandidate\<close>; the two score dictionaries keep insertion order, which the merge
  relies on.\<close>

record candidate =
  c_id :: uuid
  c_content :: string
  c_score :: pyfloat
  c_path :: path
  c_paths :: "path set"
  c_path_scores :: "(path \<times> pyfloat) list"
  c_raw_scores :: "(path \<times> pyfloat) list"
  c_metadata :: "string \<Rightarrow> pyval option"

text \<open>\<^verbatim>\<open>HybridResult\<close>; the wall time it also carries is measurement and is left out.\<close>

datatype degradation = TimedOut | Raised py_exn

record hybrid_result =
  h_candidates :: "candidate list"
  h_degraded :: "(path \<times> degradation) list"
  h_path_counts :: "(path \<times> nat) list"

definition is_degraded :: "hybrid_result \<Rightarrow> bool" where
  "is_degraded h = (h_degraded h \<noteq> [])"

lemma path_neq: "(p \<noteq> Semantic) = (p = Keyword)" "(p \<noteq> Keyword) = (p = Semantic)"
  by (cases p; simp)+

lemma path_UNIV: "UNIV = {Semantic, Keyword}"
  using path.exhaust by auto

end
