(* ===== verification/Features.thy ===== *)
theory Features
  imports Types
begin

text \<open>
  The five ranking signals (\<^verbatim>\<open>retrieve/features.py\<close>) and the constants that shape them
  (\<^verbatim>\<open>retrieve/config.py\<close>). Each signal is a function of one candidate and one instant. The
  module promises that every signal is total and lies in the unit interval; the model shows where
  that is so, and the one input for which \<^verbatim>\<open>_as_float\<close> raises instead.
\<close>

section \<open>Constants\<close>

definition recency_half_life_days :: real where "recency_half_life_days = 30"
definition activation_half_life_days :: real where
  "activation_half_life_days = recency_half_life_days"
definition recency_default :: real where "recency_default = 0"
definition activation_default :: real where "activation_default = 0"
definition frequency_reference :: real where "frequency_reference = 3"
definition importance_default :: real where "importance_default = 1 / 2"

lemmas feature_constants =
  recency_half_life_days_def activation_half_life_days_def recency_default_def
  activation_default_def frequency_reference_def importance_default_def

section \<open>Coercions\<close>

definition clamp01 :: "pyfloat \<Rightarrow> pyfloat" where
  "clamp01 v = (if v = NaN then Fin 0 else py_max (Fin 0) (py_min (Fin 1) v))"

lemma clamp01_cases: "clamp01 v = Fin (case v of Fin r \<Rightarrow> clamp r | NaN \<Rightarrow> 0 | PosInf \<Rightarrow> 1 | NegInf \<Rightarrow> 0)"
  by (cases v) (auto simp: clamp01_def py_max_def py_min_def clamp_def)

text \<open>\<^verbatim>\<open>float(n)\<close> for an integer raises \<^verbatim>\<open>OverflowError\<close> when the integer rounds beyond the
  largest double.\<close>

definition float_of_int :: "int \<Rightarrow> pyfloat res" where
  "float_of_int n = (if \<bar>n\<bar> \<ge> 2 ^ 1024 - 2 ^ 970 then Inl OverflowError else Inr (Fin (of_int n)))"

definition py_float :: "pylib \<Rightarrow> pyval \<Rightarrow> pyfloat res" where
  "py_float lib v = (case v of
       PyNone \<Rightarrow> Inl TypeError
     | PyBool b \<Rightarrow> Inr (Fin (if b then 1 else 0))
     | PyInt n \<Rightarrow> float_of_int n
     | PyFloat f \<Rightarrow> Inr f
     | PyStr s \<Rightarrow> (case float_of_str lib s of None \<Rightarrow> Inl ValueError | Some f \<Rightarrow> Inr f)
     | PyDatetime _ \<Rightarrow> Inl TypeError
     | PyOther \<Rightarrow> Inl TypeError)"

text \<open>\<^verbatim>\<open>_as_float\<close>: only \<^verbatim>\<open>TypeError\<close> and \<^verbatim>\<open>ValueError\<close> are caught.\<close>

definition as_float :: "pylib \<Rightarrow> pyval \<Rightarrow> pyfloat \<Rightarrow> pyfloat res" where
  "as_float lib v d =
     (case v of PyNone \<Rightarrow> Inr d | PyBool _ \<Rightarrow> Inr d
      | _ \<Rightarrow> (case py_float lib v of
               Inl TypeError \<Rightarrow> Inr d
             | Inl ValueError \<Rightarrow> Inr d
             | Inl e \<Rightarrow> Inl e
             | Inr f \<Rightarrow> (case f of Fin r \<Rightarrow> Inr (Fin r) | _ \<Rightarrow> Inr d)))"

text \<open>The range of \<^verbatim>\<open>datetime\<close>, years 1 to 9999, in microseconds of the epoch;
  \<^verbatim>\<open>astimezone\<close> raises outside it.\<close>

definition dt_min :: timestamp where "dt_min = - 62135596800 * 10 ^ 6"
definition dt_max :: timestamp where "dt_max = 253402300799 * 10 ^ 6 + 999999"

definition to_utc :: "pydatetime \<Rightarrow> timestamp res" where
  "to_utc d = (case d of Naive u \<Rightarrow> Inr u
     | Aware u \<Rightarrow> (if dt_min \<le> u \<and> u \<le> dt_max then Inr u else Inl OverflowError))"

definition z_suffix :: "string \<Rightarrow> string" where
  "z_suffix t = (if t \<noteq> [] \<and> (last t = CHR ''Z'' \<or> last t = CHR ''z'')
                 then butlast t @ ''+00:00'' else t)"

definition as_datetime :: "pylib \<Rightarrow> pyval \<Rightarrow> timestamp option res" where
  "as_datetime lib v = (case v of
       PyDatetime d \<Rightarrow> bind_res (to_utc d) (\<lambda>u. Inr (Some u))
     | PyStr s \<Rightarrow>
         (let text = strip s in
          if text = [] then Inr None
          else (case from_isoformat lib (z_suffix text) of
                  None \<Rightarrow> Inr None
                | Some d \<Rightarrow> bind_res (to_utc d) (\<lambda>u. Inr (Some u))))
     | _ \<Rightarrow> Inr None)"

definition meta :: "candidate \<Rightarrow> string \<Rightarrow> pyval" where
  "meta c k = (case c_metadata c k of None \<Rightarrow> PyNone | Some v \<Rightarrow> v)"

fun instant :: "pydatetime \<Rightarrow> timestamp" where
  "instant (Naive u) = u"
| "instant (Aware u) = u"

section \<open>The signals\<close>

definition semantic_score :: "pylib \<Rightarrow> candidate \<Rightarrow> pyfloat res" where
  "semantic_score lib c =
     bind_res (as_float lib (PyFloat (c_score c)) NaN) (\<lambda>merged.
       if merged \<noteq> NaN then Inr (clamp01 merged)
       else if c_path_scores c \<noteq> [] then
         bind_res (map_res (\<lambda>v. as_float lib (PyFloat v) (Fin 0)) (map snd (c_path_scores c)))
           (\<lambda>usable. Inr (clamp01 (foldl py_max (hd usable) (tl usable))))
       else Inr (Fin 0))"

definition age_days :: "timestamp \<Rightarrow> timestamp \<Rightarrow> real" where
  "age_days ref t = of_int (ref - t) / 10 ^ 6 / 86400"

definition half_life_decay :: "real \<Rightarrow> real \<Rightarrow> real" where
  "half_life_decay age hl =
     (if age \<le> 0 then 1 else if hl \<le> 0 then 0 else clamp ((1 / 2) powr (age / hl)))"

text \<open>The common body of \<^verbatim>\<open>recency_score\<close> and \<^verbatim>\<open>activation_score\<close>: which metadata key, which
  default, which half-life. \<open>now\<close> is the optional argument, \<open>clock\<close> what \<^verbatim>\<open>utc_now()\<close> answers.\<close>

definition decay_signal ::
  "string \<Rightarrow> real \<Rightarrow> real \<Rightarrow> pylib \<Rightarrow> candidate \<Rightarrow> pydatetime option \<Rightarrow> timestamp \<Rightarrow> pyfloat res" where
  "decay_signal key dflt hl lib c now clock =
     bind_res (as_datetime lib (meta c key)) (\<lambda>accessed.
       case accessed of
         None \<Rightarrow> Inr (clamp01 (Fin dflt))
       | Some t \<Rightarrow>
           (let reference = (case now of None \<Rightarrow> clock | Some d \<Rightarrow> instant d)
            in Inr (Fin (half_life_decay (age_days reference t) hl))))"

definition recency_score ::
  "pylib \<Rightarrow> candidate \<Rightarrow> pydatetime option \<Rightarrow> timestamp \<Rightarrow> real option \<Rightarrow> pyfloat res" where
  "recency_score lib c now clock half_life =
     decay_signal ''created_at'' recency_default
       (case half_life of None \<Rightarrow> recency_half_life_days | Some h \<Rightarrow> h) lib c now clock"

definition activation_score ::
  "pylib \<Rightarrow> candidate \<Rightarrow> pydatetime option \<Rightarrow> timestamp \<Rightarrow> real option \<Rightarrow> pyfloat res" where
  "activation_score lib c now clock half_life =
     decay_signal ''last_accessed_at'' activation_default
       (case half_life of None \<Rightarrow> activation_half_life_days | Some h \<Rightarrow> h) lib c now clock"

definition frequency_score :: "pylib \<Rightarrow> candidate \<Rightarrow> pyfloat res" where
  "frequency_score lib c =
     bind_res (as_float lib (meta c ''reinforcement_count'') (Fin 0)) (\<lambda>count.
       if fin_val count \<le> 0 then Inr (Fin 0)
       else if frequency_reference \<le> 0 then Inr (Fin 1)
       else Inr (clamp01 (Fin (fin_val count / (fin_val count + frequency_reference)))))"

definition importance_score :: "pylib \<Rightarrow> candidate \<Rightarrow> pyfloat res" where
  "importance_score lib c =
     bind_res (as_float lib (meta c ''importance'') (Fin importance_default))
       (\<lambda>v. Inr (clamp01 v))"

lemmas signal_defs = semantic_score_def recency_score_def activation_score_def
  frequency_score_def importance_score_def

section \<open>Every signal is bounded, and raises only an overflow\<close>

definition unit_result :: "pyfloat res \<Rightarrow> bool" where
  "unit_result m \<longleftrightarrow> m = Inl OverflowError \<or> (\<exists>r. m = Inr (Fin r) \<and> 0 \<le> r \<and> r \<le> 1)"

lemma unit_clamp01 [bounded01]: "unit_result (Inr (clamp01 v))"
  by (cases v) (auto simp: unit_result_def clamp01_cases clamp_bounds)

lemma unit_bind [bounded01]:
  "(\<And>e. m = Inl e \<Longrightarrow> e = OverflowError) \<Longrightarrow> (\<And>x. m = Inr x \<Longrightarrow> unit_result (f x)) \<Longrightarrow>
     unit_result (bind_res m f)"
  by (cases m) (auto simp: unit_result_def)

lemma as_float_error: "as_float lib v d = Inl e \<Longrightarrow> e = OverflowError"
  by (auto simp: as_float_def py_float_def float_of_int_def
      split: pyval.splits sum.splits py_exn.splits pyfloat.splits option.splits if_splits)

lemma as_float_fin: "as_float lib v (Fin d) = Inr x \<Longrightarrow> \<exists>r. x = Fin r"
  by (auto simp: as_float_def py_float_def float_of_int_def
      split: pyval.splits sum.splits py_exn.splits pyfloat.splits option.splits if_splits)

lemma as_float_float: "as_float lib (PyFloat f) d = Inr (case f of Fin r \<Rightarrow> Fin r | _ \<Rightarrow> d)"
  by (cases f) (auto simp: as_float_def py_float_def)

lemma as_datetime_error: "as_datetime lib v = Inl e \<Longrightarrow> e = OverflowError"
  by (auto simp: as_datetime_def to_utc_def Let_def
      split: pyval.splits option.splits pydatetime.splits if_splits)

lemma map_res_as_float_float:
  "map_res (\<lambda>v. as_float lib (PyFloat v) d) vs = Inr (map (\<lambda>f. case f of Fin r \<Rightarrow> Fin r | _ \<Rightarrow> d) vs)"
  by (rule map_res_total) (simp add: as_float_float)

lemma half_life_decay_bounds [bounded01]:
  "0 \<le> half_life_decay age hl" "half_life_decay age hl \<le> 1"
  by (auto simp: half_life_decay_def clamp_bounds)

lemma semantic_score_eq: "semantic_score lib c = Inr (
    case c_score c of Fin r \<Rightarrow> clamp01 (Fin r)
    | _ \<Rightarrow> (if c_path_scores c = [] then Fin 0
           else let us = map (\<lambda>f. case f of Fin r \<Rightarrow> Fin r | _ \<Rightarrow> Fin 0) (map snd (c_path_scores c))
                in clamp01 (foldl py_max (hd us) (tl us))))"
proof -
  have m: "map_res (\<lambda>v. as_float lib (PyFloat v) (Fin 0)) vs =
      Inr (map (\<lambda>f. case f of Fin r \<Rightarrow> Fin r | _ \<Rightarrow> Fin 0) vs)" for vs
    by (rule map_res_as_float_float)
  show ?thesis
    unfolding semantic_score_def m
    by (cases "c_score c") (simp_all add: as_float_float Let_def comp_def)
qed

lemma semantic_score_unit [bounded01]: "unit_result (semantic_score lib c)"
  unfolding semantic_score_eq
  by (cases "c_score c")
     (auto simp: Let_def unit_result_def clamp01_cases clamp_bounds split: pyfloat.splits)

lemma decay_signal_unit: "unit_result (decay_signal key dflt hl lib c now clock)"
  unfolding decay_signal_def
  by (rule unit_bind) (auto simp: as_datetime_error Let_def unit_result_def bounded01
      clamp01_cases split: option.splits)

lemma recency_score_unit [bounded01]: "unit_result (recency_score lib c now clock h)"
  and activation_score_unit [bounded01]: "unit_result (activation_score lib c now clock h)"
  by (simp_all add: recency_score_def activation_score_def decay_signal_unit)

lemma frequency_score_unit [bounded01]: "unit_result (frequency_score lib c)"
  unfolding frequency_score_def
  by (rule unit_bind)
     (auto simp: as_float_error unit_clamp01 unit_result_def[of "Inr (Fin _)"])

lemma importance_score_unit [bounded01]: "unit_result (importance_score lib c)"
  unfolding importance_score_def
  by (rule unit_bind) (auto simp: as_float_error unit_clamp01)

text \<open>For metadata as the two retrieval paths write it, nothing overflows: counts are 32-bit
  integers, importance is a float or NULL, and the timestamps are ISO text or absent.\<close>

definition row_metadata_ok :: "pylib \<Rightarrow> candidate \<Rightarrow> bool" where
  "row_metadata_ok lib c \<longleftrightarrow>
     (case meta c ''reinforcement_count'' of PyInt n \<Rightarrow> \<bar>n\<bar> < 2 ^ 31 | PyNone \<Rightarrow> True | _ \<Rightarrow> False) \<and>
     (case meta c ''importance'' of PyFloat _ \<Rightarrow> True | PyNone \<Rightarrow> True | _ \<Rightarrow> False) \<and>
     (\<forall>k. k = ''created_at'' \<or> k = ''last_accessed_at'' \<longrightarrow>
        (case meta c k of
           PyNone \<Rightarrow> True
         | PyStr s \<Rightarrow> strip s = [] \<or>
             (case from_isoformat lib (z_suffix (strip s)) of
                Some (Aware u) \<Rightarrow> dt_min \<le> u \<and> u \<le> dt_max | _ \<Rightarrow> True)
         | _ \<Rightarrow> False))"

lemma as_datetime_row:
  "(case v of PyNone \<Rightarrow> True
     | PyStr s \<Rightarrow> strip s = [] \<or>
             (case from_isoformat lib (z_suffix (strip s)) of
                Some (Aware u) \<Rightarrow> dt_min \<le> u \<and> u \<le> dt_max | _ \<Rightarrow> True)
     | _ \<Rightarrow> False) \<Longrightarrow> \<exists>t. as_datetime lib v = Inr t"
  by (auto simp: as_datetime_def to_utc_def Let_def
      split: pyval.splits option.splits pydatetime.splits)

lemma unit_result_Inr: "unit_result m \<Longrightarrow> m = Inr x \<Longrightarrow> \<exists>r. x = Fin r \<and> 0 \<le> r \<and> r \<le> 1"
  by (auto simp: unit_result_def)

lemma semantic_score_total: "\<exists>x. semantic_score lib c = Inr x"
  by (simp add: semantic_score_eq)

lemma int32_no_overflow: "\<bar>n\<bar> < 2 ^ 31 \<Longrightarrow> float_of_int n = Inr (Fin (of_int n))"
proof -
  assume "\<bar>n\<bar> < 2 ^ 31"
  moreover have "(2::int) ^ 31 \<le> 2 ^ 1024 - 2 ^ 970" by simp
  ultimately show ?thesis unfolding float_of_int_def by (auto simp del: power_numeral)
qed

lemma decay_signal_row:
  assumes "row_metadata_ok lib c" and "key = ''created_at'' \<or> key = ''last_accessed_at''"
  shows "\<exists>x. decay_signal key dflt hl lib c now clock = Inr x"
proof -
  have "\<exists>t. as_datetime lib (meta c key) = Inr t"
    by (rule as_datetime_row) (use assms in \<open>unfold row_metadata_ok_def, blast\<close>)
  then obtain t where "as_datetime lib (meta c key) = Inr t" by blast
  then show ?thesis by (cases t) (simp_all add: decay_signal_def Let_def)
qed

lemma recency_score_row: "row_metadata_ok lib c \<Longrightarrow> \<exists>x. recency_score lib c now clock h = Inr x"
  and activation_score_row: "row_metadata_ok lib c \<Longrightarrow> \<exists>x. activation_score lib c now clock h = Inr x"
  by (simp_all add: recency_score_def activation_score_def decay_signal_row)

lemma frequency_score_row: "row_metadata_ok lib c \<Longrightarrow> \<exists>x. frequency_score lib c = Inr x"
  by (auto simp: row_metadata_ok_def frequency_score_def as_float_def py_float_def int32_no_overflow
      split: pyval.splits)

lemma importance_score_row: "row_metadata_ok lib c \<Longrightarrow> \<exists>x. importance_score lib c = Inr x"
  by (auto simp: row_metadata_ok_def importance_score_def as_float_def py_float_def
      split: pyval.splits pyfloat.splits)

section \<open>Shape of the decay\<close>

lemma half_life_decay_strict:
  assumes "0 < hl" "0 \<le> a" "a < b"
  shows "half_life_decay b hl < half_life_decay a hl"
proof -
  have b: "half_life_decay b hl = (1 / 2) powr (b / hl)"
    using assms by (auto simp: half_life_decay_def powr_le1 intro!: clamp_id)
  have lt1: "(1 / 2 :: real) powr (b / hl) < 1"
    using assms powr_less_mono'[of "1/2" 0 "b / hl"] by simp
  show ?thesis
  proof (cases "a = 0")
    case True
    then show ?thesis using lt1 b by (simp add: half_life_decay_def)
  next
    case False
    then have a: "half_life_decay a hl = (1 / 2) powr (a / hl)"
      using assms by (auto simp: half_life_decay_def powr_le1 intro!: clamp_id)
    have "a / hl < b / hl" using assms by (simp add: divide_strict_right_mono)
    then show ?thesis using a b powr_less_mono'[of "1/2"] by simp
  qed
qed

lemma age_days_mono: "t < u \<Longrightarrow> age_days ref u < age_days ref t"
  by (simp add: age_days_def divide_strict_right_mono)

lemma age_days_nonneg: "t \<le> ref \<Longrightarrow> 0 \<le> age_days ref t"
  by (simp add: age_days_def)

end
