(* ===== verification/Ranking.thy ===== *)
theory Ranking
  imports Features
begin

text \<open>
  The ranking node (\<^verbatim>\<open>retrieve/ranking.py\<close>): the weighted sum of the five signals, the checks
  \<^verbatim>\<open>retrieve/config.py\<close> makes on the weights when it is imported, and the selection of the top
  \<open>k\<close>. The lemmas give the range of a score, the order and optimality of the selection, its
  independence of the input order, and what makes a newer statement win.
\<close>

section \<open>Weights\<close>

definition weight_semantic :: real where "weight_semantic = 35 / 100"
definition weight_recency :: real where "weight_recency = 25 / 100"
definition weight_activation :: real where "weight_activation = 10 / 100"
definition weight_frequency :: real where "weight_frequency = 10 / 100"
definition weight_importance :: real where "weight_importance = 20 / 100"

lemmas weight_defs = weight_semantic_def weight_recency_def weight_activation_def
  weight_frequency_def weight_importance_def

definition ranking_weights :: "(string \<times> real) list" where
  "ranking_weights =
     [(''semantic'', weight_semantic), (''recency'', weight_recency),
      (''activation'', weight_activation), (''frequency'', weight_frequency),
      (''importance'', weight_importance)]"

definition plan_weights :: "(string \<times> real) list" where
  "plan_weights =
     [(''semantic'', 35 / 100), (''recency'', 25 / 100), (''activation'', 10 / 100),
      (''frequency'', 10 / 100), (''importance'', 20 / 100)]"

text \<open>The three import-time checks, each of which raises when it fails: recency outweighs
  activation, the weights sum to one up to 1e-9, and they are those of the plan.\<close>

definition recency_guard :: "real \<Rightarrow> real \<Rightarrow> bool" where
  "recency_guard w_rec w_act = (\<not> w_rec \<le> w_act)"

definition weight_sum_guard :: "(string \<times> real) list \<Rightarrow> bool" where
  "weight_sum_guard ws = (\<not> \<bar>sum_list (map snd ws) - 1\<bar> > 1 / 10 ^ 9)"

definition plan_guard :: "(string \<times> real) list \<Rightarrow> (string \<times> real) list \<Rightarrow> bool" where
  "plan_guard ws plan = (map_of ws = map_of plan)"

lemma import_checks_pass: "recency_guard weight_recency weight_activation"
    "weight_sum_guard ranking_weights" "plan_guard ranking_weights plan_weights"
  by (auto simp: recency_guard_def weight_sum_guard_def plan_guard_def ranking_weights_def
      plan_weights_def weight_defs)

section \<open>Scoring\<close>

record score_breakdown =
  b_semantic :: real
  b_recency :: real
  b_activation :: real
  b_frequency :: real
  b_importance :: real
  b_total :: real

record ranked =
  r_candidate :: candidate
  r_score :: real
  r_breakdown :: score_breakdown

definition r_id :: "ranked \<Rightarrow> uuid" where "r_id r = c_id (r_candidate r)"
definition r_content :: "ranked \<Rightarrow> string" where "r_content r = c_content (r_candidate r)"

text \<open>A signal that returns is a finite float (\<open>unit_result\<close>), so the sum is taken on reals.\<close>

definition score_breakdown ::
  "pylib \<Rightarrow> candidate \<Rightarrow> pydatetime option \<Rightarrow> timestamp \<Rightarrow> score_breakdown res" where
  "score_breakdown lib c now clock =
     bind_res (semantic_score lib c) (\<lambda>sem.
     bind_res (recency_score lib c now clock None) (\<lambda>rec.
     bind_res (activation_score lib c now clock None) (\<lambda>act.
     bind_res (frequency_score lib c) (\<lambda>freq.
     bind_res (importance_score lib c) (\<lambda>imp.
       Inr \<lparr> b_semantic = fin_val sem, b_recency = fin_val rec, b_activation = fin_val act,
             b_frequency = fin_val freq, b_importance = fin_val imp,
             b_total = weight_semantic * fin_val sem + weight_recency * fin_val rec
               + weight_activation * fin_val act + weight_frequency * fin_val freq
               + weight_importance * fin_val imp \<rparr>)))))"

definition score_candidate ::
  "pylib \<Rightarrow> candidate \<Rightarrow> pydatetime option \<Rightarrow> timestamp \<Rightarrow> real res" where
  "score_candidate lib c now clock =
     bind_res (score_breakdown lib c now clock) (\<lambda>b. Inr (b_total b))"

definition sort_key_of :: "ranked \<Rightarrow> real \<times> string" where
  "sort_key_of r = (- py_round 12 (r_score r), r_id r)"

definition rank_one :: "pylib \<Rightarrow> pydatetime \<Rightarrow> timestamp \<Rightarrow> candidate \<Rightarrow> ranked res" where
  "rank_one lib reference clock c =
     bind_res (score_breakdown lib c (Some reference) clock) (\<lambda>b.
       Inr \<lparr> r_candidate = c, r_score = b_total b, r_breakdown = b \<rparr>)"

definition rank ::
  "pylib \<Rightarrow> int \<Rightarrow> timestamp \<Rightarrow> candidate list \<Rightarrow> int option \<Rightarrow> pydatetime option \<Rightarrow> ranked list res" where
  "rank lib default_k clock items top_k now =
     (if items = [] then Inr []
      else (let reference = (case now of None \<Rightarrow> Aware clock | Some d \<Rightarrow> d) in
        bind_res (map_res (rank_one lib reference clock) items) (\<lambda>rs.
          let limit = (case top_k of None \<Rightarrow> default_k | Some k \<Rightarrow> k);
              limit' = (if limit < 0 then 0 else limit)
          in Inr (take (nat limit') (sort_key sort_key_of rs)))))"

definition rank_limit :: "int \<Rightarrow> int option \<Rightarrow> nat" where
  "rank_limit default_k top_k = nat (case top_k of None \<Rightarrow> default_k | Some k \<Rightarrow> k)"

section \<open>A score is a convex combination\<close>

definition breakdown_ok :: "score_breakdown \<Rightarrow> bool" where
  "breakdown_ok b \<longleftrightarrow>
     (\<forall>x \<in> {b_semantic b, b_recency b, b_activation b, b_frequency b, b_importance b}.
        0 \<le> x \<and> x \<le> 1) \<and>
     b_total b = 35 / 100 * b_semantic b + 25 / 100 * b_recency b + 10 / 100 * b_activation b
       + 10 / 100 * b_frequency b + 20 / 100 * b_importance b"

lemma score_breakdown_Inr:
  "score_breakdown lib c now clock = Inr b \<longleftrightarrow>
     (\<exists>sem rec act freq imp.
        semantic_score lib c = Inr sem \<and> recency_score lib c now clock None = Inr rec \<and>
        activation_score lib c now clock None = Inr act \<and> frequency_score lib c = Inr freq \<and>
        importance_score lib c = Inr imp \<and>
        b = \<lparr> b_semantic = fin_val sem, b_recency = fin_val rec, b_activation = fin_val act,
             b_frequency = fin_val freq, b_importance = fin_val imp,
             b_total = weight_semantic * fin_val sem + weight_recency * fin_val rec
               + weight_activation * fin_val act + weight_frequency * fin_val freq
               + weight_importance * fin_val imp \<rparr>)"
  by (auto simp: score_breakdown_def bind_res_Inr_iff)

lemma unit_fin_val: "unit_result m \<Longrightarrow> m = Inr x \<Longrightarrow> 0 \<le> fin_val x \<and> fin_val x \<le> 1"
  by (auto simp: unit_result_def)

lemma score_breakdown_ok: "score_breakdown lib c now clock = Inr b \<Longrightarrow> breakdown_ok b"
  unfolding score_breakdown_Inr breakdown_ok_def
  by (auto simp: weight_defs dest: unit_fin_val[OF semantic_score_unit] unit_fin_val[OF recency_score_unit]
      unit_fin_val[OF activation_score_unit] unit_fin_val[OF frequency_score_unit]
      unit_fin_val[OF importance_score_unit])

lemma breakdown_total_bounds: "breakdown_ok b \<Longrightarrow> 0 \<le> b_total b \<and> b_total b \<le> 1"
  by (auto simp: breakdown_ok_def)

lemma score_breakdown_error: "score_breakdown lib c now clock = Inl e \<Longrightarrow> e = OverflowError"
  using semantic_score_unit[of lib c] recency_score_unit[of lib c now clock None]
    activation_score_unit[of lib c now clock None] frequency_score_unit[of lib c]
    importance_score_unit[of lib c]
  by (auto simp: score_breakdown_def unit_result_def)

lemma score_breakdown_row:
  assumes "row_metadata_ok lib c"
  shows "\<exists>b. score_breakdown lib c now clock = Inr b"
proof -
  obtain x1 where "semantic_score lib c = Inr x1" using semantic_score_total by blast
  moreover obtain x2 where "recency_score lib c now clock None = Inr x2"
    using recency_score_row[OF assms] by blast
  moreover obtain x3 where "activation_score lib c now clock None = Inr x3"
    using activation_score_row[OF assms] by blast
  moreover obtain x4 where "frequency_score lib c = Inr x4" using frequency_score_row[OF assms] by blast
  moreover obtain x5 where "importance_score lib c = Inr x5" using importance_score_row[OF assms] by blast
  ultimately show ?thesis by (simp add: score_breakdown_def)
qed

section \<open>The selection\<close>

lemma rank_one_Inr: "rank_one lib d clock c = Inr r \<longleftrightarrow>
    (\<exists>b. score_breakdown lib c (Some d) clock = Inr b \<and>
       r = \<lparr> r_candidate = c, r_score = b_total b, r_breakdown = b \<rparr>)"
  by (auto simp: rank_one_def bind_res_Inr_iff)

lemma rank_one_candidate: "rank_one lib d clock c = Inr r \<Longrightarrow> r_candidate r = c"
  by (auto simp: rank_one_Inr)

lemma rank_one_ok: "rank_one lib d clock c = Inr r \<Longrightarrow>
    breakdown_ok (r_breakdown r) \<and> r_score r = b_total (r_breakdown r)"
  by (auto simp: rank_one_Inr score_breakdown_ok)

definition rank_reference :: "timestamp \<Rightarrow> pydatetime option \<Rightarrow> pydatetime" where
  "rank_reference clock now = (case now of None \<Rightarrow> Aware clock | Some d \<Rightarrow> d)"

lemma rank_eq: "rank lib dk clock items top_k now =
    bind_res (map_res (rank_one lib (rank_reference clock now) clock) items) (\<lambda>rs.
      Inr (take (rank_limit dk top_k) (sort_key sort_key_of rs)))"
proof -
  have "nat (if x < 0 then 0 else x) = nat x" for x :: int by simp
  then show ?thesis
    by (cases "items = []") (simp_all add: rank_def rank_limit_def rank_reference_def Let_def)
qed

lemma rank_members:
  assumes "rank lib dk clock items top_k now = Inr rs" and "r \<in> set rs"
  obtains c where "c \<in> set items" "rank_one lib (rank_reference clock now) clock c = Inr r"
  using assms by (auto simp: rank_eq bind_res_Inr_iff dest!: take_subset_set dest: map_res_set)

lemma rank_sorted: "rank lib dk clock items top_k now = Inr rs \<Longrightarrow> sorted (map sort_key_of rs)"
  by (auto simp: rank_eq bind_res_Inr_iff intro!: sorted_take)

lemma rank_length: "rank lib dk clock items top_k now = Inr rs \<Longrightarrow>
    length rs = min (rank_limit dk top_k) (length items)"
  by (auto simp: rank_eq bind_res_Inr_iff dest!: map_res_length)

lemma map_res_mem_Inr: "map_res f xs = Inr ys \<Longrightarrow> x \<in> set xs \<Longrightarrow> \<exists>y \<in> set ys. f x = Inr y"
  by (induction xs arbitrary: ys) (auto simp: bind_res_Inr_iff)

lemma rank_left_out:
  assumes "rank lib dk clock items top_k now = Inr rs" "c \<in> set items"
  obtains r where "rank_one lib (rank_reference clock now) clock c = Inr r"
    "r \<in> set rs \<or> (\<forall>s \<in> set rs. sort_key_of s \<le> sort_key_of r)"
proof -
  obtain ys where ys: "map_res (rank_one lib (rank_reference clock now) clock) items = Inr ys"
    and rs: "rs = take (rank_limit dk top_k) (sort_key sort_key_of ys)"
    using assms(1) by (auto simp: rank_eq bind_res_Inr_iff)
  obtain r where r: "r \<in> set ys" "rank_one lib (rank_reference clock now) clock c = Inr r"
    using map_res_mem_Inr[OF ys assms(2)] by blast
  have "r \<in> set (sort_key sort_key_of ys)" using r by simp
  then have "r \<in> set rs \<or> r \<in> set (drop (rank_limit dk top_k) (sort_key sort_key_of ys))"
    unfolding rs by (metis Un_iff append_take_drop_id set_append)
  then show ?thesis
    using that r(2) sorted_take_drop_le[of sort_key_of "sort_key sort_key_of ys"] rs
    by (metis sorted_sort_key)
qed

lemma rank_total:
  assumes "\<forall>c \<in> set items. row_metadata_ok lib c"
  shows "\<exists>rs. rank lib dk clock items top_k now = Inr rs"
proof -
  let ?f = "rank_one lib (rank_reference clock now) clock"
  have "\<forall>c \<in> set items. \<exists>r. ?f c = Inr r"
    using assms score_breakdown_row by (fastforce simp: rank_one_Inr)
  then have "map_res ?f items = Inr (map (\<lambda>c. SOME r. ?f c = Inr r) items)"
    by (intro map_res_total) (meson someI_ex)
  then show ?thesis by (simp add: rank_eq)
qed

lemma map_res_rank_error: "map_res (rank_one lib d clock) xs = Inl e \<Longrightarrow> e = OverflowError"
proof (induction xs)
  case (Cons c cs)
  show ?case
  proof (cases "rank_one lib d clock c")
    case (Inl e')
    then show ?thesis using Cons.prems score_breakdown_error
      by (cases "score_breakdown lib c (Some d) clock") (auto simp: rank_one_def)
  next
    case (Inr r)
    then show ?thesis using Cons by (cases "map_res (rank_one lib d clock) cs") auto
  qed
qed simp

section \<open>Freshness\<close>

text \<open>Two memories that differ in nothing but when they were stated.\<close>

lemma decay_signal_at:
  "as_datetime lib (meta c key) = Inr (Some t) \<Longrightarrow>
     decay_signal key d hl lib c (Some ref) clock =
       Inr (Fin (half_life_decay (age_days (instant ref) t) hl))"
  by (simp add: decay_signal_def)

lemma recency_strict:
  assumes "as_datetime lib (meta a ''created_at'') = Inr (Some t)"
    and "as_datetime lib (meta b ''created_at'') = Inr (Some u)"
    and "u < t" "t \<le> instant ref"
    and "recency_score lib a (Some ref) clock None = Inr x"
    and "recency_score lib b (Some ref) clock None = Inr y"
  shows "fin_val y < fin_val x"
proof -
  have "half_life_decay (age_days (instant ref) u) 30 < half_life_decay (age_days (instant ref) t) 30"
    by (rule half_life_decay_strict) (use assms in \<open>simp_all add: age_days_nonneg age_days_mono\<close>)
  then show ?thesis
    using assms(1,2,5,6) by (auto simp: recency_score_def decay_signal_at recency_half_life_days_def)
qed

section \<open>Properties\<close>

text \<open>The example library and candidates the witnesses use.\<close>

definition ex_lib :: pylib where
  "ex_lib = \<lparr> float_of_str = (\<lambda>_. None), from_isoformat = (\<lambda>_. None) \<rparr>"

definition ex_candidate :: "uuid \<Rightarrow> string \<Rightarrow> real \<Rightarrow> (string \<Rightarrow> pyval option) \<Rightarrow> candidate" where
  "ex_candidate i text s m =
     \<lparr> c_id = i, c_content = text, c_score = Fin s, c_path = Semantic, c_paths = {Semantic},
       c_path_scores = [(Semantic, Fin s)], c_raw_scores = [(Semantic, Fin s)], c_metadata = m \<rparr>"

lemma ex_candidate_id [simp]: "c_id (ex_candidate i text s m) = i"
  by (simp add: ex_candidate_def)

definition ex_ranked :: "uuid \<Rightarrow> string \<Rightarrow> real \<Rightarrow> ranked" where
  "ex_ranked i text s =
     \<lparr> r_candidate = ex_candidate i text s Map.empty, r_score = 35 / 100 * s + 1 / 10,
       r_breakdown = \<lparr> b_semantic = s, b_recency = 0, b_activation = 0, b_frequency = 0,
         b_importance = 1 / 2, b_total = 35 / 100 * s + 1 / 10 \<rparr> \<rparr>"

lemma ex_rank_one: "0 \<le> s \<Longrightarrow> s \<le> 1 \<Longrightarrow>
    rank_one ex_lib d clock (ex_candidate i text s Map.empty) = Inr (ex_ranked i text s)"
  by (simp add: rank_one_def score_breakdown_def ex_candidate_def ex_ranked_def semantic_score_eq
      recency_score_def activation_score_def decay_signal_def meta_def as_datetime_def
      frequency_score_def importance_score_def as_float_def clamp01_cases feature_constants weight_defs)

lemma py_round_int: "x * 10 ^ n = of_int k \<Longrightarrow> py_round n x = of_int k / 10 ^ n"
  by (simp add: py_round_def)

lemma ex_round: "py_round 12 (6 / 25) = 6 / 25" "py_round 12 (19 / 50) = 19 / 50"
  by (subst py_round_int[where k = 240000000000]; simp)
     (subst py_round_int[where k = 380000000000]; simp)

lemma ex_rank: "rank ex_lib 5 0 [ex_candidate ''a'' ''x'' (4 / 10) Map.empty,
      ex_candidate ''b'' ''y'' (8 / 10) Map.empty] (Some 1) None = Inr [ex_ranked ''b'' ''y'' (8 / 10)]"
  by (simp add: rank_eq ex_rank_one rank_limit_def sort_key_of_def ex_ranked_def ex_round)

text \<open>C14. What \<open>rank\<close> returns is sorted by score (rounded to twelve digits) descending and then by
  id, has exactly as many entries as the limit and the input allow, carries for every entry the
  weighted sum of five signals in the unit interval, itself in the unit interval, and leaves out
  no candidate that sorts before one it keeps.\<close>

theorem rank_selects_best:
  assumes "rank lib default_k clock items top_k now = Inr rs"
  shows "sorted (map sort_key_of rs)
    \<and> length rs = min (nat (case top_k of None \<Rightarrow> default_k | Some k \<Rightarrow> k)) (length items)
    \<and> (\<forall>r \<in> set rs. r_candidate r \<in> set items \<and> breakdown_ok (r_breakdown r)
         \<and> r_score r = b_total (r_breakdown r) \<and> 0 \<le> r_score r \<and> r_score r \<le> 1)
    \<and> (\<forall>c \<in> set items. \<exists>r. r_candidate r = c \<and>
         score_candidate lib c (Some (rank_reference clock now)) clock = Inr (r_score r) \<and>
         (r \<in> set rs \<or> (\<forall>s \<in> set rs. sort_key_of s \<le> sort_key_of r)))"
proof (intro conjI ballI)
  show "sorted (map sort_key_of rs)" by (rule rank_sorted[OF assms])
  show "length rs = min (nat (case top_k of None \<Rightarrow> default_k | Some k \<Rightarrow> k)) (length items)"
    using rank_length[OF assms] by (simp add: rank_limit_def)
next
  fix r assume "r \<in> set rs"
  then obtain c where c: "c \<in> set items" "rank_one lib (rank_reference clock now) clock c = Inr r"
    by (rule rank_members[OF assms])
  note ok = rank_one_ok[OF c(2)]
  show "r_candidate r \<in> set items" using c rank_one_candidate by fastforce
  show "breakdown_ok (r_breakdown r)" "r_score r = b_total (r_breakdown r)" using ok by auto
  show "0 \<le> r_score r" "r_score r \<le> 1" using ok breakdown_total_bounds by auto
next
  fix c assume "c \<in> set items"
  then obtain r where r: "rank_one lib (rank_reference clock now) clock c = Inr r"
    "r \<in> set rs \<or> (\<forall>s \<in> set rs. sort_key_of s \<le> sort_key_of r)"
    by (rule rank_left_out[OF assms])
  then show "\<exists>r. r_candidate r = c \<and>
      score_candidate lib c (Some (rank_reference clock now)) clock = Inr (r_score r) \<and>
      (r \<in> set rs \<or> (\<forall>s \<in> set rs. sort_key_of s \<le> sort_key_of r))"
    by (intro exI[of _ r]) (auto simp: rank_one_Inr score_candidate_def)
qed

theorem rank_selects_best_witness:
  "sorted (map sort_key_of [ex_ranked ''b'' ''y'' (8 / 10)])
   \<and> length [ex_ranked ''b'' ''y'' (8 / 10)] = min 1 2
   \<and> r_score (ex_ranked ''b'' ''y'' (8 / 10)) \<le> 1"
  using rank_selects_best[OF ex_rank] by simp

text \<open>The ranking is deterministic: for candidates with distinct ids the result depends on
  which candidates came in, never on the order in which the merge delivered them.\<close>

lemma rank_order_independent:
  assumes "mset items = mset items'" and "distinct (map c_id items)"
  shows "rank lib default_k clock items top_k now = rank lib default_k clock items' top_k now"
proof (cases "map_res (rank_one lib (rank_reference clock now) clock) items")
  case (Inr ys)
  let ?f = "rank_one lib (rank_reference clock now) clock"
  obtain ws where ws: "map_res ?f items' = Inr ws" "mset ws = mset ys"
    using map_res_mset[OF assms(1) Inr] by blast
  have "map r_id ys = map c_id items"
    by (rule map_res_map[OF Inr]) (auto simp: rank_one_Inr r_id_def)
  then have "inj_on r_id (set ys)" using assms(2) by (metis distinct_map)
  then have "inj_on sort_key_of (set ys)" by (auto simp: inj_on_def sort_key_of_def)
  then have "sort_key sort_key_of ys = sort_key sort_key_of ws"
    using ws(2) by (intro sort_key_perm_eq) auto
  then show ?thesis by (simp add: rank_eq Inr ws(1))
next
  case (Inl e)
  let ?f = "rank_one lib (rank_reference clock now) clock"
  note err = map_res_rank_error
  have "map_res ?f items' = Inl OverflowError"
  proof (cases "map_res ?f items'")
    case (Inr ws)
    then show ?thesis using map_res_mset[OF assms(1)[symmetric] Inr] Inl by auto
  qed (simp add: err)
  then show ?thesis using Inl err[OF Inl] by (simp add: rank_eq)
qed

lemma rank_order_independent_witness:
  "rank ex_lib 5 0 [ex_candidate ''b'' ''y'' (8 / 10) Map.empty,
      ex_candidate ''a'' ''x'' (4 / 10) Map.empty] (Some 1) None = Inr [ex_ranked ''b'' ''y'' (8 / 10)]"
  by (rule trans[OF rank_order_independent ex_rank]) simp_all

text \<open>The split of recency from activation does what it is for: of two memories with equal
  semantic, activation, frequency and importance signals, the one stated later scores strictly
  higher, however close the two statements are.\<close>

lemma newer_statement_scores_higher:
  assumes "as_datetime lib (meta a ''created_at'') = Inr (Some t)"
    and "as_datetime lib (meta b ''created_at'') = Inr (Some u)"
    and "u < t" and "t \<le> instant ref"
    and "semantic_score lib a = semantic_score lib b"
    and "activation_score lib a (Some ref) clock None = activation_score lib b (Some ref) clock None"
    and "frequency_score lib a = frequency_score lib b"
    and "importance_score lib a = importance_score lib b"
    and "score_candidate lib a (Some ref) clock = Inr x"
    and "score_candidate lib b (Some ref) clock = Inr y"
  shows "y < x"
proof -
  obtain p q where p: "score_breakdown lib a (Some ref) clock = Inr p" "x = b_total p"
    and q: "score_breakdown lib b (Some ref) clock = Inr q" "y = b_total q"
    using assms(9,10) by (auto simp: score_candidate_def bind_res_Inr_iff)
  have "b_recency q < b_recency p"
    using p(1) q(1) recency_strict[OF assms(1-4)] by (auto simp: score_breakdown_Inr)
  moreover have "b_semantic p = b_semantic q" "b_activation p = b_activation q"
    "b_frequency p = b_frequency q" "b_importance p = b_importance q"
    using p(1) q(1) assms(5-8) by (auto simp: score_breakdown_Inr)
  ultimately show ?thesis
    using score_breakdown_ok[OF p(1)] score_breakdown_ok[OF q(1)] p(2) q(2)
    by (simp add: breakdown_ok_def)
qed

definition ex_stated :: "uuid \<Rightarrow> timestamp \<Rightarrow> candidate" where
  "ex_stated i t = ex_candidate i ''x'' (4 / 10) [''created_at'' \<mapsto> PyDatetime (Aware t)]"

lemma ex_stated_breakdown:
  "score_breakdown ex_lib (ex_stated i t) (Some (Aware 0)) 0 =
     bind_res (to_utc (Aware t)) (\<lambda>u. Inr (let r = half_life_decay (age_days 0 u) 30 in
       \<lparr> b_semantic = 4 / 10, b_recency = r, b_activation = 0, b_frequency = 0,
         b_importance = 1 / 2, b_total = 14 / 100 + 25 / 100 * r + 1 / 10 \<rparr>))"
  by (cases "to_utc (Aware t)")
     (simp_all add: score_breakdown_def ex_stated_def ex_candidate_def semantic_score_eq
      recency_score_def activation_score_def decay_signal_def meta_def as_datetime_def
      frequency_score_def importance_score_def as_float_def clamp01_cases feature_constants
      weight_defs Let_def)

lemma newer_statement_scores_higher_witness:
  "(14 / 100 + 25 / 100 * (1 / 2) + 1 / 10 :: real) < 14 / 100 + 25 / 100 + 1 / 10"
proof (rule newer_statement_scores_higher
    [of ex_lib "ex_stated ''a'' 0" 0 "ex_stated ''b'' (- 2592000000000)" "- 2592000000000" "Aware 0" 0])
  show "score_candidate ex_lib (ex_stated ''a'' 0) (Some (Aware 0)) 0 =
      Inr (14 / 100 + 25 / 100 + 1 / 10)"
    by (simp add: score_candidate_def ex_stated_breakdown to_utc_def dt_min_def dt_max_def
        half_life_decay_def age_days_def Let_def)
  show "score_candidate ex_lib (ex_stated ''b'' (- 2592000000000)) (Some (Aware 0)) 0 =
      Inr (14 / 100 + 25 / 100 * (1 / 2) + 1 / 10)"
    by (simp add: score_candidate_def ex_stated_breakdown to_utc_def dt_min_def dt_max_def
        half_life_decay_def age_days_def Let_def)
qed (simp_all add: ex_stated_def ex_candidate_def meta_def as_datetime_def to_utc_def dt_min_def
    dt_max_def semantic_score_eq activation_score_def decay_signal_def frequency_score_def
    importance_score_def as_float_def)

text \<open>For candidates whose metadata is what the two retrieval paths read out of a row (32-bit
  counts, float or NULL importance, ISO timestamps) the ranking never raises, and whatever the
  metadata the only exception it can raise is an integer too large for a float, which \<open>_as_float\<close>
  does not catch although the module promises total signals.\<close>

lemma rank_total_except_overflow:
  "((\<forall>c \<in> set items. row_metadata_ok lib c) \<longrightarrow> (\<exists>rs. rank lib dk clock items top_k now = Inr rs))
   \<and> (rank lib dk clock items top_k now = Inl e \<longrightarrow> e = OverflowError)
   \<and> rank lib dk clock [ex_candidate i text s [''reinforcement_count'' \<mapsto> PyInt (2 ^ 1024)]] top_k now
       = Inl OverflowError"
proof (intro conjI impI)
  assume "\<forall>c \<in> set items. row_metadata_ok lib c"
  then show "\<exists>rs. rank lib dk clock items top_k now = Inr rs" by (rule rank_total)
next
  assume "rank lib dk clock items top_k now = Inl e"
  then show "e = OverflowError"
    by (cases "map_res (rank_one lib (rank_reference clock now) clock) items")
       (auto simp: rank_eq dest: map_res_rank_error)
next
  show "rank lib dk clock [ex_candidate i text s [''reinforcement_count'' \<mapsto> PyInt (2 ^ 1024)]] top_k now
       = Inl OverflowError"
    by (simp add: rank_eq rank_one_def score_breakdown_def ex_candidate_def semantic_score_eq
      recency_score_def activation_score_def decay_signal_def meta_def as_datetime_def
      frequency_score_def as_float_def py_float_def float_of_int_def)
qed

lemma rank_total_except_overflow_witness:
  "\<exists>rs. rank ex_lib 5 0 [ex_candidate ''a'' ''x'' (4 / 10) [''reinforcement_count'' \<mapsto> PyInt 2,
     ''importance'' \<mapsto> PyFloat (Fin (7 / 10))]] None None = Inr rs"
  using rank_total_except_overflow[of "[ex_candidate ''a'' ''x'' (4 / 10) [''reinforcement_count'' \<mapsto> PyInt 2,
     ''importance'' \<mapsto> PyFloat (Fin (7 / 10))]]" ex_lib 5 0 None None OverflowError "[]" "[]" 0]
  by (simp add: row_metadata_ok_def meta_def ex_candidate_def)

end
