(* ===== verification/Tokens.thy ===== *)
theory Tokens
  imports Prelude
begin

text \<open>
  Token counting (\<^verbatim>\<open>context/tokens.py\<close>). A text is a list of code points. The tokenizer library is
  a parameter: which encoding it knows for a model name, and what an encoding makes of a text. The
  encoding cache is the state, threaded through the calls. The lemmas show that a count is stable
  once an encoding is cached, that the longest suffix of a route wins, and that the byte length
  bounds the count of every byte-level encoding.
\<close>

type_synonym codes = "nat list"

section \<open>UTF-8\<close>

definition is_surrogate :: "nat \<Rightarrow> bool" where
  "is_surrogate c \<longleftrightarrow> 55296 \<le> c \<and> c \<le> 57343"

definition utf8_char :: "nat \<Rightarrow> nat list" where
  "utf8_char c =
     (if c < 128 then [c]
      else if c < 2048 then [192 + c div 64, 128 + c mod 64]
      else if c < 65536 then [224 + c div 4096, 128 + c div 64 mod 64, 128 + c mod 64]
      else [240 + c div 262144, 128 + c div 4096 mod 64, 128 + c div 64 mod 64, 128 + c mod 64])"

text \<open>\<^verbatim>\<open>str.encode("utf-8")\<close> raises (a subclass of \<^verbatim>\<open>ValueError\<close>) on a lone surrogate.\<close>

definition utf8 :: "codes \<Rightarrow> nat list res" where
  "utf8 s = (if list_ex is_surrogate s then Inl ValueError else Inr (concat (map utf8_char s)))"

section \<open>Encodings\<close>

type_synonym encoding = "codes \<Rightarrow> nat list list"

text \<open>What the library offers: whether it can be imported, the encoding name it maps a model to,
  and the encoding it can load under a name (\<^const>\<open>None\<close> when loading raises).\<close>

record tokenizer_lib =
  tk_installed :: bool
  tk_for_model :: "string \<Rightarrow> string option"
  tk_get :: "string \<Rightarrow> encoding option"

fun split_slash :: "string \<Rightarrow> string \<Rightarrow> string list" where
  "split_slash acc [] = [rev acc]"
| "split_slash acc (c # cs) =
     (if c = CHR ''/'' then rev acc # split_slash [] cs else split_slash (c # acc) cs)"

fun first_known :: "(string \<Rightarrow> string option) \<Rightarrow> string list \<Rightarrow> string option" where
  "first_known f [] = None"
| "first_known f (p # ps) =
     (let candidate = join ''/'' (p # ps)
      in if candidate = [] then first_known f ps
         else case f candidate of Some e \<Rightarrow> Some e | None \<Rightarrow> first_known f ps)"

definition encoding_name_for_model :: "tokenizer_lib \<Rightarrow> string \<Rightarrow> string option" where
  "encoding_name_for_model lib model =
     (if \<not> tk_installed lib then None else first_known (tk_for_model lib) (split_slash [] model))"

type_synonym encoding_cache = "string \<rightharpoonup> encoding option"

definition model_or :: "string \<Rightarrow> string option \<Rightarrow> string" where
  "model_or resolved_model model =
     (case model of Some m \<Rightarrow> if m = [] then resolved_model else m | None \<Rightarrow> resolved_model)"

text \<open>\<^verbatim>\<open>encoding_for\<close>: the answer, also a failure to load, is cached under the model name.\<close>

definition encoding_for ::
  "tokenizer_lib \<Rightarrow> string \<Rightarrow> string \<Rightarrow> string option \<Rightarrow> encoding_cache \<Rightarrow>
     encoding option \<times> encoding_cache" where
  "encoding_for lib resolved_model fallback model cache =
     (let resolved = model_or resolved_model model
      in case cache resolved of
           Some e \<Rightarrow> (e, cache)
         | None \<Rightarrow>
             (let e = (if \<not> tk_installed lib then None
                       else tk_get lib (case encoding_name_for_model lib resolved of
                                          Some n \<Rightarrow> if n = [] then fallback else n
                                        | None \<Rightarrow> fallback))
              in (e, cache(resolved \<mapsto> e))))"

definition is_exact ::
  "tokenizer_lib \<Rightarrow> string \<Rightarrow> string \<Rightarrow> string option \<Rightarrow> encoding_cache \<Rightarrow> bool \<times> encoding_cache" where
  "is_exact lib resolved_model fallback model cache =
     (let (e, cache') = encoding_for lib resolved_model fallback model cache in (e \<noteq> None, cache'))"

definition estimate_tokens :: "codes \<Rightarrow> nat res" where
  "estimate_tokens s = (if s = [] then Inr 0 else bind_res (utf8 s) (\<lambda>b. Inr (length b)))"

definition count_tokens ::
  "tokenizer_lib \<Rightarrow> string \<Rightarrow> string \<Rightarrow> codes option \<Rightarrow> string option \<Rightarrow> encoding_cache \<Rightarrow>
     nat res \<times> encoding_cache" where
  "count_tokens lib resolved_model fallback text model cache =
     (case text of
        None \<Rightarrow> (Inr 0, cache)
      | Some s \<Rightarrow>
          (if s = [] then (Inr 0, cache)
           else case encoding_for lib resolved_model fallback model cache of
               (Some enc, cache') \<Rightarrow> (Inr (length (enc s)), cache')
             | (None, cache') \<Rightarrow> (estimate_tokens s, cache')))"

text \<open>The count a call answers with once the encoding is known.\<close>

definition count_with :: "encoding option \<Rightarrow> codes \<Rightarrow> nat res" where
  "count_with e s = (if s = [] then Inr 0
     else case e of Some enc \<Rightarrow> Inr (length (enc s)) | None \<Rightarrow> estimate_tokens s)"

section \<open>A cached encoding answers every later call\<close>

lemma encoding_for_cached:
  "encoding_for lib m fb model cache = (e, cache') \<Longrightarrow>
     encoding_for lib' m fb' model cache' = (e, cache')"
  by (cases "cache (model_or m model)") (auto simp: encoding_for_def Let_def)

lemma count_tokens_eq:
  "s \<noteq> [] \<Longrightarrow> count_tokens lib m fb (Some s) model cache =
     (let (e, cache') = encoding_for lib m fb model cache in (count_with e s, cache'))"
  by (auto simp: count_tokens_def count_with_def split: prod.splits option.splits)

section \<open>The byte bound\<close>

definition codes_of :: "string \<Rightarrow> codes" where
  "codes_of s = map of_char s"

lemma codes_of_Nil [simp]: "codes_of s = [] \<longleftrightarrow> s = []" "codes_of [] = []"
  by (simp_all add: codes_of_def)

lemma codes_of_no_surrogate: "\<not> list_ex is_surrogate (codes_of s)"
proof -
  have "\<not> is_surrogate (of_char c)" for c
  proof -
    have "(of_char c :: nat) < 256" by (rule nat_of_char_less_256)
    then show ?thesis unfolding is_surrogate_def by linarith
  qed
  then show ?thesis by (simp add: codes_of_def list_ex_iff)
qed

lemma estimate_tokens_ok: "\<not> list_ex is_surrogate s \<Longrightarrow>
    estimate_tokens s = Inr (length (concat (map utf8_char s)))"
  by (simp add: estimate_tokens_def utf8_def)

lemma utf8_char_length: "1 \<le> length (utf8_char c)" "length (utf8_char c) \<le> 4"
  by (auto simp: utf8_char_def)

lemma tokens_le_bytes: "\<forall>t \<in> set ts. t \<noteq> [] \<Longrightarrow> length ts \<le> length (concat ts)"
proof (induction ts)
  case (Cons t ts)
  then have "1 \<le> length t" "length ts \<le> length (concat ts)" by (auto simp: Suc_le_eq)
  then show ?case by simp
qed simp

lemma first_known_append: "\<forall>i < length ps. join ''/'' (drop i (ps @ qs)) \<noteq> [] \<longrightarrow>
      f (join ''/'' (drop i (ps @ qs))) = None \<Longrightarrow> first_known f (ps @ qs) = first_known f qs"
proof (induction ps)
  case (Cons p ps)
  have "first_known f (ps @ qs) = first_known f qs"
    using Cons.prems by (intro Cons.IH) auto
  moreover have "join ''/'' (p # ps @ qs) \<noteq> [] \<longrightarrow> f (join ''/'' (p # ps @ qs)) = None"
    using Cons.prems by auto
  ultimately show ?case by (auto simp: Let_def)
qed simp

lemma split_slash_join:
  "ps \<noteq> [] \<Longrightarrow> \<forall>p \<in> set ps. CHR ''/'' \<notin> set p \<Longrightarrow> split_slash [] (join ''/'' ps) = ps"
proof -
  have run: "CHR ''/'' \<notin> set p \<Longrightarrow> split_slash acc (p @ CHR ''/'' # s) = (rev acc @ p) # split_slash [] s"
    for p acc s by (induction p arbitrary: acc) auto
  have last: "CHR ''/'' \<notin> set p \<Longrightarrow> split_slash acc p = [rev acc @ p]" for p acc
    by (induction p arbitrary: acc) auto
  show "ps \<noteq> [] \<Longrightarrow> \<forall>p \<in> set ps. CHR ''/'' \<notin> set p \<Longrightarrow> split_slash [] (join ''/'' ps) = ps"
  proof (induction ps rule: list_nonempty_induct)
    case (single p)
    then show ?case by (simp add: last)
  next
    case (cons p ps)
    then obtain q qs where "ps = q # qs" by (cases ps) auto
    then show ?case using cons by (simp add: run)
  qed
qed

section \<open>Properties\<close>

text \<open>Counting is total and safe. For a text without lone surrogates every call answers with a
  number; once a model's encoding has been resolved, every later call for that model answers with
  that encoding, whatever the library would say by then; and with no tokenizer the number is an
  upper bound of what any byte-level encoding (non-empty tokens that spell out the UTF-8 bytes)
  would count. A lone surrogate is the one text for which the degraded count raises.\<close>

lemma count_tokens_total_stable_safe:
  assumes "\<not> list_ex is_surrogate s"
    and "\<forall>t. \<not> list_ex is_surrogate t \<longrightarrow>
           (\<forall>tok \<in> set (enc t). tok \<noteq> []) \<and> concat (enc t) = concat (map utf8_char t)"
    and "encoding_for lib m fb model cache = (e, cache')"
  shows "count_tokens lib m fb (Some s) model cache = (count_with e s, if s = [] then cache else cache')
    \<and> count_tokens lib' m fb' (Some s) model cache' = (count_with e s, cache')
    \<and> (\<exists>n. count_with e s = Inr n)
    \<and> (\<exists>n. count_with None s = Inr n \<and> length (enc s) \<le> n \<or> s = [])
    \<and> count_with None [55296] = Inl ValueError"
proof (intro conjI)
  show "count_tokens lib m fb (Some s) model cache = (count_with e s, if s = [] then cache else cache')"
    using count_tokens_eq[of s lib m fb model cache] assms(3)
    by (cases "s = []") (auto simp: count_tokens_def count_with_def)
  show "count_tokens lib' m fb' (Some s) model cache' = (count_with e s, cache')"
    using count_tokens_eq[of s lib' m fb' model cache'] encoding_for_cached[OF assms(3)]
    by (cases "s = []") (auto simp: count_tokens_def count_with_def)
  show "\<exists>n. count_with e s = Inr n"
    using estimate_tokens_ok[OF assms(1)] by (auto simp: count_with_def split: option.splits)
  have "length (enc s) \<le> length (concat (map utf8_char s))"
    using assms(1,2) tokens_le_bytes[of "enc s"] by metis
  then show "\<exists>n. count_with None s = Inr n \<and> length (enc s) \<le> n \<or> s = []"
    using estimate_tokens_ok[OF assms(1)] by (auto simp: count_with_def)
  show "count_with None [55296] = Inl ValueError"
    by (simp add: count_with_def estimate_tokens_def utf8_def is_surrogate_def)
qed

lemma count_tokens_total_stable_safe_witness:
  "count_with None [104, 233, 8364] = Inr 6"
  using count_tokens_total_stable_safe[of "[104, 233, 8364]" "\<lambda>t. map (\<lambda>b. [b]) (concat (map utf8_char t))"
      "\<lparr> tk_installed = False, tk_for_model = \<lambda>_. None, tk_get = \<lambda>_. None \<rparr>" "''m''" "''f''" None Map.empty
      None "[''m'' \<mapsto> None]"]
  by (simp add: is_surrogate_def encoding_for_def model_or_def count_with_def estimate_tokens_def
      utf8_def utf8_char_def comp_def)

text \<open>A provider-prefixed route is resolved by peeling prefixes: the encoding name is that of the
  longest suffix (at a slash) the tokenizer library knows.\<close>

lemma longest_known_suffix_wins:
  assumes "tk_installed lib" "\<forall>p \<in> set (ps @ qs). CHR ''/'' \<notin> set p" "qs \<noteq> []"
    and "\<forall>i < length ps. tk_for_model lib (join ''/'' (drop i (ps @ qs))) = None"
    and "tk_for_model lib (join ''/'' qs) = Some name" "join ''/'' qs \<noteq> []"
  shows "encoding_name_for_model lib (join ''/'' (ps @ qs)) = Some name"
proof -
  have "first_known (tk_for_model lib) (ps @ qs) = first_known (tk_for_model lib) qs"
    using assms(4) by (intro first_known_append) auto
  also have "\<dots> = Some name" using assms(3,5,6) by (cases qs) (simp_all add: Let_def)
  finally show ?thesis
    using assms(1-3) by (simp add: encoding_name_for_model_def split_slash_join)
qed

lemma longest_known_suffix_wins_witness:
  "encoding_name_for_model \<lparr> tk_installed = True,
      tk_for_model = (\<lambda>m. if m = ''gpt'' then Some ''o200k'' else None), tk_get = \<lambda>_. None \<rparr>
      ''openrouter/openai/gpt'' = Some ''o200k''"
  using longest_known_suffix_wins[of "\<lparr> tk_installed = True,
      tk_for_model = (\<lambda>m. if m = ''gpt'' then Some ''o200k'' else None), tk_get = \<lambda>_. None \<rparr>"
      "[''openrouter'', ''openai'']" "[''gpt'']" "''o200k''"]
  by (simp add: less_Suc_eq numeral_2_eq_2)

end
