(* ===== verification/Composer.thy ===== *)
theory Composer
  imports Ranking Tokens "HOL-Library.Sublist"
begin

text \<open>
  The token-bounded composer (\<^verbatim>\<open>context/composer.py\<close>, template in \<^verbatim>\<open>context/config.py\<close>): it
  renders the ranked memories into one block and, while the block is over budget, drops the memory
  with the lowest score. It asks one thing of the token counter, stated as the locale
  \<open>token_counter\<close>: the empty text counts nothing. The counter of theory Tokens satisfies it for
  every encoding, so the facts of the locale hold of the deployed composer.
\<close>

section \<open>Rendering\<close>

definition block_header :: string where
  "block_header = ''## What you know about the user''"

definition line_prefix :: string where "line_prefix = ''- ''"
definition line_separator :: string where "line_separator = [newline]"

definition clean :: "string \<Rightarrow> string" where
  "clean content = join '' '' (split_ws content)"

definition render_line :: "ranked \<Rightarrow> string" where
  "render_line item = line_prefix @ clean (r_content item)"

definition render_block :: "ranked list \<Rightarrow> string" where
  "render_block items =
     (if items = [] then [] else join line_separator (block_header # map render_line items))"

section \<open>The drop loop\<close>

definition lowest_scored_index :: "ranked list \<Rightarrow> nat" where
  "lowest_scored_index items =
     (let lowest = Min (set (map r_score items));
          tied = map (\<lambda>i. (r_id (items ! i), i))
                   (filter (\<lambda>i. r_score (items ! i) = lowest) [0..<length items])
      in snd (Max (set tied)))"

lemma lowest_scored_index:
  assumes "items \<noteq> []"
  shows "lowest_scored_index items < length items"
    and "\<forall>x \<in> set items. r_score (items ! lowest_scored_index items) \<le> r_score x"
    and "\<forall>i < length items. r_score (items ! i) = r_score (items ! lowest_scored_index items) \<longrightarrow>
           r_id (items ! i) \<le> r_id (items ! lowest_scored_index items)"
proof -
  define lowest where "lowest = Min (set (map r_score items))"
  define tied where "tied = set (map (\<lambda>i. (r_id (items ! i), i))
     (filter (\<lambda>i. r_score (items ! i) = lowest) [0..<length items]))"
  have "lowest \<in> set (map r_score items)"
    unfolding lowest_def using assms by (intro Min_in) auto
  then obtain j where j: "j < length items" "r_score (items ! j) = lowest"
    by (auto simp: in_set_conv_nth)
  then have "(r_id (items ! j), j) \<in> tied" by (auto simp: tied_def)
  moreover have fin: "finite tied" by (simp add: tied_def)
  ultimately have mx: "Max tied \<in> tied" by (intro Max_in) auto
  have idx: "lowest_scored_index items = snd (Max tied)"
    by (simp add: lowest_scored_index_def lowest_def tied_def Let_def)
  have at: "Max tied = (r_id (items ! lowest_scored_index items), lowest_scored_index items)"
    using mx unfolding idx by (auto simp: tied_def)
  show lt: "lowest_scored_index items < length items"
    using mx unfolding idx by (auto simp: tied_def)
  have low: "r_score (items ! lowest_scored_index items) = lowest"
    using mx unfolding idx by (auto simp: tied_def)
  then show "\<forall>x \<in> set items. r_score (items ! lowest_scored_index items) \<le> r_score x"
    by (auto simp: lowest_def)
  show "\<forall>i < length items. r_score (items ! i) = r_score (items ! lowest_scored_index items) \<longrightarrow>
           r_id (items ! i) \<le> r_id (items ! lowest_scored_index items)"
  proof (intro allI impI)
    fix i assume "i < length items" "r_score (items ! i) = r_score (items ! lowest_scored_index items)"
    then have "(r_id (items ! i), i) \<in> tied" using low by (auto simp: tied_def)
    then have "(r_id (items ! i), i) \<le> Max tied" using fin by simp
    then show "r_id (items ! i) \<le> r_id (items ! lowest_scored_index items)"
      unfolding at by (auto simp: less_eq_prod_def)
  qed
qed

definition pop :: "nat \<Rightarrow> 'a list \<Rightarrow> 'a list" where
  "pop i xs = take i xs @ drop (Suc i) xs"

lemma pop_facts:
  "i < length xs \<Longrightarrow> length (pop i xs) = length xs - 1"
  "i < length xs \<Longrightarrow> mset xs = add_mset (xs ! i) (mset (pop i xs))"
  "set (pop i xs) \<subseteq> set xs" "subseq (pop i xs) xs"
proof -
  show "i < length xs \<Longrightarrow> length (pop i xs) = length xs - 1" by (simp add: pop_def)
  show "i < length xs \<Longrightarrow> mset xs = add_mset (xs ! i) (mset (pop i xs))"
    by (subst id_take_nth_drop[of i xs], assumption) (simp add: pop_def)
  show "set (pop i xs) \<subseteq> set xs" by (auto simp: pop_def dest: in_set_takeD in_set_dropD)
  have "subseq (drop (Suc i) xs) (drop i xs)"
    by (cases "i < length xs") (auto simp: Cons_nth_drop_Suc[symmetric] intro: list_emb_Cons)
  then have "subseq (take i xs @ drop (Suc i) xs) (take i xs @ drop i xs)"
    by (simp only: subseq_append')
  then show "subseq (pop i xs) xs" by (simp add: pop_def)
qed

lemma pop_mem: "x \<in> set (pop i xs) \<Longrightarrow> x \<in> set xs"
  by (auto simp: pop_def dest: in_set_takeD in_set_dropD)

text \<open>\<^verbatim>\<open>_fit\<close> after its first line: the memories kept and the memories dropped, in the order they
  were dropped.\<close>

function fit_loop ::
  "(string \<Rightarrow> nat) \<Rightarrow> int \<Rightarrow> ranked list \<Rightarrow> ranked list \<Rightarrow> ranked list \<times> ranked list" where
  "fit_loop cnt budget selected dropped =
     (if selected \<noteq> [] \<and> int (cnt (render_block selected)) > budget
      then (let i = lowest_scored_index selected
            in fit_loop cnt budget (pop i selected) (dropped @ [selected ! i]))
      else (selected, dropped))"
  by pat_completeness auto
termination
  by (relation "measure (\<lambda>(_, _, selected, _). length selected)")
     (auto simp: pop_facts lowest_scored_index)

declare fit_loop.simps [simp del]

definition fit ::
  "(string \<Rightarrow> nat) \<Rightarrow> int \<Rightarrow> ranked list \<Rightarrow> ranked list \<times> ranked list \<times> string \<times> nat" where
  "fit cnt budget ranked =
     (let (selected, dropped) = fit_loop cnt budget ranked []
      in (selected, dropped, render_block selected, cnt (render_block selected)))"

section \<open>Entry points\<close>

record composed =
  x_block :: string
  x_ids :: "uuid list"
  x_dropped :: "uuid list"
  x_tokens :: nat
  x_budget :: int
  x_included :: "ranked list"

definition budget_limit :: "int \<Rightarrow> int option \<Rightarrow> int" where
  "budget_limit default_budget budget =
     max 0 (case budget of None \<Rightarrow> default_budget | Some b \<Rightarrow> b)"

text \<open>The final assertion of the source, which \<^verbatim>\<open>_fit\<close> cannot fail, is \<open>fit_within\<close> below.\<close>

definition compose_profile_block ::
  "(string \<Rightarrow> nat) \<Rightarrow> int \<Rightarrow> ranked list \<Rightarrow> int option \<Rightarrow> composed" where
  "compose_profile_block cnt default_budget ranked budget =
     (let limit = budget_limit default_budget budget;
          items = filter (\<lambda>item. clean (r_content item) \<noteq> []) ranked
      in if items = []
         then \<lparr> x_block = [], x_ids = [], x_dropped = [], x_tokens = 0, x_budget = limit, x_included = [] \<rparr>
         else (let (selected, dropped, block, tokens) = fit cnt limit items
               in \<lparr> x_block = block, x_ids = map r_id selected, x_dropped = map r_id dropped,
                    x_tokens = tokens, x_budget = limit, x_included = selected \<rparr>))"

datatype compose_item = Raw candidate | Scored ranked

fun is_scored :: "compose_item \<Rightarrow> bool" where
  "is_scored (Scored _) = True"
| "is_scored (Raw _) = False"

fun the_raw :: "compose_item \<Rightarrow> candidate" where
  "the_raw (Raw c) = c"
| "the_raw (Scored r) = r_candidate r"

fun the_scored :: "compose_item \<Rightarrow> ranked list" where
  "the_scored (Scored r) = [r]"
| "the_scored (Raw _) = []"

definition compose ::
  "pylib \<Rightarrow> (string \<Rightarrow> nat) \<Rightarrow> int \<Rightarrow> int \<Rightarrow> timestamp \<Rightarrow> compose_item list \<Rightarrow>
     int option \<Rightarrow> int option \<Rightarrow> pydatetime option \<Rightarrow> composed res" where
  "compose lib cnt default_budget default_k clock items budget top_k now =
     (if items = []
      then Inr \<lparr> x_block = [], x_ids = [], x_dropped = [], x_tokens = 0,
                 x_budget = (case budget of None \<Rightarrow> default_budget | Some b \<Rightarrow> max 0 b),
                 x_included = [] \<rparr>
      else if list_all is_scored items
      then Inr (compose_profile_block cnt default_budget (concat (map the_scored items)) budget)
      else if list_ex is_scored items then Inl TypeError
      else bind_res (rank lib default_k clock (map the_raw items) top_k now)
             (\<lambda>ranked. Inr (compose_profile_block cnt default_budget ranked budget)))"

section \<open>The drop loop keeps its promises\<close>

text \<open>\<open>drops_before D S\<close>: every memory of \<open>D\<close> scores at most as much as every memory of \<open>S\<close>.\<close>

definition drops_before :: "ranked list \<Rightarrow> ranked list \<Rightarrow> bool" where
  "drops_before dropped selected \<longleftrightarrow>
     (\<forall>d \<in> set dropped. \<forall>x \<in> set selected. r_score d \<le> r_score x)"

lemma drops_before_step:
  assumes "selected \<noteq> []" "drops_before dropped selected" "sorted (map r_score dropped)"
  shows "drops_before (dropped @ [selected ! lowest_scored_index selected])
           (pop (lowest_scored_index selected) selected)"
    and "sorted (map r_score (dropped @ [selected ! lowest_scored_index selected]))"
  using assms lowest_scored_index[OF assms(1)]
  by (auto simp: drops_before_def sorted_append dest: pop_mem)

lemma fit_loop_partition:
  "fit_loop cnt b selected dropped = (s, d) \<Longrightarrow>
     mset s + mset d = mset selected + mset dropped \<and> subseq s selected"
proof (induction cnt b selected dropped arbitrary: s d rule: fit_loop.induct)
  case (1 cnt b selected dropped)
  show ?case
  proof (cases "selected \<noteq> [] \<and> int (cnt (render_block selected)) > b")
    case True
    let ?i = "lowest_scored_index selected"
    have lt: "?i < length selected" using True lowest_scored_index by blast
    have "fit_loop cnt b (pop ?i selected) (dropped @ [selected ! ?i]) = (s, d)"
      using 1(2) True by (subst (asm) fit_loop.simps) (simp add: Let_def)
    from 1(1)[OF True refl this] show ?thesis
      using pop_facts(2)[OF lt] pop_facts(4)[of ?i selected] subseq_order.trans by fastforce
  next
    case False
    then show ?thesis using 1(2) by (subst (asm) fit_loop.simps) (auto split: if_splits)
  qed
qed

lemma fit_loop_order:
  "fit_loop cnt b selected dropped = (s, d) \<Longrightarrow> drops_before dropped selected \<Longrightarrow>
     sorted (map r_score dropped) \<Longrightarrow> drops_before d s \<and> sorted (map r_score d)"
proof (induction cnt b selected dropped arbitrary: s d rule: fit_loop.induct)
  case (1 cnt b selected dropped)
  show ?case
  proof (cases "selected \<noteq> [] \<and> int (cnt (render_block selected)) > b")
    case True
    let ?i = "lowest_scored_index selected"
    have "fit_loop cnt b (pop ?i selected) (dropped @ [selected ! ?i]) = (s, d)"
      using 1(2) True by (subst (asm) fit_loop.simps) (simp add: Let_def)
    from 1(1)[OF True refl this] show ?thesis
      using drops_before_step[of selected dropped] True 1(3,4) by blast
  next
    case False
    then show ?thesis using 1(2-4) by (subst (asm) fit_loop.simps) (auto split: if_splits)
  qed
qed

lemma fit_loop_stops:
  "fit_loop cnt b selected dropped = (s, d) \<Longrightarrow> s = [] \<or> int (cnt (render_block s)) \<le> b"
proof (induction cnt b selected dropped arbitrary: s d rule: fit_loop.induct)
  case (1 cnt b selected dropped)
  then show ?case
    by (subst (asm) (2) fit_loop.simps) (auto simp: Let_def split: if_splits)
qed

text \<open>No memory is dropped without need: the block with the last victim still in was too large.\<close>

definition needed :: "(string \<Rightarrow> nat) \<Rightarrow> int \<Rightarrow> ranked list \<Rightarrow> ranked list \<Rightarrow> bool" where
  "needed cnt b s d \<longleftrightarrow> (\<exists>items i. i < length items \<and> pop i items = s \<and> items ! i = last d \<and>
     int (cnt (render_block items)) > b)"

lemma fit_loop_needed:
  "fit_loop cnt b selected dropped = (s, d) \<Longrightarrow>
     (d = dropped \<and> s = selected) \<or> (d \<noteq> [] \<and> needed cnt b s d)"
proof (induction cnt b selected dropped arbitrary: s d rule: fit_loop.induct)
  case (1 cnt b selected dropped)
  show ?case
  proof (cases "selected \<noteq> [] \<and> int (cnt (render_block selected)) > b")
    case True
    let ?i = "lowest_scored_index selected"
    have lt: "?i < length selected" using True lowest_scored_index by blast
    have "fit_loop cnt b (pop ?i selected) (dropped @ [selected ! ?i]) = (s, d)"
      using 1(2) True by (subst (asm) fit_loop.simps) (simp add: Let_def)
    from 1(1)[OF True refl this] show ?thesis
    proof
      assume "d = dropped @ [selected ! ?i] \<and> s = pop ?i selected"
      then show ?thesis using lt True by (auto simp: needed_def intro!: exI[of _ selected] exI[of _ ?i])
    qed simp
  next
    case False
    then show ?thesis using 1(2) by (subst (asm) fit_loop.simps) (auto split: if_splits)
  qed
qed

section \<open>What the composer needs of the counter\<close>

locale token_counter =
  fixes cnt :: "string \<Rightarrow> nat"
  assumes counts_nothing: "cnt [] = 0"
begin

lemma fit_within:
  assumes "fit cnt b items = (s, d, block, tokens)" "0 \<le> b"
  shows "int tokens \<le> b"
proof -
  obtain s' d' where "fit_loop cnt b items [] = (s', d')" by (cases "fit_loop cnt b items []")
  then show ?thesis
    using assms fit_loop_stops[of cnt b items "[]" s' d'] counts_nothing
    by (auto simp: fit_def render_block_def)
qed

lemma composed_within_budget:
  "int (x_tokens (compose_profile_block cnt db ranked budget)) \<le>
     x_budget (compose_profile_block cnt db ranked budget)"
  "0 \<le> x_budget (compose_profile_block cnt db ranked budget)"
  "x_tokens (compose_profile_block cnt db ranked budget) =
     cnt (x_block (compose_profile_block cnt db ranked budget))"
proof -
  have lim: "0 \<le> budget_limit db budget" by (simp add: budget_limit_def)
  obtain s d block tokens where f:
    "fit cnt (budget_limit db budget) (filter (\<lambda>item. clean (r_content item) \<noteq> []) ranked) = (s, d, block, tokens)"
    by (metis prod_cases4)
  show "int (x_tokens (compose_profile_block cnt db ranked budget)) \<le>
     x_budget (compose_profile_block cnt db ranked budget)"
    using fit_within[OF f lim] lim f by (simp add: compose_profile_block_def Let_def)
  show "0 \<le> x_budget (compose_profile_block cnt db ranked budget)"
    using lim f by (simp add: compose_profile_block_def Let_def)
  have "tokens = cnt block" using f by (auto simp: fit_def split: prod.splits)
  then show "x_tokens (compose_profile_block cnt db ranked budget) =
     cnt (x_block (compose_profile_block cnt db ranked budget))"
    using f by (simp add: compose_profile_block_def Let_def counts_nothing)
qed

end

text \<open>The deployed counter: the count of the encoding the process has resolved. Text of a row has no
  surrogates, so it never raises.\<close>

definition live_count :: "encoding option \<Rightarrow> string \<Rightarrow> nat" where
  "live_count e s = (case count_with e (codes_of s) of Inr n \<Rightarrow> n | Inl _ \<Rightarrow> 0)"

lemma live_count_total: "count_with e (codes_of s) = Inr (live_count e s)"
proof -
  have "\<exists>n. count_with e (codes_of s) = Inr n"
    using estimate_tokens_ok[OF codes_of_no_surrogate] by (auto simp: count_with_def split: option.splits)
  then show ?thesis by (auto simp: live_count_def)
qed

interpretation live: token_counter "live_count e" for e
  by unfold_locales (simp add: live_count_def count_with_def)

section \<open>One memory, one line\<close>

lemma clean_no_newline: "newline \<notin> set (clean s)"
proof -
  have "c \<in> set w \<Longrightarrow> w \<in> set (split_ws s) \<Longrightarrow> \<not> py_space c" for c w
    using words_acc_no_space[of w "[]" s] by (auto simp: split_ws_def)
  moreover have "set (clean s) \<subseteq> set '' '' \<union> \<Union> (set ` set (split_ws s))"
    unfolding clean_def by (rule set_join)
  ultimately show ?thesis by fastforce
qed

text \<open>Splitting a text at its newlines.\<close>

fun lines_of :: "string \<Rightarrow> string \<Rightarrow> string list" where
  "lines_of acc [] = [rev acc]"
| "lines_of acc (c # cs) =
     (if c = newline then rev acc # lines_of [] cs else lines_of (c # acc) cs)"

lemma lines_of_join:
  "ls \<noteq> [] \<Longrightarrow> \<forall>l \<in> set ls. newline \<notin> set l \<Longrightarrow> lines_of [] (join line_separator ls) = ls"
proof -
  have run: "newline \<notin> set p \<Longrightarrow> lines_of acc (p @ newline # s) = (rev acc @ p) # lines_of [] s"
    for p acc s by (induction p arbitrary: acc) auto
  have last: "newline \<notin> set p \<Longrightarrow> lines_of acc p = [rev acc @ p]" for p acc
    by (induction p arbitrary: acc) auto
  show "ls \<noteq> [] \<Longrightarrow> \<forall>l \<in> set ls. newline \<notin> set l \<Longrightarrow> lines_of [] (join line_separator ls) = ls"
  proof (induction ls rule: list_nonempty_induct)
    case (single p)
    then show ?case by (simp add: last)
  next
    case (cons p ps)
    then obtain q qs where "ps = q # qs" by (cases ps) auto
    then show ?case using cons by (simp add: run line_separator_def)
  qed
qed

lemma render_block_lines:
  "items \<noteq> [] \<Longrightarrow> lines_of [] (render_block items) = block_header # map render_line items"
  unfolding render_block_def
  by (simp add: lines_of_join, rule lines_of_join)
     (auto simp: render_line_def line_prefix_def clean_no_newline block_header_def)

lemma compose_profile_block_parts:
  assumes "items = filter (\<lambda>item. clean (r_content item) \<noteq> []) ranked"
    and "(s, d) = fit_loop cnt (budget_limit db budget) items []"
    and "cnt [] = 0"
  shows "compose_profile_block cnt db ranked budget =
     \<lparr> x_block = render_block s, x_ids = map r_id s, x_dropped = map r_id d,
       x_tokens = cnt (render_block s), x_budget = budget_limit db budget, x_included = s \<rparr>"
proof (cases "items = []")
  case True
  then have "s = []" "d = []" using assms(2) by (simp_all add: fit_loop.simps)
  then show ?thesis using True assms by (simp add: compose_profile_block_def Let_def render_block_def)
next
  case False
  then show ?thesis
    using assms(1) assms(2)[symmetric] by (simp add: compose_profile_block_def Let_def fit_def)
qed

section \<open>Properties\<close>

text \<open>C11. Whatever the memories and the budget, the composed block is within the budget as the
  deployed counter measures it, is exactly the rendering of the included memories (nothing is ever
  cut in half), is empty when nothing is included, and carries the ids that are in it.\<close>

theorem composed_block_fits:
  "(let x = compose_profile_block (live_count e) db ranked budget in
      int (x_tokens x) \<le> x_budget x \<and> x_tokens x = live_count e (x_block x)
      \<and> x_budget x = max 0 (case budget of None \<Rightarrow> db | Some b \<Rightarrow> b)
      \<and> x_block x = render_block (x_included x) \<and> x_ids x = map r_id (x_included x)
      \<and> (x_ids x = [] \<longleftrightarrow> x_block x = []))"
proof -
  obtain s d where sd: "(s, d) = fit_loop (live_count e) (budget_limit db budget)
      (filter (\<lambda>item. clean (r_content item) \<noteq> []) ranked) []" by (metis prod.exhaust)
  note x = compose_profile_block_parts[OF refl sd live.counts_nothing]
  have "render_block s = [] \<longleftrightarrow> s = []"
    by (cases s) (auto simp: render_block_def block_header_def)
  then show ?thesis
    using live.composed_within_budget[of e db ranked budget] unfolding x
    by (simp add: budget_limit_def Let_def)
qed

text \<open>C12. The drop policy: included and dropped together are the memories with something to say,
  each once; the included ones keep the caller's order; no dropped memory scores higher than an
  included one; they were dropped from the lowest score up; and nothing was dropped without need:
  with the last victim still in, the block exceeded the budget.\<close>

theorem composer_drops_lowest_scores:
  "\<exists>d. x_dropped (compose_profile_block (live_count e) db ranked budget) = map r_id d
    \<and> (let s = x_included (compose_profile_block (live_count e) db ranked budget) in
        mset s + mset d = mset (filter (\<lambda>item. clean (r_content item) \<noteq> []) ranked)
      \<and> subseq s (filter (\<lambda>item. clean (r_content item) \<noteq> []) ranked)
      \<and> drops_before d s \<and> sorted (map r_score d)
      \<and> (d = [] \<or> needed (live_count e) (budget_limit db budget) s d))"
proof -
  obtain s d where sd: "(s, d) = fit_loop (live_count e) (budget_limit db budget)
      (filter (\<lambda>item. clean (r_content item) \<noteq> []) ranked) []" by (metis prod.exhaust)
  note x = compose_profile_block_parts[OF refl sd live.counts_nothing]
  show ?thesis
    using fit_loop_partition[OF sd[symmetric]] fit_loop_order[OF sd[symmetric]]
      fit_loop_needed[OF sd[symmetric]]
    unfolding x by (intro exI[of _ d]) (auto simp: Let_def drops_before_def)
qed

text \<open>A memory cannot break out of its bullet: read line by line, a non-empty block is the header
  followed by exactly one line per included memory, whatever newlines the stored texts contain.\<close>

lemma one_line_per_memory:
  assumes "x = compose_profile_block (live_count e) db ranked budget" "x_ids x \<noteq> []"
  shows "lines_of [] (x_block x) = block_header # map render_line (x_included x)
    \<and> length (lines_of [] (x_block x)) = 1 + length (x_ids x)"
proof -
  obtain s d where sd: "(s, d) = fit_loop (live_count e) (budget_limit db budget)
      (filter (\<lambda>item. clean (r_content item) \<noteq> []) ranked) []" by (metis prod.exhaust)
  note x = compose_profile_block_parts[OF refl sd live.counts_nothing]
  show ?thesis using assms by (simp add: x render_block_lines)
qed

lemma ex_lowest: "lowest_scored_index [ex_ranked a t p, ex_ranked b u q] =
    (if p < q then 0 else if q < p then 1 else if a \<le> b then 1 else 0)"
  by (auto simp: lowest_scored_index_def ex_ranked_def r_id_def ex_candidate_def Let_def min_def
      max_def less_eq_prod_def upt_rec)

lemma one_line_per_memory_witness:
  "length (lines_of [] (x_block (compose_profile_block (live_count None) 512
     [ex_ranked ''a'' [CHR ''x'', newline, CHR ''y''] (4 / 10)] None))) = 1 + length [''a'']"
proof -
  have c: "clean [CHR ''x'', newline, CHR ''y''] = ''x y''"
    by (simp add: clean_def split_ws_def py_space_def)
  have n: "live_count None (render_block [ex_ranked ''a'' [CHR ''x'', newline, CHR ''y''] (4 / 10)]) = 37"
    by (simp add: live_count_def count_with_def estimate_tokens_ok codes_of_no_surrogate render_block_def
        block_header_def render_line_def line_prefix_def line_separator_def ex_ranked_def ex_candidate_def
        r_content_def c) (simp add: codes_of_def utf8_char_def)
  have "x_ids (compose_profile_block (live_count None) 512
     [ex_ranked ''a'' [CHR ''x'', newline, CHR ''y''] (4 / 10)] None) = [''a'']"
    using n unfolding compose_profile_block_def fit_def
    by (subst fit_loop.simps)
       (simp add: ex_ranked_def ex_candidate_def r_content_def r_id_def c budget_limit_def Let_def)
  note ids = this
  then show ?thesis
    using one_line_per_memory[OF refl, of None 512
      "[ex_ranked ''a'' [CHR ''x'', newline, CHR ''y''] (4 / 10)]" None] unfolding ids by blast
qed

text \<open>The victim need not be the memory the ranking put last: \<open>rank\<close> compares scores rounded to
  twelve digits and then ids, the drop loop compares the raw scores, so of two memories that tie
  for the ranking the preferred one (smaller id) can be the one that is dropped.\<close>

lemma victim_may_be_preferred_by_rank:
  "sort_key_of (ex_ranked ''a'' ''x'' 0) < sort_key_of (ex_ranked ''b'' ''x'' (1 / 10 ^ 13))
   \<and> lowest_scored_index [ex_ranked ''a'' ''x'' 0, ex_ranked ''b'' ''x'' (1 / 10 ^ 13)] = 0"
proof -
  have "round_even (100000000000 + 35 / 1000 :: real) = 100000000000"
    by (simp add: round_even_def)
  then have "py_round 12 (35 / 100 * (1 / 10 ^ 13) + 1 / 10) = py_round 12 (1 / 10)"
    by (simp add: py_round_def round_even_def)
  then show ?thesis
    by (simp add: ex_lowest) (simp add: sort_key_of_def ex_ranked_def ex_candidate_def r_id_def less_prod_def)
qed

text \<open>Composing raw candidates straight from the rows of the store always succeeds and equals
  ranking them first and composing the ranking; a list that mixes ranked and raw items is refused
  with a \<^verbatim>\<open>TypeError\<close>.\<close>

lemma compose_ranks_raw_candidates:
  assumes "cs \<noteq> []" "\<forall>c \<in> set cs. row_metadata_ok lib c"
  shows "(\<exists>rs. rank lib dk clock cs top_k now = Inr rs \<and>
            compose lib (live_count e) db dk clock (map Raw cs) budget top_k now =
              Inr (compose_profile_block (live_count e) db rs budget) \<and>
            compose lib (live_count e) db dk clock (map Scored rs) budget top_k now =
              Inr (if rs = [] then \<lparr> x_block = [], x_ids = [], x_dropped = [], x_tokens = 0,
                     x_budget = (case budget of None \<Rightarrow> db | Some b \<Rightarrow> max 0 b), x_included = [] \<rparr>
                   else compose_profile_block (live_count e) db rs budget))
    \<and> compose lib (live_count e) db dk clock (Scored r # map Raw cs) budget top_k now = Inl TypeError"
proof -
  obtain rs where rs: "rank lib dk clock cs top_k now = Inr rs"
    using rank_total[OF assms(2)] by blast
  have "concat (map the_scored (map Scored xs)) = xs" for xs
    by (induction xs) auto
  moreover have "list_all is_scored (map Scored xs)" "\<not> list_ex is_scored (map Raw ys)" for xs ys
    by (auto simp: list_all_iff list_ex_iff)
  moreover have "\<not> list_all is_scored (map Raw cs)" using assms(1) by (cases cs) auto
  moreover have "map the_raw (map Raw cs) = cs" by (simp add: comp_def)
  ultimately show ?thesis
    using rs assms(1) by (auto simp: compose_def simp del: map_map)
qed

lemma compose_ranks_raw_candidates_witness:
  "compose ex_lib (live_count None) 512 5 0 [Scored (ex_ranked ''a'' ''x'' 0), Raw (ex_candidate ''b'' ''y'' 1 Map.empty)]
     None None None = Inl TypeError"
  using compose_ranks_raw_candidates[of "[ex_candidate ''b'' ''y'' 1 Map.empty]" ex_lib 5 0 None None None 512 None
     "ex_ranked ''a'' ''x'' 0"]
  by (simp add: row_metadata_ok_def meta_def ex_candidate_def)

end
