(* ===== verification/Breaker.thy ===== *)
theory Breaker
  imports Prelude "HOL-Library.Sublist"
begin

text \<open>
  The circuit breaker (\<^verbatim>\<open>retrieve/breaker.py\<close>). The shared Redis record and the probe lock are the
  state, each Lua script is one atomic function on it, and a replica's handle adds the script
  cache and the reaction to an unreachable Redis. A step relation runs a fleet of replicas against
  one record. Times are seconds; Lua's \<^verbatim>\<open>cjson\<close> writes numbers with fourteen significant digits,
  which for seconds since the epoch (ten digits before the point) is rounding to four decimals.
\<close>

section \<open>The record and the scripts\<close>

datatype circuit = Closed | HalfOpen | Open

datatype stored = Missing | Junk | Record circuit nat real

record redis =
  rd_state :: stored
  rd_probe :: "(uuid \<times> real) option"   \<comment> \<open>token and expiry\<close>
  rd_time :: real
  rd_scripts :: "string set"

definition cjson_num :: "real \<Rightarrow> real" where "cjson_num x = py_round 4 x"

lemma cjson_num_zero [simp]: "cjson_num 0 = 0"
  by (simp add: cjson_num_def py_round_def round_even_def)

lemma cjson_num_close: "\<bar>cjson_num x - x\<bar> \<le> 1 / 20000"
proof -
  have "\<bar>of_int (round_even (x * 10000)) - x * 10000\<bar> \<le> 1 / 2" by (rule round_even_close)
  then have "\<bar>of_int (round_even (x * 10000)) / 10000 - x\<bar> \<le> 1 / 20000" by linarith
  then show ?thesis by (simp add: cjson_num_def py_round_def)
qed

fun decode :: "stored \<Rightarrow> circuit \<times> nat \<times> real" where
  "decode (Record s f o') = (s, f, o')"
| "decode _ = (Closed, 0, 0)"

definition persist :: "circuit \<Rightarrow> nat \<Rightarrow> real \<Rightarrow> redis \<Rightarrow> redis" where
  "persist s f o' r = r \<lparr> rd_state := Record s f (cjson_num o') \<rparr>"

definition del_probe :: "redis \<Rightarrow> redis" where
  "del_probe r = r \<lparr> rd_probe := None \<rparr>"

definition lock_free :: "redis \<Rightarrow> bool" where
  "lock_free r = (case rd_probe r of None \<Rightarrow> True | Some (_, expiry) \<Rightarrow> expiry \<le> rd_time r)"

datatype verdict = Blocked | Allowed | Probe

text \<open>\<^verbatim>\<open>_ALLOW_LUA\<close>; the second half runs on the state the first half leaves.\<close>

definition probe_or_block ::
  "real \<Rightarrow> uuid \<Rightarrow> nat \<Rightarrow> redis \<Rightarrow> (circuit \<times> nat \<times> verdict) \<times> redis" where
  "probe_or_block ttl token f r =
     (if lock_free r
      then ((HalfOpen, f, Probe), r \<lparr> rd_probe := Some (token, rd_time r + ttl) \<rparr>)
      else ((HalfOpen, f, Blocked), r))"

definition lua_allow ::
  "real \<Rightarrow> real \<Rightarrow> real \<Rightarrow> uuid \<Rightarrow> redis \<Rightarrow> (circuit \<times> nat \<times> verdict) \<times> redis" where
  "lua_allow now cooldown ttl token r =
     (case decode (rd_state r) of
        (Open, f, opened_at) \<Rightarrow>
          (if now - opened_at \<ge> cooldown
           then probe_or_block ttl token f (persist HalfOpen f opened_at r)
           else ((Open, f, Blocked), r))
      | (HalfOpen, f, _) \<Rightarrow> probe_or_block ttl token f r
      | (Closed, f, _) \<Rightarrow> ((Closed, f, Allowed), r))"

definition lua_failure ::
  "real \<Rightarrow> nat \<Rightarrow> bool \<Rightarrow> redis \<Rightarrow> (circuit \<times> nat) \<times> redis" where
  "lua_failure now threshold was_probe r =
     (let (s, f, opened_at) = decode (rd_state r);
          f' = f + 1;
          (s'', f'', o'') =
            (if s = HalfOpen \<or> was_probe
             then (Open, if f' < threshold then threshold else f', now)
             else if f' \<ge> threshold then (Open, f', now)
             else (s, f', opened_at))
      in ((s'', f''), del_probe (persist s'' f'' o'' r)))"

definition lua_success :: "bool \<Rightarrow> redis \<Rightarrow> (circuit \<times> nat \<times> bool) \<times> redis" where
  "lua_success was_probe r =
     (let (s, f, _) = decode (rd_state r)
      in if was_probe \<or> s = Closed
         then ((Closed, 0, True), del_probe (persist Closed 0 0 r))
         else ((s, f, False), r))"

lemmas lua_defs = lua_allow_def lua_failure_def lua_success_def probe_or_block_def persist_def
  del_probe_def lock_free_def

section \<open>A replica's handle\<close>

text \<open>\<^verbatim>\<open>_eval\<close>: which scripts this instance holds a sha for, and what the server has cached. The
  third component counts how often the script body ran. With the link down every call raises.\<close>

definition eval_script ::
  "bool \<Rightarrow> string \<Rightarrow> (redis \<Rightarrow> 'a \<times> redis) \<Rightarrow> string set \<Rightarrow> redis \<Rightarrow>
     'a option \<times> string set \<times> redis \<times> nat" where
  "eval_script up name script shas r =
     (if \<not> up then (None, shas, r, 0)
      else
        (let r1 = (if name \<in> shas then r else r \<lparr> rd_scripts := insert name (rd_scripts r) \<rparr>);
             shas1 = insert name shas
         in if name \<in> rd_scripts r1
            then (let (a, r2) = script r1 in (Some a, shas1, r2, 1))
            else (let (a, r2) = script r1
                  in (Some a, shas1 - {name}, r2 \<lparr> rd_scripts := insert name (rd_scripts r2) \<rparr>, 1))))"

record breaker_config =
  bc_threshold :: nat
  bc_cooldown :: real
  bc_ttl :: real

record decision =
  d_allowed :: bool
  d_probe :: bool
  d_state :: circuit
  d_blind :: bool

record replica =
  rp_up :: bool          \<comment> \<open>can this replica reach Redis\<close>
  rp_shas :: "string set"
  rp_redis :: redis

definition allow :: "breaker_config \<Rightarrow> real \<Rightarrow> uuid \<Rightarrow> replica \<Rightarrow> decision \<times> replica" where
  "allow cfg now token rp =
     (case eval_script (rp_up rp) ''allow'' (lua_allow now (bc_cooldown cfg) (bc_ttl cfg) token)
             (rp_shas rp) (rp_redis rp) of
        (None, shas, r, _) \<Rightarrow>
          (\<lparr> d_allowed = True, d_probe = False, d_state = Closed, d_blind = True \<rparr>,
           rp \<lparr> rp_shas := shas, rp_redis := r \<rparr>)
      | (Some (s, _, v), shas, r, _) \<Rightarrow>
          (\<lparr> d_allowed = (v \<noteq> Blocked), d_probe = (v = Probe), d_state = s, d_blind = False \<rparr>,
           rp \<lparr> rp_shas := shas, rp_redis := r \<rparr>))"

record breaker_state =
  s_circuit :: circuit
  s_failures :: nat
  s_opened_at :: real

definition healthy :: breaker_state where
  "healthy = \<lparr> s_circuit = Closed, s_failures = 0, s_opened_at = 0 \<rparr>"

definition snapshot :: "replica \<Rightarrow> breaker_state" where
  "snapshot rp =
     (if \<not> rp_up rp then healthy
      else case decode (rd_state (rp_redis rp)) of
             (s, f, o') \<Rightarrow> \<lparr> s_circuit = s, s_failures = f, s_opened_at = o' \<rparr>)"

definition record_success :: "bool \<Rightarrow> replica \<Rightarrow> breaker_state \<times> replica" where
  "record_success probe rp =
     (case eval_script (rp_up rp) ''success'' (lua_success probe) (rp_shas rp) (rp_redis rp) of
        (None, shas, r, _) \<Rightarrow> (healthy, rp \<lparr> rp_shas := shas, rp_redis := r \<rparr>)
      | (Some (s, f, applied), shas, r, _) \<Rightarrow>
          (let rp' = rp \<lparr> rp_shas := shas, rp_redis := r \<rparr>
           in (\<lparr> s_circuit = s, s_failures = f,
                 s_opened_at = (if applied then 0 else s_opened_at (snapshot rp')) \<rparr>, rp')))"

definition record_failure ::
  "breaker_config \<Rightarrow> real \<Rightarrow> bool \<Rightarrow> replica \<Rightarrow> breaker_state \<times> replica" where
  "record_failure cfg now probe rp =
     (case eval_script (rp_up rp) ''failure'' (lua_failure now (bc_threshold cfg) probe)
             (rp_shas rp) (rp_redis rp) of
        (None, shas, r, _) \<Rightarrow> (healthy, rp \<lparr> rp_shas := shas, rp_redis := r \<rparr>)
      | (Some (s, f), shas, r, _) \<Rightarrow>
          (\<lparr> s_circuit = s, s_failures = f, s_opened_at = (if s = Open then now else 0) \<rparr>,
           rp \<lparr> rp_shas := shas, rp_redis := r \<rparr>))"

definition reset :: "replica \<Rightarrow> replica" where
  "reset rp = (if rp_up rp
     then rp \<lparr> rp_redis := del_probe ((rp_redis rp) \<lparr> rd_state := Missing \<rparr>) \<rparr> else rp)"

text \<open>\<^verbatim>\<open>force_open\<close> writes with Python's \<^verbatim>\<open>json\<close>, which keeps every digit.\<close>

definition force_open :: "breaker_config \<Rightarrow> real \<Rightarrow> replica \<Rightarrow> (breaker_state \<times> replica) option" where
  "force_open cfg now rp = (if rp_up rp
     then Some (\<lparr> s_circuit = Open, s_failures = bc_threshold cfg, s_opened_at = now \<rparr>,
        rp \<lparr> rp_redis := del_probe ((rp_redis rp) \<lparr> rd_state := Record Open (bc_threshold cfg) now \<rparr>) \<rparr>)
     else None)"

definition state_of :: "replica \<Rightarrow> circuit" where
  "state_of rp = s_circuit (snapshot rp)"

section \<open>Script cache and outages\<close>

text \<open>A script neither reads nor writes the cache, so it commutes with any change of it.\<close>

definition cache_blind :: "(redis \<Rightarrow> 'a \<times> redis) \<Rightarrow> bool" where
  "cache_blind script \<longleftrightarrow> (\<forall>r S. script (r \<lparr> rd_scripts := S \<rparr>) =
     (fst (script r), (snd (script r)) \<lparr> rd_scripts := S \<rparr>))"

lemma cache_blind_allow: "cache_blind (lua_allow now cd ttl token)"
  unfolding cache_blind_def
proof (intro allI)
  fix r :: redis and S :: "string set"
  obtain s f o' where "decode (rd_state r) = (s, f, o')" by (metis prod_cases3)
  then show "lua_allow now cd ttl token (r \<lparr> rd_scripts := S \<rparr>) =
      (fst (lua_allow now cd ttl token r), (snd (lua_allow now cd ttl token r)) \<lparr> rd_scripts := S \<rparr>)"
    by (cases s; cases "rd_probe r") (auto simp: lua_defs)
qed

lemma cache_blind_failure: "cache_blind (lua_failure now n p)"
  and cache_blind_success: "cache_blind (lua_success p)"
  by (auto simp: cache_blind_def lua_defs Let_def split: prod.splits)

lemma eval_script_up:
  assumes "cache_blind script"
  obtains shas' S where "eval_script True name script shas r =
     (Some (fst (script r)), shas', (snd (script r)) \<lparr> rd_scripts := S \<rparr>, 1)"
proof -
  have "script (r \<lparr> rd_scripts := rd_scripts r \<rparr>) = (fst (script r), (snd (script r)) \<lparr> rd_scripts := rd_scripts r \<rparr>)"
    using assms unfolding cache_blind_def by blast
  then have eq: "script r = (fst (script r), (snd (script r)) \<lparr> rd_scripts := rd_scripts r \<rparr>)" by simp
  have ins: "script (r \<lparr> rd_scripts := S \<rparr>) = (fst (script r), (snd (script r)) \<lparr> rd_scripts := S \<rparr>)" for S
    using assms unfolding cache_blind_def by blast
  show ?thesis
  proof (cases "name \<in> shas")
    case True
    show ?thesis
    proof (cases "name \<in> rd_scripts r")
      case in_cache: True
      have run: "eval_script True name script shas r = (Some (fst (script r)), insert name shas, snd (script r), 1)"
        using True in_cache by (simp add: eval_script_def case_prod_unfold Let_def)
      have same: "(snd (script r)) \<lparr> rd_scripts := rd_scripts r \<rparr> = snd (script r)" using eq by (metis snd_conv)
      show ?thesis by (rule that[of "insert name shas" "rd_scripts r"]) (simp only: run same)
    next
      case False
      then show ?thesis
        using True by (intro that) (simp add: eval_script_def case_prod_unfold Let_def)
    qed
  next
    case False
    then show ?thesis by (intro that) (simp add: eval_script_def case_prod_unfold Let_def ins)
  qed
qed

lemma eval_script_down: "eval_script False name script shas r = (None, shas, r, 0)"
  by (simp add: eval_script_def)

definition circuit_of :: "redis \<Rightarrow> circuit" where
  "circuit_of r = fst (decode (rd_state r))"

definition failures_of :: "redis \<Rightarrow> nat" where
  "failures_of r = fst (snd (decode (rd_state r)))"

section \<open>Opening\<close>

text \<open>What ordinary calls (not probes) report one after the other: \<^const>\<open>True\<close> a success.\<close>

definition report :: "real \<Rightarrow> nat \<Rightarrow> bool \<Rightarrow> redis \<Rightarrow> redis" where
  "report now n ok r = (if ok then snd (lua_success False r) else snd (lua_failure now n False r))"

definition streak :: "bool list \<Rightarrow> nat" where
  "streak xs = length (takeWhile Not (rev xs))"

lemma streak_snoc [simp]: "streak (xs @ [True]) = 0" "streak (xs @ [False]) = Suc (streak xs)" "streak [] = 0"
  by (simp_all add: streak_def)

lemma suffix_replicate_streak: "suffix (replicate n False) xs \<longleftrightarrow> n \<le> streak xs"
proof (induction n arbitrary: xs)
  case (Suc n)
  show ?case
  proof (cases xs rule: rev_cases)
    case (snoc ys y)
    have "replicate (Suc n) False = replicate n False @ [False]" by (simp add: replicate_append_same)
    then show ?thesis using snoc Suc.IH[of ys] by (cases y) simp_all
  qed simp
qed simp

lemma sublist_snoc_streak:
  "sublist (replicate n False) (xs @ [x]) \<longleftrightarrow>
     sublist (replicate n False) xs \<or> n \<le> streak (xs @ [x])"
  unfolding sublist_snoc suffix_replicate_streak by blast

lemma report_step:
  assumes "0 < n"
  shows "circuit_of r = Open \<Longrightarrow> circuit_of (report now n x r) = Open"
    and "circuit_of r = Closed \<Longrightarrow> circuit_of (report now n x r) = (if \<not> x \<and> n \<le> Suc (failures_of r) then Open else Closed)"
    and "circuit_of r = Closed \<Longrightarrow> failures_of (report now n x r) = (if x then 0 else Suc (failures_of r))"
  using assms by (cases "decode (rd_state r)"; auto simp: circuit_of_def failures_of_def report_def
      lua_success_def lua_failure_def persist_def del_probe_def)+

lemma report_run:
  assumes "0 < n" "decode (rd_state r) = (Closed, 0, o0)"
  shows "circuit_of (fold (report now n) xs r) =
           (if sublist (replicate n False) xs then Open else Closed)
    \<and> (\<not> sublist (replicate n False) xs \<longrightarrow> failures_of (fold (report now n) xs r) = streak xs)"
proof (induction xs rule: rev_induct)
  case Nil
  then show ?case using assms by (auto simp: circuit_of_def failures_of_def)
next
  case (snoc x xs)
  then show ?case
    using report_step[OF assms(1), of "fold (report now n) xs r" now x]
    unfolding sublist_snoc_streak
    by (cases x; cases "sublist (replicate n False) xs") auto
qed

section \<open>A fleet of replicas\<close>

record fleet =
  fl_redis :: redis
  fl_calls :: "nat \<Rightarrow> (bool \<times> real) option"   \<comment> \<open>calls in flight: probe?, admitted when\<close>

text \<open>Replicas admit calls, calls end in a success, a failure or a cancellation (which records
  nothing), and time passes. A call is bounded by its timeout \<open>T\<close>, so time cannot pass the moment
  a call in flight must have ended. Every replica passes its own clock to the scripts; here they all
  read one, so drift between hosts is not modelled.\<close>

inductive fleet_step :: "breaker_config \<Rightarrow> real \<Rightarrow> fleet \<Rightarrow> fleet \<Rightarrow> bool"
  for cfg :: breaker_config and T :: real where
  admit: "fl_calls w i = None \<Longrightarrow>
      lua_allow (rd_time (fl_redis w)) (bc_cooldown cfg) (bc_ttl cfg) token (fl_redis w) = ((s, f, v), r) \<Longrightarrow>
      v \<noteq> Blocked \<Longrightarrow>
      fleet_step cfg T w (w \<lparr> fl_redis := r, fl_calls := (fl_calls w)(i \<mapsto> (v = Probe, rd_time (fl_redis w))) \<rparr>)"
| blocked: "lua_allow (rd_time (fl_redis w)) (bc_cooldown cfg) (bc_ttl cfg) token (fl_redis w) = ((s, f, Blocked), r) \<Longrightarrow>
      fleet_step cfg T w (w \<lparr> fl_redis := r \<rparr>)"
| succeed: "fl_calls w i = Some (p, t) \<Longrightarrow>
      fleet_step cfg T w (w \<lparr> fl_redis := snd (lua_success p (fl_redis w)), fl_calls := (fl_calls w)(i := None) \<rparr>)"
| fail: "fl_calls w i = Some (p, t) \<Longrightarrow>
      fleet_step cfg T w (w \<lparr> fl_redis := snd (lua_failure (rd_time (fl_redis w)) (bc_threshold cfg) p (fl_redis w)),
                          fl_calls := (fl_calls w)(i := None) \<rparr>)"
| cancel: "fl_calls w i = Some (p, t) \<Longrightarrow> fleet_step cfg T w (w \<lparr> fl_calls := (fl_calls w)(i := None) \<rparr>)"
| tick: "0 \<le> d \<Longrightarrow> (\<And>i p t. fl_calls w i = Some (p, t) \<Longrightarrow> rd_time (fl_redis w) + d \<le> t + T) \<Longrightarrow>
      fleet_step cfg T w (w \<lparr> fl_redis := (fl_redis w) \<lparr> rd_time := rd_time (fl_redis w) + d \<rparr> \<rparr>)"

inductive_cases fleet_stepE: "fleet_step cfg T w w'"

definition fleet_init :: "fleet \<Rightarrow> bool" where
  "fleet_init w \<longleftrightarrow> rd_state (fl_redis w) = Missing \<and> rd_probe (fl_redis w) = None \<and> (\<forall>i. fl_calls w i = None)"

definition fleet_reach :: "breaker_config \<Rightarrow> real \<Rightarrow> fleet \<Rightarrow> bool" where
  "fleet_reach cfg T w \<longleftrightarrow> (\<exists>w0. fleet_init w0 \<and> (fleet_step cfg T)\<^sup>*\<^sup>* w0 w)"

definition open_at_threshold :: "breaker_config \<Rightarrow> redis \<Rightarrow> bool" where
  "open_at_threshold cfg r \<longleftrightarrow> (circuit_of r = Open \<longrightarrow> bc_threshold cfg \<le> failures_of r)"

text \<open>What holds of the record while a probe admitted at \<open>t\<close> is in flight.\<close>

definition guarded_probe :: "breaker_config \<Rightarrow> real \<Rightarrow> redis \<Rightarrow> real \<Rightarrow> bool" where
  "guarded_probe cfg T r t \<longleftrightarrow> t \<le> rd_time r \<and> rd_time r \<le> t + T \<and>
     (case decode (rd_state r) of
        (HalfOpen, _, _) \<Rightarrow> (\<exists>tok. rd_probe r = Some (tok, t + bc_ttl cfg))
      | (Open, _, opened_at) \<Rightarrow> t - 1 / 20000 \<le> opened_at
      | (Closed, _, _) \<Rightarrow> False)"

definition fleet_inv :: "breaker_config \<Rightarrow> real \<Rightarrow> fleet \<Rightarrow> bool" where
  "fleet_inv cfg T w \<longleftrightarrow> open_at_threshold cfg (fl_redis w) \<and>
     (\<forall>i t. fl_calls w i = Some (True, t) \<longrightarrow> guarded_probe cfg T (fl_redis w) t \<and>
        (\<forall>j u. fl_calls w j = Some (True, u) \<longrightarrow> j = i))"

definition timing_ok :: "breaker_config \<Rightarrow> real \<Rightarrow> bool" where
  "timing_ok cfg T \<longleftrightarrow> 0 \<le> T \<and> T < bc_ttl cfg \<and> T + 1 / 20000 < bc_cooldown cfg"

text \<open>While a probe is in flight nobody else is admitted, and the record keeps guarding it.\<close>

lemma probe_blocks_allow:
  assumes "timing_ok cfg T" "guarded_probe cfg T r t"
  shows "snd (lua_allow (rd_time r) (bc_cooldown cfg) (bc_ttl cfg) token r) = r \<and>
         snd (snd (fst (lua_allow (rd_time r) (bc_cooldown cfg) (bc_ttl cfg) token r))) = Blocked"
proof -
  obtain s f o' where d: "decode (rd_state r) = (s, f, o')" by (metis prod_cases3)
  show ?thesis using assms d
    by (cases s) (auto simp: guarded_probe_def timing_ok_def lua_allow_def probe_or_block_def lock_free_def)
qed

lemma probe_survives_failure:
  assumes "guarded_probe cfg T r t" "open_at_threshold cfg r"
  shows "guarded_probe cfg T (snd (lua_failure (rd_time r) (bc_threshold cfg) p r)) t"
proof -
  obtain s f o' where d: "decode (rd_state r) = (s, f, o')" by (metis prod_cases3)
  have "rd_time r - 1 / 20000 \<le> cjson_num (rd_time r)"
    using cjson_num_close[of "rd_time r"] by linarith
  then show ?thesis using assms d
    by (cases s) (auto simp: guarded_probe_def open_at_threshold_def circuit_of_def failures_of_def
        lua_failure_def persist_def del_probe_def)
qed

lemma failure_at_threshold: "open_at_threshold cfg r \<Longrightarrow> open_at_threshold cfg (snd (lua_failure now (bc_threshold cfg) p r))"
  by (cases "decode (rd_state r)")
     (auto simp: open_at_threshold_def circuit_of_def failures_of_def lua_failure_def persist_def del_probe_def)

lemma success_at_threshold: "open_at_threshold cfg r \<Longrightarrow> open_at_threshold cfg (snd (lua_success p r))"
  by (cases "decode (rd_state r)")
     (auto simp: open_at_threshold_def circuit_of_def failures_of_def lua_success_def persist_def del_probe_def)

lemma allow_at_threshold: "open_at_threshold cfg r \<Longrightarrow> open_at_threshold cfg (snd (lua_allow now cd ttl token r))"
proof -
  obtain s f o' where d: "decode (rd_state r) = (s, f, o')" by (metis prod_cases3)
  show "open_at_threshold cfg r \<Longrightarrow> ?thesis" using d
    by (cases s) (auto simp: open_at_threshold_def circuit_of_def failures_of_def lua_allow_def
        probe_or_block_def persist_def)
qed

lemma success_keeps_probe: "guarded_probe cfg T r t \<Longrightarrow> snd (lua_success False r) = r"
  by (cases "decode (rd_state r)") (auto simp: guarded_probe_def lua_success_def split: circuit.splits)

lemma allow_probe_guarded:
  assumes "lua_allow (rd_time r) cd (bc_ttl cfg) token r = ((s, f, Probe), r')" "0 \<le> T"
  shows "guarded_probe cfg T r' (rd_time r)"
proof -
  obtain s f o' where d: "decode (rd_state r) = (s, f, o')" by (metis prod_cases3)
  show ?thesis using assms d
    by (cases s) (auto simp: guarded_probe_def lua_allow_def probe_or_block_def persist_def split: if_splits)
qed

lemma tick_guarded:
  "guarded_probe cfg T r t \<Longrightarrow> 0 \<le> d \<Longrightarrow> rd_time r + d \<le> t + T \<Longrightarrow>
     guarded_probe cfg T (r \<lparr> rd_time := rd_time r + d \<rparr>) t"
  by (auto simp: guarded_probe_def split: circuit.splits)

lemma fleet_inv_step:
  assumes "timing_ok cfg T" "fleet_inv cfg T w" "fleet_step cfg T w w'"
  shows "fleet_inv cfg T w'"
proof (rule fleet_stepE[OF assms(3)], goal_cases)
  case (1 i token s f v r)
  let ?r = "fl_redis w"
  have thr: "open_at_threshold cfg r"
    using allow_at_threshold[of cfg ?r] 1(3) assms(2) unfolding fleet_inv_def by (metis snd_conv)
  have none: "fl_calls w j \<noteq> Some (True, t)" for j t
  proof
    assume "fl_calls w j = Some (True, t)"
    then have "guarded_probe cfg T ?r t" using assms(2) by (auto simp: fleet_inv_def)
    then have "snd (snd (fst (lua_allow (rd_time ?r) (bc_cooldown cfg) (bc_ttl cfg) token ?r))) = Blocked"
      using probe_blocks_allow[OF assms(1)] by blast
    then show False using 1(3,4) by simp
  qed
  show ?thesis
  proof (cases "v = Probe")
    case True
    then have "guarded_probe cfg T r (rd_time ?r)"
      using allow_probe_guarded 1(3) assms(1) by (auto simp: timing_ok_def)
    then show ?thesis using none thr True by (auto simp: 1(1) fleet_inv_def)
  next
    case False
    then show ?thesis using none thr by (auto simp: 1(1) fleet_inv_def)
  qed
next
  case (2 token s f r)
  have "open_at_threshold cfg r"
    using allow_at_threshold[of cfg "fl_redis w"] 2(2) assms(2) unfolding fleet_inv_def by (metis snd_conv)
  moreover have "r = fl_redis w" if "fl_calls w i = Some (True, t)" for i t
  proof -
    have "guarded_probe cfg T (fl_redis w) t" using assms(2) that by (auto simp: fleet_inv_def)
    then have "snd (lua_allow (rd_time (fl_redis w)) (bc_cooldown cfg) (bc_ttl cfg) token (fl_redis w)) = fl_redis w"
      using probe_blocks_allow[OF assms(1)] by blast
    then show ?thesis using 2(2) by simp
  qed
  ultimately show ?thesis using assms(2) by (auto simp: 2(1) fleet_inv_def)
next
  case (3 i p t)
  have thr: "open_at_threshold cfg (snd (lua_success p (fl_redis w)))"
    using success_at_threshold assms(2) by (auto simp: fleet_inv_def)
  show ?thesis
  proof (cases p)
    case True
    then show ?thesis using assms(2) 3(2) thr by (auto simp: 3(1) fleet_inv_def)
  next
    case False
    have "snd (lua_success p (fl_redis w)) = fl_redis w" if "fl_calls w j = Some (True, u)" for j u
      using success_keeps_probe[of cfg T "fl_redis w" u] that assms(2) False by (auto simp: fleet_inv_def)
    then show ?thesis using assms(2) thr by (auto simp: 3(1) fleet_inv_def split: if_splits)
  qed
next
  case (4 i p t)
  then show ?thesis
    using assms(2) probe_survives_failure failure_at_threshold
    by (auto simp: 4(1) fleet_inv_def split: if_splits)
next
  case (5 i p t)
  then show ?thesis using assms(2) by (auto simp: 5(1) fleet_inv_def split: if_splits)
next
  case (6 d)
  have "open_at_threshold cfg ((fl_redis w) \<lparr> rd_time := rd_time (fl_redis w) + d \<rparr>)"
    using assms(2) by (simp add: fleet_inv_def open_at_threshold_def circuit_of_def failures_of_def)
  then show ?thesis using assms(2) tick_guarded 6(2,3) by (auto simp: 6(1) fleet_inv_def)
qed

lemma fleet_reach_inv:
  assumes "timing_ok cfg T" "fleet_reach cfg T w"
  shows "fleet_inv cfg T w"
proof -
  obtain w0 where w0: "fleet_init w0" "(fleet_step cfg T)\<^sup>*\<^sup>* w0 w" using assms(2) by (auto simp: fleet_reach_def)
  from w0(2) show ?thesis
  proof (induction rule: rtranclp_induct)
    case base
    then show ?case using w0(1) by (auto simp: fleet_init_def fleet_inv_def open_at_threshold_def circuit_of_def)
  next
    case (step y z)
    then show ?case using fleet_inv_step[OF assms(1)] by blast
  qed
qed

section \<open>Recovery\<close>

text \<open>A record as the scripts leave it: it was not opened in the future, and the probe lock, if any,
  expires within one lifetime of the lock.\<close>

definition record_sane :: "real \<Rightarrow> redis \<Rightarrow> bool" where
  "record_sane ttl r \<longleftrightarrow> (case decode (rd_state r) of (_, _, o') \<Rightarrow> circuit_of r = Open \<longrightarrow> o' \<le> rd_time r + 1 / 20000)
     \<and> (case rd_probe r of None \<Rightarrow> True | Some (_, expiry) \<Rightarrow> expiry \<le> rd_time r + ttl)"

lemma allow_after_wait:
  assumes "record_sane ttl r" "cooldown + 1 / 20000 \<le> d" "ttl \<le> d"
    and "lua_allow (rd_time r + d) cooldown ttl token (r \<lparr> rd_time := rd_time r + d \<rparr>) = ((s, f, v), r')"
  shows "v \<noteq> Blocked \<and> (v = Probe \<longleftrightarrow> circuit_of r \<noteq> Closed)"
proof -
  obtain s0 f0 o0 where d: "decode (rd_state r) = (s0, f0, o0)" by (metis prod_cases3)
  have "lock_free (r \<lparr> rd_time := rd_time r + d \<rparr>)"
    using assms(1,3) by (auto simp: record_sane_def lock_free_def split: option.splits)
  then show ?thesis using assms d
    by (cases s0) (auto simp: record_sane_def circuit_of_def lua_allow_def probe_or_block_def persist_def
        lock_free_def split: if_splits option.splits)
qed

lemma success_closes: "p \<or> circuit_of r = Closed \<Longrightarrow>
    rd_state (snd (lua_success p r)) = Record Closed 0 0 \<and> rd_probe (snd (lua_success p r)) = None"
  by (cases "decode (rd_state r)")
     (auto simp: lua_success_def circuit_of_def persist_def del_probe_def)

section \<open>Simultaneous callers\<close>

fun allow_all :: "breaker_config \<Rightarrow> uuid list \<Rightarrow> redis \<Rightarrow> verdict list \<times> redis" where
  "allow_all cfg [] r = ([], r)"
| "allow_all cfg (t # ts) r =
     (let ((_, _, v), r1) = lua_allow (rd_time r) (bc_cooldown cfg) (bc_ttl cfg) t r;
          (vs, r2) = allow_all cfg ts r1
      in (v # vs, r2))"

lemma allow_all_blocked:
  assumes "\<And>t. lua_allow (rd_time r) (bc_cooldown cfg) (bc_ttl cfg) t r = ((s, f, Blocked), r)"
  shows "allow_all cfg ts r = (replicate (length ts) Blocked, r)"
  by (induction ts) (simp_all add: assms)

lemma half_open_locked_blocks:
  assumes "decode (rd_state r) = (HalfOpen, f, o')" "\<not> lock_free r"
  shows "lua_allow now cd ttl t r = ((HalfOpen, f, Blocked), r)"
  using assms by (simp add: lua_allow_def probe_or_block_def)

lemma open_cooling_blocks:
  assumes "decode (rd_state r) = (Open, f, o')" "now - o' < cd"
  shows "lua_allow now cd ttl t r = ((Open, f, Blocked), r)"
  using assms by (simp add: lua_allow_def)

section \<open>Properties\<close>

definition ex_redis :: "stored \<Rightarrow> redis" where
  "ex_redis s = \<lparr> rd_state = s, rd_probe = None, rd_time = 1788184579, rd_scripts = {} \<rparr>"

definition default_breaker :: breaker_config where
  "default_breaker = \<lparr> bc_threshold = 3, bc_cooldown = 30, bc_ttl = 13 \<rparr>"

text \<open>C16. From a healthy record the circuit opens exactly when the outcomes reported so far contain a
  run of \<open>threshold\<close> failures with no success in between; until then the record holds the length
  of the current run. Failures spread among successes never add up.\<close>

theorem opens_after_consecutive_failures:
  assumes "0 < n" "decode (rd_state r) = (Closed, 0, o')"
  shows "(circuit_of (fold (report now n) xs r) = Open \<longleftrightarrow>
            (\<exists>before after. xs = before @ replicate n False @ after))
    \<and> (circuit_of (fold (report now n) xs r) = Closed \<longleftrightarrow>
            \<not> (\<exists>before after. xs = before @ replicate n False @ after))
    \<and> (circuit_of (fold (report now n) xs r) = Closed \<longrightarrow>
            failures_of (fold (report now n) xs r) = length (takeWhile Not (rev xs)))"
  using report_run[OF assms, of now xs] unfolding sublist_def streak_def by (auto split: if_splits)

theorem opens_after_consecutive_failures_witness:
  "circuit_of (fold (report 0 3) [False, False, True, False, False] (ex_redis Missing)) = Closed
   \<or> (\<exists>before after. [False, False, True, False, False] = before @ replicate 3 False @ after)"
  using opens_after_consecutive_failures[of 3 "ex_redis Missing" 0 0 "[False, False, True, False, False]"]
  by (auto simp: ex_redis_def)

text \<open>While the circuit is open and cooling down every caller is turned away and nothing
  changes. Once the cooldown has passed, of any number of callers arriving at the same moment the
  first gets the probe and all others are turned away, and the circuit is half open under a lock.\<close>

lemma one_probe_among_simultaneous_callers:
  assumes "decode (rd_state r) = (Open, f, opened_at)"
  shows "(rd_time r - opened_at < bc_cooldown cfg \<longrightarrow>
            allow_all cfg (t # ts) r = (replicate (length (t # ts)) Blocked, r))
    \<and> (rd_time r - opened_at \<ge> bc_cooldown cfg \<and> lock_free r \<and> 0 < bc_ttl cfg \<longrightarrow>
            fst (allow_all cfg (t # ts) r) = Probe # replicate (length ts) Blocked
            \<and> circuit_of (snd (allow_all cfg (t # ts) r)) = HalfOpen
            \<and> rd_probe (snd (allow_all cfg (t # ts) r)) = Some (t, rd_time r + bc_ttl cfg))"
proof (intro conjI[OF impI impI], goal_cases)
  case 1
  show ?case by (rule allow_all_blocked) (rule open_cooling_blocks[OF assms 1])
next
  case 2
  let ?r = "(persist HalfOpen f opened_at r) \<lparr> rd_probe := Some (t, rd_time r + bc_ttl cfg) \<rparr>"
  have first: "lua_allow (rd_time r) (bc_cooldown cfg) (bc_ttl cfg) t r = ((HalfOpen, f, Probe), ?r)"
    using assms 2 by (cases "rd_probe r") (auto simp: lua_allow_def probe_or_block_def lock_free_def persist_def)
  have "allow_all cfg ts ?r = (replicate (length ts) Blocked, ?r)"
    by (rule allow_all_blocked, rule half_open_locked_blocks[of _ f "cjson_num opened_at"])
       (use 2 in \<open>simp_all add: persist_def lock_free_def\<close>)
  then show ?case by (simp add: first circuit_of_def persist_def)
qed

lemma one_probe_among_simultaneous_callers_witness:
  "fst (allow_all default_breaker [''a'', ''b'', ''c''] (ex_redis (Record Open 3 1788184500))) =
     [Probe, Blocked, Blocked]"
  using one_probe_among_simultaneous_callers[of "ex_redis (Record Open 3 1788184500)" 3 1788184500
      default_breaker "''a''" "[''b'', ''c'']"]
  by (simp add: ex_redis_def default_breaker_def lock_free_def numeral_2_eq_2)

text \<open>C15. Single flight across the fleet: if every call is bounded by a timeout shorter than both the
  life of the probe lock and the cooldown (by more than the rounding of the stored time), then in
  every reachable state of any number of replicas at most one probe is in flight, whatever
  stragglers, cancellations and failures happen around it.\<close>

theorem probe_is_single_flight:
  assumes "timing_ok cfg T" "fleet_reach cfg T w"
    and "fl_calls w i = Some (True, t)" "fl_calls w j = Some (True, u)"
  shows "i = j"
  using fleet_reach_inv[OF assms(1,2)] assms(3,4) by (auto simp: fleet_inv_def)

text \<open>A state of the fleet with a probe in flight, under the default configuration (six seconds of
  timeout): three failures open the circuit, thirty seconds pass, a caller is admitted.\<close>

definition ex_fleet :: "real \<Rightarrow> redis \<Rightarrow> (nat \<Rightarrow> (bool \<times> real) option) \<Rightarrow> fleet" where
  "ex_fleet t r calls = \<lparr> fl_redis = r \<lparr> rd_time := t \<rparr>, fl_calls = calls \<rparr>"

lemma cjson_int: "cjson_num (of_int k) = of_int k"
  using round_even_of_int[of "k * 10000"] by (simp add: cjson_num_def py_round_def)

lemma cjson_numeral [simp]: "cjson_num (numeral k) = numeral k"
  using cjson_int[of "numeral k"] by simp

definition trip :: breaker_config where
  "trip = \<lparr> bc_threshold = 1, bc_cooldown = 30, bc_ttl = 13 \<rparr>"

lemma ex_fleet_reach:
  "fleet_reach trip 6 (ex_fleet 30 (\<lparr> rd_state = Record HalfOpen 1 0, rd_probe = Some (''t'', 43), rd_time = 30,
     rd_scripts = {} \<rparr>) [1 \<mapsto> (True, 30)])"
proof -
  define r0 where "r0 = \<lparr> rd_state = Missing, rd_probe = None, rd_time = (0 :: real), rd_scripts = {} \<rparr>"
  define w0 where "w0 = \<lparr> fl_redis = r0, fl_calls = Map.empty \<rparr>"
  define w1 where "w1 = w0 \<lparr> fl_redis := r0, fl_calls := (fl_calls w0)(0 \<mapsto> (False, 0)) \<rparr>"
  define r2 where "r2 = \<lparr> rd_state = Record Open 1 0, rd_probe = None, rd_time = (0 :: real), rd_scripts = {} \<rparr>"
  define w2 where "w2 = w1 \<lparr> fl_redis := r2, fl_calls := (fl_calls w1)(0 := None) \<rparr>"
  define w3 where "w3 = w2 \<lparr> fl_redis := r2 \<lparr> rd_time := 30 \<rparr> \<rparr>"
  define r4 where "r4 = \<lparr> rd_state = Record HalfOpen 1 0, rd_probe = Some (''t'', 43), rd_time = (30 :: real), rd_scripts = {} \<rparr>"
  define w4 where "w4 = w3 \<lparr> fl_redis := r4, fl_calls := (fl_calls w3)(1 \<mapsto> (True, 30)) \<rparr>"
  note defs = w0_def w1_def w2_def w3_def w4_def r0_def r2_def r4_def trip_def
  have "fleet_step trip 6 w0 w1"
    using fleet_step.admit[of w0 0 trip "''t''" Closed 0 Allowed r0 6] by (simp add: defs lua_allow_def)
  moreover have "fleet_step trip 6 w1 w2"
    using fleet_step.fail[of w1 0 False 0 trip 6] by (simp add: defs lua_failure_def persist_def del_probe_def)
  moreover have "fleet_step trip 6 w2 w3"
    using fleet_step.tick[of 30 w2 6 trip] by (simp add: defs)
  moreover have "fleet_step trip 6 w3 w4"
    using fleet_step.admit[of w3 1 trip "''t''" HalfOpen 1 Probe r4 6]
    by (simp add: defs lua_allow_def probe_or_block_def persist_def lock_free_def)
  ultimately have "(fleet_step trip 6)\<^sup>*\<^sup>* w0 w4" by (meson converse_rtranclp_into_rtranclp rtranclp.rtrancl_refl)
  moreover have "w4 = ex_fleet 30 r4 [1 \<mapsto> (True, 30)]"
    by (simp add: defs ex_fleet_def fun_eq_iff)
  ultimately show ?thesis unfolding fleet_reach_def fleet_init_def
    by (intro exI[of _ w0]) (simp add: defs)
qed

theorem probe_is_single_flight_witness:
  "(1 :: nat) = 1 \<and> timing_ok trip 6"
  using probe_is_single_flight[OF _ ex_fleet_reach, of 1 30 1 30]
  by (simp add: timing_ok_def trip_def ex_fleet_def)

text \<open>C17. The circuit never wedges and recovers: whatever the record holds, also after a replica died
  in the middle of its probe, once the cooldown and the life of the lock have passed with no
  further report the next caller is admitted (as the probe unless the circuit is closed), and if
  its call succeeds the circuit is closed with no failures and no lock.\<close>

theorem breaker_recovers:
  assumes "record_sane ttl r" "cooldown + 1 / 20000 \<le> d" "ttl \<le> d"
    and "lua_allow (rd_time r + d) cooldown ttl token (r \<lparr> rd_time := rd_time r + d \<rparr>) = ((s, f, v), r')"
  shows "v \<noteq> Blocked \<and> (v = Probe \<longleftrightarrow> circuit_of r \<noteq> Closed)
    \<and> rd_state (snd (lua_success (v = Probe) r')) = Record Closed 0 0
    \<and> rd_probe (snd (lua_success (v = Probe) r')) = None"
proof -
  note a = allow_after_wait[OF assms]
  have "v = Probe \<or> circuit_of r' = Closed"
    using a assms(4)
    by (cases "decode (rd_state r)") (auto simp: circuit_of_def lua_allow_def split: circuit.splits)
  from success_closes[OF this] a show ?thesis by (intro conjI) simp_all
qed

theorem breaker_recovers_witness:
  "rd_state (snd (lua_success True (ex_redis (Record HalfOpen 3 1788184500) \<lparr> rd_time := 1788184619,
       rd_probe := Some (''t'', 1788184632) \<rparr>))) = Record Closed 0 0"
  using breaker_recovers[of 13 "(ex_redis (Record Open 3 1788184500)) \<lparr> rd_probe := Some (''dead'', 1788184590) \<rparr>"
      30 40 "''t''" HalfOpen 3 Probe "ex_redis (Record HalfOpen 3 1788184500) \<lparr> rd_time := 1788184619,
       rd_probe := Some (''t'', 1788184632) \<rparr>"]
  by (simp add: record_sane_def ex_redis_def circuit_of_def lua_allow_def probe_or_block_def lock_free_def persist_def)

text \<open>The breaker cannot take the reply path down: with Redis out of reach every caller is let
  through, blind, every report is dropped, and nothing changes; with Redis reachable each operation
  runs its script exactly once on the shared record and answers with its verdict, whether or not
  the replica or the server still has the script cached (after a restart or \<^verbatim>\<open>SCRIPT FLUSH\<close>).\<close>

lemma breaker_fails_open_and_runs_once:
  "(let (d, rp') = allow cfg now token (rp \<lparr> rp_up := False \<rparr>)
      in d_allowed d \<and> d_blind d \<and> \<not> d_probe d \<and> rp_redis rp' = rp_redis rp)
    \<and> rp_redis (snd (record_failure cfg now p (rp \<lparr> rp_up := False \<rparr>))) = rp_redis rp
    \<and> rp_redis (snd (record_success p (rp \<lparr> rp_up := False \<rparr>))) = rp_redis rp
    \<and> (let (d, rp') = allow cfg now token (rp \<lparr> rp_up := True \<rparr>);
            ((s, _, v), r') = lua_allow now (bc_cooldown cfg) (bc_ttl cfg) token (rp_redis rp)
        in d_allowed d = (v \<noteq> Blocked) \<and> d_probe d = (v = Probe) \<and> \<not> d_blind d \<and> d_state d = s
           \<and> (\<exists>S. rp_redis rp' = r' \<lparr> rd_scripts := S \<rparr>))
    \<and> (\<exists>S. rp_redis (snd (record_failure cfg now p (rp \<lparr> rp_up := True \<rparr>))) =
          (snd (lua_failure now (bc_threshold cfg) p (rp_redis rp))) \<lparr> rd_scripts := S \<rparr>)
    \<and> (\<exists>S. rp_redis (snd (record_success p (rp \<lparr> rp_up := True \<rparr>))) =
          (snd (lua_success p (rp_redis rp))) \<lparr> rd_scripts := S \<rparr>)"
proof (intro conjI, goal_cases)
  case 4
  obtain shas S where e: "eval_script True ''allow'' (lua_allow now (bc_cooldown cfg) (bc_ttl cfg) token)
      (rp_shas rp) (rp_redis rp) =
      (Some (fst (lua_allow now (bc_cooldown cfg) (bc_ttl cfg) token (rp_redis rp))), shas,
       (snd (lua_allow now (bc_cooldown cfg) (bc_ttl cfg) token (rp_redis rp))) \<lparr> rd_scripts := S \<rparr>, 1)"
    by (rule eval_script_up[OF cache_blind_allow])
  obtain s f v r' where a: "lua_allow now (bc_cooldown cfg) (bc_ttl cfg) token (rp_redis rp) = ((s, f, v), r')"
    by (metis prod.exhaust)
  show ?case using e by (auto simp: allow_def a)
next
  case 5
  obtain shas S where e: "eval_script True ''failure'' (lua_failure now (bc_threshold cfg) p)
      (rp_shas rp) (rp_redis rp) =
      (Some (fst (lua_failure now (bc_threshold cfg) p (rp_redis rp))), shas,
       (snd (lua_failure now (bc_threshold cfg) p (rp_redis rp))) \<lparr> rd_scripts := S \<rparr>, 1)"
    by (rule eval_script_up[OF cache_blind_failure])
  show ?case using e by (auto simp: record_failure_def split: prod.splits)
next
  case 6
  obtain shas S where e: "eval_script True ''success'' (lua_success p)
      (rp_shas rp) (rp_redis rp) =
      (Some (fst (lua_success p (rp_redis rp))), shas,
       (snd (lua_success p (rp_redis rp))) \<lparr> rd_scripts := S \<rparr>, 1)"
    by (rule eval_script_up[OF cache_blind_success])
  show ?case using e by (auto simp: record_success_def Let_def split: prod.splits)
qed (simp_all add: allow_def record_failure_def record_success_def eval_script_down)

text \<open>A late success never closes an open or half-open circuit nor frees the probe's lock. A late
  failure is not treated alike: landing on a half-open circuit it reopens it and deletes the lock
  of the elected probe, and landing on an open one it restarts the cooldown.\<close>

lemma straggler_reports:
  "lua_success False (r \<lparr> rd_state := Record Open f o' \<rparr>) =
     ((Open, f, False), r \<lparr> rd_state := Record Open f o' \<rparr>)
   \<and> lua_success False (r \<lparr> rd_state := Record HalfOpen f o' \<rparr>) =
     ((HalfOpen, f, False), r \<lparr> rd_state := Record HalfOpen f o' \<rparr>)
   \<and> snd (lua_failure now n False (r \<lparr> rd_state := Record HalfOpen f o' \<rparr>)) =
     r \<lparr> rd_state := Record Open (max n (f + 1)) (cjson_num now), rd_probe := None \<rparr>
   \<and> snd (lua_failure now n False (r \<lparr> rd_state := Record Open (n + f) o' \<rparr>)) =
     r \<lparr> rd_state := Record Open (n + f + 1) (cjson_num now), rd_probe := None \<rparr>"
  by (simp add: lua_success_def lua_failure_def persist_def del_probe_def max_def)

end
