(* ===== verification/Hybrid.thy ===== *)
theory Hybrid
  imports Types
begin

text \<open>
  Hybrid retrieval (\<^verbatim>\<open>retrieve/hybrid.py\<close>): each path's raw score is put on a fixed scale, a path
  that fails contributes nothing, and the two lists are merged by memory id. The two path
  functions are parameters that answer with candidates, time out or raise. The module adds the two
  path results with the scores of each; the lemmas describe the merged dictionary id by id, and
  from that the scores, the order and the isolation of the paths.
\<close>

section \<open>Normalisation\<close>

definition ts_rank_reference :: real where "ts_rank_reference = 607927 / 10000000"

definition normalize_score :: "path \<Rightarrow> pyfloat \<Rightarrow> pyfloat" where
  "normalize_score p raw = (case p of
       Semantic \<Rightarrow> py_max (Fin 0) (py_min (Fin 1) raw)
     | Keyword \<Rightarrow> (if pf_lt (Fin 0) raw
                   then (case raw of Fin r \<Rightarrow> Fin (r / (r + ts_rank_reference)) | _ \<Rightarrow> NaN)
                   else Fin 0))"

definition normalize_one :: "path \<Rightarrow> candidate \<Rightarrow> candidate res" where
  "normalize_one p c = (case map_of (c_raw_scores c) p of
       None \<Rightarrow> Inl KeyError
     | Some raw \<Rightarrow> Inr (c \<lparr> c_path_scores := AList.update p (normalize_score p raw) (c_path_scores c),
                           c_score := normalize_score p raw \<rparr>))"

definition normalize :: "candidate list \<Rightarrow> path \<Rightarrow> candidate list res" where
  "normalize cs p = map_res (normalize_one p) cs"

section \<open>Path isolation\<close>

datatype path_outcome = Returned "candidate list" | Hangs | Raises py_exn

text \<open>\<^verbatim>\<open>_run_path\<close>: the candidates and what it writes into \<^verbatim>\<open>degraded\<close>.\<close>

definition run_path :: "path_outcome \<Rightarrow> candidate list \<times> degradation option" where
  "run_path out = (case out of
       Returned cs \<Rightarrow> (cs, None)
     | Hangs \<Rightarrow> ([], Some TimedOut)
     | Raises e \<Rightarrow> ([], Some (Raised e)))"

section \<open>The merge\<close>

definition absorb :: "candidate \<Rightarrow> candidate \<Rightarrow> candidate" where
  "absorb e c = e \<lparr> c_paths := c_paths e \<union> c_paths c,
                    c_path_scores := dict_update (c_path_scores e) (c_path_scores c),
                    c_raw_scores := dict_update (c_raw_scores e) (c_raw_scores c),
                    c_metadata := c_metadata e ++ c_metadata c \<rparr>"

definition merge_add :: "candidate \<Rightarrow> (uuid \<times> candidate) list \<Rightarrow> (uuid \<times> candidate) list" where
  "merge_add c m = (case map_of m (c_id c) of
       None \<Rightarrow> m @ [(c_id c, c)]
     | Some e \<Rightarrow> AList.update (c_id c) (absorb e c) m)"

text \<open>\<^verbatim>\<open>max(d, key=d.get)\<close>: the first key whose value no later one exceeds.\<close>

definition best_path :: "(path \<times> pyfloat) list \<Rightarrow> path" where
  "best_path d = fst (foldl (\<lambda>b x. if pf_lt (snd b) (snd x) then x else b) (hd d) (tl d))"

definition finalize :: "path list \<Rightarrow> real \<Rightarrow> candidate \<Rightarrow> candidate" where
  "finalize ps divisor c =
     (let total = foldl pf_add (Fin 0) (map (\<lambda>p. dict_get (c_path_scores c) p (Fin 0)) ps)
      in c \<lparr> c_score := pf_scale total divisor, c_path := best_path (c_path_scores c) \<rparr>)"

definition merge_key :: "candidate \<Rightarrow> real \<times> string" where
  "merge_key c = (- fin_val (c_score c), c_id c)"

definition merge_dict :: "(path \<times> candidate list) list \<Rightarrow> (uuid \<times> candidate) list" where
  "merge_dict per_path = fold (\<lambda>(_, cs) m. fold merge_add cs m) per_path []"

definition divisor_of :: "(path \<times> candidate list) list \<Rightarrow> real" where
  "divisor_of per_path =
     (let contributing = filter (\<lambda>(_, cs). cs \<noteq> []) per_path in real (max 1 (length contributing)))"

definition merge :: "(path \<times> candidate list) list \<Rightarrow> candidate list" where
  "merge per_path =
     sort_key merge_key
       (map (finalize (map fst per_path) (divisor_of per_path)) (map snd (merge_dict per_path)))"

definition hybrid_search ::
  "(query \<Rightarrow> path_outcome) \<Rightarrow> (query \<Rightarrow> path_outcome) \<Rightarrow> query \<Rightarrow> hybrid_result res" where
  "hybrid_search semantic_fn keyword_fn q =
     (if is_blank q then
        Inr \<lparr> h_candidates = [], h_degraded = [], h_path_counts = [(Semantic, 0), (Keyword, 0)] \<rparr>
      else
        (let (scs, sdeg) = run_path (semantic_fn q);
             (kcs, kdeg) = run_path (keyword_fn q)
         in bind_res (normalize scs Semantic) (\<lambda>ss.
            bind_res (normalize kcs Keyword) (\<lambda>ks.
              Inr \<lparr> h_candidates = merge [(Semantic, ss), (Keyword, ks)],
                    h_degraded = (case sdeg of None \<Rightarrow> [] | Some d \<Rightarrow> [(Semantic, d)])
                      @ (case kdeg of None \<Rightarrow> [] | Some d \<Rightarrow> [(Keyword, d)]),
                    h_path_counts = [(Semantic, length scs), (Keyword, length kcs)] \<rparr>))))"

section \<open>What a path returns\<close>

text \<open>The candidates \<^verbatim>\<open>semantic_search\<close> and \<^verbatim>\<open>keyword_search\<close> build: one row per id, tagged with
  the path, a finite raw score for that path and no normalised score yet.\<close>

definition path_row_ok :: "path \<Rightarrow> candidate \<Rightarrow> bool" where
  "path_row_ok p c \<longleftrightarrow> c_path_scores c = [] \<and> c_path c = p \<and> c_paths c = {p} \<and>
     (\<exists>r. c_raw_scores c = [(p, Fin r)])"

definition path_result_ok :: "path \<Rightarrow> candidate list \<Rightarrow> bool" where
  "path_result_ok p cs \<longleftrightarrow> (\<forall>c \<in> set cs. path_row_ok p c) \<and> distinct (map c_id cs)"

definition raw_of :: "path \<Rightarrow> candidate \<Rightarrow> real" where
  "raw_of p c = fin_val (dict_get (c_raw_scores c) p (Fin 0))"

text \<open>The normalised score as a real number, with the two formulas of the source's comment.\<close>

definition norm_real :: "path \<Rightarrow> real \<Rightarrow> real" where
  "norm_real p r = (case p of Semantic \<Rightarrow> clamp r
     | Keyword \<Rightarrow> if r > 0 then r / (r + ts_rank_reference) else 0)"

lemma normalize_score_fin: "normalize_score p (Fin r) = Fin (norm_real p r)"
  by (cases p) (auto simp: normalize_score_def norm_real_def py_max_def py_min_def clamp_def)

lemma norm_real_bounds [bounded01]: "0 \<le> norm_real p r" "norm_real p r \<le> 1"
  by (cases p; auto simp: norm_real_def clamp_bounds ts_rank_reference_def divide_le_eq)+

lemma saturating_mono: "0 < r \<Longrightarrow> r \<le> s \<Longrightarrow> 0 < k \<Longrightarrow> r / (r + k) \<le> s / (s + k)" for r s k :: real
  by (simp add: divide_simps algebra_simps mult_left_mono)

lemma norm_real_mono: "r \<le> s \<Longrightarrow> norm_real p r \<le> norm_real p s"
  using saturating_mono[of r s ts_rank_reference] norm_real_bounds[of Keyword s]
  by (cases p) (auto simp: norm_real_def clamp_mono ts_rank_reference_def)

definition normalized :: "path \<Rightarrow> candidate \<Rightarrow> candidate" where
  "normalized p c = c \<lparr> c_path_scores := [(p, Fin (norm_real p (raw_of p c)))],
                        c_score := Fin (norm_real p (raw_of p c)) \<rparr>"

lemma normalized_simps [simp]:
  "c_id (normalized p c) = c_id c" "c_paths (normalized p c) = c_paths c"
  "c_path_scores (normalized p c) = [(p, Fin (norm_real p (raw_of p c)))]"
  "c_content (normalized p c) = c_content c" "c_metadata (normalized p c) = c_metadata c"
  by (simp_all add: normalized_def)

lemma normalized_score: "c_score (normalized p c) = Fin (norm_real p (raw_of p c))"
  by (simp add: normalized_def)

lemma normalize_one_ok: "path_row_ok p c \<Longrightarrow> normalize_one p c = Inr (normalized p c)"
  by (auto simp: path_row_ok_def normalize_one_def normalized_def raw_of_def dict_get_def
      normalize_score_fin)

lemma normalize_ok: "path_result_ok p cs \<Longrightarrow> normalize cs p = Inr (map (normalized p) cs)"
  by (simp add: normalize_def path_result_ok_def map_res_total normalize_one_ok)

section \<open>The merged dictionary, id by id\<close>

definition keyed :: "candidate list \<Rightarrow> (uuid \<times> candidate) list" where
  "keyed cs = map (\<lambda>c. (c_id c, c)) cs"

definition dict_ok :: "(uuid \<times> candidate) list \<Rightarrow> bool" where
  "dict_ok m \<longleftrightarrow> distinct (map fst m) \<and> (\<forall>(i, c) \<in> set m. c_id c = i)"

definition combine :: "candidate option \<Rightarrow> candidate option \<Rightarrow> candidate option" where
  "combine a b = (case a of None \<Rightarrow> b | Some e \<Rightarrow> (case b of None \<Rightarrow> Some e | Some c \<Rightarrow> Some (absorb e c)))"

lemma absorb_id [simp]: "c_id (absorb e c) = c_id e"
  by (simp add: absorb_def)

lemma merge_add_map_of:
  "map_of (merge_add c m) i = (if i = c_id c then combine (map_of m i) (Some c) else map_of m i)"
  by (auto simp: merge_add_def combine_def update_conv' map_of_append map_add_def split: option.splits)

lemma merge_add_ok: "dict_ok m \<Longrightarrow> dict_ok (merge_add c m)"
proof (cases "map_of m (c_id c)")
  case None
  assume "dict_ok m"
  with None show ?thesis
    by (auto simp: dict_ok_def merge_add_def)
next
  case (Some e)
  assume ok: "dict_ok m"
  then have "distinct (map fst (AList.update (c_id c) (absorb e c) m))"
    by (simp add: dict_ok_def distinct_update)
  moreover have e: "c_id e = c_id c" using ok Some by (auto simp: dict_ok_def dest: map_of_SomeD)
  have "c_id d = i" if "(i, d) \<in> set (AList.update (c_id c) (absorb e c) m)" for i d
  proof -
    have "map_of (AList.update (c_id c) (absorb e c) m) i = Some d"
      using calculation that by (rule map_of_is_SomeI)
    then show ?thesis
      using ok e by (auto simp: update_conv' dict_ok_def dest: map_of_SomeD split: if_splits)
  qed
  ultimately show ?thesis by (auto simp: dict_ok_def merge_add_def Some)
qed

lemma fold_merge_add_ok: "dict_ok m \<Longrightarrow> dict_ok (fold merge_add cs m)"
  by (induction cs arbitrary: m) (simp_all add: merge_add_ok)

lemma fold_merge_add_map_of:
  "distinct (map c_id cs) \<Longrightarrow>
     map_of (fold merge_add cs m) i = combine (map_of m i) (map_of (keyed cs) i)"
proof (induction cs arbitrary: m)
  case (Cons c cs)
  have "map_of (keyed cs) (c_id c) = None"
    using Cons.prems by (auto simp: keyed_def map_of_eq_None_iff)
  then show ?case
    using Cons by (auto simp: merge_add_map_of keyed_def combine_def split: option.splits)
qed (simp add: keyed_def combine_def split: option.splits)

lemma merge_dict_ok: "dict_ok (merge_dict [(p, ss), (q, ks)])"
  unfolding merge_dict_def by (simp add: fold_merge_add_ok dict_ok_def[of "[]"])

lemma merge_dict_map_of:
  assumes "distinct (map c_id ss)" "distinct (map c_id ks)"
  shows "map_of (merge_dict [(p, ss), (q, ks)]) i = combine (map_of (keyed ss) i) (map_of (keyed ks) i)"
  using assms by (simp add: merge_dict_def fold_merge_add_map_of combine_def)

section \<open>The merged candidates\<close>

definition found_in :: "candidate list \<Rightarrow> uuid \<Rightarrow> bool" where
  "found_in cs i \<longleftrightarrow> i \<in> set (map c_id cs)"

text \<open>What a path contributes to the score of an id: its normalised score, or 0 where it is absent.\<close>

definition contribution :: "path \<Rightarrow> candidate list \<Rightarrow> uuid \<Rightarrow> real" where
  "contribution p cs i = (case map_of (keyed cs) i of None \<Rightarrow> 0 | Some c \<Rightarrow> norm_real p (raw_of p c))"

definition contributing :: "candidate list \<Rightarrow> candidate list \<Rightarrow> real" where
  "contributing scs kcs = (if scs \<noteq> [] \<and> kcs \<noteq> [] then 2 else 1)"

lemma contribution_bounds [bounded01]: "0 \<le> contribution p cs i" "contribution p cs i \<le> 1"
  by (auto simp: contribution_def norm_real_bounds split: option.splits)

lemma map_of_keyed_map: "map_of (keyed (map (normalized p) cs)) i = map_option (normalized p) (map_of (keyed cs) i)"
  by (induction cs) (auto simp: keyed_def)

lemma keyed_Some: "map_of (keyed cs) i = Some c \<Longrightarrow> c \<in> set cs \<and> c_id c = i"
  by (auto simp: keyed_def dest!: map_of_SomeD)

lemma keyed_None: "map_of (keyed cs) i = None \<longleftrightarrow> \<not> found_in cs i"
  by (auto simp: keyed_def found_in_def map_of_eq_None_iff image_image)

lemma divisor_eq: "divisor_of [(Semantic, map f scs), (Keyword, map g kcs)] = contributing scs kcs"
  by (auto simp: divisor_of_def contributing_def)

definition final_of :: "candidate list \<Rightarrow> candidate list \<Rightarrow> candidate \<Rightarrow> candidate" where
  "final_of scs kcs = finalize [Semantic, Keyword] (contributing scs kcs)"

lemma paths_found:
  "{p. found_in (case p of Semantic \<Rightarrow> scs | Keyword \<Rightarrow> kcs) i} =
     (if found_in scs i then {Semantic} else {}) \<union> (if found_in kcs i then {Keyword} else {})"
proof (rule set_eqI)
  fix p show "p \<in> {p. found_in (case p of Semantic \<Rightarrow> scs | Keyword \<Rightarrow> kcs) i} \<longleftrightarrow>
    p \<in> (if found_in scs i then {Semantic} else {}) \<union> (if found_in kcs i then {Keyword} else {})"
    by (cases p) auto
qed

lemma final_of_both:
  assumes "path_row_ok Semantic a" "path_row_ok Keyword b"
  shows "c_id (final_of scs kcs (absorb (normalized Semantic a) (normalized Keyword b))) = c_id a"
    "c_score (final_of scs kcs (absorb (normalized Semantic a) (normalized Keyword b))) =
      Fin ((norm_real Semantic (raw_of Semantic a) + norm_real Keyword (raw_of Keyword b)) / contributing scs kcs)"
    "c_paths (final_of scs kcs (absorb (normalized Semantic a) (normalized Keyword b))) = {Semantic, Keyword}"
    "c_path (final_of scs kcs (absorb (normalized Semantic a) (normalized Keyword b))) =
      (if norm_real Keyword (raw_of Keyword b) \<le> norm_real Semantic (raw_of Semantic a) then Semantic else Keyword)"
  using assms
  by (simp_all add: final_of_def finalize_def absorb_def dict_update_def dict_get_def best_path_def
      path_row_ok_def insert_commute)

lemma final_of_one:
  assumes "path_row_ok p a"
  shows "c_id (final_of scs kcs (normalized p a)) = c_id a"
    "c_score (final_of scs kcs (normalized p a)) = Fin (norm_real p (raw_of p a) / contributing scs kcs)"
    "c_paths (final_of scs kcs (normalized p a)) = {p}"
    "c_path (final_of scs kcs (normalized p a)) = p"
  using assms
  by (cases p; simp add: final_of_def finalize_def dict_get_def best_path_def path_row_ok_def)+

text \<open>The four cases of the merged entry of an id.\<close>

lemma final_of_cases:
  assumes "path_result_ok Semantic scs" "path_result_ok Keyword kcs"
    and "combine (map_option (normalized Semantic) (map_of (keyed scs) i))
           (map_option (normalized Keyword) (map_of (keyed kcs) i)) = Some c"
  shows "c_id (final_of scs kcs c) = i
    \<and> c_score (final_of scs kcs c) =
        Fin ((contribution Semantic scs i + contribution Keyword kcs i) / contributing scs kcs)
    \<and> c_paths (final_of scs kcs c) =
        {p. found_in (case p of Semantic \<Rightarrow> scs | Keyword \<Rightarrow> kcs) i}
    \<and> c_path (final_of scs kcs c) =
        (if found_in scs i \<and> (\<not> found_in kcs i \<or> contribution Keyword kcs i \<le> contribution Semantic scs i)
         then Semantic else Keyword)"
proof -
  have row: "path_row_ok Semantic a \<and> c_id a = i" if "map_of (keyed scs) i = Some a" for a
    using assms(1) keyed_Some[OF that] by (simp add: path_result_ok_def)
  have row': "path_row_ok Keyword a \<and> c_id a = i" if "map_of (keyed kcs) i = Some a" for a
    using assms(2) keyed_Some[OF that] by (simp add: path_result_ok_def)
  have "map_of (keyed scs) i \<noteq> None \<or> map_of (keyed kcs) i \<noteq> None"
    using assms(3) by (auto simp: combine_def split: option.splits)
  then consider (both) a b where "map_of (keyed scs) i = Some a" "map_of (keyed kcs) i = Some b"
    | (sem) a where "map_of (keyed scs) i = Some a" "map_of (keyed kcs) i = None"
    | (kw) b where "map_of (keyed scs) i = None" "map_of (keyed kcs) i = Some b"
    by (cases "map_of (keyed scs) i"; cases "map_of (keyed kcs) i") auto
  then show ?thesis
  proof cases
    case both
    have f: "found_in scs i" "found_in kcs i" using both keyed_None by (metis option.distinct(1))+
    have "c = absorb (normalized Semantic a) (normalized Keyword b)"
      using assms(3) by (simp add: both combine_def)
    then show ?thesis
      using row[OF both(1)] row'[OF both(2)]
      by (simp add: paths_found f both contribution_def final_of_both insert_commute)
  next
    case sem
    have f: "found_in scs i" "\<not> found_in kcs i" using sem keyed_None by (metis option.distinct(1))+
    have "c = normalized Semantic a" using assms(3) by (simp add: sem combine_def)
    then show ?thesis
      using row[OF sem(1)] by (simp add: paths_found f sem contribution_def final_of_one)
  next
    case kw
    have f: "\<not> found_in scs i" "found_in kcs i" using kw keyed_None by (metis option.distinct(1))+
    have "c = normalized Keyword b" using assms(3) by (simp add: kw combine_def)
    then show ?thesis
      using row'[OF kw(2)] by (simp add: paths_found f kw contribution_def final_of_one)
  qed
qed

definition merged :: "candidate list \<Rightarrow> candidate list \<Rightarrow> candidate list" where
  "merged scs kcs = merge [(Semantic, map (normalized Semantic) scs), (Keyword, map (normalized Keyword) kcs)]"

lemma merged_mem:
  assumes "path_result_ok Semantic scs" "path_result_ok Keyword kcs"
  shows "set (merged scs kcs) = {final_of scs kcs c | c i.
     combine (map_option (normalized Semantic) (map_of (keyed scs) i))
           (map_option (normalized Keyword) (map_of (keyed kcs) i)) = Some c}"
proof -
  let ?m = "merge_dict [(Semantic, map (normalized Semantic) scs), (Keyword, map (normalized Keyword) kcs)]"
  have d: "distinct (map fst ?m)" using merge_dict_ok by (auto simp: dict_ok_def)
  have "distinct (map c_id (map (normalized Semantic) scs))" "distinct (map c_id (map (normalized Keyword) kcs))"
    using assms by (simp_all add: path_result_ok_def comp_def)
  note mo = merge_dict_map_of[OF this, unfolded map_of_keyed_map]
  have "set (merged scs kcs) = final_of scs kcs ` snd ` set ?m"
    by (simp add: merged_def merge_def final_of_def divisor_eq image_image)
  also have "\<dots> = {final_of scs kcs c | c i. map_of ?m i = Some c}"
    using d by (force simp: image_iff dest: map_of_SomeD)
  finally show ?thesis by (simp add: mo)
qed

lemma merged_ids_distinct:
  assumes "path_result_ok Semantic scs" "path_result_ok Keyword kcs"
  shows "distinct (map c_id (merged scs kcs))"
proof -
  let ?m = "merge_dict [(Semantic, map (normalized Semantic) scs), (Keyword, map (normalized Keyword) kcs)]"
  have ok: "dict_ok ?m" by (rule merge_dict_ok)
  have "map c_id (map (finalize ps d) (map snd ?m)) = map fst ?m" for ps d
    using ok by (auto simp: dict_ok_def finalize_def)
  then have "distinct (map c_id (map (finalize ps d) (map snd ?m)))" for ps d
    using ok by (simp add: dict_ok_def del: map_map)
  then show ?thesis
    by (simp add: merged_def merge_def distinct_map del: map_map)
qed

lemma merged_score:
  assumes "path_result_ok Semantic scs" "path_result_ok Keyword kcs" "c \<in> set (merged scs kcs)"
  shows "c_score c = Fin ((contribution Semantic scs (c_id c) + contribution Keyword kcs (c_id c))
           / contributing scs kcs)
    \<and> c_paths c = {p. found_in (case p of Semantic \<Rightarrow> scs | Keyword \<Rightarrow> kcs) (c_id c)}
    \<and> c_path c = (if found_in scs (c_id c) \<and> (\<not> found_in kcs (c_id c) \<or>
          contribution Keyword kcs (c_id c) \<le> contribution Semantic scs (c_id c))
         then Semantic else Keyword)"
  using assms final_of_cases[OF assms(1,2)] by (auto simp: merged_mem)

lemma merged_ids:
  assumes "path_result_ok Semantic scs" "path_result_ok Keyword kcs"
  shows "c_id ` set (merged scs kcs) = {i. found_in scs i \<or> found_in kcs i}"
proof (rule set_eqI)
  fix i
  have "i \<in> c_id ` set (merged scs kcs) \<longleftrightarrow>
      (\<exists>c. combine (map_option (normalized Semantic) (map_of (keyed scs) i))
           (map_option (normalized Keyword) (map_of (keyed kcs) i)) = Some c)"
    using final_of_cases[OF assms] by (fastforce simp: merged_mem[OF assms] image_iff)
  also have "\<dots> \<longleftrightarrow> found_in scs i \<or> found_in kcs i"
    using keyed_None[of scs i] keyed_None[of kcs i]
    by (cases "map_of (keyed scs) i"; cases "map_of (keyed kcs) i") (auto simp: combine_def)
  finally show "i \<in> c_id ` set (merged scs kcs) \<longleftrightarrow> i \<in> {i. found_in scs i \<or> found_in kcs i}" by simp
qed

lemma merged_sorted: "sorted (map merge_key (merged scs kcs))"
  by (simp add: merged_def merge_def)

lemma contribution_absent: "\<not> found_in cs i \<Longrightarrow> contribution p cs i = 0"
  using keyed_None[of cs i] by (simp add: contribution_def)

lemma contribution_empty [simp]: "contribution p [] i = 0" "\<not> found_in [] i"
  by (simp_all add: contribution_def keyed_def found_in_def)

lemma mean_bounds:
  "0 \<le> (contribution Semantic scs i + contribution Keyword kcs i) / contributing scs kcs"
  "(contribution Semantic scs i + contribution Keyword kcs i) / contributing scs kcs \<le> 1"
  using contribution_bounds[of Semantic scs i] contribution_bounds[of Keyword kcs i]
  by (auto simp: contributing_def)

text \<open>What the code treats as the two paths' answers: a path that hangs or raises answers with
  nothing.\<close>

definition answer :: "path_outcome \<Rightarrow> candidate list" where
  "answer out = fst (run_path out)"

lemma hybrid_search_ok:
  assumes "\<not> is_blank q" "path_result_ok Semantic (answer (sem q))" "path_result_ok Keyword (answer (kw q))"
  shows "hybrid_search sem kw q = Inr \<lparr>
      h_candidates = merged (answer (sem q)) (answer (kw q)),
      h_degraded = (case snd (run_path (sem q)) of None \<Rightarrow> [] | Some d \<Rightarrow> [(Semantic, d)])
        @ (case snd (run_path (kw q)) of None \<Rightarrow> [] | Some d \<Rightarrow> [(Keyword, d)]),
      h_path_counts = [(Semantic, length (answer (sem q))), (Keyword, length (answer (kw q)))] \<rparr>"
  using assms
  by (simp add: hybrid_search_def answer_def merged_def normalize_ok case_prod_unfold Let_def)

text \<open>With only one path answering the merge leaves the candidates as they are, sorted.\<close>

lemma fold_merge_add_new:
  "distinct (map c_id cs) \<Longrightarrow> fst ` set m \<inter> c_id ` set cs = {} \<Longrightarrow>
     fold merge_add cs m = m @ keyed cs"
proof (induction cs arbitrary: m)
  case (Cons c cs)
  then have "map_of m (c_id c) = None" by (auto simp: map_of_eq_None_iff)
  then have "merge_add c m = m @ [(c_id c, c)]" by (simp add: merge_add_def)
  then show ?case using Cons.IH[of "m @ [(c_id c, c)]"] Cons.prems by (auto simp: keyed_def)
qed (simp add: keyed_def)

lemma finalize_one: "path_row_ok p c \<Longrightarrow> finalize [Semantic, Keyword] 1 (normalized p c) = normalized p c"
  by (cases p)
     (auto simp: path_row_ok_def finalize_def normalized_def dict_get_def best_path_def)

lemma merge_single:
  assumes "path_result_ok p cs"
  shows "sort_key merge_key (map (finalize [Semantic, Keyword] 1) (map snd (fold merge_add (map (normalized p) cs) []))) =
    sort_key merge_key (map (normalized p) cs)"
proof -
  have "fold merge_add (map (normalized p) cs) [] = keyed (map (normalized p) cs)"
    using assms by (subst fold_merge_add_new) (auto simp: path_result_ok_def comp_def)
  moreover have "map (finalize [Semantic, Keyword] 1) (map (normalized p) cs) = map (normalized p) cs"
    using assms by (simp add: path_result_ok_def finalize_one)
  moreover have "map snd (keyed xs) = xs" for xs by (simp add: keyed_def comp_def)
  ultimately show ?thesis by metis
qed

lemma merged_single:
  "path_result_ok Keyword kcs \<Longrightarrow> merged [] kcs = sort_key merge_key (map (normalized Keyword) kcs)"
  "path_result_ok Semantic scs \<Longrightarrow> merged scs [] = sort_key merge_key (map (normalized Semantic) scs)"
  using merge_single[of Keyword kcs] merge_single[of Semantic scs]
  by (auto simp: merged_def merge_def merge_dict_def divisor_of_def)

section \<open>Properties\<close>

definition ex_query :: query where
  "ex_query = \<lparr> q_text = ''tiles'', q_subject = ''s'', q_actor = ''s'',
                q_semantic_top_k = None, q_keyword_top_k = None \<rparr>"

definition ex_row :: "path \<Rightarrow> uuid \<Rightarrow> real \<Rightarrow> candidate" where
  "ex_row p i r = \<lparr> c_id = i, c_content = i, c_score = Fin r, c_path = p, c_paths = {p},
     c_path_scores = [], c_raw_scores = [(p, Fin r)], c_metadata = Map.empty \<rparr>"

lemma ex_row_simps [simp]: "c_id (ex_row p i r) = i" "path_row_ok p (ex_row p i r)" "raw_of p (ex_row p i r) = r"
  by (simp_all add: ex_row_def path_row_ok_def raw_of_def dict_get_def)

lemma ex_query_not_blank: "\<not> is_blank ex_query"
  by (simp add: is_blank_def ex_query_def strip_Nil_iff py_space_def)

lemma path_result_ok_simps [simp]:
  "path_result_ok p []"
  "path_result_ok p (c # cs) \<longleftrightarrow> path_row_ok p c \<and> c_id c \<notin> c_id ` set cs \<and> path_result_ok p cs"
  by (auto simp: path_result_ok_def)

text \<open>C13. The merge is a union by id: for two paths that answer as the repository's paths do, the
  hybrid search returns every id either path found, once, in order of falling score and then id;
  the score of an id is the sum of its two normalised path scores (0 where a path is silent)
  divided by the number of paths that answered, and lies in the unit interval; the tags say which
  paths found it, and the strongest one.\<close>

theorem hybrid_search_merges:
  assumes "\<not> is_blank q" "path_result_ok Semantic (answer (sem q))" "path_result_ok Keyword (answer (kw q))"
  shows "\<exists>h. hybrid_search sem kw q = Inr h
    \<and> distinct (map c_id (h_candidates h))
    \<and> c_id ` set (h_candidates h) = {i. found_in (answer (sem q)) i \<or> found_in (answer (kw q)) i}
    \<and> sorted (map merge_key (h_candidates h))
    \<and> (\<forall>c \<in> set (h_candidates h).
         c_score c = Fin ((contribution Semantic (answer (sem q)) (c_id c)
             + contribution Keyword (answer (kw q)) (c_id c)) / contributing (answer (sem q)) (answer (kw q)))
         \<and> 0 \<le> fin_val (c_score c) \<and> fin_val (c_score c) \<le> 1
         \<and> c_paths c = {p. found_in (answer (case p of Semantic \<Rightarrow> sem q | Keyword \<Rightarrow> kw q)) (c_id c)}
         \<and> c_path c \<in> c_paths c)"
proof -
  let ?s = "answer (sem q)" and ?k = "answer (kw q)"
  have "c_score c = Fin ((contribution Semantic ?s (c_id c) + contribution Keyword ?k (c_id c)) / contributing ?s ?k)
       \<and> 0 \<le> fin_val (c_score c) \<and> fin_val (c_score c) \<le> 1
       \<and> c_paths c = {p. found_in (answer (case p of Semantic \<Rightarrow> sem q | Keyword \<Rightarrow> kw q)) (c_id c)}
       \<and> c_path c \<in> c_paths c"
    if c: "c \<in> set (merged ?s ?k)" for c
  proof -
    note m = merged_score[OF assms(2,3) c]
    have f: "found_in ?s (c_id c) \<or> found_in ?k (c_id c)"
      using merged_ids[OF assms(2,3)] c by blast
    have a: "answer (case p of Semantic \<Rightarrow> sem q | Keyword \<Rightarrow> kw q) =
        (case p of Semantic \<Rightarrow> ?s | Keyword \<Rightarrow> ?k)" for p
      by (cases p) auto
    show ?thesis using m f mean_bounds by (auto simp: a paths_found)
  qed
  note cand = this
  obtain h where h: "hybrid_search sem kw q = Inr h" "h_candidates h = merged ?s ?k"
    by (simp add: hybrid_search_ok[of q sem kw, OF assms])
  show ?thesis
    using h(1) cand merged_ids_distinct[OF assms(2,3)] merged_ids[OF assms(2,3)] merged_sorted[of ?s ?k]
    unfolding h(2)[symmetric] by blast
qed

theorem hybrid_search_merges_witness:
  "\<exists>h. hybrid_search (\<lambda>_. Returned [ex_row Semantic ''a'' (1 / 2), ex_row Semantic ''b'' (3 / 4)])
          (\<lambda>_. Returned [ex_row Keyword ''a'' (607927 / 10000000)]) ex_query = Inr h
     \<and> c_id ` set (h_candidates h) = {''a'', ''b''} \<and> sorted (map merge_key (h_candidates h))"
  using hybrid_search_merges[of ex_query
      "\<lambda>_. Returned [ex_row Semantic ''a'' (1 / 2), ex_row Semantic ''b'' (3 / 4)]"
      "\<lambda>_. Returned [ex_row Keyword ''a'' (607927 / 10000000)]"]
  by (auto simp: ex_query_not_blank answer_def run_path_def found_in_def)

text \<open>One path failing costs nothing but that path: when the semantic path times out or raises,
  the search still returns, with the keyword path's candidates ordered by their own normalised
  scores and the failure recorded; symmetrically for the keyword path. A blank query calls neither
  path.\<close>

lemma hybrid_search_isolates_paths:
  assumes "path_result_ok Semantic scs" "path_result_ok Keyword kcs"
    and "\<not> is_blank q" "is_blank b" "fails = Hangs \<or> fails = Raises e"
  shows "hybrid_search (\<lambda>_. fails) (\<lambda>_. Returned kcs) q = Inr \<lparr>
            h_candidates = sort_key merge_key (map (normalized Keyword) kcs),
            h_degraded = [(Semantic, if fails = Hangs then TimedOut else Raised e)],
            h_path_counts = [(Semantic, 0), (Keyword, length kcs)] \<rparr>
       \<and> hybrid_search (\<lambda>_. Returned scs) (\<lambda>_. fails) q = Inr \<lparr>
            h_candidates = sort_key merge_key (map (normalized Semantic) scs),
            h_degraded = [(Keyword, if fails = Hangs then TimedOut else Raised e)],
            h_path_counts = [(Semantic, length scs), (Keyword, 0)] \<rparr>
       \<and> hybrid_search sem kw b = Inr \<lparr> h_candidates = [], h_degraded = [],
            h_path_counts = [(Semantic, 0), (Keyword, 0)] \<rparr>"
proof (intro conjI)
  have f: "answer fails = []" "snd (run_path fails) = Some (if fails = Hangs then TimedOut else Raised e)"
    using assms(5) by (auto simp: answer_def run_path_def)
  have r: "answer (Returned cs) = cs" "snd (run_path (Returned cs)) = None" for cs
    by (simp_all add: answer_def run_path_def)
  show "hybrid_search (\<lambda>_. fails) (\<lambda>_. Returned kcs) q = Inr \<lparr>
            h_candidates = sort_key merge_key (map (normalized Keyword) kcs),
            h_degraded = [(Semantic, if fails = Hangs then TimedOut else Raised e)],
            h_path_counts = [(Semantic, 0), (Keyword, length kcs)] \<rparr>"
    using assms(2,3) by (subst hybrid_search_ok) (simp_all add: f r merged_single)
  show "hybrid_search (\<lambda>_. Returned scs) (\<lambda>_. fails) q = Inr \<lparr>
            h_candidates = sort_key merge_key (map (normalized Semantic) scs),
            h_degraded = [(Keyword, if fails = Hangs then TimedOut else Raised e)],
            h_path_counts = [(Semantic, length scs), (Keyword, 0)] \<rparr>"
    using assms(1,3) by (subst hybrid_search_ok) (simp_all add: f r merged_single)
  show "hybrid_search sem kw b = Inr \<lparr> h_candidates = [], h_degraded = [],
            h_path_counts = [(Semantic, 0), (Keyword, 0)] \<rparr>"
    using assms(4) by (simp add: hybrid_search_def)
qed

lemma hybrid_search_isolates_paths_witness:
  "map c_id (sort_key merge_key (map (normalized Keyword) [ex_row Keyword ''a'' 0, ex_row Keyword ''b'' 1])) = [''b'', ''a'']
   \<and> hybrid_search (\<lambda>_. Hangs) (\<lambda>_. Returned [ex_row Keyword ''a'' 0, ex_row Keyword ''b'' 1]) ex_query =
      Inr \<lparr> h_candidates = sort_key merge_key (map (normalized Keyword) [ex_row Keyword ''a'' 0, ex_row Keyword ''b'' 1]),
            h_degraded = [(Semantic, TimedOut)], h_path_counts = [(Semantic, 0), (Keyword, 2)] \<rparr>"
  using hybrid_search_isolates_paths[of "[ex_row Semantic ''a'' 1]"
      "[ex_row Keyword ''a'' 0, ex_row Keyword ''b'' 1]" ex_query "ex_query \<lparr> q_text := [] \<rparr>" Hangs KeyError]
    ex_query_not_blank
  by (simp add: is_blank_def strip_Nil_iff merge_key_def norm_real_def ts_rank_reference_def
      normalized_score numeral_2_eq_2)

text \<open>The raw similarity of a semantic row can be NaN (the cosine distance to a zero vector is);
  Python's \<^verbatim>\<open>min\<close> and \<^verbatim>\<open>max\<close> then keep their first argument, so such a row gets the best possible
  semantic score, while a keyword row with a NaN rank gets the worst. And neither transform is
  strictly monotonic, as the comment says: all negative similarities become 0.\<close>

lemma normalize_nan_is_best:
  "normalize_score Semantic NaN = Fin 1 \<and> normalize_score Keyword NaN = Fin 0
   \<and> normalize_score Semantic (Fin (- 1)) = normalize_score Semantic (Fin (- 1 / 2))"
  by (auto simp: normalize_score_def py_min_def py_max_def)

end
