(* ===== verification/Guarded.thy ===== *)
theory Guarded
  imports Breaker Hybrid
begin

text \<open>
  Retrieval behind the timeout and the breaker (\<^verbatim>\<open>retrieve/guarded.py\<close>). What the guarded call needs
  of a circuit breaker is the locale \<open>circuit_breaker\<close>; its lemmas say what a guarded call does to
  the circuit. The replica's handle of theory Breaker is the interpretation.
\<close>

section \<open>The guarded call\<close>

datatype reason = Open_circuit | Timeout | Error | All_paths_degraded

text \<open>How the search ends within the budget: with a result, not at all, with an exception, or because
  the caller went away.\<close>

datatype search_end = Answers hybrid_result | Exceeds | Throws py_exn | Cancelled

datatype guarded = Retrieved hybrid_result | Unavailable reason circuit | Propagates_cancel

definition total_failure :: "hybrid_result \<Rightarrow> bool" where
  "total_failure result =
     (let attempted = fst ` set (h_path_counts result)
      in if attempted = {} \<or> h_degraded result = [] then False
         else attempted \<subseteq> fst ` set (h_degraded result))"

text \<open>\<^verbatim>\<open>guarded_hybrid_search\<close>, over the three operations of a breaker.\<close>

definition guarded_with ::
  "('s \<Rightarrow> decision \<times> 's) \<Rightarrow> (bool \<Rightarrow> 's \<Rightarrow> breaker_state \<times> 's) \<Rightarrow> (bool \<Rightarrow> 's \<Rightarrow> breaker_state \<times> 's) \<Rightarrow>
     (query \<Rightarrow> search_end) \<Rightarrow> query \<Rightarrow> 's \<Rightarrow> guarded \<times> 's" where
  "guarded_with alw fail succ search q s =
     (let (d, s1) = alw s in
      if \<not> d_allowed d then (Unavailable Open_circuit (d_state d), s1)
      else case search q of
          Exceeds \<Rightarrow> (let (b, s2) = fail (d_probe d) s1 in (Unavailable Timeout (s_circuit b), s2))
        | Cancelled \<Rightarrow> (Propagates_cancel, s1)
        | Throws e \<Rightarrow> (let (b, s2) = fail (d_probe d) s1 in (Unavailable Error (s_circuit b), s2))
        | Answers result \<Rightarrow>
            if total_failure result
            then (let (b, s2) = fail (d_probe d) s1 in (Unavailable All_paths_degraded (s_circuit b), s2))
            else (let (_, s2) = succ (d_probe d) s1 in (Retrieved result, s2)))"

definition guarded_hybrid_search ::
  "breaker_config \<Rightarrow> real \<Rightarrow> real \<Rightarrow> uuid \<Rightarrow> (query \<Rightarrow> search_end) \<Rightarrow> query \<Rightarrow> replica \<Rightarrow> guarded \<times> replica" where
  "guarded_hybrid_search cfg t_start t_end token search q rp =
     guarded_with (allow cfg t_start token) (record_failure cfg t_end) record_success search q rp"

section \<open>The contract of a breaker\<close>

text \<open>\<open>up\<close>: the bookkeeping is reachable; \<open>view\<close>: the circuit as every replica reads it.\<close>

locale circuit_breaker =
  fixes alw :: "'s \<Rightarrow> decision \<times> 's"
    and fail succ :: "bool \<Rightarrow> 's \<Rightarrow> breaker_state \<times> 's"
    and up :: "'s \<Rightarrow> bool"
    and view :: "'s \<Rightarrow> circuit"
  assumes up_stays: "up (snd (alw s)) = up s"
    and down_allows: "\<not> up s \<Longrightarrow> d_allowed (fst (alw s))"
    and blocked_not_closed: "\<not> d_allowed (fst (alw s)) \<Longrightarrow> view (snd (alw s)) \<noteq> Closed"
    and ordinary_closed: "up s \<Longrightarrow> d_allowed (fst (alw s)) \<Longrightarrow> \<not> d_probe (fst (alw s)) \<Longrightarrow>
          view (snd (alw s)) = Closed"
    and closed_allows: "up s \<Longrightarrow> view s = Closed \<Longrightarrow> d_allowed (fst (alw s)) \<and> view (snd (alw s)) = Closed"
    and success_closes: "up s \<Longrightarrow> p \<or> view s = Closed \<Longrightarrow> view (snd (succ p s)) = Closed"
    and probe_failure_opens: "up s \<Longrightarrow> view (snd (fail True s)) = Open"
    and failure_reported: "up s \<Longrightarrow> s_circuit (fst (fail p s)) = view (snd (fail p s))"
begin

lemma blocked_call_is_not_made:
  "\<not> d_allowed (fst (alw s)) \<Longrightarrow>
     guarded_with alw fail succ search q s = (Unavailable Open_circuit (d_state (fst (alw s))), snd (alw s))"
  by (simp add: guarded_with_def case_prod_unfold Let_def)

lemma down_makes_the_call:
  assumes "\<not> up s"
  shows "guarded_with alw fail succ search q s = (case search q of
      Answers h \<Rightarrow> if total_failure h
        then (Unavailable All_paths_degraded (s_circuit (fst (fail (d_probe (fst (alw s))) (snd (alw s))))),
              snd (fail (d_probe (fst (alw s))) (snd (alw s))))
        else (Retrieved h, snd (succ (d_probe (fst (alw s))) (snd (alw s))))
    | Exceeds \<Rightarrow> (Unavailable Timeout (s_circuit (fst (fail (d_probe (fst (alw s))) (snd (alw s))))),
              snd (fail (d_probe (fst (alw s))) (snd (alw s))))
    | Throws e \<Rightarrow> (Unavailable Error (s_circuit (fst (fail (d_probe (fst (alw s))) (snd (alw s))))),
              snd (fail (d_probe (fst (alw s))) (snd (alw s))))
    | Cancelled \<Rightarrow> (Propagates_cancel, snd (alw s)))"
  using down_allows[OF assms] by (simp add: guarded_with_def case_prod_unfold Let_def split: search_end.splits)

lemma retrieved_closes:
  assumes "up s" "guarded_with alw fail succ search q s = (Retrieved h, s')"
  shows "view s' = Closed"
proof -
  have a: "d_allowed (fst (alw s))"
    using assms(2) by (auto simp: guarded_with_def case_prod_unfold Let_def split: if_splits)
  have s': "s' = snd (succ (d_probe (fst (alw s))) (snd (alw s)))"
    using assms(2) a
    by (auto simp: guarded_with_def case_prod_unfold Let_def split: search_end.splits if_splits)
  have "d_probe (fst (alw s)) \<or> view (snd (alw s)) = Closed" using ordinary_closed[OF assms(1) a] by blast
  then show ?thesis unfolding s' using success_closes up_stays assms(1) by blast
qed

lemma failed_probe_opens:
  assumes "up s" "d_probe (fst (alw s))" "d_allowed (fst (alw s))"
    and "guarded_with alw fail succ search q s = (Unavailable why c, s')"
  shows "view s' = Open \<and> c = Open"
proof -
  have "s' = snd (fail True (snd (alw s)))" "c = s_circuit (fst (fail True (snd (alw s))))"
    using assms(2-4)
    by (auto simp: guarded_with_def case_prod_unfold Let_def split: search_end.splits if_splits)
  then show ?thesis using probe_failure_opens failure_reported up_stays assms(1) by metis
qed

lemma unavailable_reason:
  assumes "guarded_with alw fail succ search q s = (Unavailable why c, s')" "why \<noteq> Open_circuit"
  shows "d_allowed (fst (alw s)) \<and> (case search q of
       Answers h \<Rightarrow> total_failure h \<and> why = All_paths_degraded
     | Exceeds \<Rightarrow> why = Timeout | Throws _ \<Rightarrow> why = Error | Cancelled \<Rightarrow> False)"
  using assms by (auto simp: guarded_with_def case_prod_unfold Let_def split: search_end.splits if_splits)

end

section \<open>The handle meets the contract\<close>

lemma allow_up:
  "rp_up (snd (allow cfg now token rp)) = rp_up rp"
  "\<not> rp_up rp \<Longrightarrow> d_allowed (fst (allow cfg now token rp))"
  by (auto simp: allow_def eval_script_def split: prod.splits option.splits)

lemma allow_up_eq:
  assumes "rp_up rp"
  shows "\<exists>shas S. allow cfg now token rp =
     (let ((s, _, v), r') = lua_allow now (bc_cooldown cfg) (bc_ttl cfg) token (rp_redis rp)
      in (\<lparr> d_allowed = (v \<noteq> Blocked), d_probe = (v = Probe), d_state = s, d_blind = False \<rparr>,
          rp \<lparr> rp_shas := shas, rp_redis := r' \<lparr> rd_scripts := S \<rparr> \<rparr>))"
proof -
  obtain shas S where e: "eval_script True ''allow'' (lua_allow now (bc_cooldown cfg) (bc_ttl cfg) token)
      (rp_shas rp) (rp_redis rp) =
      (Some (fst (lua_allow now (bc_cooldown cfg) (bc_ttl cfg) token (rp_redis rp))), shas,
       (snd (lua_allow now (bc_cooldown cfg) (bc_ttl cfg) token (rp_redis rp))) \<lparr> rd_scripts := S \<rparr>, 1)"
    by (rule eval_script_up[OF cache_blind_allow])
  show ?thesis using assms e
    by (intro exI[of _ shas] exI[of _ S]) (simp add: allow_def case_prod_unfold Let_def)
qed

lemma failure_up_eq:
  assumes "rp_up rp"
  shows "\<exists>shas S. snd (record_failure cfg now p rp) =
       rp \<lparr> rp_shas := shas, rp_redis := (snd (lua_failure now (bc_threshold cfg) p (rp_redis rp))) \<lparr> rd_scripts := S \<rparr> \<rparr>
    \<and> s_circuit (fst (record_failure cfg now p rp)) = fst (fst (lua_failure now (bc_threshold cfg) p (rp_redis rp)))"
proof -
  obtain shas S where e: "eval_script True ''failure'' (lua_failure now (bc_threshold cfg) p)
      (rp_shas rp) (rp_redis rp) =
      (Some (fst (lua_failure now (bc_threshold cfg) p (rp_redis rp))), shas,
       (snd (lua_failure now (bc_threshold cfg) p (rp_redis rp))) \<lparr> rd_scripts := S \<rparr>, 1)"
    by (rule eval_script_up[OF cache_blind_failure])
  show ?thesis using assms e
    by (intro exI[of _ shas] exI[of _ S]) (simp add: record_failure_def case_prod_unfold Let_def)
qed

lemma success_up_eq:
  assumes "rp_up rp"
  shows "\<exists>shas S. snd (record_success p rp) =
       rp \<lparr> rp_shas := shas, rp_redis := (snd (lua_success p (rp_redis rp))) \<lparr> rd_scripts := S \<rparr> \<rparr>"
proof -
  obtain shas S where e: "eval_script True ''success'' (lua_success p)
      (rp_shas rp) (rp_redis rp) =
      (Some (fst (lua_success p (rp_redis rp))), shas,
       (snd (lua_success p (rp_redis rp))) \<lparr> rd_scripts := S \<rparr>, 1)"
    by (rule eval_script_up[OF cache_blind_success])
  show ?thesis using assms e
    by (intro exI[of _ shas] exI[of _ S]) (simp add: record_success_def case_prod_unfold Let_def)
qed

lemma state_of_up: "rp_up rp \<Longrightarrow> state_of rp = circuit_of (rp_redis rp)"
  by (simp add: state_of_def snapshot_def circuit_of_def case_prod_unfold)

lemma circuit_of_scripts [simp]: "circuit_of (r \<lparr> rd_scripts := S \<rparr>) = circuit_of r"
  by (simp add: circuit_of_def)

lemma lua_allow_circuit:
  assumes "lua_allow now cd ttl token r = ((s, f, v), r')"
  shows "circuit_of r' = s \<and> (v = Allowed \<longleftrightarrow> s = Closed) \<and> (circuit_of r = Closed \<longrightarrow> s = Closed)"
proof -
  obtain s0 f0 o0 where d: "decode (rd_state r) = (s0, f0, o0)" by (metis prod_cases3)
  show ?thesis using assms d
    by (cases s0) (auto simp: lua_allow_def probe_or_block_def circuit_of_def persist_def split: if_splits)
qed

lemma lua_failure_circuit:
  "circuit_of (snd (lua_failure now n p r)) = fst (fst (lua_failure now n p r))"
  "fst (fst (lua_failure now n True r)) = Open"
  by (simp_all add: lua_failure_def circuit_of_def persist_def del_probe_def case_prod_unfold Let_def)

lemma allow_view:
  assumes "rp_up rp"
  shows "state_of (snd (allow cfg now token rp)) = d_state (fst (allow cfg now token rp))"
    and "d_allowed (fst (allow cfg now token rp)) \<Longrightarrow> \<not> d_probe (fst (allow cfg now token rp)) \<Longrightarrow>
           d_state (fst (allow cfg now token rp)) = Closed"
    and "\<not> d_allowed (fst (allow cfg now token rp)) \<Longrightarrow> d_state (fst (allow cfg now token rp)) \<noteq> Closed"
    and "state_of rp = Closed \<Longrightarrow> d_allowed (fst (allow cfg now token rp)) \<and>
           d_state (fst (allow cfg now token rp)) = Closed"
proof -
  obtain s f v r' where a: "lua_allow now (bc_cooldown cfg) (bc_ttl cfg) token (rp_redis rp) = ((s, f, v), r')"
    by (metis prod.exhaust)
  note c = lua_allow_circuit[OF a]
  obtain shas S where e: "allow cfg now token rp =
     (\<lparr> d_allowed = (v \<noteq> Blocked), d_probe = (v = Probe), d_state = s, d_blind = False \<rparr>,
          rp \<lparr> rp_shas := shas, rp_redis := r' \<lparr> rd_scripts := S \<rparr> \<rparr>)"
    using allow_up_eq[OF assms, of cfg now token] by (auto simp: a)
  show "state_of (snd (allow cfg now token rp)) = d_state (fst (allow cfg now token rp))"
    using assms c by (simp add: e state_of_up)
  show "d_allowed (fst (allow cfg now token rp)) \<Longrightarrow> \<not> d_probe (fst (allow cfg now token rp)) \<Longrightarrow>
           d_state (fst (allow cfg now token rp)) = Closed"
    using c by (cases v) (auto simp: e)
  show "\<not> d_allowed (fst (allow cfg now token rp)) \<Longrightarrow> d_state (fst (allow cfg now token rp)) \<noteq> Closed"
    using c by (cases v) (auto simp: e)
  show "state_of rp = Closed \<Longrightarrow> d_allowed (fst (allow cfg now token rp)) \<and>
           d_state (fst (allow cfg now token rp)) = Closed"
    using c assms by (cases v) (auto simp: e state_of_up)
qed

interpretation handle: circuit_breaker "allow cfg t_start token" "record_failure cfg t_end" record_success rp_up state_of
  for cfg t_start t_end token
proof
  fix s :: replica and p :: bool
  show "rp_up (snd (allow cfg t_start token s)) = rp_up s" by (rule allow_up)
  show "\<not> rp_up s \<Longrightarrow> d_allowed (fst (allow cfg t_start token s))" by (rule allow_up)
  show "\<not> d_allowed (fst (allow cfg t_start token s)) \<Longrightarrow> state_of (snd (allow cfg t_start token s)) \<noteq> Closed"
    using allow_view[of s cfg t_start token] allow_up(2)[of s cfg t_start token] by (cases "rp_up s") auto
  show "rp_up s \<Longrightarrow> d_allowed (fst (allow cfg t_start token s)) \<Longrightarrow> \<not> d_probe (fst (allow cfg t_start token s)) \<Longrightarrow>
      state_of (snd (allow cfg t_start token s)) = Closed"
    using allow_view by simp
  show "rp_up s \<Longrightarrow> state_of s = Closed \<Longrightarrow>
      d_allowed (fst (allow cfg t_start token s)) \<and> state_of (snd (allow cfg t_start token s)) = Closed"
    using allow_view by simp
  show "rp_up s \<Longrightarrow> p \<or> state_of s = Closed \<Longrightarrow> state_of (snd (record_success p s)) = Closed"
    using success_up_eq[of s p] success_closes[of p "rp_redis s"]
    by (auto simp: state_of_up circuit_of_def)
  show "rp_up s \<Longrightarrow> state_of (snd (record_failure cfg t_end True s)) = Open"
    using failure_up_eq[of s cfg t_end True] by (auto simp: state_of_up lua_failure_circuit)
  show "rp_up s \<Longrightarrow> s_circuit (fst (record_failure cfg t_end p s)) = state_of (snd (record_failure cfg t_end p s))"
    using failure_up_eq[of s cfg t_end p] by (auto simp: state_of_up lua_failure_circuit)
qed

section \<open>Properties\<close>

text \<open>The search the application passes: hybrid retrieval over the two path functions.\<close>

definition hybrid_end ::
  "(query \<Rightarrow> path_outcome) \<Rightarrow> (query \<Rightarrow> path_outcome) \<Rightarrow> query \<Rightarrow> search_end" where
  "hybrid_end sem kw q = (case hybrid_search sem kw q of Inr h \<Rightarrow> Answers h | Inl e \<Rightarrow> Throws e)"

lemma total_failure_paths:
  "total_failure \<lparr> h_candidates = cs, h_degraded = (case a of None \<Rightarrow> [] | Some d \<Rightarrow> [(Semantic, d)])
        @ (case b of None \<Rightarrow> [] | Some d \<Rightarrow> [(Keyword, d)]),
      h_path_counts = [(Semantic, m), (Keyword, n)] \<rparr> \<longleftrightarrow> a \<noteq> None \<and> b \<noteq> None"
  by (cases a; cases b) (auto simp: total_failure_def)

text \<open>What a guarded retrieval does, by circuit and outcome: an open circuit is reported without
  calling the search; success is a result in which some path worked, and after it the circuit is
  closed; a total degradation, a timeout and an exception are each reported under their own reason,
  and if the caller was the probe the circuit is open again. With the bookkeeping unreachable the
  search is called and its result returned all the same.\<close>

lemma guarded_search_outcomes:
  assumes "guarded_hybrid_search cfg t0 t1 token search q rp = (g, rp')"
  shows "(\<not> d_allowed (fst (allow cfg t0 token rp)) \<longrightarrow> rp_up rp \<and> state_of rp' \<noteq> Closed \<and>
            (\<exists>c. g = Unavailable Open_circuit c \<and> c \<noteq> Closed) \<and>
            (\<forall>search'. guarded_hybrid_search cfg t0 t1 token search' q rp = (g, rp')))
    \<and> (d_allowed (fst (allow cfg t0 token rp)) \<longrightarrow> (case search q of
          Answers h \<Rightarrow> if total_failure h then \<exists>c. g = Unavailable All_paths_degraded c else g = Retrieved h
        | Exceeds \<Rightarrow> \<exists>c. g = Unavailable Timeout c
        | Throws e \<Rightarrow> \<exists>c. g = Unavailable Error c
        | Cancelled \<Rightarrow> g = Propagates_cancel))
    \<and> (rp_up rp \<and> (\<exists>h. g = Retrieved h) \<longrightarrow> state_of rp' = Closed)
    \<and> (rp_up rp \<and> d_probe (fst (allow cfg t0 token rp)) \<and> (\<exists>why c. g = Unavailable why c) \<longrightarrow> state_of rp' = Open)"
proof (intro conjI impI)
  assume blocked: "\<not> d_allowed (fst (allow cfg t0 token rp))"
  note b = handle.blocked_call_is_not_made[OF this, folded guarded_hybrid_search_def]
  show up: "rp_up rp" using blocked allow_up(2) by blast
  show "state_of rp' \<noteq> Closed"
    using assms handle.blocked_not_closed[OF blocked] by (simp add: b)
  show "\<exists>c. g = Unavailable Open_circuit c \<and> c \<noteq> Closed"
    using assms allow_view(3)[OF up blocked] by (auto simp: b)
  show "\<forall>search'. guarded_hybrid_search cfg t0 t1 token search' q rp = (g, rp')"
    using assms by (simp add: b)
next
  assume "d_allowed (fst (allow cfg t0 token rp))"
  then show "case search q of
          Answers h \<Rightarrow> if total_failure h then \<exists>c. g = Unavailable All_paths_degraded c else g = Retrieved h
        | Exceeds \<Rightarrow> \<exists>c. g = Unavailable Timeout c
        | Throws e \<Rightarrow> \<exists>c. g = Unavailable Error c
        | Cancelled \<Rightarrow> g = Propagates_cancel"
    using assms
    by (auto simp: guarded_hybrid_search_def guarded_with_def case_prod_unfold Let_def split: search_end.splits if_splits)
next
  assume "rp_up rp \<and> (\<exists>h. g = Retrieved h)"
  then show "state_of rp' = Closed"
    using handle.retrieved_closes assms unfolding guarded_hybrid_search_def by blast
next
  assume "rp_up rp \<and> d_probe (fst (allow cfg t0 token rp)) \<and> (\<exists>why c. g = Unavailable why c)"
  moreover from this have "d_allowed (fst (allow cfg t0 token rp))"
    using allow_up_eq[of rp cfg t0 token] by (auto simp: case_prod_unfold Let_def)
  ultimately show "state_of rp' = Open"
    using handle.failed_probe_opens assms unfolding guarded_hybrid_search_def by blast
qed

definition ex_replica :: "stored \<Rightarrow> replica" where
  "ex_replica s = \<lparr> rp_up = True, rp_shas = {}, rp_redis = ex_redis s \<rparr>"

lemma guarded_search_outcomes_witness:
  "\<exists>c rp'. guarded_hybrid_search default_breaker 1788184579 1788184580 ''t'' (\<lambda>_. Exceeds) ex_query
     (ex_replica (Record Open 3 1788184570)) = (Unavailable Open_circuit c, rp') \<and> c \<noteq> Closed"
proof -
  obtain g rp' where g: "guarded_hybrid_search default_breaker 1788184579 1788184580 ''t'' (\<lambda>_. Exceeds) ex_query
     (ex_replica (Record Open 3 1788184570)) = (g, rp')" by (metis prod.exhaust)
  have "\<not> d_allowed (fst (allow default_breaker 1788184579 ''t'' (ex_replica (Record Open 3 1788184570))))"
    by (simp add: allow_def eval_script_def ex_replica_def ex_redis_def default_breaker_def lua_allow_def)
  then show ?thesis using guarded_search_outcomes[OF g] g by auto
qed

text \<open>The breaker watches the right thing: when at least one of the two paths answers, the guarded
  hybrid search is a success and keeps the circuit closed, however the other path failed; when both
  fail, which \<open>hybrid_search\<close> itself reports as an empty success, it counts as a failure.\<close>

lemma partial_degradation_is_success:
  assumes "\<not> is_blank q" "path_result_ok Semantic (answer (sem q))" "path_result_ok Keyword (answer (kw q))"
    and "d_allowed (fst (allow cfg t0 token rp))"
    and "guarded_hybrid_search cfg t0 t1 token (hybrid_end sem kw) q rp = (g, rp')"
  shows "((\<exists>cs. sem q = Returned cs) \<or> (\<exists>cs. kw q = Returned cs) \<longrightarrow>
            (\<exists>h. g = Retrieved h \<and> c_id ` set (h_candidates h) =
               {i. found_in (answer (sem q)) i \<or> found_in (answer (kw q)) i}) \<and>
            (rp_up rp \<longrightarrow> state_of rp' = Closed))
    \<and> (\<not> (\<exists>cs. sem q = Returned cs) \<and> \<not> (\<exists>cs. kw q = Returned cs) \<longrightarrow>
            (\<exists>c. g = Unavailable All_paths_degraded c))"
proof -
  obtain h where h: "hybrid_search sem kw q = Inr h"
    "h_candidates h = merged (answer (sem q)) (answer (kw q))"
    "total_failure h \<longleftrightarrow> snd (run_path (sem q)) \<noteq> None \<and> snd (run_path (kw q)) \<noteq> None"
    by (simp add: hybrid_search_ok[of q sem kw, OF assms(1-3)] total_failure_paths)
  have ret: "snd (run_path out) \<noteq> None \<longleftrightarrow> \<not> (\<exists>cs. out = Returned cs)" for out
    by (cases out) (auto simp: run_path_def)
  have e: "hybrid_end sem kw q = Answers h" by (simp add: hybrid_end_def h(1))
  have g: "if total_failure h then \<exists>c. g = Unavailable All_paths_degraded c else g = Retrieved h"
    using assms(4,5) e
    by (auto simp: guarded_hybrid_search_def guarded_with_def case_prod_unfold Let_def split: if_splits)
  have "rp_up rp \<Longrightarrow> g = Retrieved h \<Longrightarrow> state_of rp' = Closed"
    using handle.retrieved_closes assms(5) unfolding guarded_hybrid_search_def by blast
  then show ?thesis
    using g h(2,3) merged_ids[OF assms(2,3)] unfolding ret by auto
qed

lemma partial_degradation_is_success_witness:
  "\<exists>h rp'. guarded_hybrid_search default_breaker 0 1 ''t'' (hybrid_end (\<lambda>_. Hangs)
      (\<lambda>_. Returned [ex_row Keyword ''a'' 1])) ex_query (ex_replica Missing) = (Retrieved h, rp') \<and>
      c_id ` set (h_candidates h) = {''a''}"
proof -
  obtain g rp' where g: "guarded_hybrid_search default_breaker 0 1 ''t'' (hybrid_end (\<lambda>_. Hangs)
      (\<lambda>_. Returned [ex_row Keyword ''a'' 1])) ex_query (ex_replica Missing) = (g, rp')"
    by (metis prod.exhaust)
  have "d_allowed (fst (allow default_breaker 0 ''t'' (ex_replica Missing)))"
    by (simp add: allow_def eval_script_def ex_replica_def ex_redis_def lua_allow_def)
  from partial_degradation_is_success[OF ex_query_not_blank _ _ this g]
  show ?thesis using g by (auto simp: answer_def run_path_def found_in_def)
qed

end
