(* ===== verification/Identity.thy ===== *)
theory Identity
  imports Prelude
begin

text \<open>
  Who the caller is (\<^verbatim>\<open>api/memories.py\<close>: \<^verbatim>\<open>Identity\<close>, \<^verbatim>\<open>_as_uuid\<close>, \<^verbatim>\<open>resolve_identity\<close>): the
  normalisation of a uuid by Python's \<^verbatim>\<open>uuid.UUID\<close> and the precedence of query parameter, header
  and environment. An HTTP error is its status code on the left of a sum.
\<close>

section \<open>\<^verbatim>\<open>uuid.UUID(s)\<close> and \<^verbatim>\<open>str(u)\<close>\<close>

definition hex_value :: "char \<Rightarrow> nat option" where
  "hex_value c =
     (let n = (of_char c :: nat)
      in if 48 \<le> n \<and> n \<le> 57 then Some (n - 48)
         else if 97 \<le> n \<and> n \<le> 102 then Some (n - 87)
         else if 65 \<le> n \<and> n \<le> 70 then Some (n - 55) else None)"

definition hex_char :: "nat \<Rightarrow> char" where
  "hex_char k = ''0123456789abcdef'' ! (k mod 16)"

text \<open>The digits of \<^verbatim>\<open>int(s, 16)\<close>, with single underscores between them.\<close>

fun hex_digits :: "nat \<Rightarrow> string \<Rightarrow> nat option" where
  "hex_digits acc [] = Some acc"
| "hex_digits acc [c] = map_option (\<lambda>v. 16 * acc + v) (hex_value c)"
| "hex_digits acc (c # c' # cs) =
     (if c = CHR ''_'' then (case hex_value c' of None \<Rightarrow> None | Some v \<Rightarrow> hex_digits (16 * acc + v) cs)
      else (case hex_value c of None \<Rightarrow> None | Some v \<Rightarrow> hex_digits (16 * acc + v) (c' # cs)))"

definition int16 :: "string \<Rightarrow> nat option" where
  "int16 s0 =
     (let s1 = strip s0;
          s2 = (case s1 of c # cs \<Rightarrow> if c = CHR ''+'' then cs else s1 | [] \<Rightarrow> s1);
          prefixed = (take 1 s2 = ''0'' \<and> (take 1 (drop 1 s2) = ''x'' \<or> take 1 (drop 1 s2) = ''X''));
          s3 = (if prefixed then drop 2 s2 else s2);
          s4 = (if prefixed \<and> take 1 s3 = ''_'' then drop 1 s3 else s3)
      in case s4 of [] \<Rightarrow> None
         | c # cs \<Rightarrow> if c = CHR ''_'' then None else hex_digits 0 s4)"

text \<open>\<^verbatim>\<open>s.replace(old, '')\<close>, leftmost first, without overlaps.\<close>

function remove_all :: "string \<Rightarrow> string \<Rightarrow> string" where
  "remove_all old s =
     (if s = [] then []
      else if old \<noteq> [] \<and> take (length old) s = old then remove_all old (drop (length old) s)
      else hd s # remove_all old (tl s))"
  by pat_completeness auto

termination
  by (relation "measure (\<lambda>(_, s). length s)") (auto simp: length_greater_0_conv[symmetric] simp del: length_greater_0_conv)

declare remove_all.simps [simp del]

definition strip_braces :: "string \<Rightarrow> string" where
  "strip_braces s =
     (let brace = (\<lambda>c. c = CHR ''{'' \<or> c = CHR ''}'')
      in rev (dropWhile brace (rev (dropWhile brace s))))"

definition hex32 :: "nat \<Rightarrow> string" where
  "hex32 n = map (\<lambda>k. hex_char (n div 16 ^ k)) (rev [0..<32])"

definition uuid_str :: "nat \<Rightarrow> uuid" where
  "uuid_str n =
     (let h = hex32 n
      in take 8 h @ ''-'' @ take 4 (drop 8 h) @ ''-'' @ take 4 (drop 12 h) @ ''-'' @ take 4 (drop 16 h) @ ''-'' @ drop 20 h)"

definition parse_uuid :: "string \<Rightarrow> nat option" where
  "parse_uuid v =
     (let hex = filter (\<lambda>c. c \<noteq> CHR ''-'') (strip_braces (remove_all ''uuid:'' (remove_all ''urn:'' v)))
      in if length hex \<noteq> 32 then None else int16 hex)"

section \<open>Resolution\<close>

type_synonym status = nat
type_synonym 'a http = "status + 'a"

definition as_uuid :: "string \<Rightarrow> uuid http" where
  "as_uuid v = (case parse_uuid v of None \<Rightarrow> Inl 400 | Some n \<Rightarrow> Inr (uuid_str n))"

record identity =
  i_subject :: uuid
  i_actor :: uuid

text \<open>Python's \<^verbatim>\<open>a or b\<close> on optional strings: an empty string is passed over.\<close>

definition or_else :: "string option \<Rightarrow> string option \<Rightarrow> string option" where
  "or_else a b = (case a of Some s \<Rightarrow> if s = [] then b else a | None \<Rightarrow> b)"

text \<open>The last argument is \<^verbatim>\<open>DEFAULT_SUBJECT_ID\<close> of the environment.\<close>

definition resolve_identity ::
  "string option \<Rightarrow> string option \<Rightarrow> string option \<Rightarrow> string option \<Rightarrow> string option \<Rightarrow> identity http" where
  "resolve_identity subject_id actor_id x_subject_id x_actor_id default_subject =
     (case or_else subject_id (or_else x_subject_id default_subject) of
        None \<Rightarrow> Inl 400
      | Some raw \<Rightarrow>
          if raw = [] then Inl 400
          else (case as_uuid raw of
              Inl e \<Rightarrow> Inl e
            | Inr subject \<Rightarrow>
                (case or_else actor_id (or_else x_actor_id (Some subject)) of
                   None \<Rightarrow> Inl 400
                 | Some actor_raw \<Rightarrow>
                     (case as_uuid actor_raw of
                        Inl e \<Rightarrow> Inl e
                      | Inr actor \<Rightarrow> Inr \<lparr> i_subject = subject, i_actor = actor \<rparr>))))"

section \<open>The canonical form\<close>

lemma hex_value_char: "hex_value (hex_char k) = Some (k mod 16)"
proof -
  have "k mod 16 \<in> {..<16}" by simp
  then have "k mod 16 \<in> set [0..<16]" by (simp only: atLeast0LessThan[symmetric] set_upt)
  moreover have "list_all (\<lambda>j. hex_value (''0123456789abcdef'' ! j) = Some j) [0..<16]"
    by (simp add: upt_rec hex_value_def)
  ultimately show ?thesis unfolding hex_char_def list_all_iff by blast
qed

lemma hex_char_neq:
  "hex_char k \<noteq> CHR ''-''" "hex_char k \<noteq> CHR ''_''" "hex_char k \<noteq> CHR '':''" "hex_char k \<noteq> CHR ''+''"
  "hex_char k \<noteq> CHR ''x''" "hex_char k \<noteq> CHR ''X''" "hex_char k \<noteq> CHR ''{''" "hex_char k \<noteq> CHR ''}''"
  "\<not> py_space (hex_char k)"
proof -
  have v: "\<exists>v. hex_value (hex_char k) = Some v" using hex_value_char by blast
  have neq: "hex_char k \<noteq> c" if "hex_value c = None" for c using v that by auto
  show "hex_char k \<noteq> CHR ''-''" "hex_char k \<noteq> CHR ''_''" "hex_char k \<noteq> CHR '':''" "hex_char k \<noteq> CHR ''+''"
    "hex_char k \<noteq> CHR ''x''" "hex_char k \<noteq> CHR ''X''" "hex_char k \<noteq> CHR ''{''" "hex_char k \<noteq> CHR ''}''"
    by (rule neq, simp add: hex_value_def)+
  show "\<not> py_space (hex_char k)"
    using v by (auto simp: hex_value_def py_space_def Let_def split: if_splits)
qed

lemma hex_digits_map:
  "hex_digits acc (map (\<lambda>k. hex_char (f k)) ks) = Some (foldl (\<lambda>a k. 16 * a + f k mod 16) acc ks)"
proof (induction ks arbitrary: acc)
  case (Cons k ks)
  then show ?case by (cases ks) (simp_all add: hex_value_char hex_char_neq)
qed simp

lemma foldl_nibbles:
  "foldl (\<lambda>a k. 16 * a + (n div 16 ^ k) mod 16) acc (rev [0..<m]) = acc * 16 ^ m + n mod 16 ^ m" for n :: nat
proof (induction m arbitrary: acc)
  case (Suc m)
  have "n mod 16 ^ Suc m = 16 ^ m * ((n div 16 ^ m) mod 16) + n mod 16 ^ m"
    using mod_mult2_eq[of n "16 ^ m" 16] by (simp add: mult.commute)
  then show ?case using Suc by (simp add: algebra_simps)
qed simp

lemma hex32_mod: "hex32 (n mod 16 ^ 32) = hex32 n"
proof -
  have "hex_char ((n mod 16 ^ 32) div 16 ^ k) = hex_char (n div 16 ^ k)" if k: "k < 32" for k
  proof -
    have "(16::nat) ^ 32 = 16 ^ k * (16 * 16 ^ (31 - k))"
      using k by (simp add: power_add[symmetric] flip: power_Suc)
    then have "(n mod 16 ^ 32) div 16 ^ k = (n div 16 ^ k) mod (16 * 16 ^ (31 - k))"
      by (simp only: mod_mult2_eq) simp
    then show ?thesis by (simp add: hex_char_def mod_mod_cancel)
  qed
  then show ?thesis unfolding hex32_def by (intro map_cong) auto
qed

lemma hex32_chars: "c \<in> set (hex32 n) \<Longrightarrow> \<exists>k. c = hex_char k"
  by (auto simp: hex32_def)

lemma length_hex32 [simp]: "length (hex32 n) = 32"
  by (simp add: hex32_def)

lemma strip_hex: "\<forall>c \<in> set s. \<exists>k. c = hex_char k \<Longrightarrow> strip s = s"
proof -
  assume h: "\<forall>c \<in> set s. \<exists>k. c = hex_char k"
  then have "dropWhile py_space t = t" if "set t = set s" for t
    unfolding dropWhile_eq_self_iff using that hex_char_neq(9) h hd_in_set by metis
  then show ?thesis by (simp add: strip_def)
qed

lemma int16_hex32: "int16 (hex32 n) = Some (n mod 16 ^ 32)"
proof -
  have ks: "rev [0..<32] = 31 # 30 # rev [0..<(30::nat)]" by (simp add: upt_rec)
  obtain j k rest where h: "hex32 n = hex_char j # hex_char k # rest"
    unfolding hex32_def ks by auto
  have s: "strip (hex32 n) = hex32 n" by (rule strip_hex) (use hex32_chars in blast)
  have "hex_digits 0 (hex32 n) = Some (n mod 16 ^ 32)"
    unfolding hex32_def hex_digits_map using foldl_nibbles[of n 0 32] by simp
  then show ?thesis
    unfolding int16_def s unfolding h by (simp add: Let_def hex_char_neq)
qed

lemma remove_all_id: "CHR '':'' \<notin> set s \<Longrightarrow> CHR '':'' \<in> set old \<Longrightarrow> remove_all old s = s"
proof (induction s)
  case Nil
  then show ?case by (simp add: remove_all.simps)
next
  case (Cons c s)
  have "take (length old) (c # s) \<noteq> old" using Cons.prems by (metis in_set_takeD)
  then show ?case using Cons by (subst remove_all.simps) simp
qed

lemma strip_braces_id: "\<forall>c \<in> set s. c \<noteq> CHR ''{'' \<and> c \<noteq> CHR ''}'' \<Longrightarrow> strip_braces s = s"
proof -
  assume h: "\<forall>c \<in> set s. c \<noteq> CHR ''{'' \<and> c \<noteq> CHR ''}''"
  then have "dropWhile (\<lambda>c. c = CHR ''{'' \<or> c = CHR ''}'') t = t" if "set t = set s" for t
    using that by (cases t) auto
  then show ?thesis by (simp add: strip_braces_def Let_def)
qed

lemma parse_uuid_str: "parse_uuid (uuid_str n) = Some (n mod 16 ^ 32)"
proof -
  let ?h = "hex32 n"
  have glue: "take k (drop i ?h) @ drop (i + k) ?h = drop i ?h" for i k
    by (metis append_take_drop_id drop_drop add.commute)
  have parts: "take 8 ?h @ take 4 (drop 8 ?h) @ take 4 (drop 12 ?h) @ take 4 (drop 16 ?h) @ drop 20 ?h = ?h"
    using glue[of 4 16] glue[of 4 12] glue[of 4 8] append_take_drop_id[of 8 ?h] by simp
  have set: "set (uuid_str n) \<subseteq> insert (CHR ''-'') (set ?h)"
    unfolding uuid_str_def Let_def by (auto dest: in_set_takeD in_set_dropD)
  have plain: "c \<noteq> CHR ''-'' \<and> c \<noteq> CHR '':'' \<and> c \<noteq> CHR ''{'' \<and> c \<noteq> CHR ''}''" if "c \<in> set ?h" for c
    using hex32_chars[OF that] hex_char_neq by auto
  have "CHR '':'' \<notin> set (uuid_str n)" "\<forall>c \<in> set (uuid_str n). c \<noteq> CHR ''{'' \<and> c \<noteq> CHR ''}''"
    using set plain by auto
  then have clean: "strip_braces (remove_all ''uuid:'' (remove_all ''urn:'' (uuid_str n))) = uuid_str n"
    by (simp add: remove_all_id strip_braces_id)
  have keep: "filter (\<lambda>c. c \<noteq> CHR ''-'') s = s" if "set s \<subseteq> set ?h" for s
    by (rule filter_True) (use that plain in blast)
  have "filter (\<lambda>c. c \<noteq> CHR ''-'') (uuid_str n) = ?h"
    unfolding uuid_str_def Let_def filter_append using parts
    by (simp add: keep set_take_subset set_drop_subset subset_trans[OF set_take_subset set_drop_subset])
  then show ?thesis unfolding parse_uuid_def clean by (simp add: int16_hex32)
qed

lemma as_uuid_str: "as_uuid (uuid_str n) = Inr (uuid_str n)"
proof -
  have "uuid_str (n mod 16 ^ 32) = uuid_str n" unfolding uuid_str_def hex32_mod by (rule refl)
  then show ?thesis unfolding as_uuid_def parse_uuid_str by simp
qed

text \<open>Identifiers are normalised once and for all: whatever spelling of a uuid Python accepts
  (braces, \<^verbatim>\<open>urn:uuid:\<close>, missing dashes, capitals, a \<^verbatim>\<open>0x\<close> prefix), the result has the canonical
  36 characters and is its own normal form, and every canonical form is accepted unchanged.
\<close>

lemma uuid_normal_form:
  "(case as_uuid v of Inr u \<Rightarrow> length u = 36 \<and> as_uuid u = Inr u | Inl e \<Rightarrow> e = 400) \<and>
   as_uuid (uuid_str n) = Inr (uuid_str n)"
proof -
  have "length (uuid_str k) = 36" for k by (simp add: uuid_str_def Let_def)
  then show ?thesis using as_uuid_str by (simp add: as_uuid_def[of v] split: option.split)
qed

end
