(* ===== verification/Json.thy ===== *)
theory Json
  imports Identity
begin

text \<open>
  The part of Python's \<^verbatim>\<open>json\<close> module the capture pipeline uses: \<^verbatim>\<open>json.loads\<close> on what a model
  answered (\<^verbatim>\<open>capture/extract.py\<close>, \<^verbatim>\<open>capture/evaluate.py\<close>) and \<^verbatim>\<open>json.dumps(list of str,
  ensure_ascii=False)\<close> on what it is asked. The decoder is the standard scanner: strict strings with
  escapes and surrogate pairs, integers, floats, \<^verbatim>\<open>NaN\<close> and \<^verbatim>\<open>Infinity\<close>, arrays and objects, trailing
  data refused. The parameter \<open>wide\<close> is the character the model's alphabet puts for a code point
  beyond it; the interpreter's recursion limit is not modelled.
\<close>

section \<open>Values and errors\<close>

datatype json =
    JNull
  | JBool bool
  | JInt int
  | JFloat pyfloat
  | JStr string
  | JList "json list"
  | JObj "(string \<times> json) list"

text \<open>\<^verbatim>\<open>JSONDecodeError\<close>, which the callers catch, and the \<^verbatim>\<open>ValueError\<close> that \<^verbatim>\<open>int()\<close> raises on a literal
  of more than 4300 digits, which they do not.\<close>

datatype json_exn = DecodeError | DigitLimit

type_synonym 'a parse = "json_exn + ('a \<times> string)"

abbreviation quote :: char where "quote \<equiv> CHR 0x22"
abbreviation backslash :: char where "backslash \<equiv> CHR 0x5C"

definition json_space :: "char \<Rightarrow> bool" where
  "json_space c \<longleftrightarrow> c = CHR '' '' \<or> c = CHR 0x09 \<or> c = CHR 0x0A \<or> c = CHR 0x0D"

definition skip_ws :: "string \<Rightarrow> string" where "skip_ws s = dropWhile json_space s"

section \<open>Strings\<close>

definition hex4 :: "string \<Rightarrow> nat option" where
  "hex4 s = (case map hex_value (take 4 s) of
       [Some a, Some b, Some c, Some d] \<Rightarrow> Some (((a * 16 + b) * 16 + c) * 16 + d)
     | _ \<Rightarrow> None)"

definition json_char :: "(nat \<Rightarrow> char) \<Rightarrow> nat \<Rightarrow> char" where
  "json_char wide u = (if u < 256 then char_of u else wide u)"

text \<open>A high surrogate joined with the low surrogate that follows it.\<close>

definition low_surrogate :: "nat \<Rightarrow> string \<Rightarrow> nat option" where
  "low_surrogate u s =
     (if 55296 \<le> u \<and> u \<le> 56319 \<and> take 2 s = [backslash, CHR ''u'']
      then (case hex4 (drop 2 s) of
          Some l \<Rightarrow> if 56320 \<le> l \<and> l \<le> 57343 then Some (65536 + (u - 55296) * 1024 + (l - 56320)) else None
        | None \<Rightarrow> None)
      else None)"

definition simple_escape :: "char \<Rightarrow> char option" where
  "simple_escape c =
     map_of [(quote, quote), (backslash, backslash), (CHR ''/'', CHR ''/''), (CHR ''b'', CHR 0x08),
       (CHR ''f'', CHR 0x0C), (CHR ''n'', CHR 0x0A), (CHR ''r'', CHR 0x0D), (CHR ''t'', CHR 0x09)] c"

text \<open>What follows the opening quote: the decoded text, and the input behind the closing quote.\<close>

function scan_string :: "(nat \<Rightarrow> char) \<Rightarrow> string \<Rightarrow> (string \<times> string) option" where
  "scan_string wide [] = None"
| "scan_string wide (c # cs) =
     (if c = quote then Some ([], cs)
      else if c = backslash then
        (case cs of
           [] \<Rightarrow> None
         | e # ds \<Rightarrow>
             if e = CHR ''u'' then
               (case hex4 ds of
                  None \<Rightarrow> None
                | Some u \<Rightarrow>
                    (case low_surrogate u (drop 4 ds) of
                       None \<Rightarrow> map_option (\<lambda>(t, r). (json_char wide u # t, r)) (scan_string wide (drop 4 ds))
                     | Some w \<Rightarrow> map_option (\<lambda>(t, r). (json_char wide w # t, r)) (scan_string wide (drop 10 ds))))
             else
               (case simple_escape e of
                  None \<Rightarrow> None
                | Some d \<Rightarrow> map_option (\<lambda>(t, r). (d # t, r)) (scan_string wide ds)))
      else if (of_char c :: nat) < 32 then None
      else map_option (\<lambda>(t, r). (c # t, r)) (scan_string wide cs))"
  by pat_completeness auto

termination
  by (relation "measure (\<lambda>(_, s). length s)") auto

section \<open>Numbers\<close>

definition digit :: "char \<Rightarrow> bool" where
  "digit c \<longleftrightarrow> (let n = (of_char c :: nat) in 48 \<le> n \<and> n \<le> 57)"

definition digits_value :: "string \<Rightarrow> nat" where
  "digits_value s = foldl (\<lambda>v c. 10 * v + (of_char c - 48)) 0 s"

text \<open>An optional fraction and an optional exponent: the digits of the first, the value of the second.\<close>

definition scan_fraction :: "string \<Rightarrow> string \<times> string" where
  "scan_fraction s = (case s of
       c # cs \<Rightarrow> if c = CHR ''.'' \<and> takeWhile digit cs \<noteq> [] then (takeWhile digit cs, dropWhile digit cs) else ([], s)
     | [] \<Rightarrow> ([], s))"

definition scan_exponent :: "string \<Rightarrow> int option \<times> string" where
  "scan_exponent s = (case s of
       c # cs \<Rightarrow>
         (let minus = (take 1 cs = ''-'');
              ds = (if minus \<or> take 1 cs = ''+'' then drop 1 cs else cs)
          in if (c = CHR ''e'' \<or> c = CHR ''E'') \<and> takeWhile digit ds \<noteq> []
             then (Some ((if minus then - 1 else 1) * int (digits_value (takeWhile digit ds))), dropWhile digit ds)
             else (None, s))
     | [] \<Rightarrow> (None, s))"

definition float_literal :: "bool \<Rightarrow> string \<Rightarrow> string \<Rightarrow> int \<Rightarrow> pyfloat" where
  "float_literal neg whole fraction e =
     (let x = real (digits_value (whole @ fraction)) * 10 powi (e - int (length fraction))
      in if x \<ge> 2 ^ 1024 - 2 ^ 970 then (if neg then NegInf else PosInf)
         else Fin (if neg then - x else x))"

definition digit_limit :: nat where "digit_limit = 4300"

text \<open>The parts of a number: sign, digits before the point (none if there is no number), fraction,
  exponent, remaining input.\<close>

definition number_parts :: "string \<Rightarrow> bool \<times> string \<times> string \<times> int option \<times> string" where
  "number_parts s0 =
     (let neg = (take 1 s0 = ''-'');
          s = (if neg then drop 1 s0 else s0);
          whole = (if take 1 s = ''0'' then ''0'' else takeWhile digit s);
          (fraction, r1) = scan_fraction (drop (length whole) s);
          (ex, r2) = scan_exponent r1
      in (neg, whole, fraction, ex, r2))"

definition scan_number :: "string \<Rightarrow> json parse" where
  "scan_number s =
     (let (neg, whole, fraction, ex, r) = number_parts s
      in if whole = [] then Inl DecodeError
         else if fraction = [] \<and> ex = None then
           (if length whole > digit_limit then Inl DigitLimit
            else Inr (JInt ((if neg then - 1 else 1) * int (digits_value whole)), r))
         else Inr (JFloat (float_literal neg whole fraction (case ex of None \<Rightarrow> 0 | Some e \<Rightarrow> e)), r))"

section \<open>Values\<close>

definition literals :: "(string \<times> json) list" where
  "literals = [(''null'', JNull), (''true'', JBool True), (''false'', JBool False), (''NaN'', JFloat NaN),
     (''Infinity'', JFloat PosInf), (''-Infinity'', JFloat NegInf)]"

definition scan_literal :: "string \<Rightarrow> json parse option" where
  "scan_literal s = map_option (\<lambda>(l, v). Inr (v, drop (length l) s)) (find (\<lambda>(l, v). take (length l) s = l) literals)"

text \<open>Recursive descent. Two units of fuel per character are enough (\<open>decode_fuel\<close> below).\<close>

fun decode_value :: "(nat \<Rightarrow> char) \<Rightarrow> nat \<Rightarrow> string \<Rightarrow> json parse"
  and decode_items :: "(nat \<Rightarrow> char) \<Rightarrow> nat \<Rightarrow> string \<Rightarrow> json list parse"
  and decode_pairs :: "(nat \<Rightarrow> char) \<Rightarrow> nat \<Rightarrow> string \<Rightarrow> (string \<times> json) list parse" where
  "decode_value wide 0 s = Inl DecodeError"
| "decode_value wide (Suc n) [] = Inl DecodeError"
| "decode_value wide (Suc n) (c # cs) =
     (if c = quote then
        (case scan_string wide cs of None \<Rightarrow> Inl DecodeError | Some (t, r) \<Rightarrow> Inr (JStr t, r))
      else if c = CHR ''['' then
        (if take 1 (skip_ws cs) = '']'' then Inr (JList [], drop 1 (skip_ws cs))
         else case decode_items wide n (skip_ws cs) of Inl e \<Rightarrow> Inl e | Inr (xs, r) \<Rightarrow> Inr (JList xs, r))
      else if c = CHR ''{'' then
        (if take 1 (skip_ws cs) = ''}'' then Inr (JObj [], drop 1 (skip_ws cs))
         else case decode_pairs wide n (skip_ws cs) of Inl e \<Rightarrow> Inl e | Inr (xs, r) \<Rightarrow> Inr (JObj xs, r))
      else case scan_literal (c # cs) of Some p \<Rightarrow> p | None \<Rightarrow> scan_number (c # cs))"
| "decode_items wide 0 s = Inl DecodeError"
| "decode_items wide (Suc n) s =
     (case decode_value wide n s of
        Inl e \<Rightarrow> Inl e
      | Inr (x, r) \<Rightarrow>
          (case skip_ws r of
             [] \<Rightarrow> Inl DecodeError
           | c # r1 \<Rightarrow>
               if c = CHR '']'' then Inr ([x], r1)
               else if c = CHR '','' then
                 (case decode_items wide n (skip_ws r1) of Inl e \<Rightarrow> Inl e | Inr (xs, r2) \<Rightarrow> Inr (x # xs, r2))
               else Inl DecodeError))"
| "decode_pairs wide 0 s = Inl DecodeError"
| "decode_pairs wide (Suc n) s =
     (if take 1 s \<noteq> [quote] then Inl DecodeError
      else case scan_string wide (drop 1 s) of
        None \<Rightarrow> Inl DecodeError
      | Some (k, r) \<Rightarrow>
          if take 1 (skip_ws r) \<noteq> '':'' then Inl DecodeError
          else (case decode_value wide n (skip_ws (drop 1 (skip_ws r))) of
             Inl e \<Rightarrow> Inl e
           | Inr (x, r1) \<Rightarrow>
               (case skip_ws r1 of
                  [] \<Rightarrow> Inl DecodeError
                | c # r2 \<Rightarrow>
                    if c = CHR ''}'' then Inr ([(k, x)], r2)
                    else if c = CHR '','' then
                      (case decode_pairs wide n (skip_ws r2) of Inl e \<Rightarrow> Inl e | Inr (xs, r3) \<Rightarrow> Inr ((k, x) # xs, r3))
                    else Inl DecodeError)))"

definition json_loads :: "(nat \<Rightarrow> char) \<Rightarrow> string \<Rightarrow> json_exn + json" where
  "json_loads wide s =
     (case decode_value wide (2 * length s + 1) (skip_ws s) of
        Inl e \<Rightarrow> Inl e
      | Inr (v, r) \<Rightarrow> if skip_ws r = [] then Inr v else Inl DecodeError)"

text \<open>\<^verbatim>\<open>d.get(k)\<close> on a decoded object, where a later pair wins, and the truth value of a value.\<close>

definition json_get :: "(string \<times> json) list \<Rightarrow> string \<Rightarrow> json option" where
  "json_get ps k = map_of (rev ps) k"

fun json_true :: "json \<Rightarrow> bool" where
  "json_true JNull = False"
| "json_true (JBool b) = b"
| "json_true (JInt n) = (n \<noteq> 0)"
| "json_true (JFloat f) = (f \<noteq> Fin 0)"
| "json_true (JStr s) = (s \<noteq> [])"
| "json_true (JList xs) = (xs \<noteq> [])"
| "json_true (JObj ps) = (ps \<noteq> [])"

section \<open>\<^verbatim>\<open>json.dumps\<close> of a list of strings\<close>

definition escape_char :: "char \<Rightarrow> string" where
  "escape_char c =
     (if c = quote then [backslash, quote]
      else if c = backslash then [backslash, backslash]
      else if c = CHR 0x08 then [backslash, CHR ''b'']
      else if c = CHR 0x0C then [backslash, CHR ''f'']
      else if c = CHR 0x0A then [backslash, CHR ''n'']
      else if c = CHR 0x0D then [backslash, CHR ''r'']
      else if c = CHR 0x09 then [backslash, CHR ''t'']
      else if (of_char c :: nat) < 32
        then [backslash, CHR ''u'', CHR ''0'', CHR ''0'', hex_char (of_char c div 16), hex_char (of_char c)]
      else [c])"

definition dumps_string :: "string \<Rightarrow> string" where
  "dumps_string s = [quote] @ concat (map escape_char s) @ [quote]"

definition json_dumps :: "string list \<Rightarrow> string" where
  "json_dumps ts = ''['' @ join '', '' (map dumps_string ts) @ '']''"

section \<open>Fuel\<close>

lemma length_skip_ws: "length (skip_ws s) \<le> length s"
  by (simp add: skip_ws_def length_dropWhile_le)

lemma scan_string_shorter: "scan_string wide s = Some (t, r) \<Longrightarrow> length r < length s"
proof (induction wide s arbitrary: t r rule: scan_string.induct)
  case (2 wide c cs)
  show ?case
    using 2 by (fastforce split: if_splits list.splits option.splits)
qed simp

lemma scan_fraction_length: "scan_fraction s = (f, r) \<Longrightarrow> length r \<le> length s"
  by (auto simp: scan_fraction_def length_dropWhile_le le_SucI split: list.splits if_splits)

lemma scan_exponent_length: "scan_exponent s = (e, r) \<Longrightarrow> length r \<le> length s"
proof (cases s)
  case (Cons c cs)
  assume e: "scan_exponent s = (e, r)"
  have "length (dropWhile digit (drop 1 cs)) \<le> length cs" "length (dropWhile digit cs) \<le> length cs"
    using length_dropWhile_le[of digit "drop 1 cs"] by (auto simp: length_dropWhile_le)
  then show ?thesis using e Cons by (auto simp: scan_exponent_def Let_def split: if_splits)
qed (simp add: scan_exponent_def)

lemma number_parts_shorter:
  assumes "number_parts s = (neg, whole, f, ex, r)" "whole \<noteq> []"
  shows "length r < length s"
proof -
  define s1 where "s1 = (if take 1 s = ''-'' then drop 1 s else s)"
  obtain f' r1 where f: "scan_fraction (drop (length whole) s1) = (f', r1)" by fastforce
  obtain e' r2 where ex: "scan_exponent r1 = (e', r2)" by fastforce
  have w: "whole = (if take 1 s1 = ''0'' then ''0'' else takeWhile digit s1)" and r: "r = r2"
    using assms(1) f ex unfolding number_parts_def Let_def s1_def[symmetric] by (auto split: prod.splits)
  have "length whole \<le> length s1"
    using w by (cases s1) (auto simp: length_takeWhile_le split: if_splits)
  moreover have "length s1 \<le> length s" by (simp add: s1_def)
  moreover have "length r2 \<le> length s1 - length whole"
    using scan_fraction_length[OF f] scan_exponent_length[OF ex] by simp
  moreover have "length whole > 0" using assms(2) by simp
  ultimately show ?thesis unfolding r by linarith
qed

lemma scan_number_shorter: "scan_number s = Inr (v, r) \<Longrightarrow> length r < length s"
  using number_parts_shorter[of s]
  by (cases "number_parts s") (auto simp: scan_number_def Let_def split: if_splits)

lemma scan_literal_shorter: "scan_literal s = Some (Inr (v, r)) \<Longrightarrow> s \<noteq> [] \<Longrightarrow> length r < length s"
  by (auto simp: scan_literal_def literals_def split: if_splits)

lemma drop_skip_ws: "take 1 (skip_ws s) = [c] \<Longrightarrow> length (drop 1 (skip_ws s)) < length s"
  using length_skip_ws[of s] by (cases "skip_ws s") auto

lemma skip_ws_Cons: "skip_ws s = c # r \<Longrightarrow> length r < length s"
  using length_skip_ws[of s] by simp

text \<open>Decoding consumes input.\<close>

lemma decode_shorter:
  "decode_value wide n s = Inr (v, r) \<Longrightarrow> length r < length s"
  "decode_items wide n s = Inr (vs, r) \<Longrightarrow> length r < length s"
  "decode_pairs wide n s = Inr (ps, r) \<Longrightarrow> length r < length s"
proof (induction wide n s and wide n s and wide n s arbitrary: v r and vs r and ps r
    rule: decode_value_decode_items_decode_pairs.induct)
  case (3 wide n c cs)
  consider "c = quote" | "c = CHR ''[''" | "c = CHR ''{''" | "c \<noteq> quote \<and> c \<noteq> CHR ''['' \<and> c \<noteq> CHR ''{''"
    by blast
  then show ?case
  proof cases
    case 1
    with 3(3) show ?thesis by (auto split: option.splits dest!: scan_string_shorter)
  next
    case 2
    with 3(3) 3(1) show ?thesis
      using drop_skip_ws[of cs "CHR '']''"] length_skip_ws[of cs]
      by (fastforce split: if_splits sum.splits)
  next
    case 3: 3
    with "3.prems" "3.IH"(2) show ?thesis
      using drop_skip_ws[of cs "CHR ''}''"] length_skip_ws[of cs]
      by (fastforce split: if_splits sum.splits)
  next
    case 4
    with 3(3) scan_literal_shorter[of "c # cs"] scan_number_shorter[of "c # cs"] show ?thesis
      by (auto split: option.splits)
  qed
next
  case (5 wide n s)
  obtain x r0 where v: "decode_value wide n s = Inr (x, r0)" using "5.prems" by (auto split: sum.splits)
  obtain c r1 where c: "skip_ws r0 = c # r1" using "5.prems" v by (auto split: list.splits)
  have "length r0 < length s" "length r1 < length r0" using "5.IH"(1)[OF v] skip_ws_Cons[OF c] by auto
  moreover have "decode_items wide n (skip_ws r1) = Inr (ys, r2) \<Longrightarrow> c \<noteq> CHR '']'' \<Longrightarrow> c = CHR '','' \<Longrightarrow> length r2 < length (skip_ws r1)" for ys r2
    by (rule "5.IH"(2)[OF v refl c]) auto
  ultimately show ?case using "5.prems" v c length_skip_ws[of r1]
    by (fastforce split: if_splits sum.splits)
next
  case (7 wide n s)
  obtain k r0 where k: "scan_string wide (drop 1 s) = Some (k, r0)"
    using "7.prems" by (auto split: if_splits option.splits)
  define s1 where "s1 = skip_ws (drop 1 (skip_ws r0))"
  obtain x r1 where v: "decode_value wide n s1 = Inr (x, r1)"
    using "7.prems" k by (auto simp: s1_def split: if_splits sum.splits)
  obtain c r2 where c: "skip_ws r1 = c # r2" using "7.prems" k v by (auto simp: s1_def split: if_splits list.splits)
  have q: "take 1 s = [quote]" "take 1 (skip_ws r0) = '':''" using "7.prems" k by (auto split: if_splits)
  have "length r0 < length s" using scan_string_shorter[OF k] by simp
  moreover have "length r1 < length s1" using "7.IH"(1)[OF _ k refl _ v[unfolded s1_def]] q by (simp add: s1_def)
  moreover have "length s1 \<le> length r0"
    using length_skip_ws[of "drop 1 (skip_ws r0)"] length_skip_ws[of r0] by (simp add: s1_def)
  moreover have "length r2 < length r1" using skip_ws_Cons[OF c] .
  moreover have "decode_pairs wide n (skip_ws r2) = Inr (ys, r3) \<Longrightarrow> c \<noteq> CHR ''}'' \<Longrightarrow> c = CHR '','' \<Longrightarrow> length r3 < length (skip_ws r2)" for ys r3
    by (rule "7.IH"(2)[OF _ k refl _ v[unfolded s1_def] refl c]) (use q in auto)
  ultimately show ?case using "7.prems" k v c q length_skip_ws[of r2] unfolding s1_def
    by (fastforce split: if_splits sum.splits)
qed simp_all

text \<open>More fuel than two units per character changes nothing, so the fuel of \<^const>\<open>json_loads\<close> is enough.\<close>

lemma decode_fuel:
  "2 * length s < n \<Longrightarrow> decode_value wide (Suc n) s = decode_value wide n s"
  "2 * length s + 1 < n \<Longrightarrow> decode_items wide (Suc n) s = decode_items wide n s"
  "2 * length s + 1 < n \<Longrightarrow> decode_pairs wide (Suc n) s = decode_pairs wide n s"
proof (induction wide n s and wide n s and wide n s rule: decode_value_decode_items_decode_pairs.induct)
  case (3 wide n c cs)
  have len: "2 * length (skip_ws cs) + 1 < n" using "3.prems" length_skip_ws[of cs] by simp
  have "c = CHR ''['' \<Longrightarrow> take 1 (skip_ws cs) \<noteq> '']'' \<Longrightarrow>
      decode_items wide (Suc n) (skip_ws cs) = decode_items wide n (skip_ws cs)"
    and "c = CHR ''{'' \<Longrightarrow> take 1 (skip_ws cs) \<noteq> ''}'' \<Longrightarrow>
      decode_pairs wide (Suc n) (skip_ws cs) = decode_pairs wide n (skip_ws cs)"
    using "3.IH" len by auto
  then show ?case by (simp del: decode_items.simps decode_pairs.simps)
next
  case (5 wide n s)
  have v: "decode_value wide (Suc n) s = decode_value wide n s" using "5.IH"(1) "5.prems" by simp
  have "decode_items wide (Suc n) (skip_ws r1) = decode_items wide n (skip_ws r1)"
    if x: "decode_value wide n s = Inr (x, r)" "skip_ws r = CHR '','' # r1" for x r r1
  proof (rule "5.IH"(2)[OF x(1) refl x(2)])
    show "2 * length (skip_ws r1) + 1 < n"
      using decode_shorter(1)[OF x(1)] skip_ws_Cons[OF x(2)] length_skip_ws[of r1] "5.prems" by simp
  qed simp_all
  then show ?case unfolding decode_items.simps(2) v
    by (auto simp del: decode_items.simps decode_value.simps split: sum.splits list.splits)
next
  case (7 wide n s)
  have "(case decode_value wide (Suc n) (skip_ws (drop 1 (skip_ws r))) of
             Inl e \<Rightarrow> Inl e
           | Inr (x, r1) \<Rightarrow>
               (case skip_ws r1 of
                  [] \<Rightarrow> Inl DecodeError
                | c # r2 \<Rightarrow>
                    if c = CHR ''}'' then Inr ([(k, x)], r2)
                    else if c = CHR '','' then
                      (case decode_pairs wide (Suc n) (skip_ws r2) of Inl e \<Rightarrow> Inl e | Inr (xs, r3) \<Rightarrow> Inr ((k, x) # xs, r3))
                    else Inl DecodeError)) =
       (case decode_value wide n (skip_ws (drop 1 (skip_ws r))) of
             Inl e \<Rightarrow> Inl e
           | Inr (x, r1) \<Rightarrow>
               (case skip_ws r1 of
                  [] \<Rightarrow> Inl DecodeError
                | c # r2 \<Rightarrow>
                    if c = CHR ''}'' then Inr ([(k, x)], r2)
                    else if c = CHR '','' then
                      (case decode_pairs wide n (skip_ws r2) of Inl e \<Rightarrow> Inl e | Inr (xs, r3) \<Rightarrow> Inr ((k, x) # xs, r3))
                    else Inl DecodeError))"
    if q: "take 1 s = [quote]" and k: "scan_string wide (drop 1 s) = Some (k, r)"
      and col: "take 1 (skip_ws r) = '':''" for k r
  proof -
    define s1 where "s1 = skip_ws (drop 1 (skip_ws r))"
    have len: "2 * length s1 + 1 < n"
      using scan_string_shorter[OF k] length_skip_ws[of "drop 1 (skip_ws r)"] length_skip_ws[of r] "7.prems"
      by (simp add: s1_def)
    have v: "decode_value wide (Suc n) s1 = decode_value wide n s1"
      using "7.IH"(1)[OF _ k refl] q col len by (simp add: s1_def)
    have "decode_pairs wide (Suc n) (skip_ws r2) = decode_pairs wide n (skip_ws r2)"
      if x: "decode_value wide n s1 = Inr (x, r1)" "skip_ws r1 = CHR '','' # r2" for x r1 r2
    proof (rule "7.IH"(2)[OF _ k refl _ x(1)[unfolded s1_def] refl x(2)])
      show "2 * length (skip_ws r2) + 1 < n"
        using decode_shorter(1)[OF x(1)] skip_ws_Cons[OF x(2)] length_skip_ws[of r2] len by simp
    qed (use q col in simp_all)
    then show ?thesis unfolding s1_def[symmetric] v
      by (auto simp del: decode_pairs.simps decode_value.simps split: sum.splits list.splits)
  qed
  then show ?case unfolding decode_pairs.simps(2)
    by (auto simp del: decode_pairs.simps decode_value.simps split: option.splits)
qed simp_all

lemma decode_fuel_enough:
  "2 * length s < n \<Longrightarrow> decode_value wide (n + k) s = decode_value wide n s"
  by (induction k) (simp_all add: decode_fuel(1))

section \<open>Round trip\<close>

lemma hex_char_value: "hex_value (hex_char k) = Some (k mod 16)"
proof -
  have "\<forall>i<16. hex_value (''0123456789abcdef'' ! i) = Some i"
    by (simp add: hex_value_def numeral_eq_Suc All_less_Suc)
  then show ?thesis by (simp add: hex_char_def)
qed

lemma control_char:
  assumes "(of_char c :: nat) < 32"
  shows "hex4 (CHR ''0'' # CHR ''0'' # hex_char (of_char c div 16) # hex_char (of_char c) # r) = Some (of_char c)"
proof -
  have "(of_char c :: nat) div 16 * 16 + of_char c mod 16 = of_char c" by simp
  moreover have "(of_char c :: nat) div 16 mod 16 = of_char c div 16" using assms by simp
  moreover have "hex_value (CHR ''0'') = Some 0" by (simp add: hex_value_def)
  ultimately show ?thesis by (simp add: hex4_def hex_char_value)
qed

lemma scan_escape:
  "scan_string wide (escape_char c @ s) = map_option (\<lambda>(t, r). (c # t, r)) (scan_string wide s)"
proof -
  let ?u = "CHR ''0'' # CHR ''0'' # hex_char (of_char c div 16) # hex_char (of_char c) # s"
  consider "c \<in> {quote, backslash}"
    | "c \<in> {CHR 0x08, CHR 0x0C, CHR 0x0A, CHR 0x0D, CHR 0x09}"
    | "c \<notin> {quote, backslash, CHR 0x08, CHR 0x0C, CHR 0x0A, CHR 0x0D, CHR 0x09}" "(of_char c :: nat) < 32"
    | "c \<notin> {quote, backslash, CHR 0x08, CHR 0x0C, CHR 0x0A, CHR 0x0D, CHR 0x09}" "\<not> (of_char c :: nat) < 32"
    by auto
  then show ?thesis
  proof cases
    case 1
    then show ?thesis by (auto simp: escape_char_def simple_escape_def)
  next
    case 2
    then show ?thesis by (auto simp: escape_char_def simple_escape_def)
  next
    case 3
    then have "escape_char c @ s = backslash # CHR ''u'' # ?u" by (simp add: escape_char_def)
    moreover have "low_surrogate (of_char c) x = None" for x using 3(2) by (simp add: low_surrogate_def)
    ultimately show ?thesis using control_char[OF 3(2)] 3(2) by (simp add: json_char_def)
  next
    case 4
    then show ?thesis by (simp add: escape_char_def)
  qed
qed

lemma scan_dumps: "scan_string wide (concat (map escape_char t) @ quote # r) = Some (t, r)"
  by (induction t) (simp_all add: scan_escape)

lemma skip_ws_id: "s \<noteq> [] \<Longrightarrow> \<not> json_space (hd s) \<Longrightarrow> skip_ws s = s"
  by (cases s) (simp_all add: skip_ws_def)

lemma decode_dumps_string: "decode_value wide (Suc n) (dumps_string t @ r) = Inr (JStr t, r)"
  using scan_dumps[of wide t r] by (simp add: dumps_string_def)

lemma join_Cons: "ts \<noteq> [] \<Longrightarrow> join sep (t # ts) = t @ sep @ join sep ts"
  by (cases ts) auto

lemma skip_ws_dumps: "skip_ws (dumps_string t @ r) = dumps_string t @ r"
  by (rule skip_ws_id) (simp_all add: dumps_string_def json_space_def)

lemma skip_ws_join: "ts \<noteq> [] \<Longrightarrow> skip_ws (join '', '' (map dumps_string ts) @ r) = join '', '' (map dumps_string ts) @ r"
proof (cases ts)
  case (Cons t us)
  show ?thesis
  proof (cases us)
    case Nil
    then show ?thesis using Cons by (simp add: skip_ws_dumps)
  next
    case (Cons u vs)
    with \<open>ts = t # us\<close> show ?thesis using skip_ws_dumps[of t "'', '' @ join '', '' (map dumps_string us) @ r"] by simp
  qed
qed simp

lemma decode_items_dumps:
  "ts \<noteq> [] \<Longrightarrow> length ts < n \<Longrightarrow>
     decode_items wide n (join '', '' (map dumps_string ts) @ CHR '']'' # r) = Inr (map JStr ts, r)"
proof (induction ts arbitrary: n)
  case (Cons t ts)
  obtain m where n: "n = Suc (Suc m)" using Cons.prems by (cases n; cases "n - 1") auto
  show ?case
  proof (cases "ts = []")
    case True
    then show ?thesis using decode_dumps_string[of wide m t "CHR '']'' # r"]
      by (simp add: n skip_ws_id json_space_def del: decode_value.simps)
  next
    case False
    let ?rest = "join '', '' (map dumps_string ts) @ CHR '']'' # r"
    have "skip_ws (CHR '' '' # ?rest) = ?rest"
      using skip_ws_join[OF False, of "CHR '']'' # r"] by (simp add: skip_ws_def json_space_def)
    moreover have "decode_items wide (Suc m) ?rest = Inr (map JStr ts, r)"
      using Cons.IH[OF False, of "Suc m"] Cons.prems by (simp add: n)
    ultimately show ?thesis
      using False decode_dumps_string[of wide m t "'', '' @ ?rest"]
      by (simp add: n join_Cons skip_ws_id json_space_def del: decode_value.simps decode_items.simps(2) add: decode_items.simps(2)[of wide "Suc m"])
  qed
qed simp

lemma length_join_ge: "length ts \<le> Suc (length (join '', '' (map dumps_string ts)))"
proof (induction ts)
  case (Cons t ts)
  then show ?case by (cases ts) (auto simp: join_Cons dumps_string_def)
qed simp

lemma json_loads_dumps: "json_loads wide (json_dumps ts) = Inr (JList (map JStr ts))"
proof (cases "ts = []")
  case True
  have "decode_value wide (Suc 4) ''[]'' = Inr (JList [], [])"
    unfolding decode_value.simps(3) by (simp add: skip_ws_def json_space_def)
  then show ?thesis using True by (simp add: json_loads_def json_dumps_def skip_ws_def json_space_def)
next
  case False
  let ?b = "join '', '' (map dumps_string ts) @ '']''"
  obtain n where n: "2 * length (json_dumps ts) + 1 = Suc n" "length ts < n"
    using length_join_ge[of ts] by (simp add: json_dumps_def)
  have "take 1 ?b \<noteq> '']''"
  proof (cases ts)
    case (Cons t us)
    then show ?thesis by (cases us) (simp_all add: dumps_string_def)
  qed (use False in simp)
  then have "decode_value wide (Suc n) (json_dumps ts) = Inr (JList (map JStr ts), [])"
    using decode_items_dumps[OF False n(2), of wide "[]"] skip_ws_join[OF False, of "'']''"]
    by (simp add: json_dumps_def del: decode_items.simps)
  moreover have "skip_ws (json_dumps ts) = json_dumps ts"
    by (simp add: json_dumps_def skip_ws_id json_space_def)
  ultimately show ?thesis unfolding json_loads_def n(1) by (simp add: skip_ws_def)
qed

end
