(* ===== verification/Llm.thy ===== *)
theory Llm
  imports Json Features
begin

text \<open>
  The single seam to the model providers (\<^verbatim>\<open>llm/config.py\<close>): which errors count as a rate limit, how
  long to wait, the retry loop around every call, and the three calls \<^verbatim>\<open>complete\<close>, \<^verbatim>\<open>stream\<close> and
  \<^verbatim>\<open>embed\<close>. The provider behind LiteLLM is a parameter that answers each attempt of a request; the
  random jitter is a parameter between 0 and 1; the environment is a record of settings.
\<close>

section \<open>Printing numbers\<close>

fun nat_str :: "nat \<Rightarrow> string" where
  "nat_str n = (if n < 10 then [char_of (48 + n)] else nat_str (n div 10) @ [char_of (48 + n mod 10)])"

declare nat_str.simps [simp del]

definition int_str :: "int \<Rightarrow> string" where
  "int_str k = (if k < 0 then CHR ''-'' # nat_str (nat (- k)) else nat_str (nat k))"

section \<open>Settings\<close>

record llm_settings =
  ls_model :: string
  ls_embedding_model :: string
  ls_dim :: nat
  ls_max_tokens :: int
  ls_attempts :: int
  ls_base_delay :: real
  ls_max_delay :: real

definition default_settings :: llm_settings where
  "default_settings = \<lparr> ls_model = ''groq/openai/gpt-oss-120b'', ls_embedding_model = ''voyage/voyage-3.5'',
     ls_dim = 1024, ls_max_tokens = 1024, ls_attempts = 6, ls_base_delay = 4, ls_max_delay = 60 \<rparr>"

definition min_max_tokens :: int where "min_max_tokens = 512"

definition default_max_tokens :: "llm_settings \<Rightarrow> int" where
  "default_max_tokens ls = max min_max_tokens (ls_max_tokens ls)"

section \<open>Rate limits\<close>

text \<open>An exception of the provider: the name of its class, its text, and the attributes the code
  looks at (\<^verbatim>\<open>status_code\<close>, \<^verbatim>\<open>retry_after\<close>, and the headers when they are a dictionary).\<close>

record llm_exn =
  le_type :: string
  le_text :: string
  le_status :: "int option"
  le_retry_after :: pyval
  le_headers :: "(string \<times> pyval) list option"

definition is_rate_limit :: "llm_exn \<Rightarrow> bool" where
  "is_rate_limit e \<longleftrightarrow>
     le_type e \<in> {''RateLimitError'', ''APIStatusError''} \<or> le_status e = Some 429 \<or>
     (let t = lower (le_text e) in contains t ''429'' \<or> contains t ''rate limit'' \<or> contains t ''rate_limit'')"

fun py_true :: "pyval \<Rightarrow> bool" where
  "py_true PyNone = False"
| "py_true (PyBool b) = b"
| "py_true (PyInt n) = (n \<noteq> 0)"
| "py_true (PyFloat f) = (f \<noteq> Fin 0)"
| "py_true (PyStr s) = (s \<noteq> [])"
| "py_true _ = True"

text \<open>The search for \<^verbatim>\<open>retry[- _]?after["'\s:=]+([0-9]+(?:\.[0-9]+)?)\<close> without regard to case. Every
  class of the pattern is disjoint from what may follow it, so matching needs no backtracking.\<close>

definition retry_separator :: "char \<Rightarrow> bool" where
  "retry_separator c \<longleftrightarrow> c = quote \<or> c = CHR 0x27 \<or> c = CHR '':'' \<or> c = CHR ''='' \<or> py_space c"

definition match_retry_after :: "string \<Rightarrow> real option" where
  "match_retry_after s =
     (if lower (take 5 s) \<noteq> ''retry'' then None
      else let s1 = drop 5 s;
               s2 = (if take 1 s1 \<in> {''-'', '' '', ''_''} then drop 1 s1 else s1);
               s3 = drop 5 s2;
               s4 = dropWhile retry_separator s3;
               whole = takeWhile digit s4
           in if lower (take 5 s2) \<noteq> ''after'' \<or> takeWhile retry_separator s3 = [] \<or> whole = [] then None
              else let fraction = fst (scan_fraction (dropWhile digit s4))
                   in Some (real (digits_value (whole @ fraction)) / 10 ^ length fraction))"

fun search_retry_after :: "string \<Rightarrow> real option" where
  "search_retry_after [] = None"
| "search_retry_after (c # cs) =
     (case match_retry_after (c # cs) of Some x \<Rightarrow> Some x | None \<Rightarrow> search_retry_after cs)"

text \<open>\<^verbatim>\<open>_retry_after_seconds\<close>; only \<^verbatim>\<open>TypeError\<close> and \<^verbatim>\<open>ValueError\<close> of \<^verbatim>\<open>float()\<close> are caught.\<close>

definition header_value :: "(string \<times> pyval) list option \<Rightarrow> pyval" where
  "header_value h = (case h of
       None \<Rightarrow> PyNone
     | Some d \<Rightarrow>
         (let v = dict_get d ''retry-after'' PyNone
          in if py_true v then v else dict_get d ''Retry-After'' PyNone))"

definition retry_after_seconds :: "pylib \<Rightarrow> llm_exn \<Rightarrow> pyfloat option res" where
  "retry_after_seconds lib e =
     (let v = (if le_retry_after e = PyNone then header_value (le_headers e) else le_retry_after e)
      in if v = PyNone then Inr (map_option Fin (search_retry_after (le_text e)))
         else case py_float lib v of
             Inr f \<Rightarrow> Inr (Some f)
           | Inl TypeError \<Rightarrow> Inr None
           | Inl ValueError \<Rightarrow> Inr None
           | Inl x \<Rightarrow> Inl x)"

section \<open>The retry loop\<close>

text \<open>The wait before the next attempt: what the provider asks for or an exponential backoff, capped,
  and the jitter on top.\<close>

definition backoff :: "llm_settings \<Rightarrow> pyfloat option \<Rightarrow> nat \<Rightarrow> pyfloat" where
  "backoff ls requested attempt =
     (case requested of
        Some r \<Rightarrow> py_min r (Fin (ls_max_delay ls))
      | None \<Rightarrow> Fin (min (ls_base_delay ls * 2 ^ attempt) (ls_max_delay ls)))"

fun add_jitter :: "real \<Rightarrow> pyfloat \<Rightarrow> pyfloat" where
  "add_jitter u (Fin d) = Fin (d + u * min 1 (d / 4))"
| "add_jitter u f = f"

definition exhausted :: "string \<Rightarrow> nat \<Rightarrow> llm_exn" where
  "exhausted what n =
     \<lparr> le_type = ''RuntimeError'',
       le_text = what @ '' exhausted '' @ nat_str n @ '' attempts against a provider rate limit. The Voyage no-payment tier allows 3 requests/minute; either slow the caller down or raise LLM_RATE_LIMIT_ATTEMPTS.'',
       le_status = None, le_retry_after = PyNone, le_headers = None \<rparr>"

definition overflow_error :: llm_exn where
  "overflow_error = \<lparr> le_type = ''OverflowError'', le_text = ''int too large to convert to float'',
     le_status = None, le_retry_after = PyNone, le_headers = None \<rparr>"

text \<open>The loop with \<open>k\<close> of \<open>n\<close> attempts left: the outcome, and the waits.\<close>

fun retry_loop ::
  "pylib \<Rightarrow> llm_settings \<Rightarrow> (nat \<Rightarrow> real) \<Rightarrow> string \<Rightarrow> (nat \<Rightarrow> llm_exn + 'a) \<Rightarrow> nat \<Rightarrow> nat \<Rightarrow>
     (llm_exn + 'a) \<times> pyfloat list" where
  "retry_loop lib ls jitter what op n 0 = (Inl (exhausted what n), [])"
| "retry_loop lib ls jitter what op n (Suc k) =
     (case op (n - Suc k) of
        Inr x \<Rightarrow> (Inr x, [])
      | Inl e \<Rightarrow>
          if \<not> is_rate_limit e then (Inl e, [])
          else if k = 0 then (Inl (exhausted what n), [])
          else (case retry_after_seconds lib e of
              Inl _ \<Rightarrow> (Inl overflow_error, [])
            | Inr requested \<Rightarrow>
                (let d = add_jitter (jitter (n - Suc k)) (backoff ls requested (n - Suc k));
                     (r, ds) = retry_loop lib ls jitter what op n k
                 in (r, d # ds))))"

definition with_rate_limit_retry ::
  "pylib \<Rightarrow> llm_settings \<Rightarrow> (nat \<Rightarrow> real) \<Rightarrow> (nat \<Rightarrow> llm_exn + 'a) \<Rightarrow> int option \<Rightarrow> string \<Rightarrow>
     (llm_exn + 'a) \<times> pyfloat list" where
  "with_rate_limit_retry lib ls jitter op attempts what =
     (let n = nat (max 1 (case attempts of Some a \<Rightarrow> a | None \<Rightarrow> ls_attempts ls))
      in retry_loop lib ls jitter what op n n)"

section \<open>The calls\<close>

type_synonym prompt = "(string \<times> string) list"

record llm_request =
  rq_model :: string
  rq_messages :: prompt
  rq_max_tokens :: int
  rq_temperature :: real

text \<open>The provider: per request and attempt, the content of a completion (which may be missing), the
  deltas of a stream, the indexed vectors of an embedding batch.\<close>

record provider =
  pv_complete :: "llm_request \<Rightarrow> nat \<Rightarrow> llm_exn + string option"
  pv_stream :: "llm_request \<Rightarrow> nat \<Rightarrow> llm_exn + string option list"
  pv_embed :: "string \<Rightarrow> string list \<Rightarrow> nat \<Rightarrow> llm_exn + (int \<times> real list) list"
  pv_jitter :: "nat \<Rightarrow> real"

definition token_budget :: "llm_settings \<Rightarrow> int option \<Rightarrow> int" where
  "token_budget ls max_tokens =
     max min_max_tokens (case max_tokens of Some b \<Rightarrow> b | None \<Rightarrow> default_max_tokens ls)"

definition request_of :: "llm_settings \<Rightarrow> string option \<Rightarrow> int option \<Rightarrow> real \<Rightarrow> prompt \<Rightarrow> llm_request" where
  "request_of ls model max_tokens temperature messages =
     \<lparr> rq_model = (case model of Some m \<Rightarrow> if m = [] then ls_model ls else m | None \<Rightarrow> ls_model ls),
       rq_messages = messages, rq_max_tokens = token_budget ls max_tokens, rq_temperature = temperature \<rparr>"

definition complete ::
  "pylib \<Rightarrow> llm_settings \<Rightarrow> provider \<Rightarrow> string option \<Rightarrow> int option \<Rightarrow> real \<Rightarrow> int option \<Rightarrow> prompt \<Rightarrow>
     (llm_exn + string) \<times> pyfloat list" where
  "complete lib ls p model max_tokens temperature attempts messages =
     (let rq = request_of ls model max_tokens temperature messages;
          (r, ds) = with_rate_limit_retry lib ls (pv_jitter p) (pv_complete p rq) attempts
            (''completion ('' @ rq_model rq @ '')'')
      in (case r of Inl e \<Rightarrow> Inl e | Inr c \<Rightarrow> Inr (case c of Some t \<Rightarrow> t | None \<Rightarrow> []), ds))"

text \<open>\<^verbatim>\<open>stream\<close>: only opening the stream is retried; empty deltas are skipped.\<close>

definition nonempty_pieces :: "string option list \<Rightarrow> string list" where
  "nonempty_pieces ps = [t. Some t \<leftarrow> ps, t \<noteq> []]"

definition stream ::
  "pylib \<Rightarrow> llm_settings \<Rightarrow> provider \<Rightarrow> string option \<Rightarrow> int option \<Rightarrow> real \<Rightarrow> int option \<Rightarrow> prompt \<Rightarrow>
     (llm_exn + string list) \<times> pyfloat list" where
  "stream lib ls p model max_tokens temperature attempts messages =
     (let rq = request_of ls model max_tokens temperature messages;
          (r, ds) = with_rate_limit_retry lib ls (pv_jitter p) (pv_stream p rq) attempts
            (''stream ('' @ rq_model rq @ '')'')
      in (case r of Inl e \<Rightarrow> Inl e | Inr cs \<Rightarrow> Inr (nonempty_pieces cs), ds))"

definition embed_texts ::
  "pylib \<Rightarrow> llm_settings \<Rightarrow> provider \<Rightarrow> string option \<Rightarrow> int option \<Rightarrow> string list \<Rightarrow>
     (llm_exn + real list list) \<times> pyfloat list" where
  "embed_texts lib ls p model attempts texts =
     (if texts = [] then (Inr [], [])
      else let m = (case model of Some x \<Rightarrow> if x = [] then ls_embedding_model ls else x | None \<Rightarrow> ls_embedding_model ls);
               (r, ds) = with_rate_limit_retry lib ls (pv_jitter p) (pv_embed p m texts) attempts
                 (''embedding ('' @ m @ '')'')
           in (case r of Inl e \<Rightarrow> Inl e | Inr items \<Rightarrow> Inr (map snd (sort_key fst items)), ds))"

section \<open>What the retry loop promises\<close>

definition limited :: "(nat \<Rightarrow> llm_exn + 'a) \<Rightarrow> nat \<Rightarrow> bool" where
  "limited op j \<longleftrightarrow> (case op j of Inl e \<Rightarrow> is_rate_limit e | Inr _ \<Rightarrow> False)"

text \<open>Every hint of the provider is a number or unreadable, not an integer beyond the floats.\<close>

definition readable_hints :: "pylib \<Rightarrow> (nat \<Rightarrow> llm_exn + 'a) \<Rightarrow> bool" where
  "readable_hints lib op \<longleftrightarrow> (\<forall>j e. op j = Inl e \<longrightarrow> (\<exists>r. retry_after_seconds lib e = Inr r))"

lemma retry_loop_spec:
  assumes "readable_hints lib op" "0 < k" "k \<le> n"
  shows "(\<exists>j. n - k \<le> j \<and> j < n \<and> (\<forall>i. n - k \<le> i \<and> i < j \<longrightarrow> limited op i) \<and> \<not> limited op j \<and>
            fst (retry_loop lib ls jitter what op n k) = op j \<and>
            length (snd (retry_loop lib ls jitter what op n k)) = j - (n - k)) \<or>
         (\<forall>i. n - k \<le> i \<and> i < n \<longrightarrow> limited op i) \<and>
            fst (retry_loop lib ls jitter what op n k) = Inl (exhausted what n) \<and>
            length (snd (retry_loop lib ls jitter what op n k)) = k - 1"
  using assms(2,3)
proof (induction k)
  case (Suc k)
  define a where "a = n - Suc k"
  have a: "a < n" "n - k = Suc a" using Suc.prems by (auto simp: a_def)
  show ?case
  proof (cases "limited op a")
    case False
    then have "retry_loop lib ls jitter what op n (Suc k) = (op a, [])"
      by (auto simp: limited_def a_def split: sum.splits)
    then show ?thesis using False a by (intro disjI1 exI[of _ a]) (auto simp: a_def)
  next
    case True
    then obtain e where e: "op a = Inl e" "is_rate_limit e" by (auto simp: limited_def split: sum.splits)
    obtain rq where rq: "retry_after_seconds lib e = Inr rq"
      using assms(1) e(1) unfolding readable_hints_def by blast
    have loop: "retry_loop lib ls jitter what op n (Suc k) =
        (if k = 0 then (Inl (exhausted what n), [])
         else let (r, ds) = retry_loop lib ls jitter what op n k
              in (r, add_jitter (jitter a) (backoff ls rq a) # ds))"
      using e rq by (simp add: a_def[symmetric])
    show ?thesis
    proof (cases "k = 0")
      case True
      have "\<forall>i. n - Suc k \<le> i \<and> i < n \<longrightarrow> i = a" using True a by (auto simp: a_def)
      then show ?thesis unfolding loop using True \<open>limited op a\<close> by (intro disjI2) auto
    next
      case False
      obtain r ds where r: "retry_loop lib ls jitter what op n k = (r, ds)" by fastforce
      have step: "fst (retry_loop lib ls jitter what op n (Suc k)) = r"
        "length (snd (retry_loop lib ls jitter what op n (Suc k))) = Suc (length ds)"
        unfolding loop using False r by simp_all
      have more: "\<forall>i. n - Suc k \<le> i \<and> i < j \<longrightarrow> limited op i"
        if "\<forall>i. n - k \<le> i \<and> i < j \<longrightarrow> limited op i" for j
      proof (intro allI impI)
        fix i assume "n - Suc k \<le> i \<and> i < j"
        then have "i = a \<or> n - k \<le> i \<and> i < j" using a(2) by (auto simp: a_def)
        with that True show "limited op i" by blast
      qed
      from Suc.IH False Suc.prems r
      consider (ok) j where "n - k \<le> j" "j < n" "\<forall>i. n - k \<le> i \<and> i < j \<longrightarrow> limited op i" "\<not> limited op j"
          "r = op j" "length ds = j - (n - k)"
        | (out) "\<forall>i. n - k \<le> i \<and> i < n \<longrightarrow> limited op i" "r = Inl (exhausted what n)" "length ds = k - 1"
        by auto
      then show ?thesis
      proof cases
        case ok
        have "\<forall>i. n - Suc k \<le> i \<and> i < j \<longrightarrow> limited op i" by (rule more[OF ok(3)])
        moreover have "n - Suc k \<le> j" "Suc (length ds) = j - (n - Suc k)" using ok(1,6) a(2) by (simp_all add: a_def)
        ultimately show ?thesis unfolding step using ok(2,4,5) by blast
      next
        case out
        have "\<forall>i. n - Suc k \<le> i \<and> i < n \<longrightarrow> limited op i" by (rule more[OF out(1)])
        then show ?thesis unfolding step using out(2,3) False by simp
      qed
    qed
  qed
qed simp

text \<open>A wait is never long: at most the cap and a second, whatever the provider asks for.\<close>

definition short_wait :: "llm_settings \<Rightarrow> pyfloat \<Rightarrow> bool" where
  "short_wait ls d = (case d of Fin x \<Rightarrow> x \<le> ls_max_delay ls + 1 | PosInf \<Rightarrow> False | _ \<Rightarrow> True)"

lemma backoff_le: "backoff ls requested a = Fin x \<Longrightarrow> x \<le> ls_max_delay ls"
  and backoff_not_inf: "backoff ls requested a \<noteq> PosInf"
  by (auto simp: backoff_def py_min_def split: option.splits if_splits elim: pf_lt.elims)

lemma add_jitter_short:
  assumes "0 \<le> u" "u \<le> 1"
  shows "short_wait ls (add_jitter u (backoff ls requested a))"
proof (cases "backoff ls requested a")
  case (Fin x)
  have "u * min 1 (x / 4) \<le> 1"
  proof (cases "0 \<le> min 1 (x / 4)")
    case True
    then have "u * min 1 (x / 4) \<le> 1 * min 1 (x / 4)" using assms by (intro mult_right_mono) auto
    then show ?thesis by linarith
  next
    case False
    then have "u * min 1 (x / 4) \<le> 0" using assms by (simp add: mult_nonneg_nonpos)
    then show ?thesis by linarith
  qed
  then show ?thesis using Fin backoff_le[OF Fin] by (simp add: short_wait_def)
qed (use backoff_not_inf in \<open>auto simp: short_wait_def\<close>)

lemma retry_waits_short:
  assumes "\<And>i. 0 \<le> jitter i \<and> jitter i \<le> 1"
  shows "list_all (short_wait ls) (snd (retry_loop lib ls jitter what op n k))"
proof (induction k)
  case (Suc k)
  show ?case
    using Suc add_jitter_short assms
    by (auto simp: Let_def split: sum.splits prod.splits)
qed simp

lemma with_rate_limit_retry_spec:
  fixes op :: "nat \<Rightarrow> llm_exn + 'a"
  assumes "readable_hints lib op" "\<And>i. 0 \<le> jitter i \<and> jitter i \<le> 1"
    and n: "n = nat (max 1 (case attempts of Some a \<Rightarrow> a | None \<Rightarrow> ls_attempts ls))"
    and r: "with_rate_limit_retry lib ls jitter op attempts what = (r, ds)"
  shows "list_all (short_wait ls) ds"
    and "(\<exists>j<n. (\<forall>i<j. limited op i) \<and> \<not> limited op j \<and> r = op j \<and> length ds = j) \<or>
       (\<forall>i<n. limited op i) \<and> r = Inl (exhausted what n) \<and> length ds = n - 1"
proof -
  have loop: "retry_loop lib ls jitter what op n n = (r, ds)"
    using r unfolding with_rate_limit_retry_def Let_def n[symmetric] .
  have "0 < n" unfolding n by simp
  from retry_loop_spec[OF assms(1) this order_refl, of ls jitter what] loop
  show "(\<exists>j<n. (\<forall>i<j. limited op i) \<and> \<not> limited op j \<and> r = op j \<and> length ds = j) \<or>
       (\<forall>i<n. limited op i) \<and> r = Inl (exhausted what n) \<and> length ds = n - 1"
    by simp
  show "list_all (short_wait ls) ds"
    using retry_waits_short[of jitter ls lib what op n n, OF assms(2)] loop by simp
qed

text \<open>A first attempt that is not refused settles the call.\<close>

lemma retry_immediate:
  assumes "\<not> limited op 0"
  shows "with_rate_limit_retry lib ls jitter op attempts what = (op 0, [])"
proof -
  obtain m where "nat (max 1 (case attempts of Some a \<Rightarrow> a | None \<Rightarrow> ls_attempts ls)) = Suc m"
    by (metis Suc_pred' max.cobounded1 nat_one_as_int zero_less_nat_eq int_one_le_iff_zero_less)
  then show ?thesis
    using assms by (auto simp: with_rate_limit_retry_def limited_def split: sum.splits)
qed

lemma retry_immediate_Inr:
  "op 0 = Inr x \<Longrightarrow> with_rate_limit_retry lib ls jitter op attempts what = (Inr x, [])"
  using retry_immediate[of op] by (simp add: limited_def)

section \<open>Properties\<close>

definition ex_pylib :: pylib where
  "ex_pylib = \<lparr> float_of_str = (\<lambda>s. None), from_isoformat = (\<lambda>s. None) \<rparr>"

definition ex_limit :: llm_exn where
  "ex_limit = \<lparr> le_type = ''RateLimitError'', le_text = ''retry-after: 7'', le_status = Some 429,
     le_retry_after = PyNone, le_headers = None \<rparr>"

definition ex_answers :: "nat \<Rightarrow> llm_exn + string" where
  "ex_answers j = (if j = 0 then Inl ex_limit else Inr ''pong'')"

lemma ex_hints: "readable_hints ex_pylib ex_answers"
  by (auto simp: readable_hints_def ex_answers_def ex_limit_def retry_after_seconds_def header_value_def
      split: if_splits)

text \<open>Retrying is for rate limits only and it is bounded. When the provider's hints are readable
  numbers and the jitter lies between 0 and 1, a call makes at most the configured number of attempts
  (at least one); it ends at the first attempt that is not refused by a rate limit, with exactly that
  attempt's answer or exception, after one wait per earlier attempt; it reports exhaustion precisely
  when every attempt was refused; and no wait exceeds the cap by more than a second, whatever the
  provider asks for.\<close>

lemma only_rate_limits_are_retried:
  fixes op :: "nat \<Rightarrow> llm_exn + 'a"
  assumes "readable_hints lib op" "\<And>i. 0 \<le> jitter i \<and> jitter i \<le> 1"
    and "n = nat (max 1 (case attempts of Some a \<Rightarrow> a | None \<Rightarrow> ls_attempts ls))"
    and "with_rate_limit_retry lib ls jitter op attempts what = (r, ds)"
  shows "list_all (short_wait ls) ds \<and>
    ((\<exists>j<n. (\<forall>i<j. limited op i) \<and> \<not> limited op j \<and> r = op j \<and> length ds = j) \<or>
     (\<forall>i<n. limited op i) \<and> r = Inl (exhausted what n) \<and> length ds = n - 1)"
  using with_rate_limit_retry_spec[OF assms] by blast

lemma only_rate_limits_are_retried_witness:
  "fst (with_rate_limit_retry ex_pylib default_settings (\<lambda>i. 0) ex_answers None ''ping'') = Inr ''pong''"
proof -
  obtain r ds where r: "with_rate_limit_retry ex_pylib default_settings (\<lambda>i. 0) ex_answers None ''ping'' = (r, ds)"
    by fastforce
  have lim: "limited ex_answers 0" "\<not> limited ex_answers (Suc k)" for k
    by (auto simp: limited_def ex_answers_def ex_limit_def is_rate_limit_def)
  from only_rate_limits_are_retried[OF ex_hints _ refl r]
  have *: "(\<exists>j<6. (\<forall>i<j. limited ex_answers i) \<and> \<not> limited ex_answers j \<and> r = ex_answers j) \<or> (\<forall>i<6. limited ex_answers i)"
    by (auto simp: default_settings_def)
  moreover have "\<not> (\<forall>i<6. limited ex_answers i)" using lim(2)[of 0] by (intro notI) (drule spec[of _ 1], simp)
  ultimately obtain j where j: "\<forall>i<j. limited ex_answers i" "\<not> limited ex_answers j" "r = ex_answers j" by blast
  have "j \<noteq> 0" using j(2) lim(1) by metis
  moreover have "\<not> Suc 0 < j" using j(1) lim(2)[of 0] by blast
  ultimately have "j = 1" by linarith
  then show ?thesis using j r by (simp add: ex_answers_def)
qed

end
