(* ===== verification/Attributes.thy ===== *)
theory Attributes
  imports Types
begin

text \<open>
  The closed registry of attribute slots (\<^verbatim>\<open>capture/attributes.py\<close>) and the candidate that travels
  through the capture pipeline (\<^verbatim>\<open>graphs/capture_state.py\<close>). An embedding is a value of a type
  parameter; an empty vector, which Python treats as false, is \<^const>\<open>None\<close>.
\<close>

section \<open>The registry\<close>

definition single_valued :: "string list" where
  "single_valued = [''default_programming_language'', ''preferred_response_language'',
     ''preferred_response_format'', ''preferred_code_comment_style'', ''employer'', ''job_title'',
     ''city_of_residence'', ''timezone'', ''preferred_name'']"

definition multi_valued :: "string list" where
  "multi_valued = [''food_preference'', ''dietary_restriction'', ''hobby'',
     ''programming_language_known'', ''allergy'', ''skill'']"

definition known_attributes :: "string list" where
  "known_attributes = single_valued @ multi_valued"

definition normalise_attribute :: "pyval \<Rightarrow> string option" where
  "normalise_attribute raw = (case raw of
       PyStr s \<Rightarrow>
         (let cleaned = replace_char (CHR ''-'') (CHR ''_'')
                          (replace_char (CHR '' '') (CHR ''_'') (lower (strip s)))
          in if cleaned \<in> set known_attributes then Some cleaned else None)
     | _ \<Rightarrow> None)"

definition is_single_valued :: "string option \<Rightarrow> bool" where
  "is_single_valued a = (case a of None \<Rightarrow> False | Some s \<Rightarrow> s \<in> set single_valued)"

lemma is_single_valued_None [simp]: "\<not> is_single_valued None"
  by (simp add: is_single_valued_def)

lemma single_valued_Some: "is_single_valued a \<Longrightarrow> \<exists>s. a = Some s"
  by (cases a) (auto simp: is_single_valued_def)

lemma normalise_attribute_known: "normalise_attribute raw = Some s \<Longrightarrow> s \<in> set known_attributes"
  by (auto simp: normalise_attribute_def Let_def split: pyval.splits if_splits)

lemma registry_disjoint: "set single_valued \<inter> set multi_valued = {}"
  by (simp add: single_valued_def multi_valued_def)

text \<open>A slot name, written with spaces, dashes or capitals, still denotes the slot.\<close>

lemma normalise_attribute_fixes_known:
  "s \<in> set known_attributes \<Longrightarrow> normalise_attribute (PyStr s) = Some s"
  by (auto simp: known_attributes_def single_valued_def multi_valued_def normalise_attribute_def
      strip_def lower_def lower_char_def py_space_def replace_char_def)

section \<open>Candidates\<close>

datatype dedup_status = New | Duplicate

record 'v fact =
  f_text :: string
  f_source :: string
  f_attribute :: "string option"
  f_pii :: "string list"
  f_raw :: "string option"
  f_importance :: "real option"
  f_confidence :: "real option"
  f_embedding :: "'v option"
  f_status :: "dedup_status option"
  f_duplicate_of :: "uuid option"
  f_similarity :: "real option"

definition new_fact :: "string \<Rightarrow> string \<Rightarrow> string option \<Rightarrow> 'v fact" where
  "new_fact text source attribute =
     \<lparr> f_text = text, f_source = source, f_attribute = attribute, f_pii = [], f_raw = None,
       f_importance = None, f_confidence = None, f_embedding = None, f_status = None,
       f_duplicate_of = None, f_similarity = None \<rparr>"

definition assistant_note :: string where "assistant_note = ''assistant_note''"

record turn =
  t_user :: string
  t_assistant :: string

definition turn_text :: "turn \<Rightarrow> string" where
  "turn_text t =
     (let user = strip (t_user t);
          assistant = strip (t_assistant t);
          parts = (if user = [] then [] else [''User: '' @ user])
            @ (if assistant = [] then [] else [''Assistant: '' @ assistant])
      in join [newline] parts)"

end
