(* ===== verification/Store.thy ===== *)
theory Store
  imports Attributes
begin

text \<open>
  The database as the store modules use it: the \<^verbatim>\<open>memories\<close> and \<^verbatim>\<open>audit_log\<close> tables
  (\<^verbatim>\<open>store/migrations\<close>), the two kinds of connection (\<^verbatim>\<open>store/db.py\<close>: \<^verbatim>\<open>session\<close> under row-level
  security, \<^verbatim>\<open>admin_session\<close> as the owner), and the audit writer with its same-transaction guard
  (\<^verbatim>\<open>store/audit.py\<close>). A table is the list of its rows in physical order; an SQL statement is a
  function on it, with the transaction's timestamp as \<^verbatim>\<open>now()\<close>; \<^verbatim>\<open>gen_random_uuid()\<close> is a supply of
  identifiers carried by the database. A transaction is atomic.
\<close>

section \<open>Rows\<close>

record 'v mem =
  m_id :: uuid
  m_subject :: uuid
  m_actor :: uuid
  m_content :: string
  m_embedding :: "'v option"
  m_source :: "string option"
  m_importance :: "real option"
  m_confidence :: "real option"
  m_weight :: real
  m_reinforced :: int
  m_created :: timestamp
  m_updated :: timestamp
  m_accessed :: timestamp
  m_deleted :: "timestamp option"
  m_archived :: "timestamp option"
  m_claimed :: "timestamp option"
  m_run :: "uuid option"
  m_consolidated :: "timestamp option"
  m_into :: "uuid option"
  m_attribute :: "string option"
  m_superseded :: "timestamp option"
  m_superseded_by :: "uuid option"
  m_stale :: "timestamp option"

datatype action = Write | Read | Delete | Update | Export

text \<open>The metadata of an audit row, one constructor per place that writes one.\<close>

datatype audit_meta =
    Reinforced real string
  | Inserted string "real option" "real option"
  | SupersededBy string uuid
  | StaleSummary string uuid "bool option"
  | SoftDelete
  | RetiredSummary
  | Edited nat nat
  | Surfaced nat nat nat
  | ExportCounts nat nat nat nat nat nat
  | Summary nat "uuid list"
  | ConsolidatedInto uuid
  | Unconsolidated uuid

record audit =
  a_subject :: uuid
  a_actor :: uuid
  a_memory :: "uuid option"
  a_action :: action
  a_meta :: audit_meta
  a_at :: timestamp

record 'v db =
  d_mems :: "'v mem list"
  d_audits :: "audit list"
  d_gen :: "nat \<Rightarrow> uuid"
  d_next :: nat

definition ids :: "'v db \<Rightarrow> uuid set" where
  "ids d = m_id ` set (d_mems d)"

text \<open>The primary key, and a supply that never repeats an identifier.\<close>

definition db_ok :: "'v db \<Rightarrow> bool" where
  "db_ok d \<longleftrightarrow> distinct (map m_id (d_mems d)) \<and> inj (d_gen d) \<and>
     (\<forall>n \<ge> d_next d. d_gen d n \<notin> ids d)"

definition row :: "'v db \<Rightarrow> uuid \<Rightarrow> 'v mem option" where
  "row d i = find (\<lambda>m. m_id m = i) (d_mems d)"

section \<open>Connections\<close>

datatype role = App uuid uuid | Owner

definition visible :: "role \<Rightarrow> 'v mem \<Rightarrow> bool" where
  "visible r m = (case r of App s a \<Rightarrow> m_subject m = s \<and> m_actor m = a | Owner \<Rightarrow> True)"

definition audit_visible :: "role \<Rightarrow> audit \<Rightarrow> bool" where
  "audit_visible r a = (case r of App s b \<Rightarrow> a_subject a = s \<and> a_actor a = b | Owner \<Rightarrow> True)"

lemma visible_Owner [simp]: "visible Owner m" and audit_visible_Owner [simp]: "audit_visible Owner x"
  by (simp_all add: visible_def audit_visible_def)

text \<open>A transaction: the database it sees, who runs it, its timestamp, and the guard state of the
  connection, \<^const>\<open>None\<close> when the transaction id could not be read.\<close>

record 'v tx =
  x_db :: "'v db"
  x_role :: role
  x_now :: timestamp
  x_guard :: "(action \<times> uuid option) set option"

text \<open>\<^verbatim>\<open>session(subject, actor)\<close>: a new transaction has a new id, so its guard starts empty.\<close>

definition session :: "uuid \<Rightarrow> uuid \<Rightarrow> timestamp \<Rightarrow> bool \<Rightarrow> 'v db \<Rightarrow> 'v tx" where
  "session subject actor now txid_known d =
     \<lparr> x_db = d, x_role = App subject actor, x_now = now,
       x_guard = (if txid_known then Some {} else None) \<rparr>"

definition admin_session :: "timestamp \<Rightarrow> 'v db \<Rightarrow> 'v tx" where
  "admin_session now d = \<lparr> x_db = d, x_role = Owner, x_now = now, x_guard = None \<rparr>"

section \<open>Statements\<close>

definition select_rows :: "('v mem \<Rightarrow> bool) \<Rightarrow> 'v tx \<Rightarrow> 'v mem list" where
  "select_rows P t = filter (\<lambda>m. visible (x_role t) m \<and> P m) (d_mems (x_db t))"

definition update_table :: "('v mem \<Rightarrow> bool) \<Rightarrow> ('v mem \<Rightarrow> 'v mem) \<Rightarrow> 'v mem list \<Rightarrow> 'v mem list" where
  "update_table P f ms = map (\<lambda>m. if P m then f m else m) ms"

text \<open>\<^verbatim>\<open>UPDATE ... SET f WHERE P RETURNING *\<close>\<close>

definition update_rows :: "('v mem \<Rightarrow> bool) \<Rightarrow> ('v mem \<Rightarrow> 'v mem) \<Rightarrow> 'v tx \<Rightarrow> 'v mem list \<times> 'v tx" where
  "update_rows P f t =
     (map f (select_rows P t),
      t \<lparr> x_db := (x_db t) \<lparr> d_mems := update_table (\<lambda>m. visible (x_role t) m \<and> P m) f (d_mems (x_db t)) \<rparr> \<rparr>)"

section \<open>The audit writer\<close>

definition add_audit :: "audit \<Rightarrow> 'v tx \<Rightarrow> 'v tx" where
  "add_audit a t = t \<lparr> x_db := (x_db t) \<lparr> d_audits := d_audits (x_db t) @ [a] \<rparr> \<rparr>"

text \<open>\<^verbatim>\<open>write_audit\<close>; the flag says whether a row was written.\<close>

definition write_audit ::
  "uuid \<Rightarrow> uuid \<Rightarrow> action \<Rightarrow> uuid option \<Rightarrow> audit_meta \<Rightarrow> bool \<Rightarrow> 'v tx \<Rightarrow> bool \<times> 'v tx" where
  "write_audit subject actor act memory meta allow_repeat t =
     (let a = \<lparr> a_subject = subject, a_actor = actor, a_memory = memory, a_action = act,
                a_meta = meta, a_at = x_now t \<rparr>;
          key = (act, memory)
      in case x_guard t of
           None \<Rightarrow> (True, add_audit a t)
         | Some seen \<Rightarrow>
             if key \<in> seen \<and> \<not> allow_repeat then (False, t)
             else (True, add_audit a (t \<lparr> x_guard := Some (insert key seen) \<rparr>)))"

fun write_audit_many ::
  "uuid \<Rightarrow> uuid \<Rightarrow> action \<Rightarrow> uuid list \<Rightarrow> audit_meta \<Rightarrow> 'v tx \<Rightarrow> uuid list \<times> 'v tx" where
  "write_audit_many subject actor act [] meta t = ([], t)"
| "write_audit_many subject actor act (i # is) meta t =
     (let (ok, t1) = write_audit subject actor act (Some i) meta False t;
          (written, t2) = write_audit_many subject actor act is meta t1
      in (if ok then i # written else written, t2))"

text \<open>\<^verbatim>\<open>record_read_audit\<close>: its own transaction, and a failing database costs the rows and nothing
  else.\<close>

definition record_read_audit ::
  "bool \<Rightarrow> uuid \<Rightarrow> uuid \<Rightarrow> uuid list \<Rightarrow> nat \<Rightarrow> nat \<Rightarrow> timestamp \<Rightarrow> bool \<Rightarrow> 'v db \<Rightarrow> nat \<times> 'v db" where
  "record_read_audit db_up subject actor memory_ids query_chars tokens now txid_known d =
     (let is = filter (\<lambda>i. i \<noteq> []) memory_ids in
      if is = [] \<or> \<not> db_up then (0, d)
      else (let (written, t) = write_audit_many subject actor Read is
                  (Surfaced query_chars tokens (length is)) (session subject actor now txid_known d)
            in (length written, x_db t)))"

definition count_actions :: "uuid \<Rightarrow> 'v tx \<Rightarrow> action \<Rightarrow> nat" where
  "count_actions subject t act =
     length (filter (\<lambda>a. audit_visible (x_role t) a \<and> a_subject a = subject \<and> a_action a = act)
       (d_audits (x_db t)))"

section \<open>Facts about statements\<close>

lemma update_table_ids: "(\<And>m. m_id (f m) = m_id m) \<Longrightarrow> map m_id (update_table P f ms) = map m_id ms"
  by (simp add: update_table_def)

lemma update_table_set:
  "set (update_table P f ms) = {m \<in> set ms. \<not> P m} \<union> f ` {m \<in> set ms. P m}"
  by (auto simp: update_table_def image_iff)

lemma update_rows_simps [simp]:
  "x_role (snd (update_rows P f t)) = x_role t" "x_now (snd (update_rows P f t)) = x_now t"
  "x_guard (snd (update_rows P f t)) = x_guard t"
  "d_audits (x_db (snd (update_rows P f t))) = d_audits (x_db t)"
  "d_gen (x_db (snd (update_rows P f t))) = d_gen (x_db t)"
  "d_next (x_db (snd (update_rows P f t))) = d_next (x_db t)"
  by (simp_all add: update_rows_def)

lemma update_rows_mems:
  "d_mems (x_db (snd (update_rows P f t))) = update_table (\<lambda>m. visible (x_role t) m \<and> P m) f (d_mems (x_db t))"
  by (simp add: update_rows_def)

lemma update_rows_ids: "(\<And>m. m_id (f m) = m_id m) \<Longrightarrow> ids (x_db (snd (update_rows P f t))) = ids (x_db t)"
  unfolding ids_def update_rows_mems by (metis list.set_map update_table_ids)

lemma update_rows_db_ok: "(\<And>m. m_id (f m) = m_id m) \<Longrightarrow> db_ok (x_db t) \<Longrightarrow> db_ok (x_db (snd (update_rows P f t)))"
  by (simp add: db_ok_def update_rows_ids update_rows_mems update_table_ids)

lemma add_audit_simps [simp]:
  "d_mems (x_db (add_audit a t)) = d_mems (x_db t)" "x_role (add_audit a t) = x_role t"
  "x_now (add_audit a t) = x_now t" "x_guard (add_audit a t) = x_guard t"
  "d_gen (x_db (add_audit a t)) = d_gen (x_db t)" "d_next (x_db (add_audit a t)) = d_next (x_db t)"
  "d_audits (x_db (add_audit a t)) = d_audits (x_db t) @ [a]"
  by (simp_all add: add_audit_def)

lemma write_audit_simps [simp]:
  "d_mems (x_db (snd (write_audit s a act i m r t))) = d_mems (x_db t)"
  "x_role (snd (write_audit s a act i m r t)) = x_role t"
  "x_now (snd (write_audit s a act i m r t)) = x_now t"
  "d_gen (x_db (snd (write_audit s a act i m r t))) = d_gen (x_db t)"
  "d_next (x_db (snd (write_audit s a act i m r t))) = d_next (x_db t)"
  by (auto simp: write_audit_def Let_def split: option.splits)

lemma write_audit_repeat:
  "fst (write_audit s a act i m True t)"
  "d_audits (x_db (snd (write_audit s a act i m True t))) = d_audits (x_db t) @
     [\<lparr> a_subject = s, a_actor = a, a_memory = i, a_action = act, a_meta = m, a_at = x_now t \<rparr>]"
  by (auto simp: write_audit_def Let_def split: option.splits)

lemma write_audit_fresh:
  "x_guard t = None \<or> (\<exists>seen. x_guard t = Some seen \<and> (act, i) \<notin> seen) \<Longrightarrow>
    fst (write_audit s a act i m r t) \<and>
    d_audits (x_db (snd (write_audit s a act i m r t))) = d_audits (x_db t) @
     [\<lparr> a_subject = s, a_actor = a, a_memory = i, a_action = act, a_meta = m, a_at = x_now t \<rparr>]"
  by (auto simp: write_audit_def Let_def split: option.splits)

lemma db_ok_cong: "d_mems d' = d_mems d \<Longrightarrow> d_gen d' = d_gen d \<Longrightarrow> d_next d' = d_next d \<Longrightarrow> db_ok d' = db_ok d"
  by (simp add: db_ok_def ids_def)

lemma write_audit_db_ok [simp]: "db_ok (x_db (snd (write_audit s a act i m r t))) = db_ok (x_db t)"
  by (rule db_ok_cong) simp_all

lemma row_Some: "row d i = Some m \<Longrightarrow> m \<in> set (d_mems d) \<and> m_id m = i"
  by (auto simp: row_def find_Some_iff in_set_conv_nth)

lemma find_map_key:
  "(\<And>m. m_id (g m) = m_id m) \<Longrightarrow> find (\<lambda>m. m_id m = i) (map g ms) = map_option g (find (\<lambda>m. m_id m = i) ms)"
  by (induction ms) auto

lemma find_append: "find P (xs @ ys) = (case find P xs of None \<Rightarrow> find P ys | Some x \<Rightarrow> Some x)"
  by (induction xs) auto

lemma row_None: "row d i = None \<longleftrightarrow> i \<notin> ids d"
  by (auto simp: row_def find_None_iff ids_def)

lemma row_eq: "db_ok d \<Longrightarrow> m \<in> set (d_mems d) \<Longrightarrow> row d (m_id m) = Some m"
proof -
  assume ok: "db_ok d" and m: "m \<in> set (d_mems d)"
  obtain m' where m': "row d (m_id m) = Some m'"
    using m row_None[of d "m_id m"] by (cases "row d (m_id m)") (auto simp: ids_def)
  then have "m' \<in> set (d_mems d)" "m_id m' = m_id m" using row_Some[OF m'] by auto
  then have "m' = m" using ok m by (auto simp: db_ok_def distinct_map inj_on_def)
  then show ?thesis using m' by simp
qed

lemma row_update:
  assumes "db_ok (x_db t)" "\<And>m. m_id (f m) = m_id m"
  shows "row (x_db (snd (update_rows P f t))) i =
     map_option (\<lambda>m. if visible (x_role t) m \<and> P m then f m else m) (row (x_db t) i)"
proof -
  have "find (\<lambda>m. m_id m = i) (map g ms) = map_option g (find (\<lambda>m. m_id m = i) ms)"
    if "\<And>m. m_id (g m) = m_id m" for g :: "'a mem \<Rightarrow> 'a mem" and ms
    by (induction ms) (auto simp: that)
  then show ?thesis
    unfolding row_def update_rows_mems update_table_def using assms(2) by simp
qed

lemma row_write_audit [simp]: "row (x_db (snd (write_audit s a act i m r t))) j = row (x_db t) j"
  by (simp add: row_def)

section \<open>What every transaction keeps\<close>

text \<open>
  A row may evolve but keeps its identity: owner, origin and slot never change, a soft-deleted row
  is frozen, a supersession or a staleness mark is never rewritten, reinforcement never falls, a well-formed row stays
  well-formed, and text and vector change only for the identifiers in \<open>ed\<close>. A row is well-formed
  when its weight lies between the floor of decay and the cap of reinforcement, its count is not
  negative, and its supersession and consolidation marks come with the row they point to.
\<close>

definition row_ok :: "'v mem \<Rightarrow> bool" where
  "row_ok m \<longleftrightarrow> 1 / 20 \<le> m_weight m \<and> m_weight m \<le> 5 \<and> 0 \<le> m_reinforced m \<and>
     (m_superseded m = None \<longleftrightarrow> m_superseded_by m = None) \<and> (m_consolidated m = None \<longleftrightarrow> m_into m = None)"

definition evolves :: "uuid set \<Rightarrow> 'v mem \<Rightarrow> 'v mem \<Rightarrow> bool" where
  "evolves ed m m' \<longleftrightarrow>
     m_id m' = m_id m \<and> m_subject m' = m_subject m \<and> m_actor m' = m_actor m \<and>
     m_source m' = m_source m \<and> m_attribute m' = m_attribute m \<and> m_created m' = m_created m \<and>
     (m_deleted m \<noteq> None \<longrightarrow> m' = m) \<and>
     (m_superseded m \<noteq> None \<longrightarrow>
        m_superseded m' = m_superseded m \<and> m_superseded_by m' = m_superseded_by m) \<and>
     (m_stale m \<noteq> None \<longrightarrow> m_stale m' = m_stale m) \<and>
     m_reinforced m \<le> m_reinforced m' \<and> (row_ok m \<longrightarrow> row_ok m') \<and>
     (m_id m \<notin> ed \<longrightarrow> m_content m' = m_content m \<and> m_embedding m' = m_embedding m)"

definition evolves_for :: "uuid set \<Rightarrow> role \<Rightarrow> 'v mem \<Rightarrow> 'v mem \<Rightarrow> bool" where
  "evolves_for ed r m m' \<longleftrightarrow> evolves ed m m' \<and> (\<not> visible r m \<longrightarrow> m' = m)"

text \<open>The rows evolve, rows may be appended, none disappears, and the trail only grows; a role
  touches only what it sees.\<close>

definition grows :: "uuid set \<Rightarrow> role \<Rightarrow> 'v db \<Rightarrow> 'v db \<Rightarrow> bool" where
  "grows ed r d d' \<longleftrightarrow>
     d_gen d' = d_gen d \<and> d_next d \<le> d_next d' \<and>
     (\<exists>old new. d_mems d' = old @ new \<and> list_all2 (evolves_for ed r) (d_mems d) old \<and>
        (\<forall>m \<in> set new. visible r m \<and> row_ok m \<and> (\<exists>k. d_next d \<le> k \<and> m_id m = d_gen d k))) \<and>
     (\<exists>as. d_audits d' = d_audits d @ as \<and> (\<forall>a \<in> set as. audit_visible r a)) \<and>
     (db_ok d \<longrightarrow> db_ok d')"

definition frame :: "uuid set \<Rightarrow> 'v tx \<Rightarrow> 'v tx \<Rightarrow> bool" where
  "frame ed t t' \<longleftrightarrow> x_role t' = x_role t \<and> x_now t' = x_now t \<and> grows ed (x_role t) (x_db t) (x_db t')"

lemma evolves_refl [simp]: "evolves ed m m"
  by (simp add: evolves_def)

lemma evolves_for_refl [simp]: "evolves_for ed r m m"
  by (simp add: evolves_for_def)

lemma evolves_trans: "evolves ed m m' \<Longrightarrow> evolves ed m' m'' \<Longrightarrow> evolves ed m m''"
  unfolding evolves_def by (cases "m_deleted m") auto

lemma visible_cong: "m_subject m' = m_subject m \<Longrightarrow> m_actor m' = m_actor m \<Longrightarrow> visible r m' = visible r m"
  by (cases r) (auto simp: visible_def)

lemma evolves_visible: "evolves ed m m' \<Longrightarrow> visible r m' = visible r m"
  by (rule visible_cong) (simp_all add: evolves_def)

lemma evolves_for_trans: "evolves_for ed r m m' \<Longrightarrow> evolves_for ed r m' m'' \<Longrightarrow> evolves_for ed r m m''"
  unfolding evolves_for_def using evolves_trans evolves_visible by metis

lemma growsI:
  assumes "d_gen d' = d_gen d" "d_next d \<le> d_next d'" "d_mems d' = old @ new"
    "list_all2 (evolves_for ed r) (d_mems d) old"
    "\<And>m. m \<in> set new \<Longrightarrow> visible r m \<and> row_ok m \<and> (\<exists>k. d_next d \<le> k \<and> m_id m = d_gen d k)"
    "d_audits d' = d_audits d @ as" "\<And>a. a \<in> set as \<Longrightarrow> audit_visible r a" "db_ok d \<Longrightarrow> db_ok d'"
  shows "grows ed r d d'"
  unfolding grows_def using assms by blast

lemma list_all2_left: "list_all2 R xs ys \<Longrightarrow> x \<in> set xs \<Longrightarrow> \<exists>y \<in> set ys. R x y"
  by (induction rule: list_all2_induct) auto

lemma list_all2_right: "list_all2 R xs ys \<Longrightarrow> y \<in> set ys \<Longrightarrow> \<exists>x \<in> set xs. R x y"
  by (induction rule: list_all2_induct) auto

lemma evolves_all_refl [simp]: "list_all2 (evolves_for ed r) ms ms"
  by (rule list.rel_refl) simp

lemma grows_refl [simp]: "grows ed r d d"
  by (rule growsI[where old = "d_mems d" and new = "[]" and as = "[]"]) simp_all

lemma grows_trans:
  assumes "grows ed r d d'" "grows ed r d' d''"
  shows "grows ed r d d''"
proof -
  obtain old new as where 1: "d_mems d' = old @ new" "list_all2 (evolves_for ed r) (d_mems d) old"
    "\<forall>m \<in> set new. visible r m \<and> row_ok m \<and> (\<exists>k. d_next d \<le> k \<and> m_id m = d_gen d k)"
    "d_audits d' = d_audits d @ as" "\<forall>a \<in> set as. audit_visible r a"
    using assms(1) unfolding grows_def by blast
  obtain old' new' as' where 2: "d_mems d'' = old' @ new'" "list_all2 (evolves_for ed r) (d_mems d') old'"
    "\<forall>m \<in> set new'. visible r m \<and> row_ok m \<and> (\<exists>k. d_next d' \<le> k \<and> m_id m = d_gen d' k)"
    "d_audits d'' = d_audits d' @ as'" "\<forall>a \<in> set as'. audit_visible r a"
    using assms(2) unfolding grows_def by blast
  have gen: "d_gen d' = d_gen d" "d_gen d'' = d_gen d" "d_next d \<le> d_next d'" "d_next d' \<le> d_next d''"
    using assms unfolding grows_def by auto
  obtain o1 o2 where 3: "old' = o1 @ o2" "list_all2 (evolves_for ed r) old o1" "list_all2 (evolves_for ed r) new o2"
    using 2(2) 1(1) by (auto simp: list_all2_append1)
  have rows: "list_all2 (evolves_for ed r) (d_mems d) o1"
    using list_all2_trans[OF _ 1(2) 3(2)] evolves_for_trans by blast
  have new: "visible r m \<and> row_ok m \<and> (\<exists>k. d_next d \<le> k \<and> m_id m = d_gen d k)" if m: "m \<in> set (o2 @ new')" for m
  proof (cases "m \<in> set new'")
    case True
    then have "visible r m" "row_ok m" "\<exists>k \<ge> d_next d'. m_id m = d_gen d' k" using 2(3) by auto
    then show ?thesis using gen by (metis le_trans)
  next
    case False
    with m have "m \<in> set o2" by simp
    then obtain m0 where m0: "m0 \<in> set new" "evolves_for ed r m0 m"
      using list_all2_right[OF 3(3)] by blast
    then have "m_id m = m_id m0" "visible r m = visible r m0" "row_ok m0 \<longrightarrow> row_ok m"
      using evolves_visible by (auto simp: evolves_for_def evolves_def)
    then show ?thesis using 1(3) m0(1) by simp
  qed
  show ?thesis
  proof (rule growsI)
    show "d_mems d'' = o1 @ (o2 @ new')" using 2(1) 3(1) by simp
    show "d_audits d'' = d_audits d @ (as @ as')" using 1(4) 2(4) by simp
    show "db_ok d \<Longrightarrow> db_ok d''" using assms unfolding grows_def by blast
    show "audit_visible r a" if "a \<in> set (as @ as')" for a using that 1(5) 2(5) by auto
  qed (use gen rows new in auto)
qed

lemma frame_refl [simp]: "frame ed t t"
  by (simp add: frame_def)

lemma frame_trans: "frame ed t t' \<Longrightarrow> frame ed t' t'' \<Longrightarrow> frame ed t t''"
  unfolding frame_def using grows_trans by metis

lemma frame_role: "frame ed t t' \<Longrightarrow> x_role t' = x_role t" and frame_now: "frame ed t t' \<Longrightarrow> x_now t' = x_now t"
  by (simp_all add: frame_def)

lemma frame_update:
  assumes "\<And>m. visible (x_role t) m \<Longrightarrow> P m \<Longrightarrow> evolves ed m (f m)"
  shows "frame ed t (snd (update_rows P f t))"
proof -
  let ?Q = "\<lambda>m. visible (x_role t) m \<and> P m"
  let ?ms = "update_table ?Q f (d_mems (x_db t))"
  have old: "list_all2 (evolves_for ed (x_role t)) (d_mems (x_db t)) ?ms"
    unfolding update_table_def list_all2_map2
    by (rule list.rel_refl) (use assms in \<open>simp add: evolves_for_def\<close>)
  have mids: "map m_id ?ms = map m_id (d_mems (x_db t))"
    unfolding update_table_def using assms by (simp add: evolves_def)
  then have "m_id ` set ?ms = m_id ` set (d_mems (x_db t))" by (metis list.set_map)
  then have "db_ok (x_db t) \<longrightarrow> db_ok (x_db (snd (update_rows P f t)))"
    using mids by (simp add: db_ok_def ids_def update_rows_mems)
  then have "grows ed (x_role t) (x_db t) (x_db (snd (update_rows P f t)))"
    by (intro growsI[where old = ?ms and new = "[]" and as = "[]"]) (simp_all add: update_rows_mems old)
  then show ?thesis by (simp add: frame_def)
qed

lemma frame_write_audit:
  assumes "\<And>at'. audit_visible (x_role t) \<lparr> a_subject = s, a_actor = a, a_memory = i, a_action = act, a_meta = m, a_at = at' \<rparr>"
  shows "frame ed t (snd (write_audit s a act i m r t))"
proof -
  let ?t = "snd (write_audit s a act i m r t)"
  let ?a = "\<lparr> a_subject = s, a_actor = a, a_memory = i, a_action = act, a_meta = m, a_at = x_now t \<rparr>"
  have "d_audits (x_db ?t) = d_audits (x_db t) @ [?a] \<or> d_audits (x_db ?t) = d_audits (x_db t) @ []"
    by (auto simp: write_audit_def Let_def split: option.splits)
  then obtain as where as: "d_audits (x_db ?t) = d_audits (x_db t) @ as" "set as \<subseteq> {?a}" by auto
  have "grows ed (x_role t) (x_db t) (x_db ?t)"
    by (rule growsI[where old = "d_mems (x_db t)" and new = "[]" and as = as])
      (use as assms in auto)
  then show ?thesis by (simp add: frame_def)
qed

text \<open>\<^verbatim>\<open>INSERT\<close> of a row built from a fresh identifier.\<close>

definition insert_row :: "(uuid \<Rightarrow> 'v mem) \<Rightarrow> 'v tx \<Rightarrow> uuid \<times> 'v tx" where
  "insert_row mk t =
     (let d = x_db t; i = d_gen d (d_next d)
      in (i, t \<lparr> x_db := d \<lparr> d_mems := d_mems d @ [mk i], d_next := Suc (d_next d) \<rparr> \<rparr>))"

lemma insert_row_simps [simp]:
  "fst (insert_row mk t) = d_gen (x_db t) (d_next (x_db t))"
  "d_mems (x_db (snd (insert_row mk t))) = d_mems (x_db t) @ [mk (d_gen (x_db t) (d_next (x_db t)))]"
  "x_role (snd (insert_row mk t)) = x_role t" "x_now (snd (insert_row mk t)) = x_now t"
  "x_guard (snd (insert_row mk t)) = x_guard t"
  "d_audits (x_db (snd (insert_row mk t))) = d_audits (x_db t)"
  "d_gen (x_db (snd (insert_row mk t))) = d_gen (x_db t)"
  "d_next (x_db (snd (insert_row mk t))) = Suc (d_next (x_db t))"
  by (simp_all add: insert_row_def Let_def)

lemma frame_insert:
  assumes "\<And>i. m_id (mk i) = i" "\<And>i. visible (x_role t) (mk i)" "\<And>i. row_ok (mk i)"
  shows "frame ed t (snd (insert_row mk t))"
proof -
  let ?d = "x_db t" and ?i = "d_gen (x_db t) (d_next (x_db t))"
  have "db_ok ?d \<Longrightarrow> db_ok (x_db (snd (insert_row mk t)))"
    using assms(1) by (auto simp: db_ok_def ids_def inj_eq)
  then have "grows ed (x_role t) ?d (x_db (snd (insert_row mk t)))"
    by (intro growsI[where old = "d_mems ?d" and new = "[mk ?i]" and as = "[]"]) (use assms in auto)
  then show ?thesis by (simp add: frame_def)
qed

section \<open>Running a transaction step over a list\<close>

fun run_each :: "('c \<Rightarrow> 'v tx \<Rightarrow> 'r \<times> 'v tx) \<Rightarrow> 'c list \<Rightarrow> 'v tx \<Rightarrow> 'r list \<times> 'v tx" where
  "run_each op [] t = ([], t)"
| "run_each op (c # cs) t =
     (let (r, t1) = op c t; (rs, t2) = run_each op cs t1 in (r # rs, t2))"

lemma run_each_Cons:
  "run_each op (c # cs) t =
     (fst (op c t) # fst (run_each op cs (snd (op c t))), snd (run_each op cs (snd (op c t))))"
  by (simp add: split_beta)

lemma run_each_append: "run_each op (cs @ ds) t =
    (fst (run_each op cs t) @ fst (run_each op ds (snd (run_each op cs t))),
     snd (run_each op ds (snd (run_each op cs t))))"
  by (induction cs arbitrary: t) (simp_all add: split_beta)

lemma run_each_length [simp]: "length (fst (run_each op cs t)) = length cs"
  by (induction cs arbitrary: t) (simp_all add: split_beta)

text \<open>
  The contract of an operation that a store module runs inside a transaction: over the transactions
  in \<open>ok\<close> it stays within the rows and the trail its role owns. The client, a loop over a
  batch, inherits the contract.
\<close>

locale governed =
  fixes ok :: "role \<Rightarrow> bool"
    and ed :: "uuid set"
    and op :: "'c \<Rightarrow> 'v tx \<Rightarrow> 'r \<times> 'v tx"
  assumes stays: "ok (x_role t) \<Longrightarrow> frame ed t (snd (op c t))"
begin

lemma each: "ok (x_role t) \<Longrightarrow> frame ed t (snd (run_each op cs t))"
proof (induction cs arbitrary: t)
  case Nil
  then show ?case by simp
next
  case (Cons c cs)
  have "frame ed t (snd (op c t))" by (rule stays[OF Cons.prems])
  moreover from this have "frame ed (snd (op c t)) (snd (run_each op cs (snd (op c t))))"
    using Cons by (simp add: frame_role)
  ultimately show ?case unfolding run_each_Cons using frame_trans by auto
qed

lemma then_each:
  "ok (x_role t) \<Longrightarrow> frame ed t t' \<Longrightarrow> frame ed t (snd (run_each op cs t'))"
  using each[of t'] frame_role[of ed t t'] frame_trans by metis

end

section \<open>Consequences of growth\<close>

lemma grows_db_ok: "grows ed r d d' \<Longrightarrow> db_ok d \<Longrightarrow> db_ok d'"
  by (simp add: grows_def)

lemma grows_weaken: "grows ed r d d' \<Longrightarrow> ed \<subseteq> ed' \<Longrightarrow> grows ed' Owner d d'"
proof -
  assume g: "grows ed r d d'" and sub: "ed \<subseteq> ed'"
  obtain old new as where o: "d_mems d' = old @ new" "list_all2 (evolves_for ed r) (d_mems d) old"
    "\<forall>m \<in> set new. visible r m \<and> row_ok m \<and> (\<exists>k. d_next d \<le> k \<and> m_id m = d_gen d k)" "d_audits d' = d_audits d @ as"
    using g unfolding grows_def by blast
  have "list_all2 (evolves_for ed' Owner) (d_mems d) old"
    using o(2) by (rule list_all2_mono) (use sub in \<open>auto simp: evolves_for_def evolves_def\<close>)
  moreover have "d_gen d' = d_gen d" "d_next d \<le> d_next d'" "db_ok d \<Longrightarrow> db_ok d'"
    using g by (simp_all add: grows_def)
  moreover have "visible Owner m \<and> row_ok m \<and> (\<exists>k. d_next d \<le> k \<and> m_id m = d_gen d k)" if "m \<in> set new" for m
    using o(3) that by simp
  ultimately show ?thesis using growsI[OF _ _ o(1) _ _ o(4)] by simp
qed

lemma db_ok_same_ids: "map m_id ms = map m_id (d_mems d) \<Longrightarrow> db_ok (d \<lparr> d_mems := ms \<rparr>) = db_ok d"
proof -
  assume h: "map m_id ms = map m_id (d_mems d)"
  then have "m_id ` set ms = m_id ` set (d_mems d)" by (metis list.set_map)
  with h show ?thesis by (simp add: db_ok_def ids_def)
qed


lemma grows_prefix: "grows ed r d d' \<Longrightarrow> \<exists>as. d_audits d' = d_audits d @ as \<and> (\<forall>a \<in> set as. audit_visible r a)"
  by (auto simp: grows_def)

lemma grows_row:
  assumes "grows ed r d d'" "m \<in> set (d_mems d)"
  obtains m' where "m' \<in> set (d_mems d')" "evolves_for ed r m m'"
proof -
  obtain old new where "d_mems d' = old @ new" "list_all2 (evolves_for ed r) (d_mems d) old"
    using assms(1) unfolding grows_def by blast
  then have "\<exists>m' \<in> set (d_mems d'). evolves_for ed r m m'"
    using list_all2_left[OF _ assms(2)] by fastforce
  then show ?thesis using that by blast
qed

lemma grows_origin:
  assumes "grows ed r d d'" "m' \<in> set (d_mems d')"
  obtains (old) m where "m \<in> set (d_mems d)" "evolves_for ed r m m'"
  | (new) "visible r m'" "row_ok m'" "\<exists>k \<ge> d_next d. m_id m' = d_gen d k"
proof -
  obtain old new where o: "d_mems d' = old @ new" "list_all2 (evolves_for ed r) (d_mems d) old"
    "\<forall>m \<in> set new. visible r m \<and> row_ok m \<and> (\<exists>k. d_next d \<le> k \<and> m_id m = d_gen d k)"
    using assms(1) unfolding grows_def by blast
  show ?thesis
  proof (cases "m' \<in> set new")
    case True
    then show ?thesis using o(3) that(2) by blast
  next
    case False
    then have "m' \<in> set old" using assms(2) o(1) by simp
    then have "\<exists>m \<in> set (d_mems d). evolves_for ed r m m'"
      using list_all2_right[OF o(2)] by blast
    then show ?thesis using that(1) by blast
  qed
qed

lemma grows_foreign: "grows ed r d d' \<Longrightarrow>
    filter (\<lambda>m. \<not> visible r m) (d_mems d') = filter (\<lambda>m. \<not> visible r m) (d_mems d)"
proof -
  assume "grows ed r d d'"
  then obtain old new where o: "d_mems d' = old @ new" "list_all2 (evolves_for ed r) (d_mems d) old"
    "\<forall>m \<in> set new. visible r m" unfolding grows_def by blast
  have "filter (\<lambda>m. \<not> visible r m) old = filter (\<lambda>m. \<not> visible r m) (d_mems d)"
    using o(2)
  proof (induction rule: list_all2_induct)
    case (Cons x xs y ys)
    then show ?case using evolves_visible by (fastforce simp: evolves_for_def)
  qed simp
  then show ?thesis using o(1,3) by simp
qed

text \<open>An erased row stays, unchanged.\<close>

lemma grows_tombstone:
  assumes "grows ed r d d'" "m \<in> set (d_mems d)" "m_deleted m \<noteq> None"
  shows "m \<in> set (d_mems d')"
  using assms(3) by (rule_tac grows_row[OF assms(1,2)]) (auto simp: evolves_for_def evolves_def)

definition live :: "'v mem \<Rightarrow> bool" where
  "live m \<longleftrightarrow> m_deleted m = None \<and> m_superseded m = None"

lemma evolves_live: "evolves ed m m' \<Longrightarrow> live m' \<Longrightarrow> live m"
  by (cases "m_deleted m"; cases "m_superseded m") (auto simp: evolves_def live_def)

text \<open>What a forgotten row is: erased, replaced, or a summary whose sources changed. It stays so.\<close>

definition forgotten :: "'v mem \<Rightarrow> bool" where
  "forgotten m \<longleftrightarrow> m_deleted m \<noteq> None \<or> m_superseded m \<noteq> None \<or> m_stale m \<noteq> None"

lemma evolves_forgotten: "evolves ed m m' \<Longrightarrow> forgotten m \<Longrightarrow> forgotten m'"
  by (auto simp: evolves_def forgotten_def)

lemma grows_row_of:
  assumes "grows ed r d d'" "db_ok d" "row d i = Some m"
  obtains m' where "row d' i = Some m'" "evolves_for ed r m m'"
proof -
  obtain m' where m': "m' \<in> set (d_mems d')" "evolves_for ed r m m'"
    using row_Some[OF assms(3)] by (meson grows_row[OF assms(1)])
  have "m_id m' = i" using m'(2) row_Some[OF assms(3)] by (simp add: evolves_for_def evolves_def)
  then show ?thesis using row_eq[OF grows_db_ok[OF assms(1,2)] m'(1)] m'(2) that by simp
qed

lemma grows_ids: "grows ed r d d' \<Longrightarrow> ids d \<subseteq> ids d'"
proof
  fix x assume g: "grows ed r d d'" and "x \<in> ids d"
  then obtain m0 where m0: "m0 \<in> set (d_mems d)" "x = m_id m0" by (auto simp: ids_def)
  obtain m1 where m1: "m1 \<in> set (d_mems d')" "evolves_for ed r m0 m1" by (rule grows_row[OF g m0(1)])
  then have "x = m_id m1" by (simp add: m0(2) evolves_for_def evolves_def)
  then show "x \<in> ids d'" using m1(1) by (simp add: ids_def)
qed

lemma grows_rows_ok:
  assumes "grows ed r d d'" "list_all row_ok (d_mems d)"
  shows "list_all row_ok (d_mems d')"
  unfolding list_all_iff
proof
  fix m' assume "m' \<in> set (d_mems d')"
  with assms(1) show "row_ok m'"
  proof (cases rule: grows_origin)
    case (old m)
    then show ?thesis using assms(2) by (auto simp: evolves_for_def evolves_def list_all_iff)
  qed
qed

lemma grows_new_ids:
  assumes "grows ed r d d'" "m' \<in> set (d_mems d')" "m_id m' \<notin> ids d"
  shows "visible r m'" "row_ok m'" "\<exists>k \<ge> d_next d. m_id m' = d_gen d k"
  using grows_origin[OF assms(1,2)] assms(3)
  by (metis evolves_for_def evolves_def ids_def image_eqI)+

end
