(* ===== verification/Memories.thy ===== *)
theory Memories
  imports Store "HOL-Library.Sublist"
begin

text \<open>
  Persistence of memories (\<^verbatim>\<open>store/memories.py\<close>): the similarity queries, insertion, reinforcement,
  supersession of single-valued slots, invalidation of the summaries built on a changed source, and
  the guarded write path \<open>persist_candidates\<close>; with it the two pipeline nodes that call them
  (\<^verbatim>\<open>capture/dedup.py\<close>, \<^verbatim>\<open>capture/write.py\<close>). The cosine distance of two vectors is a parameter.
  The similarity queries find the nearest row exactly; where the planner answers them from the HNSW
  index of migration 0003 they may miss it, which is not modelled here (theory Search models it for
  retrieval). The distance is a real number, which excludes vectors of zeros.
  The advisory lock makes a whole batch one atomic step.
\<close>

section \<open>Queries\<close>

definition nearest ::
  "('v \<Rightarrow> 'v \<Rightarrow> real) \<Rightarrow> 'v \<Rightarrow> nat \<Rightarrow> 'v mem list \<Rightarrow> ('v mem \<times> real) list" where
  "nearest cosd v limit ms =
     (let distance = (\<lambda>m. case m_embedding m of Some e \<Rightarrow> cosd e v | None \<Rightarrow> 0)
      in map (\<lambda>m. (m, 1 - distance m))
           (take limit (sort_key distance (filter (\<lambda>m. m_embedding m \<noteq> None) ms))))"

definition find_similar ::
  "('v \<Rightarrow> 'v \<Rightarrow> real) \<Rightarrow> uuid \<Rightarrow> 'v \<Rightarrow> nat \<Rightarrow> 'v tx \<Rightarrow> ('v mem \<times> real) list" where
  "find_similar cosd subject v limit t = nearest cosd v limit
     (select_rows (\<lambda>m. m_subject m = subject \<and> m_deleted m = None \<and> m_superseded m = None) t)"

definition find_similar_tombstones ::
  "('v \<Rightarrow> 'v \<Rightarrow> real) \<Rightarrow> uuid \<Rightarrow> 'v \<Rightarrow> nat \<Rightarrow> 'v tx \<Rightarrow> ('v mem \<times> real) list" where
  "find_similar_tombstones cosd subject v limit t = nearest cosd v limit
     (select_rows (\<lambda>m. m_subject m = subject \<and> (m_deleted m \<noteq> None \<or> m_superseded m \<noteq> None)) t)"

definition get_memory :: "uuid \<Rightarrow> 'v tx \<Rightarrow> 'v mem option" where
  "get_memory i t = (case select_rows (\<lambda>m. m_id m = i) t of [] \<Rightarrow> None | m # _ \<Rightarrow> Some m)"

definition list_memories :: "uuid \<Rightarrow> uuid \<Rightarrow> timestamp \<Rightarrow> bool \<Rightarrow> 'v db \<Rightarrow> 'v mem list" where
  "list_memories subject actor now txid_known d =
     sort_key (\<lambda>m. - m_created m)
       (select_rows (\<lambda>m. m_subject m = subject \<and> m_deleted m = None) (session subject actor now txid_known d))"

section \<open>Single-row writes\<close>

definition new_memory ::
  "uuid \<Rightarrow> uuid \<Rightarrow> string \<Rightarrow> 'v option \<Rightarrow> string option \<Rightarrow> real option \<Rightarrow> real option \<Rightarrow>
     string option \<Rightarrow> timestamp \<Rightarrow> uuid \<Rightarrow> 'v mem" where
  "new_memory subject actor content embedding source importance confidence attribute now i =
     \<lparr> m_id = i, m_subject = subject, m_actor = actor, m_content = content, m_embedding = embedding,
       m_source = source, m_importance = importance, m_confidence = confidence, m_weight = 1,
       m_reinforced = 0, m_created = now, m_updated = now, m_accessed = now, m_deleted = None,
       m_archived = None, m_claimed = None, m_run = None, m_consolidated = None, m_into = None,
       m_attribute = attribute, m_superseded = None, m_superseded_by = None, m_stale = None \<rparr>"

definition insert_memory ::
  "uuid \<Rightarrow> uuid \<Rightarrow> string \<Rightarrow> 'v option \<Rightarrow> string option \<Rightarrow> real option \<Rightarrow> real option \<Rightarrow>
     string option \<Rightarrow> 'v tx \<Rightarrow> uuid \<times> 'v tx" where
  "insert_memory subject actor content embedding source importance confidence attribute t =
     insert_row (new_memory subject actor content embedding source importance confidence attribute (x_now t)) t"

text \<open>\<^verbatim>\<open>CAPTURE_WEIGHT_INCREMENT\<close> and \<^verbatim>\<open>CAPTURE_WEIGHT_MAX\<close>, at their defaults.\<close>

definition weight_increment :: real where "weight_increment = 0.25"
definition weight_max :: real where "weight_max = 5"

definition bump :: "timestamp \<Rightarrow> 'v mem \<Rightarrow> 'v mem" where
  "bump now m = m \<lparr> m_reinforced := m_reinforced m + 1,
       m_weight := min (m_weight m + weight_increment) weight_max,
       m_updated := now, m_accessed := now \<rparr>"

definition reinforce :: "uuid \<Rightarrow> 'v tx \<Rightarrow> 'v mem option \<times> 'v tx" where
  "reinforce i t =
     (let (rows, t1) = update_rows (\<lambda>m. m_id m = i \<and> m_deleted m = None) (bump (x_now t)) t
      in (case rows of [] \<Rightarrow> None | m # _ \<Rightarrow> Some m, t1))"

section \<open>Summaries of a changed source\<close>

definition make_stale :: "timestamp \<Rightarrow> 'v mem \<Rightarrow> 'v mem" where
  "make_stale now m = m \<lparr> m_stale := Some now, m_updated := now \<rparr>"

text \<open>The join of both statements: the summary a visible source row was folded into.\<close>

definition summarises :: "('v mem \<Rightarrow> bool) \<Rightarrow> uuid \<Rightarrow> uuid \<Rightarrow> 'v tx \<Rightarrow> 'v mem \<Rightarrow> bool" where
  "summarises src_ok source_id subject t summary \<longleftrightarrow>
     list_ex (\<lambda>src. m_into src = Some (m_id summary)) (select_rows (\<lambda>m. m_id m = source_id \<and> src_ok m) t) \<and>
     m_subject summary = subject \<and> m_deleted summary = None \<and> m_stale summary = None"

definition audit_stale ::
  "uuid \<Rightarrow> uuid \<Rightarrow> string \<Rightarrow> uuid \<Rightarrow> 'v mem \<Rightarrow> 'v tx \<Rightarrow> bool \<times> 'v tx" where
  "audit_stale subject actor reason source_id summary t =
     write_audit subject actor Update (Some (m_id summary)) (StaleSummary reason source_id None) True t"

definition mark_summary_stale ::
  "uuid \<Rightarrow> uuid \<Rightarrow> uuid \<Rightarrow> string \<Rightarrow> 'v tx \<Rightarrow> 'v mem list \<times> 'v tx" where
  "mark_summary_stale subject actor source_id reason t =
     (let (stale, t1) = update_rows (summarises (\<lambda>_. True) source_id subject t) (make_stale (x_now t)) t;
          (_, t2) = run_each (audit_stale subject actor reason source_id) stale t1
      in (stale, t2))"

text \<open>As the owner, in a transaction of its own; its audit rows are plain inserts, past the guard.\<close>

definition audit_stale_owner ::
  "uuid \<Rightarrow> uuid \<Rightarrow> string \<Rightarrow> uuid \<Rightarrow> 'v mem \<Rightarrow> 'v tx \<Rightarrow> unit \<times> 'v tx" where
  "audit_stale_owner subject actor reason source_id summary t =
     ((), add_audit \<lparr> a_subject = subject, a_actor = actor, a_memory = Some (m_id summary),
            a_action = Update,
            a_meta = StaleSummary reason source_id (Some (m_actor summary \<noteq> actor)), a_at = x_now t \<rparr> t)"

definition invalidate_summaries_for ::
  "uuid \<Rightarrow> uuid \<Rightarrow> uuid \<Rightarrow> string \<Rightarrow> timestamp \<Rightarrow> 'v db \<Rightarrow> 'v mem list \<times> 'v db" where
  "invalidate_summaries_for subject actor source_id reason now d =
     (let t = admin_session now d;
          (stale, t1) = update_rows (summarises (\<lambda>src. m_subject src = subject) source_id subject t)
                          (make_stale now) t;
          (_, t2) = run_each (audit_stale_owner subject actor reason source_id) stale t1
      in (stale, x_db t2))"

section \<open>Supersession\<close>

definition retire :: "uuid \<Rightarrow> timestamp \<Rightarrow> 'v mem \<Rightarrow> 'v mem" where
  "retire new_id now m =
     m \<lparr> m_superseded_by := Some new_id, m_superseded := Some now, m_updated := now \<rparr>"

definition occupies :: "uuid \<Rightarrow> string \<Rightarrow> 'v mem \<Rightarrow> bool" where
  "occupies subject attribute m \<longleftrightarrow>
     m_subject m = subject \<and> m_attribute m = Some attribute \<and> m_deleted m = None \<and> m_superseded m = None"

definition audit_retired ::
  "uuid \<Rightarrow> uuid \<Rightarrow> string \<Rightarrow> uuid \<Rightarrow> 'v mem \<Rightarrow> 'v tx \<Rightarrow> bool \<times> 'v tx" where
  "audit_retired subject actor attribute new_id m t =
     (let (_, t1) = mark_summary_stale subject actor (m_id m) ''source_superseded'' t
      in write_audit subject actor Update (Some (m_id m)) (SupersededBy attribute new_id) True t1)"

definition supersede_slot ::
  "uuid \<Rightarrow> uuid \<Rightarrow> string \<Rightarrow> uuid \<Rightarrow> 'v tx \<Rightarrow> 'v mem list \<times> 'v tx" where
  "supersede_slot subject actor attribute new_id t =
     (let (retired, t1) = update_rows (\<lambda>m. occupies subject attribute m \<and> m_id m \<noteq> new_id)
                            (retire new_id (x_now t)) t;
          (_, t2) = run_each (audit_retired subject actor attribute new_id) retired t1
      in (retired, t2))"

section \<open>The guarded write path\<close>

datatype write_action = Insert | Reinforce | Blocked | Ignored

record write_result =
  w_text :: string
  w_action :: write_action
  w_memory :: "uuid option"
  w_attribute :: "string option"
  w_superseded :: "uuid list"
  w_similarity :: "real option"
  w_at_write :: "dedup_status option"
  w_from_node :: "dedup_status option"

text \<open>The first row of a similarity query, when it is at least as similar as the limit.\<close>

definition first_at_least :: "real \<Rightarrow> ('v mem \<times> real) list \<Rightarrow> ('v mem \<times> real) option" where
  "first_at_least limit rows =
     (case rows of [] \<Rightarrow> None | (m, s) # _ \<Rightarrow> if s \<ge> limit then Some (m, s) else None)"

definition assistant_sourced :: "'v fact \<Rightarrow> bool" where
  "assistant_sourced c \<longleftrightarrow> f_source c = assistant_note"

definition slot_of :: "'v fact \<Rightarrow> string option" where
  "slot_of c = (if assistant_sourced c \<and> f_attribute c \<noteq> None then None else f_attribute c)"

definition grave_of :: "('v \<Rightarrow> 'v \<Rightarrow> real) \<Rightarrow> real \<Rightarrow> uuid \<Rightarrow> 'v fact \<Rightarrow> 'v tx \<Rightarrow> ('v mem \<times> real) option" where
  "grave_of cosd limit subject c t = (case f_embedding c of
       Some v \<Rightarrow> if assistant_sourced c
                 then first_at_least limit (find_similar_tombstones cosd subject v 1 t) else None
     | None \<Rightarrow> None)"

definition match_of :: "('v \<Rightarrow> 'v \<Rightarrow> real) \<Rightarrow> real \<Rightarrow> uuid \<Rightarrow> 'v fact \<Rightarrow> 'v tx \<Rightarrow> ('v mem \<times> real) option" where
  "match_of cosd limit subject c t =
     (case (case f_embedding c of
              Some v \<Rightarrow> first_at_least limit (find_similar cosd subject v 1 t) | None \<Rightarrow> None) of
        None \<Rightarrow> None
      | Some (m, s) \<Rightarrow>
          if is_single_valued (slot_of c) \<and> m_attribute m = slot_of c \<and>
             strip (m_content m) \<noteq> strip (f_text c) then None
          else Some (m, s))"

definition persist_insert :: "uuid \<Rightarrow> uuid \<Rightarrow> 'v fact \<Rightarrow> 'v tx \<Rightarrow> write_result \<times> 'v tx" where
  "persist_insert subject actor c t =
     (let (i, t1) = insert_memory subject actor (f_text c) (f_embedding c) (Some (f_source c))
                      (f_importance c) (f_confidence c) (slot_of c) t;
          (retired, t2) = (case slot_of c of
              Some a \<Rightarrow> if is_single_valued (slot_of c) then supersede_slot subject actor a i t1 else ([], t1)
            | None \<Rightarrow> ([], t1));
          (_, t3) = write_audit subject actor Write (Some i)
                      (Inserted (f_source c) (f_importance c) (f_confidence c)) True t2
      in (\<lparr> w_text = f_text c, w_action = Insert, w_memory = Some i, w_attribute = slot_of c,
            w_superseded = map m_id retired, w_similarity = f_similarity c, w_at_write = Some New,
            w_from_node = f_status c \<rparr>, t3))"

definition persist_reinforce ::
  "uuid \<Rightarrow> uuid \<Rightarrow> 'v fact \<Rightarrow> 'v mem \<Rightarrow> real \<Rightarrow> 'v tx \<Rightarrow> write_result \<times> 'v tx" where
  "persist_reinforce subject actor c m s t =
     (let (_, t1) = reinforce (m_id m) t;
          (_, t2) = write_audit subject actor Write (Some (m_id m)) (Reinforced s (f_source c)) True t1
      in (\<lparr> w_text = f_text c, w_action = Reinforce, w_memory = Some (m_id m), w_attribute = None,
            w_superseded = [], w_similarity = Some s, w_at_write = Some Duplicate,
            w_from_node = f_status c \<rparr>, t2))"

definition persist_candidate ::
  "('v \<Rightarrow> 'v \<Rightarrow> real) \<Rightarrow> real \<Rightarrow> uuid \<Rightarrow> uuid \<Rightarrow> 'v fact \<Rightarrow> 'v tx \<Rightarrow> write_result \<times> 'v tx" where
  "persist_candidate cosd limit subject actor c t =
     (case grave_of cosd limit subject c t of
        Some (_, s) \<Rightarrow>
          (\<lparr> w_text = f_text c, w_action = Blocked, w_memory = None, w_attribute = None,
             w_superseded = [], w_similarity = Some s, w_at_write = None, w_from_node = f_status c \<rparr>, t)
      | None \<Rightarrow>
          (case match_of cosd limit subject c t of
             Some (m, s) \<Rightarrow>
               if assistant_sourced c then
                 (\<lparr> w_text = f_text c, w_action = Ignored, w_memory = Some (m_id m), w_attribute = None,
                    w_superseded = [], w_similarity = Some s, w_at_write = Some Duplicate,
                    w_from_node = f_status c \<rparr>, t)
               else persist_reinforce subject actor c m s t
           | None \<Rightarrow> persist_insert subject actor c t))"

text \<open>\<^verbatim>\<open>CAPTURE_DEDUP_COSINE_THRESHOLD\<close> at its default.\<close>

definition dedup_cosine_threshold :: real where "dedup_cosine_threshold = 0.82"

definition persist_candidates ::
  "('v \<Rightarrow> 'v \<Rightarrow> real) \<Rightarrow> real option \<Rightarrow> uuid \<Rightarrow> uuid \<Rightarrow> 'v fact list \<Rightarrow> timestamp \<Rightarrow> bool \<Rightarrow> 'v db \<Rightarrow>
     write_result list \<times> 'v db" where
  "persist_candidates cosd threshold subject actor candidates now txid_known d =
     (if candidates = [] then ([], d)
      else (let limit = (case threshold of Some l \<Rightarrow> l | None \<Rightarrow> dedup_cosine_threshold);
                (results, t) = run_each (persist_candidate cosd limit subject actor) candidates
                                 (session subject actor now txid_known d)
            in (results, x_db t)))"

section \<open>The dedup node\<close>

definition classify :: "real option \<Rightarrow> real \<Rightarrow> dedup_status" where
  "classify similarity threshold = (case similarity of
       None \<Rightarrow> New | Some s \<Rightarrow> if s \<ge> threshold then Duplicate else New)"

definition dedup_candidate ::
  "('v \<Rightarrow> 'v \<Rightarrow> real) \<Rightarrow> real \<Rightarrow> uuid \<Rightarrow> 'v tx \<Rightarrow> 'v fact \<Rightarrow> 'v fact" where
  "dedup_candidate cosd limit subject t c = (case f_embedding c of
       None \<Rightarrow> c \<lparr> f_status := Some New, f_duplicate_of := None, f_similarity := None \<rparr>
     | Some v \<Rightarrow>
         (let best = (case find_similar cosd subject v 1 t of [] \<Rightarrow> None | b # _ \<Rightarrow> Some b);
              status = classify (map_option snd best) limit
          in c \<lparr> f_status := Some status,
                 f_duplicate_of := (case best of
                     Some (m, _) \<Rightarrow> if status = Duplicate then Some (m_id m) else None | None \<Rightarrow> None),
                 f_similarity := map_option snd best \<rparr>))"

definition dedup_candidates ::
  "('v \<Rightarrow> 'v \<Rightarrow> real) \<Rightarrow> real option \<Rightarrow> uuid \<Rightarrow> uuid \<Rightarrow> 'v fact list \<Rightarrow> timestamp \<Rightarrow> bool \<Rightarrow> 'v db \<Rightarrow> 'v fact list" where
  "dedup_candidates cosd threshold subject actor candidates now txid_known d =
     map (dedup_candidate cosd (case threshold of Some l \<Rightarrow> l | None \<Rightarrow> dedup_cosine_threshold) subject
            (session subject actor now txid_known d)) candidates"

section \<open>The nearest row\<close>

lemma sort_key_Nil_iff: "sort_key f xs = [] \<longleftrightarrow> xs = []"
  by (metis length_0_conv length_sort)

lemma nearest_one:
  "nearest cosd v 1 ms = [] \<longleftrightarrow> list_all (\<lambda>m. m_embedding m = None) ms"
  "nearest cosd v 1 ms = (m, s) # rest \<Longrightarrow>
     rest = [] \<and> m \<in> set ms \<and> (\<exists>e. m_embedding m = Some e \<and> s = 1 - cosd e v) \<and>
     (\<forall>m' \<in> set ms. \<forall>e'. m_embedding m' = Some e' \<longrightarrow> 1 - cosd e' v \<le> s)"
proof -
  let ?d = "\<lambda>m. case m_embedding m of Some e \<Rightarrow> cosd e v | None \<Rightarrow> 0"
  let ?xs = "sort_key ?d (filter (\<lambda>m. m_embedding m \<noteq> None) ms)"
  have n: "nearest cosd v 1 ms = map (\<lambda>m. (m, 1 - ?d m)) (take 1 ?xs)"
    by (simp add: nearest_def Let_def)
  have set: "set ?xs = {m \<in> set ms. m_embedding m \<noteq> None}" by simp
  show "nearest cosd v 1 ms = [] \<longleftrightarrow> list_all (\<lambda>m. m_embedding m = None) ms"
  proof -
    have "?xs = [] \<longleftrightarrow> filter (\<lambda>m. m_embedding m \<noteq> None) ms = []"
      by (rule sort_key_Nil_iff)
    also have "\<dots> \<longleftrightarrow> list_all (\<lambda>m. m_embedding m = None) ms"
      by (simp add: filter_empty_conv list_all_iff)
    finally show ?thesis unfolding n by simp
  qed
  assume "nearest cosd v 1 ms = (m, s) # rest"
  then obtain ys where xs: "?xs = m # ys" and s: "s = 1 - ?d m" and rest: "rest = []"
    unfolding n by (cases ?xs) auto
  have "m \<in> set ?xs" unfolding xs by simp
  then have m: "m \<in> set ms" "m_embedding m \<noteq> None" using set by auto
  have "sorted (map ?d (m # ys))" using xs by (metis sorted_sort_key)
  then have least: "\<forall>m' \<in> set ?xs. ?d m \<le> ?d m'" unfolding xs by simp
  obtain e where e: "m_embedding m = Some e" using m(2) by auto
  have "1 - cosd e' v \<le> s" if "m' \<in> set ms" "m_embedding m' = Some e'" for m' e'
  proof -
    have "m' \<in> set ?xs" using that set by simp
    then have "?d m \<le> ?d m'" using least by blast
    then show ?thesis using that s by simp
  qed
  then show "rest = [] \<and> m \<in> set ms \<and> (\<exists>e. m_embedding m = Some e \<and> s = 1 - cosd e v) \<and>
     (\<forall>m' \<in> set ms. \<forall>e'. m_embedding m' = Some e' \<longrightarrow> 1 - cosd e' v \<le> s)"
    using m(1) e s rest by auto
qed

text \<open>Looking only at the nearest row loses nothing: it passes exactly if some row passes.\<close>

lemma first_at_least_Some:
  assumes "first_at_least limit (nearest cosd v 1 ms) = Some (m, s)"
  shows "m \<in> set ms" "\<exists>e. m_embedding m = Some e \<and> s = 1 - cosd e v" "limit \<le> s"
proof -
  obtain rest where "nearest cosd v 1 ms = (m, s) # rest" "limit \<le> s"
    using assms by (auto simp: first_at_least_def split: list.splits if_splits)
  with nearest_one(2)[OF this(1)] show "m \<in> set ms" "\<exists>e. m_embedding m = Some e \<and> s = 1 - cosd e v" "limit \<le> s"
    by auto
qed

definition near :: "('v \<Rightarrow> 'v \<Rightarrow> real) \<Rightarrow> real \<Rightarrow> 'v \<Rightarrow> 'v mem \<Rightarrow> bool" where
  "near cosd limit v m = (case m_embedding m of Some e \<Rightarrow> limit \<le> 1 - cosd e v | None \<Rightarrow> False)"

lemma first_at_least_None:
  "first_at_least limit (nearest cosd v 1 ms) = None \<longleftrightarrow> list_all (\<lambda>m. \<not> near cosd limit v m) ms"
proof (cases "nearest cosd v 1 ms")
  case Nil
  then show ?thesis using nearest_one(1)[of cosd v ms]
    by (auto simp: first_at_least_def near_def list_all_iff split: option.splits)
next
  case (Cons p rest)
  obtain m s where p: "p = (m, s)" by (cases p)
  note 1 = nearest_one(2)[OF Cons[unfolded p]]
  have "(\<exists>m \<in> set ms. near cosd limit v m) \<longleftrightarrow> limit \<le> s"
  proof
    assume "\<exists>m \<in> set ms. near cosd limit v m"
    then obtain m' e' where "m' \<in> set ms" "m_embedding m' = Some e'" "limit \<le> 1 - cosd e' v"
      by (auto simp: near_def split: option.splits)
    then show "limit \<le> s" using 1 by fastforce
  next
    assume "limit \<le> s"
    then show "\<exists>m \<in> set ms. near cosd limit v m" using 1 by (intro bexI[of _ m]) (auto simp: near_def)
  qed
  then show ?thesis unfolding Cons p by (auto simp: first_at_least_def list_all_iff)
qed

section \<open>Every write stays with its owner\<close>

lemma audit_own [simp]: "audit_visible (App s a) x \<longleftrightarrow> a_subject x = s \<and> a_actor x = a"
  by (simp add: audit_visible_def)

lemma visible_App [simp]: "visible (App s a) m \<longleftrightarrow> m_subject m = s \<and> m_actor m = a"
  by (simp add: visible_def)

lemma frame_own_audit: "x_role t = App s a \<Longrightarrow> frame ed t (snd (write_audit s a act i m r t))"
  by (rule frame_write_audit) simp

lemma evolves_bump: "m_deleted m = None \<Longrightarrow> evolves ed m (bump now m)"
  and evolves_make_stale: "m_deleted m = None \<Longrightarrow> m_stale m = None \<Longrightarrow> evolves ed m (make_stale now m)"
  and evolves_retire: "m_deleted m = None \<Longrightarrow> m_superseded m = None \<Longrightarrow> evolves ed m (retire i now m)"
  by (auto simp: evolves_def bump_def make_stale_def retire_def row_ok_def weight_increment_def weight_max_def)

lemma frame_reinforce: "frame ed t (snd (reinforce i t))"
  unfolding reinforce_def by (simp add: split_beta) (rule frame_update, simp add: evolves_bump)

lemma frame_insert_memory:
  "x_role t = App s a \<Longrightarrow> frame ed t (snd (insert_memory s a c e src imp conf attr t))"
  unfolding insert_memory_def by (rule frame_insert) (simp_all add: new_memory_def row_ok_def)

interpretation stale_audit: governed "\<lambda>r. r = App s a" ed "audit_stale s a reason src"
  by unfold_locales (simp add: audit_stale_def frame_own_audit)

lemma frame_mark_summary_stale:
  "x_role t = App s a \<Longrightarrow> frame ed t (snd (mark_summary_stale s a src reason t))"
  unfolding mark_summary_stale_def
  by (simp add: split_beta, rule stale_audit.then_each)
    (auto intro!: frame_update evolves_make_stale simp: summarises_def)

interpretation retired_audit: governed "\<lambda>r. r = App s a" ed "audit_retired s a attr new_id"
proof unfold_locales
  fix t :: "'a tx" and c :: "'a mem"
  assume r: "x_role t = App s a"
  let ?t = "snd (mark_summary_stale s a (m_id c) ''source_superseded'' t)"
  have f: "frame ed t ?t" by (rule frame_mark_summary_stale[OF r])
  have "frame ed ?t (snd (audit_retired s a attr new_id c t))"
    using frame_role[OF f] r by (simp add: audit_retired_def split_beta frame_own_audit)
  with f show "frame ed t (snd (audit_retired s a attr new_id c t))" by (rule frame_trans)
qed

lemma frame_supersede_slot:
  "x_role t = App s a \<Longrightarrow> frame ed t (snd (supersede_slot s a attr i t))"
  unfolding supersede_slot_def
  by (simp add: split_beta, rule retired_audit.then_each)
    (auto intro!: frame_update evolves_retire simp: occupies_def)

lemma frame_fill_slot:
  "x_role t = App s a \<Longrightarrow> frame ed t (snd (case slot of
      Some b \<Rightarrow> if is_single_valued slot then supersede_slot s a b i t else ([], t) | None \<Rightarrow> ([], t)))"
  by (simp add: frame_supersede_slot split: option.split)

lemma frame_persist_insert:
  assumes r: "x_role t = App s a"
  shows "frame ed t (snd (persist_insert s a c t))"
proof -
  let ?p = "insert_memory s a (f_text c) (f_embedding c) (Some (f_source c)) (f_importance c) (f_confidence c) (slot_of c) t"
  let ?q = "case slot_of c of
      Some b \<Rightarrow> if is_single_valued (slot_of c) then supersede_slot s a b (fst ?p) (snd ?p) else ([], snd ?p)
    | None \<Rightarrow> ([], snd ?p)"
  have 1: "frame ed t (snd ?p)" by (rule frame_insert_memory[OF r])
  have r1: "x_role (snd ?p) = App s a" using frame_role[OF 1] r by simp
  have 2: "frame ed (snd ?p) (snd ?q)"
    by (rule frame_fill_slot[OF r1])
  have r2: "x_role (snd ?q) = App s a" using frame_role[OF 2] r1 by simp
  have "snd (persist_insert s a c t) = snd (write_audit s a Write (Some (fst ?p))
          (Inserted (f_source c) (f_importance c) (f_confidence c)) True (snd ?q))"
    by (simp add: persist_insert_def split_beta Let_def)
  then show ?thesis
    using frame_trans[OF 1 frame_trans[OF 2 frame_own_audit[OF r2]]] by simp
qed

lemma frame_persist_reinforce:
  assumes r: "x_role t = App s a"
  shows "frame ed t (snd (persist_reinforce s a c m sim t))"
proof -
  have "x_role (snd (reinforce (m_id m) t)) = App s a" using r frame_role[OF frame_reinforce] by metis
  then show ?thesis
    using frame_trans[OF frame_reinforce frame_own_audit] by (simp add: persist_reinforce_def split_beta)
qed

interpretation capture: governed "\<lambda>r. r = App s a" ed "persist_candidate cosd limit s a"
proof unfold_locales
  fix t :: "'a tx" and c :: "'a fact"
  assume r: "x_role t = App s a"
  then show "frame ed t (snd (persist_candidate cosd limit s a c t))"
    unfolding persist_candidate_def
    by (simp add: frame_persist_insert[OF r] frame_persist_reinforce[OF r] split: option.split)
qed

lemma session_simps [simp]:
  "x_role (session s a now k d) = App s a" "x_db (session s a now k d) = d" "x_now (session s a now k d) = now"
  by (simp_all add: session_def)

lemma admin_session_simps [simp]:
  "x_role (admin_session now d) = Owner" "x_db (admin_session now d) = d" "x_now (admin_session now d) = now"
  "x_guard (admin_session now d) = None"
  by (simp_all add: admin_session_def)

lemma persist_candidates_eq:
  "persist_candidates cosd th s a cs now k d =
     map_prod id x_db (run_each (persist_candidate cosd (case th of Some l \<Rightarrow> l | None \<Rightarrow> dedup_cosine_threshold) s a) cs
       (session s a now k d))"
  by (cases cs) (simp_all add: persist_candidates_def Let_def split_beta map_prod_def)

lemma persist_candidates_grows: "grows ed (App s a) d (snd (persist_candidates cosd th s a cs now k d))"
  using capture.each[of "session s a now k d" s a ed] by (simp add: persist_candidates_eq frame_def)

section \<open>What a step changes in the table\<close>

text \<open>A row without the two columns that invalidation touches.\<close>

definition core :: "'v mem \<Rightarrow> 'v mem" where
  "core m = m \<lparr> m_stale := None, m_updated := 0 \<rparr>"

abbreviation cores :: "'v tx \<Rightarrow> 'v mem list" where
  "cores t \<equiv> map core (d_mems (x_db t))"

text \<open>The memories the \<^verbatim>\<open>write\<close> rows of the trail name.\<close>

definition writes :: "audit list \<Rightarrow> uuid option list" where
  "writes as = map a_memory (filter (\<lambda>x. a_action x = Write) as)"

lemma writes_append [simp]: "writes (as @ bs) = writes as @ writes bs"
  by (simp add: writes_def)

lemma run_each_keeps: "(\<And>c t. h (snd (op c t)) = h t) \<Longrightarrow> h (snd (run_each op cs t)) = h t"
  by (induction cs arbitrary: t) (simp_all add: split_beta)

lemma core_make_stale [simp]: "core (make_stale now m) = core m"
  by (simp add: core_def make_stale_def)

lemma core_fields:
  assumes "core m = core m'"
  shows "m_id m = m_id m'" "m_subject m = m_subject m'" "m_actor m = m_actor m'" "m_content m = m_content m'"
    "m_embedding m = m_embedding m'" "m_attribute m = m_attribute m'" "m_deleted m = m_deleted m'"
    "m_superseded m = m_superseded m'" "m_superseded_by m = m_superseded_by m'" "m_weight m = m_weight m'"
    "m_reinforced m = m_reinforced m'" "m_source m = m_source m'"
  using assms by (cases m; cases m'; simp add: core_def)+

lemma core_in: "map core xs = map core ys \<Longrightarrow> m \<in> set xs \<Longrightarrow> \<exists>m' \<in> set ys. core m = core m'"
  by (metis (no_types, lifting) image_iff list.set_map)

lemma writes_mark_summary_stale [simp]:
  "writes (d_audits (x_db (snd (mark_summary_stale s a src reason t)))) = writes (d_audits (x_db t))"
proof -
  have step: "writes (d_audits (x_db (snd (audit_stale s a reason src m u)))) = writes (d_audits (x_db u))"
    for m and u :: "'a tx"
    unfolding audit_stale_def write_audit_repeat writes_append by (simp add: writes_def)
  show ?thesis
    unfolding mark_summary_stale_def
    using run_each_keeps[where h = "\<lambda>u. writes (d_audits (x_db u))" and op = "audit_stale s a reason src", OF step]
    by (simp add: split_beta)
qed

lemma cores_mark_summary_stale [simp]: "cores (snd (mark_summary_stale s a src reason t)) = cores t"
proof -
  have step: "d_mems (x_db (snd (audit_stale s a reason src m u))) = d_mems (x_db u)" for m and u :: "'a tx"
    by (simp add: audit_stale_def)
  have "d_mems (x_db (snd (mark_summary_stale s a src reason t))) =
      update_table (\<lambda>m. visible (x_role t) m \<and> summarises (\<lambda>_. True) src s t m) (make_stale (x_now t)) (d_mems (x_db t))"
    unfolding mark_summary_stale_def
    using run_each_keeps[where h = "\<lambda>u. d_mems (x_db u)" and op = "audit_stale s a reason src", OF step]
    by (simp add: split_beta update_rows_mems)
  then show ?thesis by (simp add: update_table_def comp_def if_distrib[of core])
qed

lemma supersede_slot_effect:
  "fst (supersede_slot s a b i t) =
     map (retire i (x_now t)) (select_rows (\<lambda>m. occupies s b m \<and> m_id m \<noteq> i) t)"
  "cores (snd (supersede_slot s a b i t)) =
     map core (update_table (\<lambda>m. visible (x_role t) m \<and> occupies s b m \<and> m_id m \<noteq> i) (retire i (x_now t))
                 (d_mems (x_db t)))"
  "writes (d_audits (x_db (snd (supersede_slot s a b i t)))) = writes (d_audits (x_db t))"
proof -
  have step: "cores (snd (audit_retired s a b i m u)) = cores u"
    "writes (d_audits (x_db (snd (audit_retired s a b i m u)))) = writes (d_audits (x_db u))" for m and u :: "'a tx"
    unfolding audit_retired_def by (simp_all add: split_beta write_audit_repeat) (simp add: writes_def)
  let ?u = "snd (update_rows (\<lambda>m. occupies s b m \<and> m_id m \<noteq> i) (retire i (x_now t)) t)"
  note loop = run_each_keeps[where op = "audit_retired s a b i"]
  show "fst (supersede_slot s a b i t) =
     map (retire i (x_now t)) (select_rows (\<lambda>m. occupies s b m \<and> m_id m \<noteq> i) t)"
    by (simp add: supersede_slot_def split_beta update_rows_def)
  show "cores (snd (supersede_slot s a b i t)) =
     map core (update_table (\<lambda>m. visible (x_role t) m \<and> occupies s b m \<and> m_id m \<noteq> i) (retire i (x_now t))
                 (d_mems (x_db t)))"
    using loop[where h = cores, OF step(1)] by (simp add: supersede_slot_def split_beta update_rows_mems)
  show "writes (d_audits (x_db (snd (supersede_slot s a b i t)))) = writes (d_audits (x_db t))"
    using loop[where h = "\<lambda>u. writes (d_audits (x_db u))", OF step(2)]
    by (simp add: supersede_slot_def split_beta)
qed

text \<open>The rows an insertion of the candidate evicts from its slot.\<close>

definition evicts :: "uuid \<Rightarrow> uuid \<Rightarrow> 'v fact \<Rightarrow> 'v mem \<Rightarrow> bool" where
  "evicts s a c m \<longleftrightarrow> is_single_valued (slot_of c) \<and> visible (App s a) m \<and> m_attribute m = slot_of c \<and> live m"

definition fact_row :: "uuid \<Rightarrow> uuid \<Rightarrow> 'v fact \<Rightarrow> timestamp \<Rightarrow> uuid \<Rightarrow> 'v mem" where
  "fact_row s a c now i = new_memory s a (f_text c) (f_embedding c) (Some (f_source c)) (f_importance c)
     (f_confidence c) (slot_of c) now i"

abbreviation fresh :: "'v tx \<Rightarrow> uuid" where
  "fresh t \<equiv> d_gen (x_db t) (d_next (x_db t))"

lemma fact_row_fields [simp]:
  "m_id (fact_row s a c now i) = i" "m_subject (fact_row s a c now i) = s" "m_actor (fact_row s a c now i) = a"
  "m_content (fact_row s a c now i) = f_text c" "m_embedding (fact_row s a c now i) = f_embedding c"
  "m_attribute (fact_row s a c now i) = slot_of c" "live (fact_row s a c now i)"
  "m_deleted (fact_row s a c now i) = None" "m_superseded (fact_row s a c now i) = None"
  by (simp_all add: fact_row_def new_memory_def live_def)

lemma fresh_new: "db_ok d \<Longrightarrow> m \<in> set (d_mems d) \<Longrightarrow> m_id m \<noteq> d_gen d (d_next d)"
  by (metis db_ok_def ids_def image_eqI order_refl)

lemma persist_insert_effect:
  assumes "x_role t = App s a" "db_ok (x_db t)"
  shows "cores (snd (persist_insert s a c t)) =
      map core (update_table (evicts s a c) (retire (fresh t) (x_now t)) (d_mems (x_db t)) @
        [fact_row s a c (x_now t) (fresh t)])"
    "w_superseded (fst (persist_insert s a c t)) = map m_id (filter (evicts s a c) (d_mems (x_db t)))"
    "writes (d_audits (x_db (snd (persist_insert s a c t)))) = writes (d_audits (x_db t)) @ [Some (fresh t)]"
proof -
  define p where "p = insert_memory s a (f_text c) (f_embedding c) (Some (f_source c)) (f_importance c) (f_confidence c) (slot_of c) t"
  define q where "q = (case slot_of c of
      Some b \<Rightarrow> if is_single_valued (slot_of c) then supersede_slot s a b (fst p) (snd p) else ([], snd p)
    | None \<Rightarrow> ([], snd p))"
  have p: "fst p = fresh t" "d_mems (x_db (snd p)) = d_mems (x_db t) @ [fact_row s a c (x_now t) (fresh t)]"
    "x_role (snd p) = App s a" "x_now (snd p) = x_now t" "d_audits (x_db (snd p)) = d_audits (x_db t)"
    by (simp_all add: p_def insert_memory_def fact_row_def assms(1))
  have old: "(\<lambda>m. visible (App s a) m \<and> occupies s b m \<and> m_id m \<noteq> fresh t) m = evicts s a c m"
    if "slot_of c = Some b" "is_single_valued (slot_of c)" "m \<in> set (d_mems (x_db t))" for b m
    using that fresh_new[OF assms(2), of m] by (auto simp: evicts_def occupies_def live_def)
  have off: "\<not> evicts s a c m" if "\<not> is_single_valued (slot_of c)" for m using that by (simp add: evicts_def)
  have q: "cores (snd q) = map core (update_table (evicts s a c) (retire (fresh t) (x_now t)) (d_mems (x_db t)) @
        [fact_row s a c (x_now t) (fresh t)])
      \<and> map m_id (fst q) = map m_id (filter (evicts s a c) (d_mems (x_db t)))
      \<and> writes (d_audits (x_db (snd q))) = writes (d_audits (x_db t))"
  proof (cases "is_single_valued (slot_of c)")
    case False
    then have "q = ([], snd p)" by (cases "slot_of c") (auto simp: q_def)
    then show ?thesis using off[OF False] p by (simp add: update_table_def)
  next
    case True
    then obtain b where b: "slot_of c = Some b" using single_valued_Some by blast
    then have "q = supersede_slot s a b (fresh t) (snd p)" using True p by (simp add: q_def)
    moreover have "update_table (\<lambda>m. visible (App s a) m \<and> occupies s b m \<and> m_id m \<noteq> fresh t) f (d_mems (x_db t)) =
        update_table (evicts s a c) f (d_mems (x_db t))" for f
      unfolding update_table_def using old[OF b True] by (intro map_cong) auto
    moreover have "filter (\<lambda>m. visible (App s a) m \<and> occupies s b m \<and> m_id m \<noteq> fresh t) (d_mems (x_db t)) =
        filter (evicts s a c) (d_mems (x_db t))"
      using old[OF b True] by (intro filter_cong) auto
    ultimately show ?thesis using p
      by (simp add: supersede_slot_effect select_rows_def retire_def comp_def) (simp add: update_table_def)
  qed
  have "fst (persist_insert s a c t) = \<lparr> w_text = f_text c, w_action = Insert, w_memory = Some (fst p), w_attribute = slot_of c,
            w_superseded = map m_id (fst q), w_similarity = f_similarity c, w_at_write = Some New,
            w_from_node = f_status c \<rparr>"
    and snd: "snd (persist_insert s a c t) = snd (write_audit s a Write (Some (fst p))
          (Inserted (f_source c) (f_importance c) (f_confidence c)) True (snd q))"
    unfolding persist_insert_def q_def p_def by (simp_all add: split_beta Let_def)
  then show "w_superseded (fst (persist_insert s a c t)) = map m_id (filter (evicts s a c) (d_mems (x_db t)))"
    using q by simp
  show "cores (snd (persist_insert s a c t)) =
      map core (update_table (evicts s a c) (retire (fresh t) (x_now t)) (d_mems (x_db t)) @
        [fact_row s a c (x_now t) (fresh t)])"
    using q snd by simp
  show "writes (d_audits (x_db (snd (persist_insert s a c t)))) = writes (d_audits (x_db t)) @ [Some (fresh t)]"
    using q p unfolding snd write_audit_repeat writes_append by (simp add: writes_def)
qed

text \<open>Without a single-valued slot an insertion only appends.\<close>

lemma persist_insert_plain:
  assumes "\<not> is_single_valued (slot_of c)"
  shows "d_mems (x_db (snd (persist_insert s a c t))) = d_mems (x_db t) @ [fact_row s a c (x_now t) (fresh t)]"
  using assms by (cases "slot_of c") (auto simp: persist_insert_def split_beta Let_def insert_memory_def fact_row_def)

lemma persist_reinforce_effect:
  "d_mems (x_db (snd (persist_reinforce s a c m sim t))) =
     update_table (\<lambda>r. visible (x_role t) r \<and> m_id r = m_id m \<and> m_deleted r = None) (bump (x_now t)) (d_mems (x_db t))"
  "writes (d_audits (x_db (snd (persist_reinforce s a c m sim t)))) = writes (d_audits (x_db t)) @ [Some (m_id m)]"
  unfolding persist_reinforce_def
  by (simp_all add: split_beta write_audit_repeat reinforce_def update_rows_mems) (simp add: writes_def)

lemma persist_result [simp]:
  "w_text (fst (persist_insert s a c t)) = f_text c" "w_action (fst (persist_insert s a c t)) = Insert"
  "w_memory (fst (persist_insert s a c t)) = Some (fresh t)" "w_attribute (fst (persist_insert s a c t)) = slot_of c"
  "w_text (fst (persist_reinforce s a c m sim t)) = f_text c" "w_action (fst (persist_reinforce s a c m sim t)) = Reinforce"
  "w_memory (fst (persist_reinforce s a c m sim t)) = Some (m_id m)"
  by (simp_all add: persist_insert_def persist_reinforce_def split_beta Let_def insert_memory_def)

section \<open>Which branch a candidate takes\<close>

text \<open>The live and the dead memories a candidate is compared with.\<close>

definition own_live :: "uuid \<Rightarrow> uuid \<Rightarrow> 'v mem \<Rightarrow> bool" where
  "own_live s a m \<longleftrightarrow> visible (App s a) m \<and> live m"

definition own_dead :: "uuid \<Rightarrow> uuid \<Rightarrow> 'v mem \<Rightarrow> bool" where
  "own_dead s a m \<longleftrightarrow> visible (App s a) m \<and> \<not> live m"

lemma find_similar_own:
  assumes "x_role t = App s a"
  shows "find_similar cosd s v n t = nearest cosd v n (filter (own_live s a) (d_mems (x_db t)))"
    "find_similar_tombstones cosd s v n t = nearest cosd v n (filter (own_dead s a) (d_mems (x_db t)))"
  unfolding find_similar_def find_similar_tombstones_def select_rows_def
  by (rule arg_cong[of _ _ "nearest cosd v n"], rule filter_cong, simp,
      auto simp: assms own_live_def own_dead_def live_def)+

lemma grave_of_iff:
  assumes "x_role t = App s a" "f_embedding c = Some v"
  shows "grave_of cosd limit s c t \<noteq> None \<longleftrightarrow>
     assistant_sourced c \<and> list_ex (\<lambda>m. own_dead s a m \<and> near cosd limit v m) (d_mems (x_db t))"
  unfolding grave_of_def find_similar_own[OF assms(1)] assms(2)
  using first_at_least_None[of limit cosd v "filter (own_dead s a) (d_mems (x_db t))"]
  by (cases "assistant_sourced c") (simp_all add: list_ex_iff list_all_iff, blast)

lemma user_no_grave: "\<not> assistant_sourced c \<Longrightarrow> grave_of cosd limit s c t = None"
  by (simp add: grave_of_def split: option.split)

lemma match_of_eq:
  assumes "x_role t = App s a" "f_embedding c = Some v"
  shows "match_of cosd limit s c t =
    (case first_at_least limit (nearest cosd v 1 (filter (own_live s a) (d_mems (x_db t)))) of
       None \<Rightarrow> None
     | Some (m, sim) \<Rightarrow> if is_single_valued (slot_of c) \<and> m_attribute m = slot_of c \<and>
             strip (m_content m) \<noteq> strip (f_text c) then None else Some (m, sim))"
  unfolding match_of_def assms(2) find_similar_own[OF assms(1)] by simp

lemma assistant_slot: "assistant_sourced c \<Longrightarrow> slot_of c = None"
  by (simp add: slot_of_def)

lemma assistant_match:
  assumes "x_role t = App s a" "f_embedding c = Some v" "assistant_sourced c"
  shows "match_of cosd limit s c t \<noteq> None \<longleftrightarrow>
     list_ex (\<lambda>m. own_live s a m \<and> near cosd limit v m) (d_mems (x_db t))"
  unfolding match_of_eq[OF assms(1,2)] assistant_slot[OF assms(3)]
  using first_at_least_None[of limit cosd v "filter (own_live s a) (d_mems (x_db t))"]
  by (auto simp: list_ex_iff list_all_iff split: option.splits)

lemma persist_cases:
  fixes t :: "'v tx"
  obtains (blocked) "w_action (fst (persist_candidate cosd limit s a c t)) = Blocked"
      "snd (persist_candidate cosd limit s a c t) = t" "assistant_sourced c"
  | (ignored) "w_action (fst (persist_candidate cosd limit s a c t)) = Ignored"
      "snd (persist_candidate cosd limit s a c t) = t" "assistant_sourced c"
  | (reinforced) m sim where "persist_candidate cosd limit s a c t = persist_reinforce s a c m sim t"
      "match_of cosd limit s c t = Some (m, sim)" "\<not> assistant_sourced c"
  | (inserted) "persist_candidate cosd limit s a c t = persist_insert s a c t"
      "match_of cosd limit s c t = None" "grave_of cosd limit s c t = None"
proof (cases "grave_of cosd limit s c t")
  case (Some g)
  then have "assistant_sourced c" by (auto simp: grave_of_def split: option.splits if_splits)
  then show ?thesis using blocked Some by (simp add: persist_candidate_def split: prod.split)
next
  case None
  show ?thesis
  proof (cases "match_of cosd limit s c t")
    case None
    with \<open>grave_of cosd limit s c t = None\<close> show ?thesis using inserted by (simp add: persist_candidate_def)
  next
    case (Some p)
    obtain m sim where p: "p = (m, sim)" by (cases p)
    show ?thesis
      using None Some p ignored reinforced
      by (cases "assistant_sourced c") (simp_all add: persist_candidate_def)
  qed
qed

text \<open>The insertions and reinforcements of a batch.\<close>

definition effective :: "write_result \<Rightarrow> bool" where
  "effective r \<longleftrightarrow> w_action r = Insert \<or> w_action r = Reinforce"

lemma persist_candidate_writes:
  assumes "x_role t = App s a" "db_ok (x_db t)"
  shows "writes (d_audits (x_db (snd (persist_candidate cosd limit s a c t)))) = writes (d_audits (x_db t)) @
      map w_memory (filter effective [fst (persist_candidate cosd limit s a c t)])"
  by (cases rule: persist_cases[of cosd limit s a c t])
    (simp_all add: effective_def persist_insert_effect[OF assms] persist_reinforce_effect)

lemma persist_candidate_text: "w_text (fst (persist_candidate cosd limit s a c t)) = f_text c"
  by (simp add: persist_candidate_def split: option.split prod.split)

lemma frame_db_ok: "frame ed t t' \<Longrightarrow> db_ok (x_db t) \<Longrightarrow> db_ok (x_db t')"
  by (auto simp: frame_def grows_def)

lemma run_persist:
  assumes "x_role t = App s a" "db_ok (x_db t)"
  shows "map w_text (fst (run_each (persist_candidate cosd limit s a) cs t)) = map f_text cs \<and>
    writes (d_audits (x_db (snd (run_each (persist_candidate cosd limit s a) cs t)))) =
       writes (d_audits (x_db t)) @
       map w_memory (filter effective (fst (run_each (persist_candidate cosd limit s a) cs t)))"
  using assms
proof (induction cs arbitrary: t)
  case (Cons c cs)
  let ?t = "snd (persist_candidate cosd limit s a c t)"
  have f: "frame {} t ?t" by (rule capture.stays) (rule Cons.prems(1))
  have t: "x_role ?t = App s a" "db_ok (x_db ?t)"
    using frame_role[OF f] frame_db_ok[OF f] Cons.prems by auto
  show ?case
    unfolding run_each_Cons
    using Cons.IH[OF t] persist_candidate_writes[OF Cons.prems, of cosd limit c]
    by (simp add: persist_candidate_text)
qed simp

section \<open>What a batch leaves alone\<close>

text \<open>A projection of the columns that reinforcement, supersession and invalidation do not touch: what
  a batch leaves of the old rows, and what it puts into the new ones.\<close>

locale settled_columns =
  fixes g :: "'v mem \<Rightarrow> 'b"
  assumes core: "g (core m) = g m" and bump: "g (bump now m) = g m" and retire: "g (retire i now m) = g m"
begin

lemma of_cores: "map core xs = map core ys \<Longrightarrow> map g xs = map g ys"
proof -
  assume "map core xs = map core ys"
  then have "map (g \<circ> core) xs = map (g \<circ> core) ys" by (metis map_map)
  then show ?thesis by (simp add: comp_def core)
qed

lemma of_update: "(\<And>m. g (f m) = g m) \<Longrightarrow> map g (update_table P f ms) = map g ms"
  by (simp add: update_table_def)

lemma step:
  assumes "x_role t = App s a" "db_ok (x_db t)"
  shows "\<exists>cs' ks. (cs' = [] \<or> cs' = [c]) \<and> length ks = length cs' \<and>
    map g (d_mems (x_db (snd (persist_candidate cosd limit s a c t)))) =
      map g (d_mems (x_db t)) @ map2 (\<lambda>c i. g (fact_row s a c (x_now t) i)) cs' ks"
proof (cases rule: persist_cases[of cosd limit s a c t])
  case (reinforced m sim)
  then show ?thesis
    by (intro exI[of _ "[]"]) (simp add: persist_reinforce_effect(1) of_update bump)
next
  case inserted
  have "map g (d_mems (x_db (snd (persist_insert s a c t)))) =
      map g (update_table (evicts s a c) (retire (fresh t) (x_now t)) (d_mems (x_db t)) @
        [fact_row s a c (x_now t) (fresh t)])"
    by (rule of_cores) (rule persist_insert_effect(1)[OF assms])
  then show ?thesis using inserted
    by (intro exI[of _ "[c]"] exI[of _ "[fresh t]"]) (simp add: of_update retire)
qed (auto intro: exI[of _ "[]"])

lemma run:
  assumes "x_role t = App s a" "db_ok (x_db t)"
  shows "\<exists>cs' ks. subseq cs' cs \<and> length ks = length cs' \<and>
    map g (d_mems (x_db (snd (run_each (persist_candidate cosd limit s a) cs t)))) =
      map g (d_mems (x_db t)) @ map2 (\<lambda>c i. g (fact_row s a c (x_now t) i)) cs' ks"
  using assms
proof (induction cs arbitrary: t)
  case (Cons c cs)
  let ?t = "snd (persist_candidate cosd limit s a c t)"
  have f: "frame {} t ?t" by (rule capture.stays) (rule Cons.prems(1))
  have t: "x_role ?t = App s a" "db_ok (x_db ?t)" "x_now ?t = x_now t"
    using frame_role[OF f] frame_db_ok[OF f] frame_now[OF f] Cons.prems by auto
  obtain c1 i1 where 1: "c1 = [] \<or> c1 = [c]" "length i1 = length c1"
    "map g (d_mems (x_db ?t)) = map g (d_mems (x_db t)) @ map2 (\<lambda>c i. g (fact_row s a c (x_now t) i)) c1 i1"
    using step[OF Cons.prems] by blast
  obtain c2 i2 where 2: "subseq c2 cs" "length i2 = length c2"
    "map g (d_mems (x_db (snd (run_each (persist_candidate cosd limit s a) cs ?t)))) =
       map g (d_mems (x_db ?t)) @ map2 (\<lambda>c i. g (fact_row s a c (x_now t) i)) c2 i2"
    using Cons.IH[OF t(1,2)] t(3) by auto
  have "subseq (c1 @ c2) (c # cs)" using 1(1) 2(1) by auto
  then show ?case using 1(2,3) 2(2,3)
    by (intro exI[of _ "c1 @ c2"] exI[of _ "i1 @ i2"]) (auto simp: run_each_Cons simp del: run_each.simps)
qed (auto intro: exI[of _ "[]"])

lemma persisted:
  assumes "db_ok d"
  shows "\<exists>cs' old new. d_mems (snd (persist_candidates cosd th s a cs now k d)) = old @ new \<and> map g old = map g (d_mems d) \<and>
    subseq cs' cs \<and> list_all2 (\<lambda>c m. \<exists>i. g m = g (fact_row s a c now i)) cs' new"
proof -
  obtain cs' ks where c: "subseq cs' cs" "length ks = length cs'"
    "map g (d_mems (snd (persist_candidates cosd th s a cs now k d))) =
       map g (d_mems d) @ map2 (\<lambda>c i. g (fact_row s a c now i)) cs' ks"
    using run[of "session s a now k d" s a cs cosd "case th of Some l \<Rightarrow> l | None \<Rightarrow> dedup_cosine_threshold"] assms
    unfolding persist_candidates_eq session_simps snd_map_prod by blast
  then obtain old new where o: "d_mems (snd (persist_candidates cosd th s a cs now k d)) = old @ new"
    "map g old = map g (d_mems d)" "map g new = map2 (\<lambda>c i. g (fact_row s a c now i)) cs' ks"
    by (auto simp: map_eq_append_conv)
  have "list_all2 (\<lambda>c m. \<exists>i. g m = g (fact_row s a c now i)) cs' new"
  proof (rule list_all2_all_nthI)
    show len: "length cs' = length new" using arg_cong[OF o(3), of length] c(2) by simp
    fix n assume "n < length cs'"
    then show "\<exists>i. g (new ! n) = g (fact_row s a (cs' ! n) now i)"
      using arg_cong[OF o(3), of "\<lambda>xs. xs ! n"] c(2) len by auto
  qed
  then show ?thesis using o(1,2) c(1) by blast
qed

end

text \<open>A row without the columns that a write may change: its weight and reinforcement count, its
  supersession, its staleness and its two times of change.\<close>

definition fixed_columns :: "'v mem \<Rightarrow> 'v mem" where
  "fixed_columns m = m \<lparr> m_weight := 0, m_reinforced := 0, m_updated := 0, m_accessed := 0, m_superseded := None,
     m_superseded_by := None, m_stale := None \<rparr>"

interpretation fixed: settled_columns fixed_columns
  by unfold_locales (simp_all add: fixed_columns_def core_def bump_def retire_def)

lemma fixed_columns_simps [simp]:
  "m_id (fixed_columns m) = m_id m" "m_subject (fixed_columns m) = m_subject m" "m_actor (fixed_columns m) = m_actor m"
  "m_content (fixed_columns m) = m_content m" "m_embedding (fixed_columns m) = m_embedding m"
  "m_deleted (fixed_columns m) = m_deleted m"
  by (simp_all add: fixed_columns_def)

lemma fixed_fields:
  assumes "fixed_columns m = fixed_columns m'"
  shows "m_id m = m_id m'" "m_subject m = m_subject m'" "m_actor m = m_actor m'" "m_content m = m_content m'"
    "m_embedding m = m_embedding m'" "m_deleted m = m_deleted m'"
  by (metis fixed_columns_simps(1) assms, metis fixed_columns_simps(2) assms, metis fixed_columns_simps(3) assms,
      metis fixed_columns_simps(4) assms, metis fixed_columns_simps(5) assms, metis fixed_columns_simps(6) assms)

lemma persisted_rows:
  assumes "db_ok d" "db_ok d'" "d' = snd (persist_candidates cosd th s a cs now k d)"
  shows "\<exists>cs' old new. d_mems d' = old @ new \<and> map fixed_columns old = map fixed_columns (d_mems d) \<and> subseq cs' cs \<and>
    list_all2 (\<lambda>c m. fixed_columns m = fixed_columns (fact_row s a c now (m_id m)) \<and> m_deleted m = None \<and> m_id m \<notin> ids d) cs' new"
proof -
  obtain cs' old new where o: "d_mems d' = old @ new" "map fixed_columns old = map fixed_columns (d_mems d)" "subseq cs' cs"
    "list_all2 (\<lambda>c m. \<exists>i. fixed_columns m = fixed_columns (fact_row s a c now i)) cs' new"
    using fixed.persisted[where cosd = cosd and th = th and s = s and a = a and cs = cs and now = now and k = k, OF assms(1)]
    by (simp only: assms(3)[symmetric]) (elim exE conjE, rule that)
  have "map m_id old = map m_id (d_mems d)"
  proof -
    have "map (m_id \<circ> fixed_columns) old = map (m_id \<circ> fixed_columns) (d_mems d)" using o(2) by (metis map_map)
    then show ?thesis by (simp add: comp_def fixed_columns_def)
  qed
  then have "ids d = m_id ` set old" by (metis ids_def list.set_map)
  then have new: "m_id m \<notin> ids d" if "m \<in> set new" for m using assms(2) that by (auto simp: db_ok_def o(1))
  have "list_all2 (\<lambda>c m. fixed_columns m = fixed_columns (fact_row s a c now (m_id m)) \<and> m_deleted m = None \<and> m_id m \<notin> ids d) cs' new"
    proof (rule list.rel_mono_strong[OF o(4)])
    fix c m assume "m \<in> set new" "\<exists>i. fixed_columns m = fixed_columns (fact_row s a c now i)"
    then obtain i where "fixed_columns m = fixed_columns (fact_row s a c now i)" by blast
    then show "fixed_columns m = fixed_columns (fact_row s a c now (m_id m)) \<and> m_deleted m = None \<and> m_id m \<notin> ids d"
      using fixed_fields(1,6) new[OF \<open>m \<in> set new\<close>] by (metis fact_row_fields(1,8))
  qed
  then show ?thesis using o(1-3) by blast
qed

section \<open>One live value per slot\<close>

definition slot_clash :: "'v mem \<Rightarrow> 'v mem \<Rightarrow> bool" where
  "slot_clash m m' \<longleftrightarrow> live m \<and> live m' \<and> is_single_valued (m_attribute m) \<and>
     m_attribute m' = m_attribute m \<and> m_subject m' = m_subject m \<and> m_actor m' = m_actor m \<and> m_id m' \<noteq> m_id m"

definition slots_ok :: "'v db \<Rightarrow> bool" where
  "slots_ok d \<longleftrightarrow> list_all (\<lambda>m. list_all (\<lambda>m'. \<not> slot_clash m m') (d_mems d)) (d_mems d)"

lemma slots_okD: "slots_ok d \<Longrightarrow> m \<in> set (d_mems d) \<Longrightarrow> m' \<in> set (d_mems d) \<Longrightarrow> \<not> slot_clash m m'"
  by (auto simp: slots_ok_def list_all_iff)

lemma slot_clash_sym: "slot_clash m m' \<Longrightarrow> slot_clash m' m"
  by (auto simp: slot_clash_def)

lemma slot_clash_evolves: "evolves ed m n \<Longrightarrow> evolves ed m' n' \<Longrightarrow> slot_clash n n' \<Longrightarrow> slot_clash m m'"
proof -
  assume e: "evolves ed m n" "evolves ed m' n'" and c: "slot_clash n n'"
  have "live m" "live m'" using evolves_live[OF e(1)] evolves_live[OF e(2)] c by (simp_all add: slot_clash_def)
  then show "slot_clash m m'" using e c by (simp add: slot_clash_def evolves_def)
qed

text \<open>Growth keeps the slots as long as the new rows bring no clash.\<close>

lemma slots_ok_grows:
  assumes g: "grows ed r d d'" and ok: "slots_ok d" "db_ok d"
    and new: "\<And>m m'. m \<in> set (d_mems d') \<Longrightarrow> m' \<in> set (d_mems d') \<Longrightarrow> m_id m \<notin> ids d \<Longrightarrow> \<not> slot_clash m m'"
  shows "slots_ok d'"
proof -
  have fresh: "i \<notin> ids d" if "\<exists>k \<ge> d_next d. i = d_gen d k" for i
    using that ok(2) by (auto simp: db_ok_def)
  have "\<not> slot_clash m m'" if m: "m \<in> set (d_mems d')" "m' \<in> set (d_mems d')" for m m'
  proof
    assume c: "slot_clash m m'"
    have "m_id m \<in> ids d" "m_id m' \<in> ids d" using new m c slot_clash_sym by blast+
    then obtain n n' where "n \<in> set (d_mems d)" "evolves_for ed r n m" "n' \<in> set (d_mems d)" "evolves_for ed r n' m'"
      using grows_origin[OF g m(1)] grows_origin[OF g m(2)] fresh by metis
    then show False
      using slots_okD[OF ok(1), of n n'] slot_clash_evolves[of ed n m n' m'] c by (simp add: evolves_for_def)
  qed
  then show ?thesis by (simp add: slots_ok_def list_all_iff)
qed

lemma cores_new_ids:
  assumes "x_role t = App s a" "db_ok (x_db t)" "m \<in> set (d_mems (x_db (snd (persist_insert s a c t))))"
  obtains (old) n where "n \<in> set (d_mems (x_db t))" "\<not> evicts s a c n" "core m = core n"
  | (evicted) n where "n \<in> set (d_mems (x_db t))" "evicts s a c n" "core m = core (retire (fresh t) (x_now t) n)"
  | (new) "core m = core (fact_row s a c (x_now t) (fresh t))"
proof -
  obtain m' where "m' \<in> set (update_table (evicts s a c) (retire (fresh t) (x_now t)) (d_mems (x_db t)) @
        [fact_row s a c (x_now t) (fresh t)])" "core m = core m'"
    using core_in[OF persist_insert_effect(1)[OF assms(1,2)] assms(3)] by blast
  then show ?thesis using that by (auto simp: update_table_set)
qed

lemma live_core: "core m = core m' \<Longrightarrow> live m = live m'"
  using core_fields(7,8)[of m m'] by (simp add: live_def)

text \<open>After an insertion the only live value in the candidate's slot is its own.\<close>

lemma insert_sole_occupant:
  assumes t: "x_role t = App s a" "db_ok (x_db t)"
    and m: "m \<in> set (d_mems (x_db (snd (persist_insert s a c t))))"
    and slot: "is_single_valued (slot_of c)" "live m" "m_attribute m = slot_of c" "m_subject m = s" "m_actor m = a"
  shows "core m = core (fact_row s a c (x_now t) (fresh t))"
proof (cases rule: cores_new_ids[OF t m])
  case (1 n)
  then have "evicts s a c n"
    using slot core_fields(2,3,6)[OF 1(3)] live_core[OF 1(3)] by (simp add: evicts_def)
  with 1 show ?thesis by simp
next
  case (2 n)
  then have "\<not> live m" using live_core[OF 2(3)] by (simp add: live_def retire_def)
  with slot show ?thesis by simp
qed

lemma persist_candidate_slots_ok:
  assumes t: "x_role t = App s a" "db_ok (x_db t)" and ok: "slots_ok (x_db t)"
  shows "slots_ok (x_db (snd (persist_candidate cosd limit s a c t)))"
proof (cases rule: persist_cases[of cosd limit s a c t])
  case (reinforced m sim)
  have "frame {} t (snd (persist_reinforce s a c m sim t))" by (rule frame_persist_reinforce[OF t(1)])
  moreover have "map m_id (d_mems (x_db (snd (persist_reinforce s a c m sim t)))) = map m_id (d_mems (x_db t))"
    unfolding persist_reinforce_effect by (rule update_table_ids) (simp add: bump_def)
  then have "m_id ` set (d_mems (x_db (snd (persist_reinforce s a c m sim t)))) = ids (x_db t)"
    by (metis ids_def list.set_map)
  ultimately have "slots_ok (x_db (snd (persist_reinforce s a c m sim t)))"
    using slots_ok_grows[OF _ ok t(2)] by (fastforce simp: frame_def)
  then show ?thesis using reinforced by simp
next
  case inserted
  let ?t = "snd (persist_insert s a c t)"
  have "grows {} (App s a) (x_db t) (x_db ?t)" using frame_persist_insert[OF t(1)] t(1) by (simp add: frame_def)
  then have "slots_ok (x_db ?t)"
  proof (rule slots_ok_grows[OF _ ok t(2)])
    fix m m'
    assume m: "m \<in> set (d_mems (x_db ?t))" "m' \<in> set (d_mems (x_db ?t))" "m_id m \<notin> ids (x_db t)"
    have new: "core m = core (fact_row s a c (x_now t) (fresh t))"
    proof (cases rule: cores_new_ids[OF t m(1)])
      case (1 n)
      then have "m_id m = m_id n" by (metis core_fields(1))
      then show ?thesis using m(3) 1 by (simp add: ids_def)
    next
      case (2 n)
      then have "m_id m = m_id n" using core_fields(1)[OF 2(3)] by (simp add: retire_def)
      then show ?thesis using m(3) 2 by (simp add: ids_def)
    qed
    show "\<not> slot_clash m m'"
    proof
      assume c: "slot_clash m m'"
      have "core m' = core (fact_row s a c (x_now t) (fresh t))"
        by (rule insert_sole_occupant[OF t m(2)])
          (use c core_fields(2,3,6)[OF new] in \<open>auto simp: slot_clash_def\<close>)
      then have "m_id m' = m_id m" using new core_fields(1) by metis
      with c show False by (simp add: slot_clash_def)
    qed
  qed
  then show ?thesis using inserted by simp
qed (simp_all add: ok)

lemma run_persist_slots_ok:
  assumes "x_role t = App s a" "db_ok (x_db t)" "slots_ok (x_db t)"
  shows "slots_ok (x_db (snd (run_each (persist_candidate cosd limit s a) cs t)))"
  using assms
proof (induction cs arbitrary: t)
  case (Cons c cs)
  have f: "frame {} t (snd (persist_candidate cosd limit s a c t))"
    by (rule capture.stays) (rule Cons.prems(1))
  show ?case unfolding run_each_Cons
    using Cons.IH[of "snd (persist_candidate cosd limit s a c t)"] frame_role[OF f] frame_db_ok[OF f]
      persist_candidate_slots_ok[OF Cons.prems, of cosd limit c] Cons.prems by simp
qed simp

lemma persist_candidates_slots_ok:
  "db_ok d \<Longrightarrow> slots_ok d \<Longrightarrow> slots_ok (snd (persist_candidates cosd th s a cs now k d))"
  by (simp add: persist_candidates_eq run_persist_slots_ok)

section \<open>Repeating a turn\<close>

lemma sort_key_map: "sort_key f (map g xs) = map g (sort_key (\<lambda>x. f (g x)) xs)"
proof -
  have "insort_key f (g x) (map g ys) = map g (insort_key (\<lambda>x. f (g x)) x ys)" for x ys
    by (induction ys) auto
  then show ?thesis by (induction xs) simp_all
qed

lemma nearest_map:
  assumes "\<And>m. m_embedding (g m) = m_embedding m"
  shows "nearest cosd v n (map g ms) = map (\<lambda>(m, s). (g m, s)) (nearest cosd v n ms)"
  by (simp add: nearest_def Let_def filter_map sort_key_map take_map comp_def assms)

lemma select_rows_cong:
  "x_role t' = x_role t \<Longrightarrow> d_mems (x_db t') = d_mems (x_db t) \<Longrightarrow> select_rows P t' = select_rows P t"
  by (simp add: select_rows_def)

lemma decision_cong:
  assumes "x_role t' = x_role t" "d_mems (x_db t') = d_mems (x_db t)"
  shows "grave_of cosd limit s c t' = grave_of cosd limit s c t"
    "match_of cosd limit s c t' = match_of cosd limit s c t"
  unfolding grave_of_def match_of_def find_similar_def find_similar_tombstones_def
  by (simp_all only: select_rows_cong[OF assms])

lemma insert_iff: "w_action (fst (persist_candidate cosd limit s a c t)) = Insert \<longleftrightarrow>
    grave_of cosd limit s c t = None \<and> match_of cosd limit s c t = None"
  by (auto simp: persist_candidate_def split: option.split)

lemma match_after_bump:
  assumes r: "x_role t = App s a" "x_role t' = App s a"
    and rows: "d_mems (x_db t') = update_table Q (bump now) (d_mems (x_db t))"
    and m: "match_of cosd limit s c t = Some (m, sim)"
  shows "match_of cosd limit s c t' \<noteq> None"
proof -
  let ?g = "\<lambda>m. if Q m then bump now m else m"
  obtain v where v: "f_embedding c = Some v" using m by (cases "f_embedding c") (auto simp: match_of_def)
  have same: "m_embedding (?g m) = m_embedding m" "own_live s a (?g m) = own_live s a m"
    "m_attribute (?g m) = m_attribute m" "m_content (?g m) = m_content m" for m
    by (simp_all add: bump_def own_live_def live_def)
  have "filter (own_live s a) (d_mems (x_db t')) = map ?g (filter (own_live s a) (d_mems (x_db t)))"
    unfolding rows update_table_def filter_map comp_def same(2) by simp
  then have near: "nearest cosd v 1 (filter (own_live s a) (d_mems (x_db t'))) =
      map (\<lambda>(m, s). (?g m, s)) (nearest cosd v 1 (filter (own_live s a) (d_mems (x_db t))))"
    using nearest_map[of ?g, OF same(1)] by simp
  have "first_at_least limit (map (\<lambda>(m, s). (?g m, s)) xs) = map_option (\<lambda>(m, s). (?g m, s)) (first_at_least limit xs)" for xs
    by (simp add: first_at_least_def split: list.split)
  then show ?thesis
    using m same(3,4)[of m] unfolding match_of_eq[OF r(1) v] match_of_eq[OF r(2) v] near
    by (auto split: option.splits if_splits prod.splits)
qed

lemma match_after_insert:
  assumes t: "x_role t = App s a" "db_ok (x_db t)" and r: "x_role t' = App s a"
    and rows: "d_mems (x_db t') = d_mems (x_db (snd (persist_insert s a c t)))"
    and v: "f_embedding c = Some v" "cosd v v = 0" "limit \<le> 1"
  shows "match_of cosd limit s c t' \<noteq> None"
proof -
  let ?new = "fact_row s a c (x_now t) (fresh t)"
  let ?ms = "filter (own_live s a) (d_mems (x_db t'))"
  have "core ?new \<in> set (cores (snd (persist_insert s a c t)))"
    unfolding persist_insert_effect(1)[OF t] by simp
  then obtain n where n: "n \<in> set (d_mems (x_db t'))" "core n = core ?new" unfolding rows by force
  have "own_live s a n" "near cosd limit v n"
    using core_fields[OF n(2)] live_core[OF n(2)] v by (simp_all add: own_live_def near_def)
  then have "first_at_least limit (nearest cosd v 1 ?ms) \<noteq> None"
    unfolding first_at_least_None list_all_iff using n(1) by auto
  then obtain m sim where m: "first_at_least limit (nearest cosd v 1 ?ms) = Some (m, sim)" by auto
  then have own: "m \<in> set (d_mems (x_db (snd (persist_insert s a c t))))" "own_live s a m"
    using first_at_least_Some(1)[OF m] rows by auto
  have "m_content m = f_text c" if "is_single_valued (slot_of c)" "m_attribute m = slot_of c"
    using core_fields(4)[OF insert_sole_occupant[OF t own(1) that(1)]] own(2) that by (simp add: own_live_def)
  then show ?thesis unfolding match_of_eq[OF r v(1)] m by auto
qed

lemma repeat_never_inserts:
  assumes t: "x_role t = App s a" "db_ok (x_db t)" and r: "x_role t' = App s a"
    and rows: "d_mems (x_db t') = d_mems (x_db (snd (persist_candidate cosd limit s a c t)))"
    and v: "f_embedding c = Some v" "cosd v v = 0" "limit \<le> 1"
  shows "w_action (fst (persist_candidate cosd limit s a c t')) \<noteq> Insert"
proof (cases rule: persist_cases[of cosd limit s a c t])
  case (reinforced m sim)
  then show ?thesis
    using match_after_bump[OF t(1) r _ reinforced(2)] rows by (simp add: insert_iff persist_reinforce_effect)
next
  case inserted
  then show ?thesis
    using match_after_insert[where cosd = cosd and limit = limit, OF t r _ v] rows by (simp add: insert_iff)
next
  case blocked
  then have "\<not> w_action (fst (persist_candidate cosd limit s a c t)) = Insert" by simp
  then show ?thesis unfolding insert_iff using decision_cong[of t' t] t(1) r rows blocked by simp
next
  case ignored
  then have "\<not> w_action (fst (persist_candidate cosd limit s a c t)) = Insert" by simp
  then show ?thesis unfolding insert_iff using decision_cong[of t' t] t(1) r rows ignored by simp
qed

lemma ids_kept_unless_insert:
  assumes "w_action (fst (persist_candidate cosd limit s a c t)) \<noteq> Insert"
  shows "map m_id (d_mems (x_db (snd (persist_candidate cosd limit s a c t)))) = map m_id (d_mems (x_db t))"
proof (cases rule: persist_cases[of cosd limit s a c t])
  case (reinforced m sim)
  then show ?thesis by (simp add: persist_reinforce_effect) (rule update_table_ids, simp add: bump_def)
qed (use assms in simp_all)

section \<open>The change of a preference\<close>

lemma filter_cores:
  assumes "map core xs = map core ys" "\<And>m m'. core m = core m' \<Longrightarrow> P m = P m'"
  shows "map core (filter P xs) = map core (filter P ys)"
  using assms(1)
proof (induction xs arbitrary: ys)
  case (Cons x xs)
  then obtain y zs where "ys = y # zs" "core x = core y" "map core xs = map core zs" by (cases ys) auto
  then show ?case using Cons.IH assms(2)[of x y] by simp
qed simp

lemma cores_contents: "map core xs = map core ys \<Longrightarrow> map m_content xs = map m_content ys"
proof (induction xs arbitrary: ys)
  case (Cons x xs)
  then obtain y zs where "ys = y # zs" "core x = core y" "map core xs = map core zs" by (cases ys) auto
  then show ?case using Cons.IH[of zs] core_fields(4)[of x y] by simp
qed simp

definition in_slot :: "uuid \<Rightarrow> uuid \<Rightarrow> string \<Rightarrow> 'v mem \<Rightarrow> bool" where
  "in_slot s a b m \<longleftrightarrow> own_live s a m \<and> m_attribute m = Some b"

lemma in_slot_core: "core m = core m' \<Longrightarrow> in_slot s a b m = in_slot s a b m'"
  using core_fields(2,3,6)[of m m'] live_core[of m m'] by (simp add: in_slot_def own_live_def)

lemma insert_slot_contents:
  assumes t: "x_role t = App s a" "db_ok (x_db t)" and b: "slot_of c = Some b" "is_single_valued (Some b)"
  shows "map m_content (filter (in_slot s a b) (d_mems (x_db (snd (persist_insert s a c t))))) = [f_text c]"
proof -
  let ?up = "update_table (evicts s a c) (retire (fresh t) (x_now t)) (d_mems (x_db t))"
  have ev: "evicts s a c m \<longleftrightarrow> in_slot s a b m" for m
    using b by (auto simp: evicts_def in_slot_def own_live_def)
  have dead: "\<not> in_slot s a b (retire i now m)" for i now m
    by (simp add: in_slot_def own_live_def live_def retire_def)
  have gone: "filter (in_slot s a b) ?up = []"
    by (auto simp: filter_empty_conv update_table_def ev dead)
  have "map core (filter (in_slot s a b) (d_mems (x_db (snd (persist_insert s a c t))))) =
      map core (filter (in_slot s a b) (?up @ [fact_row s a c (x_now t) (fresh t)]))"
    by (rule filter_cores[OF persist_insert_effect(1)[OF t]]) (rule in_slot_core)
  then have "map core (filter (in_slot s a b) (d_mems (x_db (snd (persist_insert s a c t))))) =
      map core [fact_row s a c (x_now t) (fresh t)]"
    using gone b by (simp add: in_slot_def own_live_def)
  from cores_contents[OF this] show ?thesis by simp
qed

text \<open>A database of two rows for the concrete instances: a preference, and a note of the assistant
  that paraphrases another value of it. Vectors are reals.\<close>

definition ex_row_of :: "uuid \<Rightarrow> string \<Rightarrow> real \<Rightarrow> string \<Rightarrow> string option \<Rightarrow> real mem" where
  "ex_row_of i content v source attribute =
     new_memory ''s'' ''a'' content (Some v) (Some source) None None attribute 0 i"

definition language :: string where "language = ''default_programming_language''"

definition ex_db :: "real db" where
  "ex_db = \<lparr> d_mems = [ex_row_of ''m1'' ''The user prefers Java.'' 0 ''chat'' (Some language),
                        ex_row_of ''m2'' ''The user prefers Kotlin.'' 1 assistant_note None],
             d_audits = [], d_gen = (\<lambda>n. replicate (n + 3) CHR ''x''), d_next = 0 \<rparr>"

definition ex_fact :: "string \<Rightarrow> real \<Rightarrow> real fact" where
  "ex_fact text v = (new_fact text ''chat'' (Some language)) \<lparr> f_embedding := Some v \<rparr>"

definition ex_cosd :: "real \<Rightarrow> real \<Rightarrow> real" where
  "ex_cosd x y = \<bar>x - y\<bar>"

lemmas ex_store = ex_db_def ex_row_of_def new_memory_def ex_fact_def new_fact_def ex_cosd_def

lemma inj_replicate: "inj (\<lambda>n::nat. replicate (n + k) x)"
  by (rule injI) (metis add_right_cancel length_replicate)

lemma ex_db_ok: "db_ok ex_db"
proof -
  have "replicate (n + 3) CHR ''x'' \<noteq> ''m1''" "replicate (n + 3) CHR ''x'' \<noteq> ''m2''" for n
    by (simp_all add: numeral_3_eq_3)
  then show ?thesis unfolding db_ok_def ids_def using inj_replicate[of 3 "CHR ''x''"]
    by (simp add: ex_store)
qed

section \<open>Properties of the write path\<close>

text \<open>C7. Capture is confined to its owner, erases nothing and keeps the key discipline. Whatever
  candidates are persisted for a subject and actor, on a database whose identifiers are distinct: the
  rows of every other subject and of every other actor of the same subject are unchanged; no row is
  removed, and every old row, the owner's included, keeps its identifier, owner, text, vector, origin,
  scores, slot, times of creation, deletion and archiving and its consolidation marks, so a write
  neither erases a row nor revives an erased one; the new rows are some of the candidates, in their
  order and each at most once, live rows of this subject and actor with the text, vector, source,
  scores and slot of their candidate, under identifiers no old row has; all identifiers are distinct
  afterwards and the supply still repeats none; and the audit trail only grows, by rows attributed to
  this subject and actor.\<close>

theorem capture_confined:
  assumes "db_ok d"
  shows "let d' = snd (persist_candidates cosd threshold s a candidates now k d)
   in filter (\<lambda>m. \<not> visible (App s a) m) (d_mems d') = filter (\<lambda>m. \<not> visible (App s a) m) (d_mems d) \<and>
      (\<exists>stored old new. d_mems d' = old @ new \<and> map fixed_columns old = map fixed_columns (d_mems d) \<and>
         subseq stored candidates \<and>
         list_all2 (\<lambda>c m. fixed_columns m = fixed_columns (fact_row s a c now (m_id m)) \<and>
           m_deleted m = None \<and> m_id m \<notin> ids d) stored new) \<and>
      db_ok d' \<and>
      (\<exists>as. d_audits d' = d_audits d @ as \<and> list_all (\<lambda>x. a_subject x = s \<and> a_actor x = a) as)"
proof -
  let ?d = "snd (persist_candidates cosd threshold s a candidates now k d)"
  have g: "grows {} (App s a) d ?d" by (rule persist_candidates_grows)
  then have ok: "db_ok ?d" using assms by (simp add: grows_def)
  have "\<exists>as. d_audits ?d = d_audits d @ as \<and> list_all (\<lambda>x. a_subject x = s \<and> a_actor x = a) as"
    using grows_prefix[OF g] by (auto simp: list_all_iff)
  then show ?thesis using grows_foreign[OF g] persisted_rows[OF assms ok refl] ok by (simp only: Let_def)
qed

theorem capture_confined_witness:
  "\<exists>stored old new. d_mems (snd (persist_candidates ex_cosd None ''s'' ''a'' [ex_fact ''The user prefers Rust.'' 5] 9 True ex_db)) =
      old @ new \<and> map fixed_columns old = map fixed_columns (d_mems ex_db) \<and> subseq stored [ex_fact ''The user prefers Rust.'' 5]"
  using capture_confined[OF ex_db_ok, of ex_cosd None "''s''" "''a''" "[ex_fact ''The user prefers Rust.'' 5]" 9 True]
  by (simp only: Let_def) blast

text \<open>Each single-valued slot holds at most one live value per subject and actor: if the database
  has that property, it still has it after any batch of candidates, whatever they say and whatever
  the similarity scores are.
\<close>

lemma slots_stay_single:
  assumes "db_ok d" "slots_ok d"
  shows "slots_ok (snd (persist_candidates cosd threshold s a candidates now k d))"
  using assms by (rule persist_candidates_slots_ok)

lemma slots_stay_single_witness:
  "slots_ok (snd (persist_candidates ex_cosd None ''s'' ''a'' [ex_fact ''The user prefers Rust.'' 5] 9 True ex_db))"
proof -
  have "slots_ok ex_db" by (simp add: slots_ok_def slot_clash_def ex_store is_single_valued_def)
  then show ?thesis by (rule slots_stay_single[OF ex_db_ok])
qed

text \<open>The audit trail accounts for the batch: there is one result per candidate, in order, and
  the \<^verbatim>\<open>write\<close> rows the batch adds to the trail name, in order, exactly the memories that its
  insert and reinforce results name. Blocked and ignored candidates leave no row.
\<close>

lemma capture_is_audited:
  assumes "db_ok d"
  shows "map w_text (fst (persist_candidates cosd threshold s a candidates now k d)) = map f_text candidates \<and>
    writes (d_audits (snd (persist_candidates cosd threshold s a candidates now k d))) =
      writes (d_audits d) @
      map w_memory (filter effective (fst (persist_candidates cosd threshold s a candidates now k d)))"
  using run_persist[of "session s a now k d"] assms by (simp add: persist_candidates_eq)

lemma capture_is_audited_witness:
  "map w_text (fst (persist_candidates ex_cosd None ''s'' ''a'' [ex_fact ''hi'' 5, ex_fact ''ho'' 6] 9 True ex_db)) =
     [''hi'', ''ho'']"
  using capture_is_audited[OF ex_db_ok, of ex_cosd None "''s''" "''a''" "[ex_fact ''hi'' 5, ex_fact ''ho'' 6]" 9 True]
  by (simp add: ex_fact_def new_fact_def)

text \<open>What the assistant said is not evidence. A candidate extracted from the assistant's own words
  is blocked exactly if it comes within the threshold of a memory its owner deleted or superseded;
  otherwise it is ignored exactly if it comes within the threshold of a live one; otherwise it is
  inserted, without a slot. In every case each existing row stays as it is: nothing is reinforced,
  superseded or marked stale.
\<close>

lemma assistant_note_outcome:
  assumes "assistant_sourced c" "f_embedding c = Some v" "db_ok d"
  shows "let (r, t) = persist_candidate cosd limit s a c (session s a now k d)
    in w_action r =
         (if list_ex (\<lambda>m. own_dead s a m \<and> near cosd limit v m) (d_mems d) then Blocked
          else if list_ex (\<lambda>m. own_live s a m \<and> near cosd limit v m) (d_mems d) then Ignored else Insert) \<and>
       d_mems (x_db t) = d_mems d @
         (if w_action r = Insert then [fact_row s a c now (d_gen d (d_next d))] else []) \<and>
       slot_of c = None"
proof -
  let ?t = "session s a now k d"
  let ?r = "fst (persist_candidate cosd limit s a c ?t)"
  have t: "x_role ?t = App s a" by simp
  have none: "\<not> is_single_valued (slot_of c)" by (simp add: assistant_slot[OF assms(1)])
  have "w_action ?r = (if grave_of cosd limit s c ?t \<noteq> None then Blocked
      else if match_of cosd limit s c ?t \<noteq> None then Ignored else Insert)"
    using assms(1) by (simp add: persist_candidate_def split: option.split prod.split)
  moreover have "d_mems (x_db (snd (persist_candidate cosd limit s a c ?t))) = d_mems d @
      (if w_action ?r = Insert then [fact_row s a c now (d_gen d (d_next d))] else [])"
    by (cases rule: persist_cases[of cosd limit s a c ?t])
      (use assms none in \<open>simp_all add: persist_insert_plain\<close>)
  ultimately show ?thesis
    using grave_of_iff[OF t assms(2), of cosd limit] assistant_match[OF t assms(2,1), of cosd limit] assms(1)
    by (simp add: split_beta Let_def assistant_slot)
qed

lemma assistant_note_outcome_witness:
  "w_action (fst (persist_candidate ex_cosd 0.82 ''s'' ''a''
     ((ex_fact ''The user prefers Java.'' 0) \<lparr> f_source := assistant_note \<rparr>) (session ''s'' ''a'' 9 True ex_db))) = Ignored"
proof -
  have "assistant_sourced ((ex_fact ''The user prefers Java.'' 0) \<lparr> f_source := assistant_note \<rparr>)"
    by (simp add: assistant_sourced_def)
  moreover have "f_embedding ((ex_fact ''The user prefers Java.'' 0) \<lparr> f_source := assistant_note \<rparr>) = Some 0"
    by (simp add: ex_fact_def)
  ultimately show ?thesis
    using assistant_note_outcome[of _ 0 ex_db ex_cosd "0.82" "''s''" "''a''" 9 True, OF _ _ ex_db_ok]
    by (simp add: split_beta Let_def ex_store own_dead_def own_live_def live_def near_def)
qed

text \<open>C10. A change of mind takes effect. Let the user state a value for a single-valued slot, and let
  every live memory within the threshold be an older value of the same slot that reads differently
  (in particular when none is within the threshold). Then the statement is inserted and becomes the
  only live value of the slot; the older values are exactly the rows reported as superseded, they
  point to the new row and keep their text, and no other row changes (up to the staleness mark of
  summaries).
\<close>

theorem change_of_mind:
  assumes "\<not> assistant_sourced c" "f_attribute c = Some b" "is_single_valued (Some b)" "f_embedding c = Some v"
    and near: "list_all (\<lambda>m. own_live s a m \<and> near cosd limit v m \<longrightarrow>
        m_attribute m = Some b \<and> strip (m_content m) \<noteq> strip (f_text c)) (d_mems d)"
    and ok: "db_ok d"
  shows "let (r, t) = persist_candidate cosd limit s a c (session s a now k d);
             i = d_gen d (d_next d)
    in w_action r = Insert \<and> w_superseded r = map m_id (filter (in_slot s a b) (d_mems d)) \<and>
       map m_content (filter (in_slot s a b) (d_mems (x_db t))) = [f_text c] \<and>
       map core (d_mems (x_db t)) =
         map core (map (\<lambda>m. if in_slot s a b m then retire i now m else m) (d_mems d) @ [fact_row s a c now i])"
proof -
  let ?t = "session s a now k d"
  let ?ms = "filter (own_live s a) (d_mems d)"
  have t: "x_role ?t = App s a" "db_ok (x_db ?t)" using ok by simp_all
  have slot: "slot_of c = Some b" using assms(1,2) by (simp add: slot_of_def)
  have ev: "evicts s a c = in_slot s a b"
    using slot assms(3) by (auto simp: fun_eq_iff evicts_def in_slot_def own_live_def)
  have grave: "grave_of cosd limit s c ?t = None"
    by (rule user_no_grave[OF assms(1)])
  have "match_of cosd limit s c ?t = None"
  proof (cases "first_at_least limit (nearest cosd v 1 ?ms)")
    case None
    then show ?thesis unfolding match_of_eq[OF t(1) assms(4)] by simp
  next
    case (Some p)
    then obtain m sim where p: "first_at_least limit (nearest cosd v 1 ?ms) = Some (m, sim)" by (cases p) auto
    have "near cosd limit v m" using first_at_least_Some(2,3)[OF p] by (auto simp: near_def)
    then have "m_attribute m = Some b \<and> strip (m_content m) \<noteq> strip (f_text c)"
      using near first_at_least_Some(1)[OF p] by (auto simp: list_all_iff)
    then show ?thesis unfolding match_of_eq[OF t(1) assms(4)] using p slot assms(3) by simp
  qed
  then have ins: "persist_candidate cosd limit s a c ?t = persist_insert s a c ?t"
    using grave by (simp add: persist_candidate_def)
  have "filter (evicts s a c) (d_mems d) = filter (in_slot s a b) (d_mems d)"
    "update_table (evicts s a c) f (d_mems d) = map (\<lambda>m. if in_slot s a b m then f m else m) (d_mems d)" for f
    by (simp_all add: ev update_table_def)
  then show ?thesis
    unfolding ins using insert_slot_contents[OF t slot assms(3)] persist_insert_effect(1,2)[OF t, of c]
    by (simp add: split_beta Let_def)
qed

theorem change_of_mind_witness:
  "map m_content (filter (in_slot ''s'' ''a'' language)
     (d_mems (x_db (snd (persist_candidate ex_cosd 0.82 ''s'' ''a'' (ex_fact ''The user prefers C++.'' 0.1)
        (session ''s'' ''a'' 9 True ex_db)))))) = [''The user prefers C++.'']"
proof -
  let ?c = "ex_fact ''The user prefers C++.'' 0.1"
  have c: "\<not> assistant_sourced ?c" "f_attribute ?c = Some language" "f_embedding ?c = Some 0.1"
    by (simp_all add: ex_fact_def new_fact_def assistant_sourced_def assistant_note_def)
  have "list_all (\<lambda>m. own_live ''s'' ''a'' m \<and> near ex_cosd 0.82 0.1 m \<longrightarrow>
        m_attribute m = Some language \<and> strip (m_content m) \<noteq> strip (f_text ?c)) (d_mems ex_db)"
    by (simp add: ex_store near_def strip_def py_space_def)
  then show ?thesis
    using change_of_mind[OF c(1,2) _ c(3) _ ex_db_ok, of "''s''" "''a''" ex_cosd "0.82" 9 True]
    by (simp add: is_single_valued_def single_valued_def language_def split_beta Let_def ex_fact_def new_fact_def)
qed

text \<open>A statement is stored once. When the same candidate is persisted again, at any later time and
  with no other write in between (the lock serialises concurrent turns into such a sequence), the
  second run inserts no row, whatever the first one did and whoever said it, provided that a vector
  is at distance zero from itself and the threshold is at most one.
\<close>

lemma identical_turns_write_once:
  assumes "db_ok d" "f_embedding c = Some v" "cosd v v = 0" "limit \<le> 1"
  shows "let d1 = snd (persist_candidates cosd (Some limit) s a [c] now k d);
             (results, d2) = persist_candidates cosd (Some limit) s a [c] now' k' d1
    in list_all (\<lambda>r. w_action r \<noteq> Insert) results \<and> map m_id (d_mems d2) = map m_id (d_mems d1)"
proof -
  let ?t = "session s a now k d"
  let ?t1 = "snd (persist_candidate cosd limit s a c ?t)"
  let ?t' = "session s a now' k' (x_db ?t1)"
  have "w_action (fst (persist_candidate cosd limit s a c ?t')) \<noteq> Insert"
    by (rule repeat_never_inserts[where t = ?t]) (use assms in simp_all)
  then show ?thesis
    using ids_kept_unless_insert[of cosd limit s a c ?t']
    by (simp add: persist_candidates_eq split_beta Let_def)
qed

lemma identical_turns_write_once_witness:
  "map m_id (d_mems (snd (persist_candidates ex_cosd (Some 0.82) ''s'' ''a'' [ex_fact ''hi'' 7] 2 True
      (snd (persist_candidates ex_cosd (Some 0.82) ''s'' ''a'' [ex_fact ''hi'' 7] 1 True ex_db))))) =
   map m_id (d_mems (snd (persist_candidates ex_cosd (Some 0.82) ''s'' ''a'' [ex_fact ''hi'' 7] 1 True ex_db)))"
  using identical_turns_write_once[OF ex_db_ok, of "ex_fact ''hi'' 7" 7 ex_cosd "0.82" "''s''" "''a''" 1 True 2 True]
  by (simp add: split_beta Let_def ex_fact_def ex_cosd_def)

text \<open>The limit of the change-of-mind guard: it only looks at a nearest memory of the same slot. When
  the nearest live memory passes the threshold but carries another slot or none (as every note of the
  assistant does), a statement for a single-valued slot is absorbed by it: the note is reinforced, no
  row is inserted, and the slot keeps its old value.
\<close>

lemma paraphrase_shadows_preference:
  assumes "\<not> assistant_sourced c" "f_attribute c = Some b" "f_embedding c = Some v" "m_attribute m \<noteq> Some b"
    and near: "first_at_least limit (find_similar cosd s v 1 (session s a now k d)) = Some (m, sim)"
  shows "let (r, t) = persist_candidate cosd limit s a c (session s a now k d)
    in w_action r = Reinforce \<and>
       map m_content (filter (in_slot s a b) (d_mems (x_db t))) =
         map m_content (filter (in_slot s a b) (d_mems d))"
proof -
  let ?t = "session s a now k d"
  let ?u = "\<lambda>r. visible (App s a) r \<and> m_id r = m_id m \<and> m_deleted r = None"
  have t: "x_role ?t = App s a" by simp
  have grave: "grave_of cosd limit s c ?t = None"
    by (rule user_no_grave[OF assms(1)])
  have "match_of cosd limit s c ?t = Some (m, sim)"
    using near assms(1,2,4) by (simp add: match_of_def assms(3) slot_of_def)
  then have p: "persist_candidate cosd limit s a c ?t = persist_reinforce s a c m sim ?t"
    using grave assms(1) by (simp add: persist_candidate_def)
  have "filter (in_slot s a b) (update_table ?u (bump now) (d_mems d)) =
      update_table ?u (bump now) (filter (in_slot s a b) (d_mems d))"
    unfolding update_table_def filter_map comp_def
    by (rule arg_cong[of _ _ "map _"], rule filter_cong) (auto simp: in_slot_def own_live_def live_def bump_def)
  then have "map m_content (filter (in_slot s a b) (update_table ?u (bump now) (d_mems d))) =
      map m_content (update_table ?u (bump now) (filter (in_slot s a b) (d_mems d)))" by simp
  also have "\<dots> = map m_content (filter (in_slot s a b) (d_mems d))"
    by (simp add: update_table_def bump_def)
  finally have "map m_content (filter (in_slot s a b) (update_table ?u (bump now) (d_mems d))) =
      map m_content (filter (in_slot s a b) (d_mems d))" .
  then show ?thesis unfolding p by (simp add: split_beta persist_reinforce_effect)
qed

lemma paraphrase_shadows_preference_witness:
  "map m_content (filter (in_slot ''s'' ''a'' language)
     (d_mems (x_db (snd (persist_candidate ex_cosd 0.82 ''s'' ''a'' (ex_fact ''The user prefers Kotlin.'' 1)
        (session ''s'' ''a'' 9 True ex_db)))))) = [''The user prefers Java.'']"
proof -
  let ?c = "ex_fact ''The user prefers Kotlin.'' 1"
  let ?m = "ex_row_of ''m2'' ''The user prefers Kotlin.'' 1 assistant_note None"
  have c: "\<not> assistant_sourced ?c" "f_attribute ?c = Some language" "f_embedding ?c = Some 1" "m_attribute ?m \<noteq> Some language"
    by (simp_all add: ex_store assistant_sourced_def assistant_note_def)
  have "first_at_least 0.82 (find_similar ex_cosd ''s'' 1 1 (session ''s'' ''a'' 9 True ex_db)) = Some (?m, 1)"
    by (simp add: find_similar_def select_rows_def nearest_def first_at_least_def ex_store)
  from paraphrase_shadows_preference[OF c this] show ?thesis
    by (simp add: split_beta Let_def ex_store in_slot_def own_live_def live_def)
qed

end
