(* ===== verification/Search.thy ===== *)
theory Search
  imports Hybrid Llm Memories
begin

text \<open>
  The two retrieval paths over the database (\<^verbatim>\<open>retrieve/semantic.py\<close>, \<^verbatim>\<open>retrieve/keyword.py\<close>): the
  query embedding with its two caches and its own retry rounds, the vector and the text statement,
  and the candidates they yield. The provider, the digest of a text, the printed form of a timestamp,
  the cosine distance and PostgreSQL's text search (whether a text matches a query, and its rank) are
  parameters.

  So is the plan of the vector statement. Migration 0003 puts an HNSW index on the embeddings, and an
  index scan yields an approximate neighbourhood of the query first, which the conditions of the
  statement filter afterwards: matching rows outside that neighbourhood are missed. The parameter
  \<open>se_reach\<close> says which rows the scan of the plan reaches, for a query vector, a limit and the rows of
  the table; nothing is assumed of it. A sequential scan, which the planner prefers while the table is
  small, reaches every row. The GIN index of the text statement is exact. The distance is a real
  number: pgvector's NaN for a vector of zeros is outside the model.
\<close>

section \<open>The query embedding\<close>

text \<open>The process-wide cache, and the file when one is configured; a missing or unreadable file is the
  empty dictionary.\<close>

record query_cache =
  qc_memory :: "(string \<times> real list) list"
  qc_disk :: "(string \<times> real list) list option"

record search_env =
  se_lib :: pylib
  se_llm :: llm_settings
  se_rounds :: "nat \<Rightarrow> provider"
  se_digest :: "string \<Rightarrow> string"
  se_isoformat :: "timestamp \<Rightarrow> string"
  se_distance :: "real list \<Rightarrow> real list \<Rightarrow> real"
  se_reach :: "real list \<Rightarrow> nat \<Rightarrow> real list mem list \<Rightarrow> uuid \<Rightarrow> bool"
  se_rank :: "string \<Rightarrow> string \<Rightarrow> real option"

definition cache_key :: "search_env \<Rightarrow> string \<Rightarrow> string" where
  "cache_key env text = ls_embedding_model (se_llm env) @ '':'' @ se_digest env text"

definition load_disk_cache :: "query_cache \<Rightarrow> (string \<times> real list) list" where
  "load_disk_cache c = (case qc_disk c of None \<Rightarrow> [] | Some entries \<Rightarrow> entries)"

definition save_disk_cache :: "(string \<times> real list) list \<Rightarrow> query_cache \<Rightarrow> query_cache" where
  "save_disk_cache entries c = (case qc_disk c of
       None \<Rightarrow> c
     | Some _ \<Rightarrow> c \<lparr> qc_disk := Some (dict_update (load_disk_cache c) entries) \<rparr>)"

definition remember :: "(string \<times> real list) list \<Rightarrow> query_cache \<Rightarrow> query_cache" where
  "remember entries c = c \<lparr> qc_memory := dict_update (qc_memory c) entries \<rparr>"

definition query_backoff :: pyfloat where "query_backoff = Fin 21"
definition query_max_attempts :: nat where "query_max_attempts = 3"

definition rate_limit_markers :: "string list" where
  "rate_limit_markers = [''429'', ''rate limit'', ''ratelimit'', ''too many requests'']"

definition is_query_rate_limit :: "llm_exn \<Rightarrow> bool" where
  "is_query_rate_limit e = list_ex (contains (lower (le_type e @ '' '' @ le_text e))) rate_limit_markers"

text \<open>The loop with \<open>n\<close> more attempts after the \<open>i\<close>th: the outcome and all waits.\<close>

fun embed_attempts ::
  "(nat \<Rightarrow> (llm_exn + real list list) \<times> pyfloat list) \<Rightarrow> nat \<Rightarrow> nat \<Rightarrow> (llm_exn + real list list) \<times> pyfloat list" where
  "embed_attempts op 0 i = op i"
| "embed_attempts op (Suc n) i =
     (case op i of
        (Inr vs, ws) \<Rightarrow> (Inr vs, ws)
      | (Inl e, ws) \<Rightarrow>
          if \<not> is_query_rate_limit e then (Inl e, ws)
          else let (r, ws') = embed_attempts op n (Suc i) in (r, ws @ query_backoff # ws'))"

definition embed_batch :: "search_env \<Rightarrow> string list \<Rightarrow> (llm_exn + real list list) \<times> pyfloat list" where
  "embed_batch env texts =
     embed_attempts (\<lambda>i. embed_texts (se_lib env) (se_llm env) (se_rounds env i) None None texts)
       (query_max_attempts - 1) 0"

fun missing_texts :: "search_env \<Rightarrow> query_cache \<Rightarrow> string list \<Rightarrow> string list \<Rightarrow> string list" where
  "missing_texts env c acc [] = acc"
| "missing_texts env c acc (t # ts) =
     missing_texts env c (if map_of (qc_memory c) (cache_key env t) = None \<and> t \<notin> set acc then acc @ [t] else acc) ts"

definition warm_query_cache :: "search_env \<Rightarrow> string list \<Rightarrow> query_cache \<Rightarrow> (llm_exn + nat) \<times> query_cache" where
  "warm_query_cache env texts c =
     (let c1 = (if load_disk_cache c = [] then c else remember (load_disk_cache c) c);
          missing = missing_texts env c1 [] texts
      in if missing = [] then (Inr 0, c1)
         else case fst (embed_batch env missing) of
             Inl e \<Rightarrow> (Inl e, c1)
           | Inr vectors \<Rightarrow>
               (let fresh = map (\<lambda>(t, v). (cache_key env t, v)) (zip missing vectors)
                in (Inr (length missing), save_disk_cache fresh (remember fresh c1))))"

text \<open>How many entries of the file are dropped.\<close>

definition prune_persistent_cache :: "search_env \<Rightarrow> string list \<Rightarrow> query_cache \<Rightarrow> nat \<times> query_cache" where
  "prune_persistent_cache env keep c =
     (case qc_disk c of
        None \<Rightarrow> (0, c)
      | Some cache \<Rightarrow>
          (let live = map (cache_key env) keep;
               orphans = filter (\<lambda>key. key \<notin> set live) (map fst cache)
           in if orphans = [] then (0, c)
              else (length orphans, c \<lparr> qc_disk := Some (filter (\<lambda>e. fst e \<notin> set orphans) cache) \<rparr>)))"

text \<open>The vector, or none when the provider returned none; the waits are empty on a cache hit.\<close>

definition embed_query ::
  "search_env \<Rightarrow> string \<Rightarrow> query_cache \<Rightarrow> ((llm_exn + real list option) \<times> pyfloat list) \<times> query_cache" where
  "embed_query env text c =
     (let key = cache_key env text in
      case map_of (qc_memory c) key of
        Some v \<Rightarrow> ((Inr (Some v), []), c)
      | None \<Rightarrow>
          (case map_of (load_disk_cache c) key of
             Some _ \<Rightarrow>
               (let c1 = remember (load_disk_cache c) c
                in ((Inr (map_of (qc_memory c1) key), []), c1))
           | None \<Rightarrow>
               (case embed_batch env [text] of
                  (Inl e, ws) \<Rightarrow> ((Inl e, ws), c)
                | (Inr vectors, ws) \<Rightarrow>
                    (case vectors of
                       [] \<Rightarrow> ((Inr None, ws), c)
                     | v # _ \<Rightarrow>
                         if v = [] then ((Inr None, ws), c)
                         else ((Inr (Some v), ws), save_disk_cache [(key, v)] (remember [(key, v)] c))))))"

section \<open>The candidates\<close>

definition opt_str :: "string option \<Rightarrow> pyval" where
  "opt_str s = (case s of None \<Rightarrow> PyNone | Some t \<Rightarrow> PyStr t)"

definition opt_num :: "real option \<Rightarrow> pyval" where
  "opt_num x = (case x of None \<Rightarrow> PyNone | Some r \<Rightarrow> PyFloat (Fin r))"

definition row_metadata :: "search_env \<Rightarrow> 'v mem \<Rightarrow> (string \<times> pyval) list" where
  "row_metadata env m =
     [(''source'', opt_str (m_source m)), (''importance'', opt_num (m_importance m)),
      (''confidence'', opt_num (m_confidence m)), (''weight'', PyFloat (Fin (m_weight m))),
      (''reinforcement_count'', PyInt (m_reinforced m)), (''created_at'', PyStr (se_isoformat env (m_created m))),
      (''last_accessed_at'', PyStr (se_isoformat env (m_accessed m)))]"

definition path_candidate :: "search_env \<Rightarrow> path \<Rightarrow> string \<Rightarrow> real \<Rightarrow> real \<Rightarrow> 'v mem \<Rightarrow> candidate" where
  "path_candidate env p label measured score m =
     \<lparr> c_id = m_id m, c_content = m_content m, c_score = Fin score, c_path = p, c_paths = {p},
       c_path_scores = [], c_raw_scores = [(p, Fin score)],
       c_metadata = map_of (row_metadata env m @ [(label, PyFloat (Fin measured))]) \<rparr>"

section \<open>The semantic path\<close>

definition semantic_top_k :: nat where "semantic_top_k = 5"
definition keyword_top_k :: nat where "keyword_top_k = 5"

definition limit_or :: "nat option \<Rightarrow> nat \<Rightarrow> nat" where
  "limit_or k dflt = (case k of None \<Rightarrow> dflt | Some n \<Rightarrow> if n = 0 then dflt else n)"

definition retrievable :: "uuid \<Rightarrow> 'v mem \<Rightarrow> bool" where
  "retrievable subject m \<longleftrightarrow>
     m_subject m = subject \<and> m_deleted m = None \<and> m_superseded m = None \<and> m_stale m = None"

definition distance_to :: "search_env \<Rightarrow> real list \<Rightarrow> real list mem \<Rightarrow> real" where
  "distance_to env v m = (case m_embedding m of Some e \<Rightarrow> se_distance env e v | None \<Rightarrow> 0)"

text \<open>The rows the statement matches among those its scan reaches, nearest first.\<close>

definition reached :: "search_env \<Rightarrow> real list \<Rightarrow> nat \<Rightarrow> real list db \<Rightarrow> real list mem \<Rightarrow> bool" where
  "reached env v limit d m \<longleftrightarrow> se_reach env v limit (d_mems d) (m_id m)"

definition semantic_rows ::
  "search_env \<Rightarrow> uuid \<Rightarrow> real list \<Rightarrow> nat \<Rightarrow> real list tx \<Rightarrow> real list mem list" where
  "semantic_rows env subject v limit t =
     take limit (sort_key (\<lambda>m. (distance_to env v m, m_id m))
       (select_rows (\<lambda>m. retrievable subject m \<and> m_embedding m \<noteq> None \<and> reached env v limit (x_db t) m) t))"

definition semantic_candidate :: "search_env \<Rightarrow> real list \<Rightarrow> real list mem \<Rightarrow> candidate" where
  "semantic_candidate env v m =
     path_candidate env Semantic ''cosine_distance'' (distance_to env v m) (1 - distance_to env v m) m"

definition semantic_search ::
  "search_env \<Rightarrow> query \<Rightarrow> timestamp \<Rightarrow> bool \<Rightarrow> real list db \<Rightarrow> query_cache \<Rightarrow> (llm_exn + candidate list) \<times> query_cache" where
  "semantic_search env q now txid_known d c =
     (if is_blank q then (Inr [], c)
      else let limit = limit_or (q_semantic_top_k q) semantic_top_k;
               ((r, _), c1) = embed_query env (q_text q) c
           in case r of
                Inl e \<Rightarrow> (Inl e, c1)
              | Inr vector \<Rightarrow>
                  (let v = (case vector of Some v \<Rightarrow> v | None \<Rightarrow> [])
                   in if v = [] then (Inr [], c1)
                      else (Inr (map (semantic_candidate env v)
                              (semantic_rows env (q_subject q) v limit (session (q_subject q) (q_actor q) now txid_known d))), c1)))"

section \<open>The keyword path\<close>

definition rank_of :: "search_env \<Rightarrow> string \<Rightarrow> 'v mem \<Rightarrow> real" where
  "rank_of env text m = (case se_rank env text (m_content m) of Some r \<Rightarrow> r | None \<Rightarrow> 0)"

definition keyword_rows :: "search_env \<Rightarrow> uuid \<Rightarrow> string \<Rightarrow> nat \<Rightarrow> 'v tx \<Rightarrow> 'v mem list" where
  "keyword_rows env subject text limit t =
     take limit (sort_key (\<lambda>m. (- rank_of env text m, m_id m))
       (select_rows (\<lambda>m. se_rank env text (m_content m) \<noteq> None \<and> retrievable subject m) t))"

definition keyword_candidate :: "search_env \<Rightarrow> string \<Rightarrow> 'v mem \<Rightarrow> candidate" where
  "keyword_candidate env text m =
     path_candidate env Keyword ''ts_rank'' (rank_of env text m) (rank_of env text m) m"

definition keyword_search :: "search_env \<Rightarrow> query \<Rightarrow> timestamp \<Rightarrow> bool \<Rightarrow> 'v db \<Rightarrow> candidate list" where
  "keyword_search env q now txid_known d =
     (if is_blank q then []
      else map (keyword_candidate env (q_text q))
             (keyword_rows env (q_subject q) (q_text q) (limit_or (q_keyword_top_k q) keyword_top_k)
               (session (q_subject q) (q_actor q) now txid_known d)))"

section \<open>What the paths return\<close>

lemma path_candidate_simps [simp]:
  "c_id (path_candidate env p label x y m) = m_id m" "c_content (path_candidate env p label x y m) = m_content m"
  "c_score (path_candidate env p label x y m) = Fin y" "path_row_ok p (path_candidate env p label x y m)"
  by (simp_all add: path_candidate_def path_row_ok_def)

text \<open>The best rows of a selection: both statements order by a key that ends in the identifier.\<close>

definition best_rows :: "('v mem \<Rightarrow> real) \<Rightarrow> nat \<Rightarrow> ('v mem \<Rightarrow> bool) \<Rightarrow> 'v tx \<Rightarrow> 'v mem list" where
  "best_rows cost limit P t = take limit (sort_key (\<lambda>m. (cost m, m_id m)) (select_rows P t))"

lemma best_rows_props:
  assumes "db_ok (x_db t)"
  shows "m \<in> set (best_rows cost limit P t) \<Longrightarrow> m \<in> set (d_mems (x_db t)) \<and> visible (x_role t) m \<and> P m"
    "length (best_rows cost limit P t) \<le> limit"
    "distinct (map m_id (best_rows cost limit P t))"
    "sorted (map cost (best_rows cost limit P t))"
    "m \<in> set (best_rows cost limit P t) \<Longrightarrow> m' \<in> set (select_rows P t) \<Longrightarrow>
       m' \<notin> set (best_rows cost limit P t) \<Longrightarrow> cost m \<le> cost m'"
    "length (best_rows cost limit P t) < limit \<Longrightarrow> set (best_rows cost limit P t) = set (select_rows P t)"
proof -
  let ?k = "\<lambda>m. (cost m, m_id m)"
  let ?s = "sort_key ?k (select_rows P t)"
  show "m \<in> set (best_rows cost limit P t) \<Longrightarrow> m \<in> set (d_mems (x_db t)) \<and> visible (x_role t) m \<and> P m"
    unfolding best_rows_def by (drule in_set_takeD) (simp add: select_rows_def)
  show "length (best_rows cost limit P t) \<le> limit" by (simp add: best_rows_def)
  have "distinct (map m_id (select_rows P t))"
    using assms by (simp add: db_ok_def select_rows_def distinct_map_filter)
  then have "distinct (map m_id ?s)" by (simp only: distinct_map_sort_key)
  then show "distinct (map m_id (best_rows cost limit P t))"
    unfolding best_rows_def by (rule distinct_map_take)
  have s: "sorted (map cost ?s)" by (rule sorted_map_fst) (rule sorted_sort_key)
  then show "sorted (map cost (best_rows cost limit P t))" unfolding best_rows_def by (rule sorted_take)
  show "cost m \<le> cost m'" if "m \<in> set (best_rows cost limit P t)" "m' \<in> set (select_rows P t)"
    "m' \<notin> set (best_rows cost limit P t)"
  proof (rule sorted_take_drop_le[OF s])
    show "m \<in> set (take limit ?s)" using that(1) by (simp add: best_rows_def)
    have "m' \<in> set (take limit ?s @ drop limit ?s)" unfolding append_take_drop_id using that(2) by simp
    then show "m' \<in> set (drop limit ?s)" using that(3) unfolding best_rows_def set_append by blast
  qed
  show "set (best_rows cost limit P t) = set (select_rows P t)" if "length (best_rows cost limit P t) < limit"
    using that by (simp add: best_rows_def min_def split: if_splits)
qed

text \<open>A candidate that stands for a row the caller may use.\<close>

definition live_candidate :: "query \<Rightarrow> 'v db \<Rightarrow> candidate \<Rightarrow> bool" where
  "live_candidate q d c \<longleftrightarrow> list_ex (\<lambda>m. m_id m = c_id c \<and> m_content m = c_content c \<and>
     m_subject m = q_subject q \<and> m_actor m = q_actor q \<and> \<not> forgotten m) (d_mems d)"

lemma retrievable_forgotten: "retrievable s m \<longleftrightarrow> m_subject m = s \<and> \<not> forgotten m"
  by (auto simp: retrievable_def forgotten_def)

text \<open>What both statements have in common: the best own rows that are not forgotten, as candidates.\<close>

definition serves :: "path \<Rightarrow> query \<Rightarrow> nat \<Rightarrow> ('v mem \<Rightarrow> real) \<Rightarrow> ('v mem \<Rightarrow> bool) \<Rightarrow> 'v db \<Rightarrow> candidate list \<Rightarrow> bool" where
  "serves p q limit score P d cs \<longleftrightarrow>
     path_result_ok p cs \<and> length cs \<le> limit \<and> list_all (live_candidate q d) cs \<and>
     sorted (map (\<lambda>c. - fin_val (c_score c)) cs) \<and>
     list_all (\<lambda>m. m_subject m = q_subject q \<and> m_actor m = q_actor q \<and> \<not> forgotten m \<and> P m \<longrightarrow>
       m_id m \<in> set (map c_id cs) \<or> length cs = limit \<and> list_all (\<lambda>c. score m \<le> fin_val (c_score c)) cs) (d_mems d)"

lemma best_rows_serve:
  assumes ok: "db_ok d" and t: "t = session (q_subject q) (q_actor q) now k d"
    and anti: "\<And>m n. cost m \<le> cost n \<Longrightarrow> score n \<le> score m"
    and P': "\<And>m. P' m \<longleftrightarrow> retrievable (q_subject q) m \<and> P m"
  shows "serves p q limit score P d (map (\<lambda>m. path_candidate env p label (x m) (score m) m) (best_rows cost limit P' t))"
proof -
  have ok': "db_ok (x_db t)" and xd: "x_db t = d" "x_role t = App (q_subject q) (q_actor q)"
    using ok by (simp_all add: t session_def)
  let ?rows = "best_rows cost limit P' t"
  note b = best_rows_props[OF ok', where cost = cost and limit = limit and P = P']
  have own: "m \<in> set (d_mems d) \<and> m_subject m = q_subject q \<and> m_actor m = q_actor q \<and> \<not> forgotten m"
    if "m \<in> set ?rows" for m
    using b(1)[OF that] by (simp add: xd P' retrievable_forgotten visible_def)
  have left: "m_id m \<in> m_id ` set ?rows \<or> length ?rows = limit \<and> (\<forall>n \<in> set ?rows. score m \<le> score n)"
    if m: "m \<in> set (d_mems d)" "m_subject m = q_subject q" "m_actor m = q_actor q" "\<not> forgotten m" "P m" for m
  proof (cases "m \<in> set ?rows")
    case False
    have s: "m \<in> set (select_rows P' t)"
      using m by (simp add: select_rows_def xd P' retrievable_forgotten visible_def)
    have "\<not> length ?rows < limit" using b(6) s False by blast
    then have "length ?rows = limit" using b(2) by (simp add: le_antisym)
    moreover have "score m \<le> score n" if "n \<in> set ?rows" for n using anti[OF b(5)[OF that s False]] .
    ultimately show ?thesis by simp
  qed simp
  have "sorted_wrt (\<lambda>m n. cost m \<le> cost n) ?rows" using b(4) by (simp add: sorted_wrt_map)
  then have "sorted_wrt (\<lambda>m n. - score m \<le> - score n) ?rows"
    by (rule sorted_wrt_mono_rel[rotated]) (simp add: anti)
  then have sorted: "sorted (map (\<lambda>m. - score m) ?rows)" by (simp add: sorted_wrt_map)
  show ?thesis
    unfolding serves_def path_result_ok_def
    using b(2,3) sorted own left by (auto simp: list_all_iff live_candidate_def list_ex_iff comp_def)
qed

lemma search_serves_live_rows_lemma:
  assumes "db_ok d" "\<not> is_blank q"
  shows "serves Keyword q (limit_or (q_keyword_top_k q) keyword_top_k) (rank_of env (q_text q))
      (\<lambda>m. se_rank env (q_text q) (m_content m) \<noteq> None) d (keyword_search env q now k d) \<and>
    (case fst (fst (embed_query env (q_text q) c)) of
       Inl e \<Rightarrow> fst (semantic_search env q now k d c) = Inl e
     | Inr None \<Rightarrow> fst (semantic_search env q now k d c) = Inr []
     | Inr (Some v) \<Rightarrow> (case fst (semantic_search env q now k d c) of
         Inl _ \<Rightarrow> False
       | Inr cs \<Rightarrow> if v = [] then cs = [] else serves Semantic q (limit_or (q_semantic_top_k q) semantic_top_k)
           (\<lambda>m. 1 - distance_to env v m)
           (\<lambda>m. m_embedding m \<noteq> None \<and> reached env v (limit_or (q_semantic_top_k q) semantic_top_k) d m) d cs))"
proof -
  let ?t = "session (q_subject q) (q_actor q) now k d"
  have kw: "serves Keyword q (limit_or (q_keyword_top_k q) keyword_top_k) (rank_of env (q_text q))
      (\<lambda>m. se_rank env (q_text q) (m_content m) \<noteq> None) d (keyword_search env q now k d)"
  proof -
    have "keyword_search env q now k d = map (\<lambda>m. path_candidate env Keyword ''ts_rank'' (rank_of env (q_text q) m) (rank_of env (q_text q) m) m)
        (best_rows (\<lambda>m. - rank_of env (q_text q) m) (limit_or (q_keyword_top_k q) keyword_top_k)
          (\<lambda>m. se_rank env (q_text q) (m_content m) \<noteq> None \<and> retrievable (q_subject q) m) ?t)"
      using assms(2) by (simp add: keyword_search_def keyword_candidate_def[abs_def] keyword_rows_def best_rows_def)
    then show ?thesis by (simp only:) (rule best_rows_serve[OF assms(1) refl], auto)
  qed
  have sem: "serves Semantic q (limit_or (q_semantic_top_k q) semantic_top_k)
      (\<lambda>m. 1 - distance_to env v m)
      (\<lambda>m. m_embedding m \<noteq> None \<and> reached env v (limit_or (q_semantic_top_k q) semantic_top_k) d m) d
      (map (semantic_candidate env v) (semantic_rows env (q_subject q) v (limit_or (q_semantic_top_k q) semantic_top_k) ?t))" for v
    unfolding semantic_candidate_def[abs_def] semantic_rows_def best_rows_def[symmetric]
    by (rule best_rows_serve[OF assms(1) refl]) (auto simp: session_def)
  obtain r ws c1 where e: "embed_query env (q_text q) c = ((r, ws), c1)" by (metis prod.collapse)
  show ?thesis
  proof (cases r)
    case (Inl x)
    then show ?thesis using kw assms(2) by (simp add: e semantic_search_def)
  next
    case (Inr y)
    then show ?thesis using kw sem assms(2) by (cases y) (simp_all add: e semantic_search_def)
  qed
qed

text \<open>C20. What retrieval serves. The keyword path, and the semantic path whenever the query has a
  vector, return well-formed candidates, at most the limit, best first, each for a row of the caller
  that is neither erased nor replaced nor a stale summary, with that row's text. This holds whatever
  rows the index scan of the vector statement reaches. On the keyword path a usable matching row that
  is left out is only left out because the limit is reached by rows that score at least as much. On
  the semantic path this holds among the usable rows the scan reaches: the HNSW index is approximate,
  and a row it misses may be left out although it is nearer. Without a vector the semantic path is
  empty, and an error of the provider is its error.\<close>

theorem search_serves_live_rows:
  assumes "db_ok d" "\<not> is_blank q"
  shows "serves Keyword q (limit_or (q_keyword_top_k q) keyword_top_k) (rank_of env (q_text q))
      (\<lambda>m. se_rank env (q_text q) (m_content m) \<noteq> None) d (keyword_search env q now k d) \<and>
    (case fst (fst (embed_query env (q_text q) c)) of
       Inl e \<Rightarrow> fst (semantic_search env q now k d c) = Inl e
     | Inr None \<Rightarrow> fst (semantic_search env q now k d c) = Inr []
     | Inr (Some v) \<Rightarrow> (case fst (semantic_search env q now k d c) of
         Inl _ \<Rightarrow> False
       | Inr cs \<Rightarrow> if v = [] then cs = [] else serves Semantic q (limit_or (q_semantic_top_k q) semantic_top_k)
           (\<lambda>m. 1 - distance_to env v m)
           (\<lambda>m. m_embedding m \<noteq> None \<and> reached env v (limit_or (q_semantic_top_k q) semantic_top_k) d m) d cs))"
  by (rule search_serves_live_rows_lemma[OF assms])

section \<open>What the cache spares\<close>

lemma missing_texts_spec:
  "set acc \<subseteq> set (missing_texts env c acc ts) \<and> set (missing_texts env c acc ts) \<subseteq> set acc \<union> set ts \<and>
   length (missing_texts env c acc ts) \<le> length acc + length ts \<and>
   (\<forall>t \<in> set ts. map_of (qc_memory c) (cache_key env t) \<noteq> None \<or> t \<in> set (missing_texts env c acc ts))"
proof (induction env c acc ts rule: missing_texts.induct)
  case (2 env c acc t ts)
  then show ?case by (fastforce split: if_splits)
qed simp

lemma remember_hit: "map_of (qc_memory (remember es c)) key \<noteq> None \<longleftrightarrow> key \<in> fst ` set es \<or> map_of (qc_memory c) key \<noteq> None"
  using map_of_eq_None_iff[of "rev es" key] by (auto simp: remember_def map_of_dict_update split: option.split)

lemma save_memory [simp]: "qc_memory (save_disk_cache es c) = qc_memory c"
  by (simp add: save_disk_cache_def split: option.split)

text \<open>Warming the cache takes the place of the later requests. If the provider answers with a vector
  per text, then after a successful warm-up every one of the given texts is served from memory
  without any request, wait or change, whatever has become of the provider; and the warm-up
  counts no more texts than it was given.\<close>

lemma warm_cache_spares_requests:
  assumes warm: "warm_query_cache env texts c = (Inr n, c')"
    and full: "\<And>ts vs. fst (embed_batch env ts) = Inr vs \<Longrightarrow> length vs = length ts"
    and t: "t \<in> set texts"
  shows "n \<le> length texts \<and> (\<exists>v. embed_query (env \<lparr> se_rounds := rounds \<rparr>) t c' = ((Inr (Some v), []), c'))"
proof -
  define c1 where "c1 = (if load_disk_cache c = [] then c else remember (load_disk_cache c) c)"
  define missing where "missing = missing_texts env c1 [] texts"
  have m: "length missing \<le> length texts" "map_of (qc_memory c1) (cache_key env t) \<noteq> None \<or> t \<in> set missing"
    using missing_texts_spec[of "[]" env c1 texts] t by (auto simp: missing_def)
  have hit: "n \<le> length texts \<and> map_of (qc_memory c') (cache_key env t) \<noteq> None"
  proof (cases "missing = []")
    case True
    then have "c' = c1" "n = 0" using warm by (simp_all add: warm_query_cache_def c1_def[symmetric] missing_def[symmetric])
    then show ?thesis using m True by simp
  next
    case False
    obtain vs where vs: "fst (embed_batch env missing) = Inr vs"
      using warm False by (auto simp: warm_query_cache_def Let_def c1_def[symmetric] missing_def[symmetric] split: sum.splits)
    let ?fresh = "map (\<lambda>(t, v). (cache_key env t, v)) (zip missing vs)"
    have c': "n = length missing" "c' = save_disk_cache ?fresh (remember ?fresh c1)"
      using warm False vs by (simp_all add: warm_query_cache_def Let_def c1_def[symmetric] missing_def[symmetric])
    have "cache_key env t \<in> fst ` set ?fresh" if q: "t \<in> set missing"
    proof -
      obtain i where i: "i < length missing" "missing ! i = t" using q by (auto simp: in_set_conv_nth)
      then have "(t, vs ! i) \<in> set (zip missing vs)" using full[OF vs] by (auto simp: in_set_zip)
      then show ?thesis by force
    qed
    then have "map_of (qc_memory c') (cache_key env t) \<noteq> None"
      unfolding c'(2) save_memory remember_hit using m(2) by blast
    then show ?thesis using m(1) c'(1) by simp
  qed
  have key: "cache_key (env \<lparr> se_rounds := rounds \<rparr>) t = cache_key env t" by (simp add: cache_key_def)
  obtain v where "map_of (qc_memory c') (cache_key env t) = Some v" using hit by auto
  then show ?thesis using hit by (simp add: embed_query_def key)
qed

section \<open>An example\<close>

definition ex_senv :: search_env where
  "ex_senv = \<lparr> se_lib = ex_pylib, se_llm = default_settings,
     se_rounds = (\<lambda>i. \<lparr> pv_complete = (\<lambda>rq j. Inr None), pv_stream = (\<lambda>rq j. Inr []),
        pv_embed = (\<lambda>m ts j. Inr (map (\<lambda>t. (0, [1])) ts)), pv_jitter = (\<lambda>j. 0) \<rparr>),
     se_digest = id, se_isoformat = (\<lambda>n. []), se_distance = (\<lambda>v w. 0), se_reach = (\<lambda>v n ms i. True), se_rank = (\<lambda>q t. Some 1) \<rparr>"

definition ex_sdb :: "real list db" where
  "ex_sdb = \<lparr> d_mems = [new_memory ''s'' ''a'' ''I like tea'' (Some [1]) (Some ''chat'') None None None 3 ''m1''],
     d_audits = [], d_gen = (\<lambda>n. replicate (n + 3) CHR ''x''), d_next = 0 \<rparr>"

definition ex_squery :: query where
  "ex_squery = \<lparr> q_text = ''tea'', q_subject = ''s'', q_actor = ''a'', q_semantic_top_k = None, q_keyword_top_k = None \<rparr>"

lemma ex_sdb_ok: "db_ok ex_sdb"
proof -
  have "replicate (n + 3) CHR ''x'' \<noteq> ''m1''" for n by (simp add: numeral_3_eq_3)
  then show ?thesis unfolding db_ok_def ids_def using inj_replicate[of 3 "CHR ''x''"]
    by (simp add: ex_sdb_def new_memory_def)
qed

lemma ex_squery_not_blank: "\<not> is_blank ex_squery"
  by (simp add: is_blank_def ex_squery_def strip_def py_space_def)

lemma ex_embed_batch: "embed_batch ex_senv ts = (Inr (map (\<lambda>t. [1]) ts), [])"
proof (cases ts)
  case Nil
  then show ?thesis by (simp add: embed_batch_def query_max_attempts_def embed_texts_def numeral_2_eq_2)
next
  case (Cons t us)
  then have ne: "ts \<noteq> []" by simp
  have "sort_key fst (map (\<lambda>t. (0, [1])) ts) = map (\<lambda>t. (0 :: int, [1 :: real])) ts"
    by (rule sort_key_id_if_sorted) (induction ts; simp)
  then have sort: "map snd (sort_key fst (map (\<lambda>t. (0 :: int, [1 :: real])) ts)) = map (\<lambda>t. [1]) ts" by simp
  have "with_rate_limit_retry lib ls j (pv_embed (se_rounds ex_senv i) m ts) n w = (Inr (map (\<lambda>t. (0, [1])) ts), [])"
    for lib ls j i m n w
    by (rule retry_immediate_Inr) (simp add: ex_senv_def)
  then have "embed_texts lib ls (se_rounds ex_senv i) None None ts = (Inr (map (\<lambda>t. [1]) ts), [])" for lib ls i
    using ne sort by (simp add: embed_texts_def)
  then show ?thesis by (simp add: embed_batch_def query_max_attempts_def numeral_2_eq_2)
qed

theorem search_serves_live_rows_witness:
  "serves Keyword ex_squery 5 (rank_of ex_senv ''tea'') (\<lambda>m. True) ex_sdb (keyword_search ex_senv ex_squery 9 True ex_sdb)"
  using search_serves_live_rows[OF ex_sdb_ok ex_squery_not_blank, of ex_senv 9 True]
  by (simp add: ex_squery_def limit_or_def keyword_top_k_def ex_senv_def)

lemma warm_cache_spares_requests_witness:
  "\<exists>c'. warm_query_cache ex_senv [''tea''] \<lparr> qc_memory = [], qc_disk = None \<rparr> = (Inr 1, c') \<and>
     (\<exists>v. embed_query (ex_senv \<lparr> se_rounds := undefined \<rparr>) ''tea'' c' = ((Inr (Some v), []), c'))"
proof -
  have w: "\<exists>c'. warm_query_cache ex_senv [''tea''] \<lparr> qc_memory = [], qc_disk = None \<rparr> = (Inr 1, c')"
    by (simp add: warm_query_cache_def load_disk_cache_def ex_embed_batch Let_def)
  then obtain c' where c': "warm_query_cache ex_senv [''tea''] \<lparr> qc_memory = [], qc_disk = None \<rparr> = (Inr 1, c')" by blast
  have full: "length vs = length ts" if "fst (embed_batch ex_senv ts) = Inr vs" for ts vs
    using that by (auto simp: ex_embed_batch)
  show ?thesis
    using warm_cache_spares_requests[OF c' full, of "''tea''" "undefined"] c' by simp
qed

end
