(* ===== verification/Extract.thy ===== *)
theory Extract
  imports Llm Attributes
begin

text \<open>
  The first three nodes of the capture pipeline, which decide what a turn is worth remembering and in
  what form: extraction (\<^verbatim>\<open>capture/extract.py\<close>), redaction (\<^verbatim>\<open>capture/pii.py\<close>), scoring with the
  confidence floor (\<^verbatim>\<open>capture/evaluate.py\<close>), and the batch embedding (\<^verbatim>\<open>capture/embed.py\<close>). Parameters
  are the model provider, Presidio's analyzer and anonymizer, the instruction texts, and Python's
  \<^verbatim>\<open>str()\<close> of decoded floats and containers. Embeddings are vectors of reals.
\<close>

text \<open>What the pipeline finds around it. Presidio's two engines may fail, which is \<^const>\<open>None\<close>; an
  analysis is a list of entity types with their spans. The provider may answer every round of the
  embedding retry differently.\<close>

type_synonym pii_span = "string \<times> nat \<times> nat"

record capture_env =
  ce_lib :: pylib
  ce_llm :: llm_settings
  ce_provider :: provider
  ce_rounds :: "nat \<Rightarrow> provider"
  ce_wide :: "nat \<Rightarrow> char"
  ce_repr :: "json \<Rightarrow> string"
  ce_extract_prompt :: string
  ce_score_prompt :: string
  ce_analyze :: "string \<Rightarrow> real \<Rightarrow> pii_span list option"
  ce_anonymize :: "string \<Rightarrow> pii_span list \<Rightarrow> (string \<times> string) list \<Rightarrow> string option"

section \<open>Reading the extractor's answer\<close>

abbreviation backtick :: char where "backtick \<equiv> CHR 0x60"

definition fence :: string where "fence = [backtick, backtick, backtick]"

definition rstrip :: "string \<Rightarrow> string" where
  "rstrip s = rev (dropWhile py_space (rev s))"

text \<open>The group of \<^verbatim>\<open>^\s*```(?:json)?\s*(.*?)\s*```\s*$\<close>, or the text as it is. The pattern fixes the
  outer fences; what lies between them, less the optional tag and the white space, is the group.\<close>

definition strip_fences :: "string \<Rightarrow> string" where
  "strip_fences text =
     (let t = strip text;
          r1 = drop 3 t;
          r2 = lstrip (if take 4 r1 = ''json'' then drop 4 r1 else r1);
          k = length r2 - 3
      in if take 3 t = fence \<and> 3 \<le> length r2 \<and> drop k r2 = fence then rstrip (take k r2) else text)"

definition first_json_array :: "string \<Rightarrow> string option" where
  "first_json_array text =
     (let s = dropWhile (\<lambda>c. c \<noteq> CHR ''['') text;
          body = rev (dropWhile (\<lambda>c. c \<noteq> CHR '']'') (rev s))
      in if body = [] then None else Some body)"

definition json_str :: "(json \<Rightarrow> string) \<Rightarrow> json \<Rightarrow> string" where
  "json_str repr v = (case v of
       JStr s \<Rightarrow> s
     | JNull \<Rightarrow> ''None''
     | JBool b \<Rightarrow> (if b then ''True'' else ''False'')
     | JInt n \<Rightarrow> int_str n
     | _ \<Rightarrow> repr v)"

definition json_pyval :: "json \<Rightarrow> pyval" where
  "json_pyval v = (case v of
       JStr s \<Rightarrow> PyStr s | JNull \<Rightarrow> PyNone | JBool b \<Rightarrow> PyBool b | JInt n \<Rightarrow> PyInt n | JFloat f \<Rightarrow> PyFloat f
     | _ \<Rightarrow> PyOther)"

text \<open>\<^verbatim>\<open>a or b\<close> on what \<^verbatim>\<open>get\<close> returned.\<close>

definition json_or :: "json option \<Rightarrow> json \<Rightarrow> json" where
  "json_or v d = (case v of Some x \<Rightarrow> if json_true x then x else d | None \<Rightarrow> d)"

definition user_statement :: string where "user_statement = ''user_statement''"

text \<open>The text, source and proposed attribute of one element; neither a string nor an object is \<^const>\<open>None\<close>.\<close>

definition item_fields :: "json \<Rightarrow> (json \<times> json \<times> json) option" where
  "item_fields item = (case item of
       JStr s \<Rightarrow> Some (item, JStr user_statement, JNull)
     | JObj ps \<Rightarrow>
         Some (json_or (json_get ps ''text'') (json_or (json_get ps ''fact'') (json_or (json_get ps ''content'') (JStr []))),
           json_or (json_get ps ''source'') (JStr user_statement),
           (case json_get ps ''attribute'' of Some a \<Rightarrow> a | None \<Rightarrow> JNull))
     | _ \<Rightarrow> None)"

definition coerce_item :: "(json \<Rightarrow> string) \<Rightarrow> json \<Rightarrow> 'v fact option" where
  "coerce_item repr item = (case item_fields item of
       None \<Rightarrow> None
     | Some (text_raw, source_raw, attribute_raw) \<Rightarrow>
         (let text = strip (json_str repr text_raw);
              source0 = strip (json_str repr source_raw);
              source = (if source0 = [] then user_statement else source0)
          in if text = [] then None
             else Some (new_fact text source (normalise_attribute (json_pyval attribute_raw)))))"

definition coerce_candidates :: "(json \<Rightarrow> string) \<Rightarrow> json list \<Rightarrow> 'v fact list" where
  "coerce_candidates repr items = List.map_filter (coerce_item repr) items"

text \<open>\<^verbatim>\<open>parse_extraction\<close>: every undecodable answer is an empty list; the one \<^verbatim>\<open>ValueError\<close> that is not
  a \<^verbatim>\<open>JSONDecodeError\<close> escapes.\<close>

definition parse_extraction :: "(nat \<Rightarrow> char) \<Rightarrow> (json \<Rightarrow> string) \<Rightarrow> string \<Rightarrow> 'v fact list res" where
  "parse_extraction wide repr raw =
     (if strip raw = [] then Inr []
      else case first_json_array (strip_fences raw) of
          None \<Rightarrow> Inr []
        | Some body \<Rightarrow>
            (case json_loads wide body of
               Inl DecodeError \<Rightarrow> Inr []
             | Inl DigitLimit \<Rightarrow> Inl ValueError
             | Inr (JList items) \<Rightarrow> Inr (coerce_candidates repr items)
             | Inr _ \<Rightarrow> Inr []))"

definition pre_filter_reason :: "string \<Rightarrow> string option" where
  "pre_filter_reason text = (if strip text = [] then Some ''empty_turn'' else None)"

definition max_candidates_per_turn :: nat where "max_candidates_per_turn = 8"

text \<open>\<^verbatim>\<open>extract_candidates\<close>, with the waits of its one provider call.\<close>

definition extract_candidates ::
  "capture_env \<Rightarrow> turn \<Rightarrow> nat option \<Rightarrow> 'v fact list res \<times> pyfloat list" where
  "extract_candidates env t max_candidates =
     (if pre_filter_reason (turn_text t) \<noteq> None then (Inr [], [])
      else let cap = (case max_candidates of Some k \<Rightarrow> k | None \<Rightarrow> max_candidates_per_turn);
               (answer, waits) = complete (ce_lib env) (ce_llm env) (ce_provider env) None None 0 None
                 [(''system'', ce_extract_prompt env),
                  (''user'', ''Turn:'' @ [newline] @ turn_text t @ [newline, newline] @ ''JSON array:'')]
           in (case answer of
                 Inl e \<Rightarrow> Inr []
               | Inr raw \<Rightarrow>
                   (case parse_extraction (ce_wide env) (ce_repr env) raw of
                      Inl e \<Rightarrow> Inl e
                    | Inr fs \<Rightarrow> Inr (take cap fs)), waits))"

section \<open>Redaction\<close>

definition placeholder_for :: "string \<Rightarrow> string" where
  "placeholder_for entity = ''[REDACTED_'' @ entity @ '']''"

definition unscannable :: "string \<times> string list" where
  "unscannable = (''[REDACTED_UNSCANNABLE]'', [''UNSCANNABLE''])"

definition pii_score_threshold :: real where "pii_score_threshold = 0.30"

definition redact :: "capture_env \<Rightarrow> string \<Rightarrow> real option \<Rightarrow> string \<times> string list" where
  "redact env text score_threshold =
     (if strip text = [] then (text, [])
      else let threshold = (case score_threshold of Some x \<Rightarrow> x | None \<Rightarrow> pii_score_threshold)
           in case ce_analyze env text threshold of
                None \<Rightarrow> unscannable
              | Some [] \<Rightarrow> (text, [])
              | Some (r # rs) \<Rightarrow>
                  (let entity_types = sort (remdups (map fst (r # rs)));
                       operators = map (\<lambda>e. (e, placeholder_for e)) entity_types
                   in case ce_anonymize env text (r # rs) operators of
                        None \<Rightarrow> unscannable
                      | Some redacted \<Rightarrow> (redacted, entity_types)))"

definition redact_candidate :: "capture_env \<Rightarrow> 'v fact \<Rightarrow> 'v fact" where
  "redact_candidate env c =
     (let (redacted, entities) = redact env (f_text c) None
      in c \<lparr> f_text := redacted, f_raw := Some (f_text c), f_pii := entities \<rparr>)"

section \<open>Scoring\<close>

definition hedges :: "string list" where
  "hedges = [''maybe'', ''might'', ''possibly'', ''perhaps'', ''i think'', ''not sure'', ''probably'', ''seems'']"

definition high_value :: "string list" where
  "high_value = [''allerg'', ''diabet'', ''medic'', ''health'', ''safety'', ''disab'', ''name is'',
     ''lives in'', ''works as'', ''job'', ''birthday'', ''married'', ''child'', ''daughter'',
     ''son'', ''wife'', ''husband'', ''partner'', ''prefer'', ''favorite'', ''favourite'']"

definition score_clamp :: "pylib \<Rightarrow> json \<Rightarrow> real \<Rightarrow> real res" where
  "score_clamp lib v d =
     (case py_float lib (json_pyval v) of
        Inl TypeError \<Rightarrow> Inr d
      | Inl ValueError \<Rightarrow> Inr d
      | Inl e \<Rightarrow> Inl e
      | Inr f \<Rightarrow> Inr (if f = NaN then d else fin_val (py_max (Fin 0) (py_min (Fin 1) f))))"

definition heuristic_scores :: "'v fact \<Rightarrow> real \<times> real" where
  "heuristic_scores c =
     (let text = lower (f_text c);
          importance = (if list_ex (contains text) high_value then 3 / 4 else 1 / 2);
          base = (if list_ex (contains text) hedges then 1 / 2 else 7 / 10);
          confidence = (if f_source c = assistant_note then base - 1 / 10 else base)
      in (py_round 3 importance, py_round 3 (max 0 confidence)))"

definition parse_scores :: "(nat \<Rightarrow> char) \<Rightarrow> string \<Rightarrow> nat \<Rightarrow> (string \<times> json) list list option" where
  "parse_scores wide raw expected =
     (if strip raw = [] then None
      else case first_json_array (strip_fences raw) of
          None \<Rightarrow> None
        | Some body \<Rightarrow>
            (case json_loads wide body of
               Inr (JList items) \<Rightarrow>
                 if length items = expected then Some (map (\<lambda>x. case x of JObj ps \<Rightarrow> ps | _ \<Rightarrow> []) items) else None
             | _ \<Rightarrow> None))"

definition score_one :: "pylib \<Rightarrow> 'v fact \<Rightarrow> (string \<times> json) list \<Rightarrow> 'v fact res" where
  "score_one lib c entry =
     (let (fallback_importance, fallback_confidence) = heuristic_scores c;
          field = (\<lambda>k. case json_get entry k of Some v \<Rightarrow> v | None \<Rightarrow> JNull)
      in bind_res (score_clamp lib (field ''importance'') fallback_importance) (\<lambda>i.
         bind_res (score_clamp lib (field ''confidence'') fallback_confidence) (\<lambda>k.
           Inr (c \<lparr> f_importance := Some i, f_confidence := Some k \<rparr>))))"

definition score_candidates :: "capture_env \<Rightarrow> 'v fact list \<Rightarrow> 'v fact list res \<times> pyfloat list" where
  "score_candidates env cs =
     (if cs = [] then (Inr [], [])
      else let (answer, waits) = complete (ce_lib env) (ce_llm env) (ce_provider env) None None 0 None
                 [(''system'', ce_score_prompt env),
                  (''user'', ''Facts:'' @ [newline] @ json_dumps (map f_text cs) @ [newline, newline] @ ''JSON array:'')];
               scores = (case answer of Inl e \<Rightarrow> None | Inr raw \<Rightarrow> parse_scores (ce_wide env) raw (length cs));
               entries = (case scores of Some es \<Rightarrow> es | None \<Rightarrow> replicate (length cs) [])
           in (map_res (\<lambda>(c, entry). score_one (ce_lib env) c entry) (zip cs entries), waits))"

definition confidence_floor :: real where "confidence_floor = 0.45"

definition clears_floor :: "real \<Rightarrow> 'v fact \<Rightarrow> bool" where
  "clears_floor limit c \<longleftrightarrow> limit \<le> (case f_confidence c of Some x \<Rightarrow> x | None \<Rightarrow> 0)"

text \<open>The kept candidates, and the text and confidence of the dropped ones.\<close>

definition apply_confidence_floor :: "'v fact list \<Rightarrow> real option \<Rightarrow> 'v fact list \<times> (string \<times> real) list" where
  "apply_confidence_floor cs floor_opt =
     (let limit = (case floor_opt of Some x \<Rightarrow> x | None \<Rightarrow> confidence_floor)
      in (filter (clears_floor limit) cs,
          map (\<lambda>c. (f_text c, case f_confidence c of Some x \<Rightarrow> x | None \<Rightarrow> 0)) (filter (\<lambda>c. \<not> clears_floor limit c) cs)))"

section \<open>Embedding\<close>

definition embed_retry_delays :: "real list" where
  "embed_retry_delays = [5, 15, 30, 45, 60, 60, 60]"

definition retryable_markers :: "string list" where
  "retryable_markers = [''rate limit'', ''ratelimit'', ''rate_limit'', ''429'', '' rpm'', '' tpm'',
     ''too many requests'', ''timeout'', ''timed out'', ''connection'', ''temporarily unavailable'',
     ''service unavailable'', ''502'', ''503'', ''529'']"

definition is_retryable :: "llm_exn \<Rightarrow> bool" where
  "is_retryable e = list_ex (contains (lower (le_type e @ '' '' @ le_text e))) retryable_markers"

definition embedding_unavailable :: "nat \<Rightarrow> bool \<Rightarrow> llm_exn \<Rightarrow> llm_exn" where
  "embedding_unavailable attempts retryable e =
     \<lparr> le_type = ''EmbeddingUnavailable'',
       le_text = (if retryable then ''embedding retries exhausted after '' @ nat_str attempts @ '' attempts''
                  else ''embedding provider rejected the batch'') @ '': '' @ le_type e @ '': '' @ le_text e,
       le_status = None, le_retry_after = PyNone, le_headers = None \<rparr>"

text \<open>One round per delay and a last one; all the waits, the seam's own included.\<close>

fun embed_rounds ::
  "(nat \<Rightarrow> (llm_exn + real list list) \<times> pyfloat list) \<Rightarrow> real list \<Rightarrow> nat \<Rightarrow>
     (llm_exn + real list list) \<times> pyfloat list" where
  "embed_rounds call [] a = (case call a of
       (Inr vs, ws) \<Rightarrow> (Inr vs, ws)
     | (Inl e, ws) \<Rightarrow> (Inl (embedding_unavailable (Suc a) (is_retryable e) e), ws))"
| "embed_rounds call (d # ds) a = (case call a of
       (Inr vs, ws) \<Rightarrow> (Inr vs, ws)
     | (Inl e, ws) \<Rightarrow>
         if \<not> is_retryable e then (Inl (embedding_unavailable (Suc a) False e), ws)
         else (let (r, ws') = embed_rounds call ds (Suc a) in (r, ws @ Fin d # ws')))"

definition attach_vector :: "nat \<Rightarrow> real list list \<Rightarrow> nat \<times> real list fact \<Rightarrow> real list fact option" where
  "attach_vector width vs ic =
     (let v = (if fst ic < length vs then vs ! fst ic else [])
      in if v = [] \<or> length v \<noteq> width then None else Some ((snd ic) \<lparr> f_embedding := Some v \<rparr>))"

definition embed_candidates ::
  "capture_env \<Rightarrow> real list fact list \<Rightarrow> (llm_exn + real list fact list) \<times> pyfloat list" where
  "embed_candidates env cs =
     (if cs = [] then (Inr [], [])
      else case embed_rounds (\<lambda>i. embed_texts (ce_lib env) (ce_llm env) (ce_rounds env i) None None (map f_text cs))
             embed_retry_delays 0 of
          (Inl e, ws) \<Rightarrow> (Inl e, ws)
        | (Inr vs, ws) \<Rightarrow> (Inr (List.map_filter (attach_vector (ls_dim (ce_llm env)) vs) (enumerate 0 cs)), ws))"

section \<open>Well-formed candidates\<close>

text \<open>What each node may rely on: an extracted candidate has text, a source and a known slot or none;
  a redacted one carries the scrubbed text of its raw text; a scored one has scores in range.\<close>

definition extracted :: "'v fact \<Rightarrow> bool" where
  "extracted c \<longleftrightarrow> strip (f_text c) \<noteq> [] \<and> f_source c \<noteq> [] \<and>
     (case f_attribute c of None \<Rightarrow> True | Some a \<Rightarrow> a \<in> set known_attributes)"

definition redacted :: "capture_env \<Rightarrow> 'v fact \<Rightarrow> bool" where
  "redacted env c \<longleftrightarrow>
     (case f_raw c of None \<Rightarrow> False | Some raw \<Rightarrow> strip raw \<noteq> [] \<and> (f_text c, f_pii c) = redact env raw None) \<and>
     f_source c \<noteq> [] \<and> (case f_attribute c of None \<Rightarrow> True | Some a \<Rightarrow> a \<in> set known_attributes)"

definition in_unit :: "real option \<Rightarrow> bool" where
  "in_unit x = (case x of None \<Rightarrow> False | Some r \<Rightarrow> 0 \<le> r \<and> r \<le> 1)"

definition scored :: "capture_env \<Rightarrow> 'v fact \<Rightarrow> bool" where
  "scored env c \<longleftrightarrow> redacted env c \<and> in_unit (f_importance c) \<and> in_unit (f_confidence c)"

lemma in_set_dropWhileI: "y \<in> set s \<Longrightarrow> \<not> P y \<Longrightarrow> y \<in> set (dropWhile P s)"
  by (induction s) auto

lemma strip_strip_Nil_iff: "strip (strip s) = [] \<longleftrightarrow> strip s = []"
proof -
  have "y \<in> set (strip s)" if "y \<in> set s" "\<not> py_space y" for y
    unfolding strip_def set_rev by (intro in_set_dropWhileI) (use that in_set_dropWhileI in auto)
  then have "strip s \<noteq> [] \<Longrightarrow> strip (strip s) \<noteq> []"
    by (auto simp: strip_Nil_iff list_all_iff)
  moreover have "strip [] = []" by (simp add: strip_def)
  ultimately show ?thesis by metis
qed

lemma coerce_item_extracted: "coerce_item repr item = Some c \<Longrightarrow> extracted c"
  using normalise_attribute_known
  by (auto simp: coerce_item_def Let_def extracted_def new_fact_def user_statement_def strip_strip_Nil_iff
      split: if_splits option.splits)

lemma coerce_candidates_extracted: "list_all extracted (coerce_candidates repr items)"
  by (auto simp: coerce_candidates_def list_all_iff List.map_filter_def coerce_item_extracted)

lemma parse_extraction_extracted: "parse_extraction wide repr raw = Inr cs \<Longrightarrow> list_all extracted cs"
  by (auto simp: parse_extraction_def coerce_candidates_extracted
      split: if_splits option.splits sum.splits json_exn.splits json.splits)

lemma extract_candidates_extracted:
  assumes "extract_candidates env t None = (Inr cs, ws)"
  shows "list_all extracted cs" and "length cs \<le> max_candidates_per_turn"
proof -
  have "list_all extracted cs \<and> length cs \<le> max_candidates_per_turn"
    using assms
    by (auto simp: extract_candidates_def Let_def list_all_iff split: if_splits prod.splits sum.splits
        dest!: in_set_takeD parse_extraction_extracted)
  then show "list_all extracted cs" "length cs \<le> max_candidates_per_turn" by auto
qed

lemma redact_candidate_redacted: "extracted c \<Longrightarrow> redacted env (redact_candidate env c)"
  by (auto simp: redacted_def extracted_def redact_candidate_def split: prod.splits)

lemma score_clamp_range: "score_clamp lib v d = Inr x \<Longrightarrow> 0 \<le> d \<Longrightarrow> d \<le> 1 \<Longrightarrow> 0 \<le> x \<and> x \<le> 1"
  by (auto simp: score_clamp_def py_max_def py_min_def split: sum.splits py_exn.splits if_splits)
     (auto elim!: pf_lt.elims split: if_splits)

lemma heuristic_scores_range:
  "0 \<le> fst (heuristic_scores c) \<and> fst (heuristic_scores c) \<le> 1 \<and>
   0 \<le> snd (heuristic_scores c) \<and> snd (heuristic_scores c) \<le> 1"
proof -
  have r: "0 \<le> py_round 3 x \<and> py_round 3 x \<le> 1" if "0 \<le> x" "x \<le> 1" for x
    using py_round_mono[OF that(1), of 3] py_round_mono[OF that(2), of 3]
    by (simp add: py_round_def round_even_def)
  show ?thesis unfolding heuristic_scores_def Let_def by (auto intro!: r[THEN conjunct1] r[THEN conjunct2])
qed

lemma redacted_update [simp]:
  "redacted env (c \<lparr> f_importance := i, f_confidence := k \<rparr>) = redacted env c"
  "redacted env (c \<lparr> f_embedding := v \<rparr>) = redacted env c"
  by (cases "f_raw c"; simp add: redacted_def)+

lemma score_one_scored: "score_one lib c entry = Inr c' \<Longrightarrow> redacted env c \<Longrightarrow> scored env c'"
  using heuristic_scores_range[of c]
  by (auto simp: score_one_def bind_res_Inr_iff scored_def in_unit_def split: prod.splits
      dest!: score_clamp_range)

lemma score_candidates_scored:
  assumes "score_candidates env cs = (Inr cs', ws)" "list_all (redacted env) cs"
  shows "list_all (scored env) cs'" and "length cs' = length cs"
proof -
  show "list_all (scored env) cs'"
  proof (cases "cs = []")
    case False
    then obtain es where "map_res (\<lambda>(c, entry). score_one (ce_lib env) c entry) (zip cs es) = Inr cs'"
      using assms(1) by (auto simp: score_candidates_def Let_def split: prod.splits)
    from map_res_set[OF this] show ?thesis
      using assms(2) score_one_scored by (fastforce simp: list_all_iff dest: set_zip_leftD)
  qed (use assms in \<open>auto simp: score_candidates_def\<close>)
  show "length cs' = length cs"
  proof (cases "cs = []")
    case False
    have "length es = length cs" if "parse_scores w raw (length cs) = Some es" for es w raw
      using that by (auto simp: parse_scores_def split: if_splits option.splits sum.splits json.splits)
    then show ?thesis using assms(1) False
      by (auto simp: score_candidates_def Let_def dest!: map_res_length split: prod.splits option.splits sum.splits)
  qed (use assms in \<open>auto simp: score_candidates_def\<close>)
qed

section \<open>Reading an answer back\<close>

lemma coerce_string:
  "coerce_item repr (JStr t) = (if strip t = [] then None else Some (new_fact (strip t) user_statement None))"
proof -
  have "strip user_statement = user_statement" "user_statement \<noteq> []"
    by (simp_all add: user_statement_def strip_def py_space_def)
  then show ?thesis
    by (simp add: coerce_item_def item_fields_def json_str_def json_pyval_def normalise_attribute_def)
qed

lemma coerce_strings:
  "coerce_candidates repr (map JStr ts) =
     map (\<lambda>t. new_fact (strip t) user_statement None) (filter (\<lambda>t. strip t \<noteq> []) ts)"
  by (induction ts) (simp_all add: coerce_candidates_def coerce_string)

lemma json_dumps_ends: "\<exists>b. json_dumps ts = CHR ''['' # b @ '']''"
  by (simp add: json_dumps_def)

lemma first_array_between:
  assumes "CHR ''['' \<notin> set p" "CHR '']'' \<notin> set q"
  shows "first_json_array (p @ json_dumps ts @ q) = Some (json_dumps ts)"
proof -
  obtain b where b: "json_dumps ts = CHR ''['' # b @ '']''" using json_dumps_ends by blast
  have "dropWhile (\<lambda>c. c \<noteq> CHR ''['') (p @ json_dumps ts @ q) = json_dumps ts @ q"
    using assms(1) by (subst dropWhile_append2) (auto simp: b)
  moreover have "dropWhile (\<lambda>c. c \<noteq> CHR '']'') (rev q @ rev (json_dumps ts)) = rev (json_dumps ts)"
    using assms(2) by (subst dropWhile_append2) (auto simp: b)
  ultimately show ?thesis by (simp add: first_json_array_def b)
qed

lemma strip_prefix: "\<exists>r. dropWhile py_space s = strip s @ r"
proof -
  have "rev (dropWhile py_space s) = takeWhile py_space (rev (dropWhile py_space s)) @ dropWhile py_space (rev (dropWhile py_space s))"
    by simp
  then have "dropWhile py_space s = rev (takeWhile py_space (rev (dropWhile py_space s)) @ dropWhile py_space (rev (dropWhile py_space s)))"
    by (metis rev_rev_ident)
  then show ?thesis unfolding strip_def by (metis rev_append)
qed

lemma strip_fences_id:
  assumes "backtick \<notin> set p" "c \<noteq> backtick" "\<not> py_space c"
  shows "strip_fences (p @ c # r) = p @ c # r"
proof -
  have hd: "dropWhile py_space (p @ c # r) = y # ys \<Longrightarrow> y \<noteq> backtick" for y ys
    using assms by (induction p) (auto split: if_splits)
  have "take 3 (strip (p @ c # r)) \<noteq> fence"
  proof
    assume t: "take 3 (strip (p @ c # r)) = fence"
    obtain r' where "dropWhile py_space (p @ c # r) = strip (p @ c # r) @ r'" using strip_prefix by blast
    moreover obtain ys where "strip (p @ c # r) = backtick # ys"
      using t by (cases "strip (p @ c # r)") (auto simp: fence_def)
    ultimately show False using hd by auto
  qed
  then show ?thesis by (simp add: strip_fences_def Let_def)
qed

lemma parse_extraction_between:
  assumes "CHR ''['' \<notin> set p" "backtick \<notin> set p" "CHR '']'' \<notin> set q"
  shows "parse_extraction wide repr (p @ json_dumps ts @ q) = Inr (coerce_candidates repr (map JStr ts))"
proof -
  obtain b where b: "json_dumps ts = CHR ''['' # b @ '']''" using json_dumps_ends by blast
  have "strip_fences (p @ json_dumps ts @ q) = p @ json_dumps ts @ q"
    using strip_fences_id[OF assms(2), of "CHR ''[''" "b @ '']'' @ q"] by (simp add: b py_space_def)
  moreover have "strip (p @ json_dumps ts @ q) \<noteq> []" by (simp add: b strip_Nil_iff py_space_def)
  ultimately show ?thesis
    by (simp add: parse_extraction_def first_array_between[OF assms(1,3)] json_loads_dumps)
qed

lemma strip_fences_fenced:
  assumes "b \<noteq> []" "\<not> py_space (hd b)" "\<not> py_space (last b)"
  shows "strip_fences (fence @ ''json'' @ [newline] @ b @ [newline] @ fence) = b"
proof -
  let ?s = "fence @ ''json'' @ [newline] @ b @ [newline] @ fence"
  have "strip ?s = ?s" by (simp add: strip_def fence_def py_space_def)
  moreover have "lstrip ([newline] @ b @ [newline] @ fence) = b @ [newline] @ fence"
    using assms by (cases b) (auto simp: lstrip_def py_space_def)
  moreover have "rstrip (b @ [newline]) = b"
    using assms by (cases b rule: rev_cases) (auto simp: rstrip_def py_space_def)
  ultimately show ?thesis
    using assms(1) by (simp add: strip_fences_def Let_def fence_def)
qed

lemma parse_extraction_fenced:
  "parse_extraction wide repr (fence @ ''json'' @ [newline] @ json_dumps ts @ [newline] @ fence) =
     Inr (coerce_candidates repr (map JStr ts))"
proof -
  obtain b where b: "json_dumps ts = CHR ''['' # b @ '']''" using json_dumps_ends by blast
  have "strip_fences (fence @ ''json'' @ [newline] @ json_dumps ts @ [newline] @ fence) = json_dumps ts"
    by (rule strip_fences_fenced) (simp_all add: b py_space_def)
  moreover have "strip (fence @ ''json'' @ [newline] @ json_dumps ts @ [newline] @ fence) \<noteq> []"
    by (simp add: fence_def strip_Nil_iff py_space_def)
  ultimately show ?thesis
    using first_array_between[of "[]" "[]" ts] by (simp add: parse_extraction_def json_loads_dumps)
qed

text \<open>C29. The extractor reads back what a model was asked for, however it is dressed up. Take any list of
  texts as the JSON array Python would print. Whether the answer wraps it in chatter, without brackets
  or backticks before it and without a closing bracket behind it, or in a fenced code block, the
  candidates are exactly the stripped non-blank texts, in order, as user statements without a slot.\<close>

theorem extraction_reads_back:
  assumes "CHR ''['' \<notin> set p" "backtick \<notin> set p" "CHR '']'' \<notin> set q"
    and "facts = map (\<lambda>t. new_fact (strip t) user_statement None) (filter (\<lambda>t. strip t \<noteq> []) ts)"
  shows "parse_extraction wide repr (p @ json_dumps ts @ q) = Inr facts \<and>
    parse_extraction wide repr (fence @ ''json'' @ [newline] @ json_dumps ts @ [newline] @ fence) = Inr facts"
  using parse_extraction_between[OF assms(1-3), of wide repr ts] parse_extraction_fenced[of wide repr ts]
  by (simp add: assms(4) coerce_strings)

theorem extraction_reads_back_witness:
  "parse_extraction (\<lambda>n. CHR ''?'') (\<lambda>v. []) (''Sure: '' @ json_dumps [''I have 2 [cats]'', '' ''] @ ''!'') =
     Inr [new_fact ''I have 2 [cats]'' user_statement None :: real fact]"
proof -
  have "strip ''I have 2 [cats]'' = ''I have 2 [cats]''" "strip '' '' = []" by (simp_all add: strip_def py_space_def)
  then have "[new_fact ''I have 2 [cats]'' user_statement None :: real fact] =
      map (\<lambda>t. new_fact (strip t) user_statement None) (filter (\<lambda>t. strip t \<noteq> []) [''I have 2 [cats]'', '' ''])"
    by simp
  from extraction_reads_back[OF _ _ _ this, of "''Sure: ''" "''!''"] show ?thesis by simp
qed

end
