(* ===== verification/Capture.thy ===== *)
theory Capture
  imports Extract Memories
begin

text \<open>
  The capture pipeline as a whole: its state (\<^verbatim>\<open>graphs/capture_state.py\<close>), the six nodes as they read
  and write it, the graph with its short circuit (\<^verbatim>\<open>graphs/capture_graph.py\<close>), and the worker that
  runs queued turns off the request path (\<^verbatim>\<open>capture/worker.py\<close>). The database sessions of the dedup
  and write nodes take their timestamps from a clock; other transactions may run between them.
\<close>

section \<open>State\<close>

record capture_state =
  cs_subject :: uuid
  cs_actor :: uuid
  cs_turn :: turn
  cs_candidates :: "real list fact list"
  cs_redacted :: "real list fact list"
  cs_scored :: "real list fact list"
  cs_embedded :: "real list fact list"
  cs_results :: "write_result list"
  cs_dropped :: "(string \<times> real) list"

definition new_capture_state :: "uuid \<Rightarrow> uuid \<Rightarrow> turn \<Rightarrow> capture_state" where
  "new_capture_state subject actor t =
     \<lparr> cs_subject = subject, cs_actor = actor, cs_turn = t, cs_candidates = [], cs_redacted = [],
       cs_scored = [], cs_embedded = [], cs_results = [], cs_dropped = [] \<rparr>"

text \<open>What a run needs of the database: the distance of two vectors, the times of its two sessions,
  whether the transaction id can be read, and what other transactions do in between.\<close>

record capture_db =
  cd_distance :: "real list \<Rightarrow> real list \<Rightarrow> real"
  cd_dedup_at :: timestamp
  cd_write_at :: timestamp
  cd_txid :: bool
  cd_others :: "real list db \<Rightarrow> real list db"

section \<open>Nodes\<close>

datatype capture_node = ExtractNode | PiiNode | EvaluateNode | EmbedNode | DedupNode | WriteNode

text \<open>An exception of the code itself, or of the provider by way of the embedding node.\<close>

datatype capture_exn = CodeError py_exn | ProviderError llm_exn

type_synonym node_result = "(capture_exn + capture_state) \<times> pyfloat list \<times> real list db"

definition extract_node :: "capture_env \<Rightarrow> capture_state \<Rightarrow> real list db \<Rightarrow> node_result" where
  "extract_node env st d =
     (case extract_candidates env (cs_turn st) None of
        (Inl e, ws) \<Rightarrow> (Inl (CodeError e), ws, d)
      | (Inr cs, ws) \<Rightarrow> (Inr (st \<lparr> cs_candidates := cs \<rparr>), ws, d))"

definition pii_node :: "capture_env \<Rightarrow> capture_state \<Rightarrow> real list db \<Rightarrow> node_result" where
  "pii_node env st d = (Inr (st \<lparr> cs_redacted := map (redact_candidate env) (cs_candidates st) \<rparr>), [], d)"

definition evaluate_node :: "capture_env \<Rightarrow> capture_state \<Rightarrow> real list db \<Rightarrow> node_result" where
  "evaluate_node env st d =
     (case score_candidates env (cs_redacted st) of
        (Inl e, ws) \<Rightarrow> (Inl (CodeError e), ws, d)
      | (Inr cs, ws) \<Rightarrow>
          (let (kept, dropped) = apply_confidence_floor cs None
           in (Inr (st \<lparr> cs_scored := kept, cs_dropped := cs_dropped st @ dropped \<rparr>), ws, d)))"

definition embed_node :: "capture_env \<Rightarrow> capture_state \<Rightarrow> real list db \<Rightarrow> node_result" where
  "embed_node env st d =
     (case embed_candidates env (cs_scored st) of
        (Inl e, ws) \<Rightarrow> (Inl (ProviderError e), ws, d)
      | (Inr cs, ws) \<Rightarrow> (Inr (st \<lparr> cs_embedded := cs \<rparr>), ws, d))"

text \<open>Others work on the database between the verdict and the write.\<close>

definition dedup_node :: "capture_db \<Rightarrow> capture_state \<Rightarrow> real list db \<Rightarrow> node_result" where
  "dedup_node c st d =
     (Inr (st \<lparr> cs_embedded := dedup_candidates (cd_distance c) None (cs_subject st) (cs_actor st) (cs_embedded st)
                (cd_dedup_at c) (cd_txid c) d \<rparr>), [], cd_others c d)"

definition write_node :: "capture_db \<Rightarrow> capture_state \<Rightarrow> real list db \<Rightarrow> node_result" where
  "write_node c st d =
     (let (results, d') = persist_candidates (cd_distance c) None (cs_subject st) (cs_actor st) (cs_embedded st)
            (cd_write_at c) (cd_txid c) d
      in (Inr (st \<lparr> cs_results := results \<rparr>), [], d'))"

lemmas node_defs = extract_node_def pii_node_def evaluate_node_def embed_node_def dedup_node_def write_node_def

declare node_defs [simp]

fun run_node :: "capture_env \<Rightarrow> capture_db \<Rightarrow> capture_node \<Rightarrow> capture_state \<Rightarrow> real list db \<Rightarrow> node_result" where
  "run_node env c ExtractNode st d = extract_node env st d"
| "run_node env c PiiNode st d = pii_node env st d"
| "run_node env c EvaluateNode st d = evaluate_node env st d"
| "run_node env c EmbedNode st d = embed_node env st d"
| "run_node env c DedupNode st d = dedup_node c st d"
| "run_node env c WriteNode st d = write_node c st d"

section \<open>The graph\<close>

definition node_order :: "capture_node list" where
  "node_order = [ExtractNode, PiiNode, EvaluateNode, EmbedNode, DedupNode, WriteNode]"

text \<open>The gate behind a node: is the key it fills non-empty?\<close>

fun gate_open :: "capture_node \<Rightarrow> capture_state \<Rightarrow> bool" where
  "gate_open ExtractNode st = (cs_candidates st \<noteq> [])"
| "gate_open PiiNode st = (cs_redacted st \<noteq> [])"
| "gate_open EvaluateNode st = (cs_scored st \<noteq> [])"
| "gate_open EmbedNode st = (cs_embedded st \<noteq> [])"
| "gate_open DedupNode st = (cs_embedded st \<noteq> [])"
| "gate_open WriteNode st = False"

fun run_graph ::
  "capture_env \<Rightarrow> capture_db \<Rightarrow> capture_node list \<Rightarrow> capture_state \<Rightarrow> real list db \<Rightarrow> node_result" where
  "run_graph env c [] st d = (Inr st, [], d)"
| "run_graph env c (n # ns) st d =
     (case run_node env c n st d of
        (Inl e, ws, d1) \<Rightarrow> (Inl e, ws, d1)
      | (Inr st1, ws, d1) \<Rightarrow>
          if gate_open n st1
          then (let (r, ws', d2) = run_graph env c ns st1 d1 in (r, ws @ ws', d2))
          else (Inr st1, ws, d1))"

text \<open>\<^verbatim>\<open>run_capture\<close>: the whole run under a time budget. Only the modelled waits count here, and all
  of them lie before the first session, so a run whose waits exceed the budget is cancelled with the
  database untouched. A run may also be cancelled for the time its calls take, which the worker below
  allows for.\<close>

definition capture_timeout :: real where "capture_timeout = 600"

datatype capture_failure = Timeout | Failed capture_exn

definition waited :: "pyfloat list \<Rightarrow> real" where
  "waited ws = sum_list (map (\<lambda>w. max 0 (fin_val w)) ws)"

definition run_capture ::
  "capture_env \<Rightarrow> capture_db \<Rightarrow> real option \<Rightarrow> uuid \<Rightarrow> uuid \<Rightarrow> turn \<Rightarrow> real list db \<Rightarrow>
     (capture_failure + capture_state) \<times> real list db" where
  "run_capture env c timeout subject actor t d =
     (let budget = (case timeout of Some b \<Rightarrow> b | None \<Rightarrow> capture_timeout);
          (r, ws, d1) = run_graph env c node_order (new_capture_state subject actor t) d
      in if waited ws > budget then (Inl Timeout, d)
         else (case r of Inl e \<Rightarrow> Inl (Failed e) | Inr st \<Rightarrow> Inr st, d1))"

section \<open>The worker\<close>

record capture_job =
  j_id :: uuid
  j_subject :: uuid
  j_actor :: uuid
  j_turn :: turn

datatype job_status = Completed | JobTimeout | JobFailed

record job_record =
  jr_job :: uuid
  jr_subject :: uuid
  jr_status :: job_status
  jr_results :: "write_result list"
  jr_error :: "capture_exn option"

text \<open>\<^verbatim>\<open>_run_job\<close>: every outcome of a run becomes a record; nothing is raised. (A cancelled consumer,
  which only \<^verbatim>\<open>stop\<close> causes, is not modelled.)\<close>

definition run_job :: "capture_env \<Rightarrow> capture_db \<Rightarrow> capture_job \<Rightarrow> real list db \<Rightarrow> job_record \<times> real list db" where
  "run_job env c j d =
     (let (r, d') = run_capture env c None (j_subject j) (j_actor j) (j_turn j) d;
          record_of = (\<lambda>status results err. \<lparr> jr_job = j_id j, jr_subject = j_subject j, jr_status = status,
             jr_results = results, jr_error = err \<rparr>)
      in (case r of
            Inr st \<Rightarrow> record_of Completed (cs_results st) None
          | Inl Timeout \<Rightarrow> record_of JobTimeout [] None
          | Inl (Failed e) \<Rightarrow> record_of JobFailed [] (Some e), d'))"

definition worker_concurrency :: nat where "worker_concurrency = 2"
definition queue_maxsize :: nat where "queue_maxsize = 256"
definition max_completed :: nat where "max_completed = 128"

text \<open>The queue, the jobs in the hands of a consumer, the rolling record, and the jobs a full queue
  dropped (which the code only logs). A queue of size 0 is unbounded.\<close>

record worker =
  wk_queue :: "capture_job list"
  wk_running :: "capture_job list"
  wk_completed :: "job_record list"
  wk_dropped :: "capture_job list"

definition idle_worker :: worker where
  "idle_worker = \<lparr> wk_queue = [], wk_running = [], wk_completed = [], wk_dropped = [] \<rparr>"

definition enqueue :: "nat \<Rightarrow> capture_job \<Rightarrow> worker \<Rightarrow> worker" where
  "enqueue maxsize j w =
     (if 0 < maxsize \<and> maxsize \<le> length (wk_queue w) then w \<lparr> wk_dropped := wk_dropped w @ [j] \<rparr>
      else w \<lparr> wk_queue := wk_queue w @ [j] \<rparr>)"

text \<open>A free consumer takes the oldest job.\<close>

definition take_job :: "nat \<Rightarrow> worker \<Rightarrow> worker option" where
  "take_job consumers w = (case wk_queue w of
       [] \<Rightarrow> None
     | j # js \<Rightarrow>
         if length (wk_running w) < consumers
         then Some (w \<lparr> wk_queue := js, wk_running := wk_running w @ [j] \<rparr>) else None)"

definition finish_job :: "capture_job \<Rightarrow> job_record \<Rightarrow> worker \<Rightarrow> worker" where
  "finish_job j r w =
     (let done = wk_completed w @ [r]
      in w \<lparr> wk_running := remove1 j (wk_running w), wk_completed := drop (length done - max_completed) done \<rparr>)"

text \<open>The histories of a worker: the jobs handed to it, the records of the runs that ended, and where
  it is. Enqueueing, taking and finishing interleave freely.\<close>

inductive worker_run :: "nat \<Rightarrow> nat \<Rightarrow> capture_job list \<Rightarrow> job_record list \<Rightarrow> worker \<Rightarrow> bool"
  for maxsize consumers where
  start: "worker_run maxsize consumers [] [] idle_worker"
| enqueued: "worker_run maxsize consumers js rs w \<Longrightarrow> worker_run maxsize consumers (js @ [j]) rs (enqueue maxsize j w)"
| taken: "worker_run maxsize consumers js rs w \<Longrightarrow> take_job consumers w = Some w' \<Longrightarrow> worker_run maxsize consumers js rs w'"
| finished: "worker_run maxsize consumers js rs w \<Longrightarrow> j \<in> set (wk_running w) \<Longrightarrow>
    worker_run maxsize consumers js (rs @ [fst (run_job env c j d)]) (finish_job j (fst (run_job env c j d)) w)"

text \<open>One step of the consumers alone.\<close>

inductive consumes :: "nat \<Rightarrow> worker \<Rightarrow> worker \<Rightarrow> bool" for consumers where
  "take_job consumers w = Some w' \<Longrightarrow> consumes consumers w w'"
| "j \<in> set (wk_running w) \<Longrightarrow> consumes consumers w (finish_job j (fst (run_job env c j d)) w)"

inductive_cases consumesE: "consumes consumers w w'"

section \<open>What reaches the table\<close>

text \<open>What a candidate states, and what a row does.\<close>

definition stated ::
  "'v mem \<Rightarrow> string \<times> 'v option \<times> string option \<times> real option \<times> real option \<times> string option" where
  "stated m = (m_content m, m_embedding m, m_source m, m_importance m, m_confidence m, m_attribute m)"

definition states ::
  "'v fact \<Rightarrow> string \<times> 'v option \<times> string option \<times> real option \<times> real option \<times> string option" where
  "states c = (f_text c, f_embedding c, Some (f_source c), f_importance c, f_confidence c, slot_of c)"

lemma stated_fact_row [simp]: "stated (fact_row s a c now i) = states c"
  by (simp add: stated_def states_def fact_row_def new_memory_def)

interpretation stating: settled_columns stated
  by unfold_locales (simp_all add: stated_def core_def bump_def retire_def)

lemma persist_candidates_stated:
  assumes "db_ok d"
  shows "\<exists>cs' old new. d_mems (snd (persist_candidates cosd th s a cs now k d)) = old @ new \<and>
    map stated old = map stated (d_mems d) \<and> subseq cs' cs \<and> list_all2 (\<lambda>c m. stated m = states c) cs' new"
  using stating.persisted[OF assms] by simp

lemma map_res_nth: "map_res f xs = Inr ys \<Longrightarrow> i < length xs \<Longrightarrow> f (xs ! i) = Inr (ys ! i)"
proof (induction xs arbitrary: ys i)
  case (Cons x xs)
  then obtain y zs where "ys = y # zs" "f x = Inr y" "map_res f xs = Inr zs" by (auto simp: bind_res_Inr_iff)
  then show ?case using Cons by (cases i) auto
qed simp

lemma sorted_wrt_subseq: "subseq xs ys \<Longrightarrow> sorted_wrt P ys \<Longrightarrow> sorted_wrt P xs"
proof (induction rule: list_emb.induct)
  case (list_emb_Cons2 x y xs ys)
  then show ?case using list_emb_set[OF list_emb_Cons2(2)] by fastforce
qed simp_all

lemma list_all2_subseq:
  "list_all2 R xs ys \<Longrightarrow> subseq zs ys \<Longrightarrow> \<exists>ws. subseq ws xs \<and> list_all2 R ws zs"
proof (induction ys arbitrary: xs zs)
  case (Cons y ys)
  then obtain x xs' where x: "xs = x # xs'" "R x y" "list_all2 R xs' ys" by (auto simp: list_all2_Cons2)
  show ?case
  proof (cases "subseq zs ys")
    case True
    then show ?thesis using Cons.IH[OF x(3)] x(1) by (meson list_emb_Cons)
  next
    case False
    then obtain zs' where z: "zs = y # zs'" "subseq zs' ys" using Cons.prems(2) by (cases zs) (auto split: if_splits)
    then obtain ws where "subseq ws xs'" "list_all2 R ws zs'" using Cons.IH[OF x(3)] by blast
    then show ?thesis using z(1) x by (intro exI[of _ "x # ws"]) simp
  qed
qed (auto intro: exI[of _ "[]"])

section \<open>What becomes of an extracted fact\<close>

text \<open>The scrubbed text of an extracted fact: the anonymizer's answer, with a placeholder for each type the
  analyzer found, or the text itself when it found nothing, or a fixed notice when either of them fails.
  The scorer's answer for a batch of texts, read entry by
  entry, with no entries where it cannot be read; the fact at a position with its scrubbed text and the
  scores of the entry at the same position; the positions whose confidence clears the floor; and the
  provider's answer to the batch of the scrubbed texts at those positions.\<close>

definition scrubbed :: "capture_env \<Rightarrow> 'v fact \<Rightarrow> string" where
  "scrubbed env f = (case ce_analyze env (f_text f) pii_score_threshold of
       None \<Rightarrow> ''[REDACTED_UNSCANNABLE]''
     | Some found \<Rightarrow>
         if found = [] then f_text f
         else (case ce_anonymize env (f_text f) found
                 (map (\<lambda>e. (e, ''[REDACTED_'' @ e @ '']'')) (sort (remdups (map fst found)))) of
             None \<Rightarrow> ''[REDACTED_UNSCANNABLE]'' | Some x \<Rightarrow> x))"

definition score_entries :: "capture_env \<Rightarrow> string list \<Rightarrow> (string \<times> json) list list" where
  "score_entries env texts =
     (case fst (complete (ce_lib env) (ce_llm env) (ce_provider env) None None 0 None
        [(''system'', ce_score_prompt env),
         (''user'', ''Facts:'' @ [newline] @ json_dumps texts @ [newline, newline] @ ''JSON array:'')]) of
        Inl e \<Rightarrow> replicate (length texts) []
      | Inr raw \<Rightarrow> (case parse_scores (ce_wide env) raw (length texts) of
            Some es \<Rightarrow> es | None \<Rightarrow> replicate (length texts) []))"

definition scored_at :: "capture_env \<Rightarrow> 'v fact list \<Rightarrow> nat \<Rightarrow> 'v fact res" where
  "scored_at env facts i =
     score_one (ce_lib env) (redact_candidate env (facts ! i)) (score_entries env (map (scrubbed env) facts) ! i)"

definition kept_positions :: "capture_env \<Rightarrow> 'v fact list \<Rightarrow> nat list" where
  "kept_positions env facts = filter (\<lambda>i. case scored_at env facts i of
       Inr c \<Rightarrow> clears_floor confidence_floor c | Inl e \<Rightarrow> False) [0..<length facts]"

definition batch_vectors :: "capture_env \<Rightarrow> 'v fact list \<Rightarrow> llm_exn + real list list" where
  "batch_vectors env facts = fst (embed_rounds
     (\<lambda>i. embed_texts (ce_lib env) (ce_llm env) (ce_rounds env i) None None
        (map (\<lambda>i. scrubbed env (facts ! i)) (kept_positions env facts))) embed_retry_delays 0)"

text \<open>The candidate at the \<open>j\<close>-th kept position, embedded.\<close>

definition finished_at :: "capture_env \<Rightarrow> real list fact list \<Rightarrow> nat \<Rightarrow> real list fact \<Rightarrow> bool" where
  "finished_at env facts j f \<longleftrightarrow> j < length (kept_positions env facts) \<and>
     (\<exists>c vs. scored_at env facts (kept_positions env facts ! j) = Inr c \<and> batch_vectors env facts = Inr vs \<and>
        j < length vs \<and> vs ! j \<noteq> [] \<and> length (vs ! j) = ls_dim (ce_llm env) \<and>
        states f = states (c \<lparr> f_embedding := Some (vs ! j) \<rparr>))"

lemma redact_scrubbed: "extracted f \<Longrightarrow> fst (redact env (f_text f) None) = scrubbed env f"
  by (auto simp: extracted_def redact_def scrubbed_def unscannable_def placeholder_for_def Let_def split: option.split list.split)

lemma redacted_texts:
  "list_all extracted facts \<Longrightarrow> map f_text (map (redact_candidate env) facts) = map (scrubbed env) facts"
  by (simp add: redact_candidate_def split_beta redact_scrubbed list_all_iff)

lemma score_candidates_at:
  assumes "score_candidates env (map (redact_candidate env) facts) = (Inr cs, ws)" "list_all extracted facts"
  shows "length cs = length facts" "\<And>i. i < length facts \<Longrightarrow> scored_at env facts i = Inr (cs ! i)"
proof -
  let ?es = "score_entries env (map (scrubbed env) facts)"
  have m: "map_res (\<lambda>(c, entry). score_one (ce_lib env) c entry) (zip (map (redact_candidate env) facts) ?es) = Inr cs"
    if "facts \<noteq> []"
  proof -
    have "fst (score_candidates env (map (redact_candidate env) facts)) =
        map_res (\<lambda>(c, entry). score_one (ce_lib env) c entry) (zip (map (redact_candidate env) facts) ?es)"
      unfolding score_candidates_def score_entries_def redacted_texts[OF assms(2)] Let_def split_beta length_map
      using that by (simp split: sum.split)
    then show ?thesis using assms by simp
  qed
  have es: "length ?es = length facts"
    by (auto simp: score_entries_def parse_scores_def split: if_splits option.splits sum.splits json.splits)
  show "length cs = length facts"
    using assms map_res_length[OF m] es by (cases "facts = []") (auto simp: score_candidates_def)
  show "scored_at env facts i = Inr (cs ! i)" if "i < length facts" for i
  proof -
    have "facts \<noteq> []" using that by auto
    from map_res_nth[OF m[OF this], of i] show ?thesis using that es by (simp add: scored_at_def)
  qed
qed

lemma kept_candidates:
  assumes "length cs = length facts" "\<And>i. i < length facts \<Longrightarrow> scored_at env facts i = Inr (cs ! i)"
  shows "filter (clears_floor confidence_floor) cs = map ((!) cs) (kept_positions env facts)"
proof -
  have "filter (clears_floor confidence_floor) cs = filter (clears_floor confidence_floor) (map ((!) cs) [0..<length facts])"
    using assms(1) map_nth[of cs] by simp
  also have "\<dots> = map ((!) cs) (kept_positions env facts)"
    unfolding kept_positions_def filter_map comp_def
    by (rule arg_cong[where f = "map _"], rule filter_cong) (simp_all add: assms(2))
  finally show ?thesis .
qed

lemma scored_at_text: "scored_at env facts i = Inr c \<Longrightarrow> extracted (facts ! i) \<Longrightarrow> f_text c = scrubbed env (facts ! i)"
  using redact_scrubbed[of "facts ! i" env]
  by (auto simp: scored_at_def score_one_def bind_res_Inr_iff redact_candidate_def split: prod.splits)

section \<open>What the nodes hand on\<close>

text \<open>What the extracted facts have become when the graph reaches a node.\<close>

fun carries :: "capture_env \<Rightarrow> real list fact list \<Rightarrow> capture_node \<Rightarrow> capture_state \<Rightarrow> bool" where
  "carries env facts ExtractNode st = True"
| "carries env facts PiiNode st = (cs_candidates st = facts)"
| "carries env facts EvaluateNode st = (cs_redacted st = map (redact_candidate env) facts)"
| "carries env facts EmbedNode st =
     (\<exists>cs. length cs = length facts \<and> (\<forall>i < length facts. scored_at env facts i = Inr (cs ! i)) \<and>
        cs_scored st = map ((!) cs) (kept_positions env facts))"
| "carries env facts n st = (\<exists>js. sorted_wrt (<) js \<and> list_all2 (finished_at env facts) js (cs_embedded st))"

definition ready :: "capture_env \<Rightarrow> uuid \<Rightarrow> uuid \<Rightarrow> turn \<Rightarrow> capture_node \<Rightarrow> capture_state \<Rightarrow> bool" where
  "ready env s a t n st \<longleftrightarrow> cs_subject st = s \<and> cs_actor st = a \<and> cs_turn st = t \<and>
     (n = ExtractNode \<or> (\<exists>facts. fst (extract_candidates env t None) = Inr facts \<and> carries env facts n st))"

text \<open>The nodes in order, each with its successor.\<close>

inductive follows :: "capture_node \<Rightarrow> capture_node \<Rightarrow> bool" where
  "follows ExtractNode PiiNode"
| "follows PiiNode EvaluateNode"
| "follows EvaluateNode EmbedNode"
| "follows EmbedNode DedupNode"
| "follows DedupNode WriteNode"

inductive_cases followsE: "follows n n'"

lemma finished_annotated [simp]:
  "finished_at env facts j (c \<lparr> f_status := x, f_duplicate_of := y, f_similarity := z \<rparr>) = finished_at env facts j c"
  by (simp add: finished_at_def states_def slot_of_def assistant_sourced_def)

lemma dedup_finished: "finished_at env facts j (dedup_candidate cosd limit s t c) = finished_at env facts j c"
  by (simp add: dedup_candidate_def Let_def split: option.split)

text \<open>A partial map over a numbered list keeps some of the numbers, in order.\<close>

lemma map_filter_positions:
  "\<exists>js. sorted_wrt (<) js \<and> list_all2 (\<lambda>j y. n \<le> j \<and> j < n + length xs \<and> g (j, xs ! (j - n)) = Some y) js
     (List.map_filter g (enumerate n xs))"
proof (induction xs arbitrary: n)
  case (Cons x xs)
  obtain js where js: "sorted_wrt (<) js"
    "list_all2 (\<lambda>j y. Suc n \<le> j \<and> j < Suc n + length xs \<and> g (j, xs ! (j - Suc n)) = Some y) js
       (List.map_filter g (enumerate (Suc n) xs))"
    using Cons.IH by blast
  have low: "j \<in> set js \<Longrightarrow> Suc n \<le> j" for j using list_all2_left[OF js(2)] by blast
  have shift: "list_all2 (\<lambda>j y. n \<le> j \<and> j < n + length (x # xs) \<and> g (j, (x # xs) ! (j - n)) = Some y) js
       (List.map_filter g (enumerate (Suc n) xs))"
    by (rule list_all2_mono[OF js(2)]) (auto simp: nth_Cons' Suc_le_eq)
  show ?case
  proof (cases "g (n, x)")
    case None
    then show ?thesis using js(1) shift by (auto simp: List.map_filter_def)
  next
    case (Some y)
    then show ?thesis using js(1) shift low
      by (intro exI[of _ "n # js"]) (auto simp: List.map_filter_def Suc_le_eq)
  qed
qed (auto simp: List.map_filter_def)

lemma embed_finished:
  assumes "embed_candidates env (map ((!) cs) (kept_positions env facts)) = (Inr fs, ws)"
    and "length cs = length facts" "\<forall>i < length facts. scored_at env facts i = Inr (cs ! i)" "list_all extracted facts"
  shows "\<exists>js. sorted_wrt (<) js \<and> list_all2 (finished_at env facts) js fs"
proof (cases "kept_positions env facts = []")
  case True
  then show ?thesis using assms(1) by (auto simp: embed_candidates_def intro: exI[of _ "[]"])
next
  case False
  let ?ks = "kept_positions env facts"
  have at: "scored_at env facts (?ks ! j) = Inr (cs ! (?ks ! j))" "extracted (facts ! (?ks ! j))" if "j < length ?ks" for j
  proof -
    have "?ks ! j \<in> set ?ks" using that by simp
    then have "?ks ! j < length facts" unfolding kept_positions_def by simp
    then show "scored_at env facts (?ks ! j) = Inr (cs ! (?ks ! j))" "extracted (facts ! (?ks ! j))"
      using assms(3,4) by (simp_all add: list_all_length)
  qed
  have texts: "map f_text (map ((!) cs) ?ks) = map (\<lambda>i. scrubbed env (facts ! i)) ?ks"
    by (rule nth_equalityI) (use scored_at_text[OF at] in auto)
  obtain vs where vs: "batch_vectors env facts = Inr vs"
    "fs = List.map_filter (attach_vector (ls_dim (ce_llm env)) vs) (enumerate 0 (map ((!) cs) ?ks))"
    using assms(1) False unfolding embed_candidates_def texts batch_vectors_def
    by (auto split: prod.splits sum.splits)
  obtain js where js: "sorted_wrt (<) js"
    "list_all2 (\<lambda>j f. j < length ?ks \<and> attach_vector (ls_dim (ce_llm env)) vs (j, map ((!) cs) ?ks ! j) = Some f) js fs"
    using map_filter_positions[of 0 "map ((!) cs) ?ks" "attach_vector (ls_dim (ce_llm env)) vs"] unfolding vs(2) by auto
  have "list_all2 (finished_at env facts) js fs"
    by (rule list_all2_mono[OF js(2)])
      (auto simp: finished_at_def at vs(1) attach_vector_def Let_def split: if_splits)
  then show ?thesis using js(1) by blast
qed

lemma run_node_ready:
  assumes "follows n n'" "ready env s a t n st" "run_node env c n st d = (Inr st', ws, d')"
  shows "ready env s a t n' st'"
  using assms(1)
proof cases
  case 1
  then show ?thesis using assms(2,3) by (auto simp: ready_def split: prod.splits sum.splits)
next
  case 2
  then show ?thesis using assms(2,3) by (auto simp: ready_def)
next
  case 3
  then obtain facts where f: "fst (extract_candidates env t None) = Inr facts" "cs_redacted st = map (redact_candidate env) facts"
    using assms(2) by (auto simp: ready_def)
  obtain cs where cs: "score_candidates env (map (redact_candidate env) facts) = (Inr cs, ws)"
    "cs_scored st' = filter (clears_floor confidence_floor) cs"
    "cs_subject st' = cs_subject st" "cs_actor st' = cs_actor st" "cs_turn st' = cs_turn st"
    using assms(3) 3 f(2) by (auto simp: apply_confidence_floor_def split: prod.splits sum.splits)
  have "list_all extracted facts" using f(1) extract_candidates_extracted(1) by (metis prod.collapse)
  note at = score_candidates_at[OF cs(1) this]
  show ?thesis using assms(2) 3 f(1) cs(2-) at kept_candidates[OF at] by (auto simp: ready_def)
next
  case 4
  then obtain facts cs where f: "fst (extract_candidates env t None) = Inr facts" "length cs = length facts"
    "\<forall>i < length facts. scored_at env facts i = Inr (cs ! i)" "cs_scored st = map ((!) cs) (kept_positions env facts)"
    using assms(2) by (auto simp: ready_def)
  obtain fs where fs: "embed_candidates env (map ((!) cs) (kept_positions env facts)) = (Inr fs, ws)" "cs_embedded st' = fs"
    "cs_subject st' = cs_subject st" "cs_actor st' = cs_actor st" "cs_turn st' = cs_turn st"
    using assms(3) 4 f(4) by (auto split: prod.splits sum.splits)
  have "list_all extracted facts" using f(1) extract_candidates_extracted(1) by (metis prod.collapse)
  from embed_finished[OF fs(1) f(2,3) this] show ?thesis using assms(2) 4 f(1) fs(2-) by (auto simp: ready_def)
next
  case 5
  then show ?thesis using assms(2,3)
    by (auto simp: ready_def dedup_candidates_def list_all2_map2 dedup_finished)
qed

text \<open>The database a run leaves: untouched, or with the other transactions' changes, or with those and
  a batch of finished candidates persisted on top.\<close>

definition written :: "capture_env \<Rightarrow> capture_db \<Rightarrow> uuid \<Rightarrow> uuid \<Rightarrow> turn \<Rightarrow> real list db \<Rightarrow> real list db \<Rightarrow> bool" where
  "written env c s a t d d' \<longleftrightarrow> (\<exists>facts. fst (extract_candidates env t None) = Inr facts \<and> (d' = d \<or>
     (\<exists>js fs. sorted_wrt (<) js \<and> list_all2 (finished_at env facts) js fs \<and>
        d' = snd (persist_candidates (cd_distance c) None s a fs (cd_write_at c) (cd_txid c) d))))"

lemma run_node_db:
  "n \<noteq> DedupNode \<Longrightarrow> n \<noteq> WriteNode \<Longrightarrow> run_node env c n st d = (r, ws, d') \<Longrightarrow> d' = d"
  by (cases n) (auto split: prod.splits sum.splits)

lemma run_write:
  assumes "ready env s a t WriteNode st" "run_graph env c [WriteNode] st d = (r, ws, d')"
  shows "(\<exists>st. r = Inr st) \<and> written env c s a t d d'"
proof -
  have "d' = snd (persist_candidates (cd_distance c) None s a (cs_embedded st) (cd_write_at c) (cd_txid c) d)"
    "\<exists>st. r = Inr st"
    using assms by (auto simp: ready_def split: prod.splits)
  then show ?thesis using assms(1) unfolding written_def ready_def by auto
qed

lemma run_dedup:
  assumes "ready env s a t DedupNode st" "run_graph env c [DedupNode, WriteNode] st d = (r, ws, d')"
  shows "(\<exists>st. r = Inr st) \<and> written env c s a t (cd_others c d) d'"
proof -
  obtain st1 ws1 d1 where 1: "run_node env c DedupNode st d = (Inr st1, ws1, d1)" "d1 = cd_others c d" by simp
  show ?thesis
  proof (cases "gate_open DedupNode st1")
    case True
    obtain r2 ws2 d2 where 2: "run_graph env c [WriteNode] st1 d1 = (r2, ws2, d2)" by (metis prod_cases3)
    have "d' = d2 \<and> r = r2" using assms(2) 1 True 2 by (simp del: run_node.simps run_graph.simps(2) add: run_graph.simps(2)[of env c DedupNode])
    then show ?thesis using run_write[OF run_node_ready[OF follows.intros(5) assms(1) 1(1)] 2] 1(2) by simp
  next
    case False
    have "d' = d1 \<and> r = Inr st1" using assms(2) 1 False by (simp del: run_node.simps run_graph.simps(2) add: run_graph.simps(2)[of env c DedupNode])
    then show ?thesis using 1(2) assms(1) by (auto simp: written_def ready_def)
  qed
qed

lemma run_graph_step:
  assumes "ready env s a t n st" "follows n n'" "n \<noteq> DedupNode"
    and rest: "\<And>st r ws d'. ready env s a t n' st \<Longrightarrow> run_graph env c (n' # ns) st d = (r, ws, d') \<Longrightarrow> Q r d'"
    and "\<And>r. Q r d" "run_graph env c (n # n' # ns) st d = (r, ws, d')"
  shows "Q r d'"
proof -
  have n: "n \<noteq> WriteNode" using assms(2) by (auto elim: followsE)
  obtain r1 ws1 d1 where 1: "run_node env c n st d = (r1, ws1, d1)" by (metis prod_cases3)
  have d1: "d1 = d" by (rule run_node_db[OF assms(3) n 1])
  obtain r2 ws2 d2 where 2: "run_graph env c (n' # ns) (projr r1) d = (r2, ws2, d2)" by (metis prod_cases3)
  show ?thesis
  proof (cases r1)
    case (Inl e)
    then have "d' = d" using assms(6) 1 d1 by (simp add: run_graph.simps(2)[of env c n] del: run_graph.simps)
    then show ?thesis using assms(5) by simp
  next
    case (Inr st1)
    have ok: "ready env s a t n' st1" using run_node_ready[OF assms(2,1)] 1 Inr by blast
    have "d' = (if gate_open n st1 then d2 else d) \<and> (gate_open n st1 \<longrightarrow> r = r2)"
      using assms(6) 1 d1 2 Inr by (simp add: run_graph.simps(2)[of env c n] del: run_graph.simps split: if_splits)
    then show ?thesis using rest[OF ok] 2 Inr assms(5) by auto
  qed
qed

lemma run_graph_written:
  assumes "run_graph env c node_order (new_capture_state s a t) d = (r, ws, d')"
  shows "d' = d \<or> (\<exists>st. r = Inr st) \<and> written env c s a t (cd_others c d) d'"
proof -
  let ?Q = "\<lambda>r d'. d' = d \<or> (\<exists>st. r = Inr st) \<and> written env c s a t (cd_others c d) d'"
  have q: "?Q r d" for r :: "capture_exn + capture_state" by simp
  have 4: "?Q r d'" if "ready env s a t DedupNode st" "run_graph env c [DedupNode, WriteNode] st d = (r, ws, d')" for st r ws d'
    using run_dedup[OF that] by simp
  have 3: "?Q r d'" if "ready env s a t EmbedNode st" "run_graph env c [EmbedNode, DedupNode, WriteNode] st d = (r, ws, d')" for st r ws d'
    by (rule run_graph_step[where Q = ?Q, OF that(1) follows.intros(4) _ _ q that(2)], simp, rule 4)
  have 2: "?Q r d'" if "ready env s a t EvaluateNode st" "run_graph env c [EvaluateNode, EmbedNode, DedupNode, WriteNode] st d = (r, ws, d')" for st r ws d'
    by (rule run_graph_step[where Q = ?Q, OF that(1) follows.intros(3) _ _ q that(2)], simp, rule 3)
  have 1: "?Q r d'" if "ready env s a t PiiNode st" "run_graph env c [PiiNode, EvaluateNode, EmbedNode, DedupNode, WriteNode] st d = (r, ws, d')" for st r ws d'
    by (rule run_graph_step[where Q = ?Q, OF that(1) follows.intros(2) _ _ q that(2)], simp, rule 2)
  show ?thesis
    by (rule run_graph_step[where Q = ?Q, OF _ follows.intros(1) _ _ q assms[unfolded node_order_def]],
        simp add: ready_def new_capture_state_def, simp, rule 1)
qed

text \<open>A row as a run leaves it, for the \<open>j\<close>-th of the extracted facts that clear the floor: the
  scrubbed text of that fact, its source and slot, the scores of the entry at its position, and the
  vector that answers its scrubbed text.\<close>

definition sound_row :: "capture_env \<Rightarrow> real list fact list \<Rightarrow> nat \<Rightarrow> real list mem \<Rightarrow> bool" where
  "sound_row env facts j m \<longleftrightarrow> j < length (kept_positions env facts) \<and>
     (let i = kept_positions env facts ! j; f = facts ! i
      in i < length facts \<and> strip (f_text f) \<noteq> [] \<and> m_content m = scrubbed env f \<and>
         m_source m = Some (f_source f) \<and> m_attribute m = slot_of f \<and>
         (case slot_of f of None \<Rightarrow> True | Some x \<Rightarrow> x \<in> set known_attributes) \<and>
         (\<exists>c. scored_at env facts i = Inr c \<and> m_importance m = f_importance c \<and> m_confidence m = f_confidence c) \<and>
         in_unit (m_importance m) \<and>
         (case m_confidence m of None \<Rightarrow> False | Some k \<Rightarrow> confidence_floor \<le> k \<and> k \<le> 1) \<and>
         (\<exists>vs. batch_vectors env facts = Inr vs \<and> length vs > j \<and> m_embedding m = Some (vs ! j) \<and>
            vs ! j \<noteq> [] \<and> length (vs ! j) = ls_dim (ce_llm env)))"

lemma finished_sound_row:
  assumes "list_all extracted facts" "finished_at env facts j f" "stated m = states f"
  shows "sound_row env facts j m"
proof -
  define i where "i = kept_positions env facts ! j"
  obtain c vs where f: "j < length (kept_positions env facts)" "scored_at env facts i = Inr c" "batch_vectors env facts = Inr vs"
    "j < length vs" "vs ! j \<noteq> []" "length (vs ! j) = ls_dim (ce_llm env)"
    "stated m = states (c \<lparr> f_embedding := Some (vs ! j) \<rparr>)"
    using assms(2,3) by (auto simp: finished_at_def i_def)
  have "i \<in> set (kept_positions env facts)" using f(1) by (simp add: i_def)
  then have i: "i < length facts" "clears_floor confidence_floor c" using f(2) by (simp_all add: kept_positions_def)
  have ex: "extracted (facts ! i)" using assms(1) i(1) by (simp add: list_all_length)
  have sc: "scored env c"
    using score_one_scored[OF f(2)[unfolded scored_at_def] redact_candidate_redacted[OF ex]] .
  have same: "f_source c = f_source (facts ! i)" "f_attribute c = f_attribute (facts ! i)"
    using f(2) by (auto simp: scored_at_def score_one_def bind_res_Inr_iff redact_candidate_def split: prod.splits)
  then have slot: "slot_of c = slot_of (facts ! i)" "slot_of (c \<lparr> f_embedding := v \<rparr>) = slot_of c" for v
    by (simp_all add: slot_of_def assistant_sourced_def)
  have m: "m_content m = scrubbed env (facts ! i)" "m_embedding m = Some (vs ! j)" "m_importance m = f_importance c"
    "m_confidence m = f_confidence c" "m_attribute m = slot_of (facts ! i)" "m_source m = Some (f_source (facts ! i))"
    using f(7) scored_at_text[OF f(2) ex] same(1) slot by (simp_all add: stated_def states_def)
  have "case slot_of (facts ! i) of None \<Rightarrow> True | Some x \<Rightarrow> x \<in> set known_attributes"
    using ex by (auto simp: extracted_def slot_of_def split: option.splits)
  moreover have "in_unit (f_importance c)" "case f_confidence c of None \<Rightarrow> False | Some k \<Rightarrow> confidence_floor \<le> k \<and> k \<le> 1"
    using sc i(2) by (auto simp: scored_def in_unit_def clears_floor_def split: option.splits)
  moreover have "strip (f_text (facts ! i)) \<noteq> []" using ex by (simp add: extracted_def)
  ultimately show ?thesis using f i(1) m unfolding sound_row_def Let_def i_def[symmetric] by simp
qed

lemma written_rows:
  assumes "written env c s a t d d'" "db_ok d"
  shows "\<exists>facts js old new. fst (extract_candidates env t None) = Inr facts \<and> d_mems d' = old @ new \<and>
    map stated old = map stated (d_mems d) \<and> sorted_wrt (<) js \<and> list_all2 (sound_row env facts) js new"
proof -
  obtain facts where facts: "fst (extract_candidates env t None) = Inr facts" and w: "d' = d \<or>
     (\<exists>js fs. sorted_wrt (<) js \<and> list_all2 (finished_at env facts) js fs \<and>
        d' = snd (persist_candidates (cd_distance c) None s a fs (cd_write_at c) (cd_txid c) d))"
    using assms(1) unfolding written_def by blast
  from w show ?thesis
  proof (elim disjE exE conjE)
    assume "d' = d"
    then show ?thesis using facts by (intro exI[of _ facts] exI[of _ "[]"] exI[of _ "d_mems d"]) simp
  next
    fix js fs assume js: "sorted_wrt (<) js" "list_all2 (finished_at env facts) js fs"
      and d': "d' = snd (persist_candidates (cd_distance c) None s a fs (cd_write_at c) (cd_txid c) d)"
    obtain fs' old new where o: "d_mems d' = old @ new" "map stated old = map stated (d_mems d)" "subseq fs' fs"
      "list_all2 (\<lambda>c m. stated m = states c) fs' new"
      using persist_candidates_stated[where cosd = "cd_distance c" and th = None and s = s and a = a and cs = fs and
          now = "cd_write_at c" and k = "cd_txid c", OF assms(2)]
      by (simp only: d'[symmetric]) (elim exE conjE, rule that)
    obtain js' where js': "subseq js' js" "list_all2 (finished_at env facts) js' fs'"
      using list_all2_subseq[OF js(2) o(3)] by blast
    have "list_all extracted facts"
      using facts extract_candidates_extracted(1) by (metis prod.collapse)
    then have "list_all2 (sound_row env facts) js' new"
      using list_all2_trans[OF _ js'(2) o(4)] finished_sound_row by blast
    moreover have "sorted_wrt (<) js'" using sorted_wrt_subseq[OF js'(1) js(1)] .
    ultimately show ?thesis using facts o(1,2) by blast
  qed
qed

lemma run_capture_rows:
  assumes "db_ok (cd_others c d)" "run_capture env c timeout s a t d = (r, d')"
  shows "d' = d \<or> (\<exists>st. r = Inr st) \<and>
    (\<exists>facts js old new. fst (extract_candidates env t None) = Inr facts \<and> d_mems d' = old @ new \<and>
       map stated old = map stated (d_mems (cd_others c d)) \<and>
       sorted_wrt (<) js \<and> list_all2 (sound_row env facts) js new)"
proof -
  obtain r0 ws d1 where g: "run_graph env c node_order (new_capture_state s a t) d = (r0, ws, d1)" by (metis prod_cases3)
  show ?thesis
  proof (cases "d' = d")
    case False
    then have "d' = d1" "r = (case r0 of Inl e \<Rightarrow> Inl (Failed e) | Inr st \<Rightarrow> Inr st)"
      using assms(2) g by (auto simp: run_capture_def Let_def split: if_splits)
    then show ?thesis using run_graph_written[OF g] written_rows[OF _ assms(1)] False by auto
  qed simp
qed

section \<open>An example run\<close>

definition ex_provider :: provider where
  "ex_provider = \<lparr> pv_complete = (\<lambda>rq i. Inr (Some (if rq_messages rq ! 0 = (''system'', ''extract'')
        then json_dumps [''I like tea''] else ''sorry, no scores today''))),
     pv_stream = (\<lambda>rq i. Inr []), pv_embed = (\<lambda>m ts i. Inr (map (\<lambda>t. (0, [1])) ts)), pv_jitter = (\<lambda>i. 0) \<rparr>"

definition ex_env :: capture_env where
  "ex_env = \<lparr> ce_lib = ex_pylib, ce_llm = default_settings \<lparr> ls_dim := 1 \<rparr>, ce_provider = ex_provider,
     ce_rounds = (\<lambda>i. ex_provider), ce_wide = (\<lambda>n. CHR ''?''), ce_repr = (\<lambda>j. []),
     ce_extract_prompt = ''extract'', ce_score_prompt = ''score'',
     ce_analyze = (\<lambda>t x. Some [(''TEA'', 7, 10)]), ce_anonymize = (\<lambda>t rs ops. Some ''I like [REDACTED_TEA]'') \<rparr>"

lemmas ex_capture = ex_env_def ex_provider_def default_settings_def

lemma ex_complete:
  "complete (ce_lib ex_env) (ce_llm ex_env) (ce_provider ex_env) None None 0 None ((''system'', ''extract'') # ms) =
     (Inr (json_dumps [''I like tea'']), [])"
  "complete (ce_lib ex_env) (ce_llm ex_env) (ce_provider ex_env) None None 0 None ((''system'', ''score'') # ms) =
     (Inr ''sorry, no scores today'', [])"
proof -
  have 1: "with_rate_limit_retry lib ls j (pv_complete (ce_provider ex_env)
        (request_of (ce_llm ex_env) None None 0 ((''system'', ''extract'') # ms))) None w =
      (Inr (Some (json_dumps [''I like tea''])), [])"
    and 2: "with_rate_limit_retry lib ls j (pv_complete (ce_provider ex_env)
        (request_of (ce_llm ex_env) None None 0 ((''system'', ''score'') # ms))) None w =
      (Inr (Some ''sorry, no scores today''), [])" for lib ls j w
    by (rule retry_immediate_Inr, simp add: ex_env_def ex_provider_def request_of_def)+
  show "complete (ce_lib ex_env) (ce_llm ex_env) (ce_provider ex_env) None None 0 None ((''system'', ''extract'') # ms) =
      (Inr (json_dumps [''I like tea'']), [])"
    "complete (ce_lib ex_env) (ce_llm ex_env) (ce_provider ex_env) None None 0 None ((''system'', ''score'') # ms) =
      (Inr ''sorry, no scores today'', [])"
    by (simp_all add: complete_def 1 2)
qed

lemma ex_extract:
  "extract_candidates ex_env \<lparr> t_user = ''I like tea'', t_assistant = [] \<rparr> None =
     (Inr [new_fact ''I like tea'' user_statement None], [])"
proof -
  have 1: "json_loads w (json_dumps [''I like tea'']) = Inr (JList [JStr ''I like tea''])" for w
    using json_loads_dumps[of w "[''I like tea'']"] by simp
  have 2: "strip_fences (json_dumps [''I like tea'']) = json_dumps [''I like tea'']"
    "first_json_array (json_dumps [''I like tea'']) = Some (json_dumps [''I like tea''])"
    "strip (json_dumps [''I like tea'']) \<noteq> []"
    by (simp_all add: json_dumps_def dumps_string_def escape_char_def strip_fences_def first_json_array_def
        fence_def strip_def lstrip_def py_space_def)
  have 3: "coerce_candidates repr [JStr ''I like tea''] = [new_fact ''I like tea'' user_statement None]" for repr
    by (simp add: coerce_candidates_def coerce_item_def item_fields_def json_str_def json_pyval_def normalise_attribute_def
        strip_def py_space_def user_statement_def)
  have 4: "ce_extract_prompt ex_env = ''extract''" by (simp add: ex_env_def)
  have 5: "parse_extraction w repr (json_dumps [''I like tea'']) = Inr [new_fact ''I like tea'' user_statement None]" for w repr
    using 2 by (simp add: parse_extraction_def 1 3)
  show ?thesis
    by (simp add: extract_candidates_def pre_filter_reason_def turn_text_def strip_def py_space_def 4 ex_complete 5
        max_candidates_per_turn_def)
qed

definition ex_candidate :: "real list fact" where
  "ex_candidate = (new_fact ''I like [REDACTED_TEA]'' user_statement None)
     \<lparr> f_pii := [''TEA''], f_raw := Some ''I like tea'', f_importance := Some (1 / 2), f_confidence := Some (7 / 10) \<rparr>"

lemma ex_redact: "redact_candidate ex_env (new_fact ''I like tea'' user_statement None) =
    (new_fact ''I like [REDACTED_TEA]'' user_statement None) \<lparr> f_raw := Some ''I like tea'', f_pii := [''TEA''] \<rparr>"
  by (simp add: redact_candidate_def redact_def ex_env_def new_fact_def strip_def py_space_def)

lemma ex_score:
  "score_candidates ex_env [(new_fact ''I like [REDACTED_TEA]'' user_statement None) \<lparr> f_raw := Some ''I like tea'', f_pii := [''TEA''] \<rparr>] =
     (Inr [ex_candidate], [])"
proof -
  have 1: "ce_score_prompt ex_env = ''score''" by (simp add: ex_env_def)
  have 2: "parse_scores w ''sorry, no scores today'' n = None" for w n
    by (simp add: parse_scores_def strip_fences_def first_json_array_def fence_def strip_def lstrip_def py_space_def)
  have 3: "py_round 3 (1 / 2) = 1 / 2" "py_round 3 (7 / 10) = 7 / 10"
    using round_even_of_int[of 500] round_even_of_int[of 700] by (simp_all add: py_round_def)
  have 4: "heuristic_scores ((new_fact ''I like [REDACTED_TEA]'' user_statement None)
      \<lparr> f_raw := Some ''I like tea'', f_pii := [''TEA''] \<rparr>) = (1 / 2, 7 / 10)"
  proof -
    have "lower ''I like [REDACTED_TEA]'' = ''i like [redacted_tea]''" by code_simp
    moreover have "\<not> list_ex (contains ''i like [redacted_tea]'') high_value"
      "\<not> list_ex (contains ''i like [redacted_tea]'') hedges" by code_simp+
    ultimately show ?thesis
      by (simp add: heuristic_scores_def new_fact_def assistant_note_def user_statement_def 3 Let_def)
  qed
  show ?thesis
    by (simp add: score_candidates_def 1 2 ex_complete score_one_def 4 4[unfolded new_fact_def, simplified] score_clamp_def json_pyval_def py_float_def
        json_get_def ex_candidate_def new_fact_def)
qed

lemma ex_embed: "embed_candidates ex_env [ex_candidate] = (Inr [ex_candidate \<lparr> f_embedding := Some [1] \<rparr>], [])"
proof -
  have "with_rate_limit_retry lib ls j (pv_embed (ce_rounds ex_env 0) m [x]) n w = (Inr [(0, [1])], [])" for lib ls j m x n w
    by (rule retry_immediate_Inr) (simp add: ex_env_def ex_provider_def)
  then have "embed_texts lib ls (ce_rounds ex_env 0) None None [x] = (Inr [[1]], [])" for lib ls x
    by (simp add: embed_texts_def)
  then show ?thesis
    by (simp add: embed_candidates_def embed_retry_delays_def attach_vector_def List.map_filter_def ex_env_def)
qed

definition ex_turn :: turn where "ex_turn = \<lparr> t_user = ''I like tea'', t_assistant = [] \<rparr>"

definition ex_cdb :: capture_db where
  "ex_cdb = \<lparr> cd_distance = (\<lambda>x y. 0), cd_dedup_at = 1, cd_write_at = 2, cd_txid = True, cd_others = id \<rparr>"

definition ex_empty :: "real list db" where
  "ex_empty = \<lparr> d_mems = [], d_audits = [], d_gen = (\<lambda>n. replicate (n + 3) CHR ''x''), d_next = 0 \<rparr>"

lemma ex_run:
  "map m_content (d_mems (snd (run_capture ex_env ex_cdb None ''s'' ''a'' ex_turn ex_empty))) = [''I like [REDACTED_TEA]'']"
proof -
  define st where "st = (new_capture_state ''s'' ''a'' ex_turn)
    \<lparr> cs_candidates := [new_fact ''I like tea'' user_statement None],
      cs_redacted := [(new_fact ''I like [REDACTED_TEA]'' user_statement None) \<lparr> f_raw := Some ''I like tea'', f_pii := [''TEA''] \<rparr>],
      cs_scored := [ex_candidate], cs_embedded := [ex_candidate \<lparr> f_embedding := Some [1] \<rparr>] \<rparr>"
  have floor: "apply_confidence_floor [ex_candidate] None = ([ex_candidate], [])"
    by (simp add: apply_confidence_floor_def clears_floor_def confidence_floor_def ex_candidate_def)
  define c where "c = dedup_candidate (\<lambda>x y. 0) dedup_cosine_threshold ''s'' (session ''s'' ''a'' 1 True ex_empty)
    (ex_candidate \<lparr> f_embedding := Some [1] \<rparr>)"
  define p where "p = persist_candidates (\<lambda>x y. 0) None ''s'' ''a'' [c] 2 True ex_empty"
  have run: "run_graph ex_env ex_cdb node_order (new_capture_state ''s'' ''a'' ex_turn) ex_empty =
     (Inr (st \<lparr> cs_embedded := [c], cs_results := fst p \<rparr>), [], snd p)"
    by (simp add: node_order_def new_capture_state_def ex_turn_def ex_extract ex_redact ex_score floor ex_embed
        ex_cdb_def dedup_candidates_def c_def p_def st_def split: prod.split)
  have c: "f_text c = ''I like [REDACTED_TEA]''" "f_source c = user_statement" "f_embedding c = Some [1]" "slot_of c = None"
    by (simp_all add: c_def dedup_candidate_def Let_def ex_candidate_def new_fact_def slot_of_def split: option.split)
  have "d_mems (snd p) = [fact_row ''s'' ''a'' c 2 (replicate 3 CHR ''x'')]"
  proof -
    let ?t = "session ''s'' ''a'' 2 True ex_empty"
    have "persist_candidate (\<lambda>x y. 0) l ''s'' ''a'' c ?t = persist_insert ''s'' ''a'' c ?t" for l
      by (simp add: persist_candidate_def grave_of_def match_of_def c assistant_sourced_def user_statement_def assistant_note_def
          find_similar_def nearest_def select_rows_def ex_empty_def first_at_least_def)
    then show ?thesis using persist_insert_plain[of c "''s''" "''a''" ?t] c(4)
      by (simp add: p_def persist_candidates_def Let_def split_beta ex_empty_def)
  qed
  moreover have "snd (run_capture ex_env ex_cdb None ''s'' ''a'' ex_turn ex_empty) = snd p"
    by (simp add: run_capture_def run waited_def capture_timeout_def)
  ultimately show ?thesis by (simp add: c)
qed

section \<open>Sustained throttling\<close>

lemma contains_iff: "contains s t \<longleftrightarrow> (\<exists>p q. s = p @ t @ q)"
proof
  assume "contains s t"
  then obtain i where "take (length t) (drop i s) = t" by (auto simp: contains_def list_ex_iff)
  then have "s = take i s @ t @ drop (length t) (drop i s)" by (metis append_take_drop_id)
  then show "\<exists>p q. s = p @ t @ q" by blast
next
  assume "\<exists>p q. s = p @ t @ q"
  then obtain p q where "s = p @ t @ q" by blast
  then show "contains s t" unfolding contains_def list_ex_iff by (intro bexI[of _ "length p"]) auto
qed

lemma contains_append: "contains s t \<Longrightarrow> contains (p @ s) t"
  by (metis append.assoc contains_iff)

lemma waited_append [simp]: "waited (xs @ ys) = waited xs + waited ys"
  and waited_Cons [simp]: "waited (w # ws) = max 0 (fin_val w) + waited ws"
  and waited_Nil [simp]: "waited [] = 0"
  by (simp_all add: waited_def)

lemma waited_nonneg: "0 \<le> waited ws"
  by (induction ws) simp_all

lemma exhausted_retryable: "is_retryable (exhausted what n)"
proof -
  have "contains (lower '' attempts against a provider rate limit. The Voyage no-payment tier allows 3 requests/minute; either slow the caller down or raise LLM_RATE_LIMIT_ATTEMPTS.'') ''rate limit''"
    by code_simp
  then have "contains (lower (le_type (exhausted what n) @ '' '' @ le_text (exhausted what n))) ''rate limit''"
    unfolding exhausted_def llm_exn.simps lower_def map_append
    by (intro contains_append)
  then show ?thesis by (simp add: is_retryable_def retryable_markers_def del: append.simps)
qed

text \<open>An answer that is a rate limit without a hint how long to wait.\<close>

definition throttles :: "pylib \<Rightarrow> (llm_exn + 'a) \<Rightarrow> bool" where
  "throttles lib r = (case r of Inl e \<Rightarrow> is_rate_limit e \<and> retry_after_seconds lib e = Inr None | Inr _ \<Rightarrow> False)"

definition default_delays :: "llm_settings \<Rightarrow> bool" where
  "default_delays ls \<longleftrightarrow> ls_attempts ls = 6 \<and> ls_base_delay ls = 4 \<and> ls_max_delay ls = 60"

text \<open>The seam alone waits two minutes before it gives up.\<close>

lemma throttled_call:
  assumes "default_delays ls" "\<And>i. throttles lib (op i)" "\<And>i. 0 \<le> jitter i"
  obtains ds where "with_rate_limit_retry lib ls jitter op None what = (Inl (exhausted what 6), ds)" "120 \<le> waited ds"
proof -
  have "\<forall>i. \<exists>e. op i = Inl e \<and> is_rate_limit e \<and> retry_after_seconds lib e = Inr None"
  proof
    fix i show "\<exists>e. op i = Inl e \<and> is_rate_limit e \<and> retry_after_seconds lib e = Inr None"
      using assms(2)[of i] by (auto simp: throttles_def split: sum.splits)
  qed
  then obtain f where f: "\<And>i. op i = Inl (f i)" "\<And>i. is_rate_limit (f i)" "\<And>i. retry_after_seconds lib (f i) = Inr None"
    by metis
  define w where "w i = add_jitter (jitter i) (backoff ls None i)" for i
  have loop: "with_rate_limit_retry lib ls jitter op None what = (Inl (exhausted what 6), map w [0, 1, 2, 3, 4])"
    using assms(1) by (simp add: with_rate_limit_retry_def default_delays_def f w_def numeral_eq_Suc)
  have j: "0 \<le> jitter i * min 1 (x / 4)" if "0 \<le> x" for i x using assms(3) that by (simp add: min_def)
  have "4 \<le> fin_val (w 0)" "8 \<le> fin_val (w 1)" "16 \<le> fin_val (w 2)" "32 \<le> fin_val (w 3)" "60 \<le> fin_val (w 4)"
    using assms(1) j[of 4 0] j[of 8 1] j[of 16 2] j[of 32 3] j[of 60 4]
    by (simp_all add: w_def backoff_def default_delays_def)
  then have "120 \<le> waited (map w [0, 1, 2, 3, 4])" by simp
  then show ?thesis using that loop by blast
qed

lemma embed_rounds_throttled:
  assumes "\<And>i. \<exists>e ws. call i = (Inl e, ws) \<and> is_retryable e \<and> W \<le> waited ws" "list_all (\<lambda>d. 0 \<le> d) ds"
  shows "\<exists>e ws. embed_rounds call ds a = (Inl e, ws) \<and> (real (length ds) + 1) * W + sum_list ds \<le> waited ws"
  using assms(2)
proof (induction ds arbitrary: a)
  case Nil
  obtain e ws where "call a = (Inl e, ws)" "W \<le> waited ws" using assms(1) by blast
  then show ?case by simp
next
  case (Cons d ds)
  obtain e ws where 1: "call a = (Inl e, ws)" "is_retryable e" "W \<le> waited ws" using assms(1) by blast
  obtain e' ws' where 2: "embed_rounds call ds (Suc a) = (Inl e', ws')"
    "(real (length ds) + 1) * W + sum_list ds \<le> waited ws'"
    using Cons.IH[of "Suc a"] Cons.prems by auto
  then show ?case using 1 Cons.prems by (simp add: algebra_simps)
qed

lemma throttled_embedding:
  assumes "default_delays (ce_llm env)" "cs \<noteq> []"
    and "\<And>i. \<forall>m ts j. throttles (ce_lib env) (pv_embed (ce_rounds env i) m ts j) \<and> 0 \<le> pv_jitter (ce_rounds env i) j"
  shows "\<exists>e ws. embed_candidates env cs = (Inl e, ws) \<and> 1235 \<le> waited ws"
proof -
  let ?call = "\<lambda>i. embed_texts (ce_lib env) (ce_llm env) (ce_rounds env i) None None (map f_text cs)"
  have "\<exists>e ws. ?call i = (Inl e, ws) \<and> is_retryable e \<and> 120 \<le> waited ws" for i
  proof -
    obtain ds where "with_rate_limit_retry (ce_lib env) (ce_llm env) (pv_jitter (ce_rounds env i))
        (pv_embed (ce_rounds env i) (ls_embedding_model (ce_llm env)) (map f_text cs)) None
        (''embedding ('' @ ls_embedding_model (ce_llm env) @ '')'') =
        (Inl (exhausted (''embedding ('' @ ls_embedding_model (ce_llm env) @ '')'') 6), ds)" "120 \<le> waited ds"
      using throttled_call[OF assms(1)] assms(3) by metis
    then show ?thesis using assms(2) exhausted_retryable by (simp add: embed_texts_def)
  qed
  from embed_rounds_throttled[where call = ?call and W = 120 and ds = embed_retry_delays and a = 0, OF this]
  show ?thesis using assms(2) by (fastforce simp: embed_candidates_def embed_retry_delays_def)
qed

lemma run_capture_throttled:
  fixes cs' :: "real list fact list"
  assumes "extract_candidates env t None = (Inr cs, w1)"
    and "score_candidates env (map (redact_candidate env) cs) = (Inr cs', w2)"
    and "list_ex (clears_floor confidence_floor) cs'"
    and "default_delays (ce_llm env)"
    and "\<And>i. \<forall>m ts j. throttles (ce_lib env) (pv_embed (ce_rounds env i) m ts j) \<and> 0 \<le> pv_jitter (ce_rounds env i) j"
  shows "run_capture env c None s a t d = (Inl Timeout, d)"
proof -
  let ?kept = "filter (clears_floor confidence_floor) cs'"
  have kept: "?kept \<noteq> []" using assms(3) by (auto simp: list_ex_iff filter_empty_conv)
  then have "cs' \<noteq> []" by auto
  then have "cs \<noteq> []" using assms(2) by (auto simp: score_candidates_def)
  obtain e ws where e: "embed_candidates env ?kept = (Inl e, ws)" "1235 \<le> waited ws"
    using throttled_embedding[OF assms(4) kept assms(5)] by blast
  have "run_graph env c node_order (new_capture_state s a t) d = (Inl (ProviderError e), w1 @ [] @ w2 @ ws, d)"
    using assms(1,2) e(1) kept \<open>cs \<noteq> []\<close>
    by (simp add: node_order_def new_capture_state_def apply_confidence_floor_def)
  then show ?thesis using e(2) waited_nonneg[of w1] waited_nonneg[of w2]
    by (simp add: run_capture_def capture_timeout_def)
qed

section \<open>The worker's accounts\<close>

lemma run_job_id [simp]: "jr_job (fst (run_job env c j d)) = j_id j"
  by (simp add: run_job_def Let_def split: prod.split sum.split capture_failure.split)

lemma mset_remove1_id: "j \<in> set js \<Longrightarrow> mset (map f js) = mset (map f (remove1 j js)) + {#f j#}"
  by (induction js) auto

lemma drop_last_append:
  "drop (length (drop (length xs - n) xs @ [x]) - n) (drop (length xs - n) xs @ [x]) = drop (length (xs @ [x]) - n) (xs @ [x])"
  by (cases "length xs < n") (auto simp: Suc_diff_le)

lemma worker_run_accounts:
  assumes "worker_run maxsize consumers js rs w"
  shows "mset (map j_id js) = mset (map j_id (wk_dropped w @ wk_queue w @ wk_running w)) + mset (map jr_job rs)"
    and "wk_completed w = drop (length rs - max_completed) rs"
    and "length (wk_running w) \<le> consumers" and "0 < maxsize \<longrightarrow> length (wk_queue w) \<le> maxsize"
  using assms
proof (induction rule: worker_run.induct)
  case start
  {
    case 1 show ?case by (simp add: idle_worker_def)
  next
    case 2 show ?case by (simp add: idle_worker_def)
  next
    case 3 show ?case by (simp add: idle_worker_def)
  next
    case 4 show ?case by (simp add: idle_worker_def)
  }
next
  case (enqueued js rs w j)
  {
    case 1 show ?case using enqueued.IH(1) by (simp add: enqueue_def)
  next
    case 2 show ?case using enqueued.IH(2) by (simp add: enqueue_def)
  next
    case 3 show ?case using enqueued.IH(3) by (simp add: enqueue_def)
  next
    case 4 show ?case using enqueued.IH(4) by (auto simp: enqueue_def)
  }
next
  case (taken js rs w w')
  then obtain j q where j: "wk_queue w = j # q" "length (wk_running w) < consumers"
    "w' = w \<lparr> wk_queue := q, wk_running := wk_running w @ [j] \<rparr>"
    by (auto simp: take_job_def split: list.splits if_splits)
  {
    case 1 show ?case using taken.IH(1) j by simp
  next
    case 2 show ?case using taken.IH(2) j by simp
  next
    case 3 show ?case using j by simp
  next
    case 4 show ?case using taken.IH(4) j by auto
  }
next
  case (finished js rs w j env c d)
  {
    case 1
    show ?case using finished.IH(1) mset_remove1_id[OF finished.hyps(2), of j_id] by (simp add: finish_job_def Let_def)
  next
    case 2
    show ?case using finished.IH(2) drop_last_append[of rs max_completed] by (simp add: finish_job_def Let_def)
  next
    case 3
    have "length (remove1 j (wk_running w)) \<le> length (wk_running w)" by (simp add: length_remove1)
    then show ?case using finished.IH(3) by (simp add: finish_job_def Let_def)
  next
    case 4 show ?case using finished.IH(4) by (simp add: finish_job_def Let_def)
  }
qed

definition backlog :: "worker \<Rightarrow> nat" where
  "backlog w = 2 * length (wk_queue w) + length (wk_running w)"

lemma consumes_backlog: "consumes consumers w w' \<Longrightarrow> backlog w' < backlog w"
proof (cases rule: consumes.cases, assumption)
  fix j env c d assume j: "j \<in> set (wk_running w)" and w': "w' = finish_job j (fst (run_job env c j d)) w"
  from j have "0 < length (wk_running w)" by (metis length_pos_if_in_set)
  then show "backlog w' < backlog w" using j by (simp add: backlog_def finish_job_def Let_def w' length_remove1)
qed (auto simp: backlog_def take_job_def split: list.splits if_splits)

lemma consumes_stuck:
  assumes "0 < consumers"
  shows "(\<exists>w'. consumes consumers w w') \<longleftrightarrow> wk_queue w \<noteq> [] \<or> wk_running w \<noteq> []"
proof
  assume "\<exists>w'. consumes consumers w w'"
  then show "wk_queue w \<noteq> [] \<or> wk_running w \<noteq> []"
    by (auto elim!: consumesE simp: take_job_def split: list.splits)
next
  assume a: "wk_queue w \<noteq> [] \<or> wk_running w \<noteq> []"
  show "\<exists>w'. consumes consumers w w'"
  proof (cases "wk_running w")
    case Nil
    with a assms obtain w' where "take_job consumers w = Some w'" by (cases "wk_queue w") (auto simp: take_job_def)
    then show ?thesis using consumes.intros(1) by blast
  next
    case (Cons j js)
    then show ?thesis using consumes.intros(2)[of j w] by fastforce
  qed
qed

lemma consumes_steps: "(consumes consumers ^^ n) w w' \<Longrightarrow> n + backlog w' \<le> backlog w"
proof (induction n arbitrary: w')
  case (Suc n)
  then obtain v where "(consumes consumers ^^ n) w v" "consumes consumers v w'" by auto
  then show ?case using Suc.IH consumes_backlog by fastforce
qed simp

lemma consumes_drains:
  assumes "0 < consumers"
  shows "\<exists>w'. (consumes consumers)\<^sup>*\<^sup>* w w' \<and> wk_queue w' = [] \<and> wk_running w' = []"
proof (induction "backlog w" arbitrary: w rule: less_induct)
  case less
  show ?case
  proof (cases "wk_queue w \<noteq> [] \<or> wk_running w \<noteq> []")
    case True
    then obtain v where v: "consumes consumers w v" using consumes_stuck[OF assms] by blast
    then show ?thesis using less[OF consumes_backlog[OF v]] by (meson converse_rtranclp_into_rtranclp)
  qed auto
qed

section \<open>Properties of the pipeline\<close>

text \<open>C8. Whatever the models answer, a run stores only what it extracted, in the form its own steps
  give it. A run either leaves the database as it found it or ends in a final state; then the turn was
  extracted into a list of facts, and on top of what other transactions did meanwhile the old rows
  still state what they stated, while the new rows are, in order and each at most once, facts of that
  list whose confidence clears the floor: each carries the scrubbed form of the fact's own non-blank
  text (the anonymizer's answer, or a notice when the analysis fails), the fact's source and its slot of the closed registry or none, the importance and confidence
  computed from that text and from the entry of the scorer's answer at the fact's own position, within
  0 and 1 and at least the floor, and the vector of the configured width that the provider's answer to
  the batch of scrubbed kept texts holds at the position of this text.\<close>

theorem only_sound_facts_are_stored:
  assumes "db_ok (cd_others c d)" "run_capture env c timeout s a t d = (r, d')"
  shows "d' = d \<or> (\<exists>st. r = Inr st) \<and>
    (\<exists>facts js old new. fst (extract_candidates env t None) = Inr facts \<and> d_mems d' = old @ new \<and>
       map stated old = map stated (d_mems (cd_others c d)) \<and>
       sorted_wrt (<) js \<and> list_all2 (sound_row env facts) js new)"
  using assms by (rule run_capture_rows)

theorem only_sound_facts_are_stored_witness:
  "\<exists>j m. d_mems (snd (run_capture ex_env ex_cdb None ''s'' ''a'' ex_turn ex_empty)) = [m] \<and>
     sound_row ex_env [new_fact ''I like tea'' user_statement None] j m \<and> m_content m = ''I like [REDACTED_TEA]''"
proof -
  obtain r d' where r: "run_capture ex_env ex_cdb None ''s'' ''a'' ex_turn ex_empty = (r, d')" by fastforce
  have ok: "db_ok (cd_others ex_cdb ex_empty)"
    using inj_replicate[of 3 "CHR ''x''"] by (simp add: db_ok_def ids_def ex_cdb_def ex_empty_def)
  obtain m where m: "d_mems d' = [m]" "m_content m = ''I like [REDACTED_TEA]''" using ex_run r by auto
  then have "d' \<noteq> ex_empty" by (auto simp: ex_empty_def)
  moreover have "d_mems (cd_others ex_cdb ex_empty) = []" by (simp add: ex_cdb_def ex_empty_def)
  ultimately obtain facts js where f: "fst (extract_candidates ex_env ex_turn None) = Inr facts"
    "list_all2 (sound_row ex_env facts) js [m]"
    using only_sound_facts_are_stored[OF ok r] m(1) by auto
  have "facts = [new_fact ''I like tea'' user_statement None]" using f(1) by (simp add: ex_turn_def ex_extract)
  then show ?thesis using f(2) m r by (auto simp: list_all2_Cons2)
qed

text \<open>The scrubber fails closed: when Presidio's analysis fails on every text, a run stores nothing
  but the fixed notice in place of each text, whatever was extracted.\<close>

lemma scrubber_fails_closed:
  assumes "db_ok (cd_others c d)" "run_capture env c timeout s a t d = (r, d')"
    and "\<And>text threshold. ce_analyze env text threshold = None"
  shows "d' = d \<or> (\<exists>old new. d_mems d' = old @ new \<and> map stated old = map stated (d_mems (cd_others c d)) \<and>
       list_all (\<lambda>m. m_content m = ''[REDACTED_UNSCANNABLE]'') new)"
proof -
  have "sound_row env facts j m \<Longrightarrow> m_content m = ''[REDACTED_UNSCANNABLE]''" for facts j m
    using assms(3) by (auto simp: sound_row_def scrubbed_def Let_def)
  then have "list_all2 (sound_row env facts) js new \<Longrightarrow> list_all (\<lambda>m. m_content m = ''[REDACTED_UNSCANNABLE]'') new"
    for facts js new by (auto simp: list_all2_conv_all_nth list_all_length)
  with run_capture_rows[OF assms(1,2)] show ?thesis by blast
qed

lemma scrubber_fails_closed_witness:
  "\<exists>d'. d' = snd (run_capture (ex_env \<lparr> ce_analyze := (\<lambda>t x. None) \<rparr>) ex_cdb None ''s'' ''a'' ex_turn ex_empty) \<and>
     (d' = ex_empty \<or> list_all (\<lambda>m. m_content m = ''[REDACTED_UNSCANNABLE]'') (d_mems d'))"
proof -
  let ?env = "ex_env \<lparr> ce_analyze := (\<lambda>t x. None) \<rparr>"
  obtain r d' where r: "run_capture ?env ex_cdb None ''s'' ''a'' ex_turn ex_empty = (r, d')" by fastforce
  have "db_ok (cd_others ex_cdb ex_empty)"
    using inj_replicate[of 3 "CHR ''x''"] by (simp add: db_ok_def ids_def ex_cdb_def ex_empty_def)
  from scrubber_fails_closed[OF this r] r show ?thesis by (auto simp: ex_cdb_def ex_empty_def)
qed

text \<open>Under sustained throttling a capture never reports that its embedding retries are exhausted: if
  the turn yields a candidate above the floor and every embedding attempt is refused by a rate limit
  without a hint, then with the default delays the two nested retry loops wait for more than the whole
  budget of the run, so the run times out, with the database untouched.\<close>

lemma sustained_throttling_times_out:
  fixes cs' :: "real list fact list"
  assumes "extract_candidates env t None = (Inr cs, w1)"
    and "score_candidates env (map (redact_candidate env) cs) = (Inr cs', w2)"
    and "list_ex (clears_floor confidence_floor) cs'"
    and "default_delays (ce_llm env)"
    and "\<And>i. \<forall>m ts j. throttles (ce_lib env) (pv_embed (ce_rounds env i) m ts j) \<and> 0 \<le> pv_jitter (ce_rounds env i) j"
  shows "run_capture env c None s a t d = (Inl Timeout, d)"
  using assms by (rule run_capture_throttled)

lemma sustained_throttling_times_out_witness:
  "run_capture (ex_env \<lparr> ce_rounds := (\<lambda>i. ex_provider \<lparr> pv_embed := (\<lambda>m ts j. Inl (ex_limit \<lparr> le_text := ''429'' \<rparr>)) \<rparr>) \<rparr>)
     ex_cdb None ''s'' ''a'' ex_turn ex_empty = (Inl Timeout, ex_empty)"
proof -
  let ?env = "ex_env \<lparr> ce_rounds := (\<lambda>i. ex_provider \<lparr> pv_embed := (\<lambda>m ts j. Inl (ex_limit \<lparr> le_text := ''429'' \<rparr>)) \<rparr>) \<rparr>"
  have env: "ce_lib ?env = ce_lib ex_env" "ce_llm ?env = ce_llm ex_env" "ce_provider ?env = ce_provider ex_env"
    "ce_wide ?env = ce_wide ex_env" "ce_repr ?env = ce_repr ex_env" "ce_extract_prompt ?env = ce_extract_prompt ex_env"
    "ce_score_prompt ?env = ce_score_prompt ex_env" "ce_analyze ?env = ce_analyze ex_env" "ce_anonymize ?env = ce_anonymize ex_env"
    by simp_all
  have 1: "extract_candidates ?env t None = extract_candidates ex_env t None"
    "redact_candidate ?env = (redact_candidate ex_env :: real list fact \<Rightarrow> _)"
    "score_candidates ?env cs = score_candidates ex_env cs" for t and cs :: "real list fact list"
    unfolding extract_candidates_def redact_candidate_def redact_def score_candidates_def fun_eq_iff env
    by (rule refl, intro allI refl, rule refl)
  show ?thesis
  proof (rule sustained_throttling_times_out)
    show "extract_candidates ?env ex_turn None = (Inr [new_fact ''I like tea'' user_statement None], [])"
      unfolding 1 ex_turn_def by (rule ex_extract)
    show "score_candidates ?env (map (redact_candidate ?env) [new_fact ''I like tea'' user_statement None]) = (Inr [ex_candidate], [])"
      unfolding 1 by (simp add: ex_redact ex_score)
    show "list_ex (clears_floor confidence_floor) [ex_candidate]"
      by (simp add: clears_floor_def confidence_floor_def ex_candidate_def)
    show "default_delays (ce_llm ?env)" by (simp add: default_delays_def ex_env_def default_settings_def)
    show "\<forall>m ts j. throttles (ce_lib ?env) (pv_embed (ce_rounds ?env i) m ts j) \<and> 0 \<le> pv_jitter (ce_rounds ?env i) j" for i
      by (simp add: throttles_def ex_limit_def is_rate_limit_def retry_after_seconds_def header_value_def
          match_retry_after_def lower_def lower_char_def ex_provider_def)
  qed
qed

text \<open>While a worker stays on its loop, no captured turn is lost or handled twice. In every history of its
  pool (theory Lifecycle has the loops), the jobs handed to it are exactly those dropped by a full queue, those waiting, those in a consumer's
  hands and those whose run was recorded, each as often as it was handed in; a failing run is recorded
  like any other; the rolling record is the last 128 records; and queue and consumers stay within
  their bounds.\<close>

lemma worker_accounts_for_every_job:
  assumes "worker_run maxsize consumers js rs w"
  shows "mset (map j_id js) = mset (map j_id (wk_dropped w @ wk_queue w @ wk_running w)) + mset (map jr_job rs) \<and>
    wk_completed w = drop (length rs - max_completed) rs \<and>
    length (wk_running w) \<le> consumers \<and> (maxsize = 0 \<or> length (wk_queue w) \<le> maxsize)"
  using worker_run_accounts[OF assms] by auto

lemma worker_accounts_for_every_job_witness:
  "length (wk_queue (enqueue 1 \<lparr> j_id = ''k'', j_subject = ''s'', j_actor = ''a'', j_turn = ex_turn \<rparr>
     (enqueue 1 \<lparr> j_id = ''j'', j_subject = ''s'', j_actor = ''a'', j_turn = ex_turn \<rparr> idle_worker))) \<le> 1"
  using worker_accounts_for_every_job[OF worker_run.enqueued[OF worker_run.enqueued[OF worker_run.start]], where maxsize = 1] by auto

text \<open>The worker drains. With at least one consumer, some step is possible exactly as long as a job
  waits or runs; whatever the consumers do, they take at most two steps per waiting job and one per
  running job; and they can always reach the point where nothing waits or runs.\<close>

lemma worker_drains:
  assumes "0 < consumers"
  shows "((\<exists>w'. consumes consumers w w') \<longleftrightarrow> wk_queue w \<noteq> [] \<or> wk_running w \<noteq> []) \<and>
    ((consumes consumers ^^ n) w v \<longrightarrow> n \<le> backlog w) \<and>
    (\<exists>w'. (consumes consumers)\<^sup>*\<^sup>* w w' \<and> wk_queue w' = [] \<and> wk_running w' = [])"
  using consumes_stuck[OF assms] consumes_steps[of n consumers w v] consumes_drains[OF assms] by auto

lemma worker_drains_witness:
  "\<exists>w'. (consumes worker_concurrency)\<^sup>*\<^sup>*
     (enqueue 1 \<lparr> j_id = ''j'', j_subject = ''s'', j_actor = ''a'', j_turn = ex_turn \<rparr> idle_worker) w' \<and>
     wk_queue w' = [] \<and> wk_running w' = []"
  using worker_drains[of worker_concurrency] by (simp add: worker_concurrency_def)

end
