(* ===== verification/Decay.thy ===== *)
theory Decay
  imports Memories
begin

text \<open>
  The decay job: the pure weight function and its constants (\<^verbatim>\<open>jobs/decay.py\<close>), the cooperative claim
  (\<^verbatim>\<open>jobs/claims.py\<close>), the batch as a graph of nodes (\<^verbatim>\<open>graphs/decay_graph.py\<close>), the drain loop with
  its record (\<^verbatim>\<open>run_decay_worker\<close>, \<^verbatim>\<open>RunStats\<close>). Row locks are a set of identifiers held by other
  transactions, which \<^verbatim>\<open>SKIP LOCKED\<close> steps over. Environment settings are at their defaults.
\<close>

section \<open>The weight function\<close>

definition half_life_days :: real where "half_life_days = 30"
definition damping_reference :: real where "damping_reference = 3"
definition decay_floor :: real where "decay_floor = 0.05"
definition archive_threshold :: real where "archive_threshold = 0.10"
definition batch_size :: nat where "batch_size = 50"
definition max_batches :: nat where "max_batches = 10000"

text \<open>The check at the end of the module: importing it raises unless this holds.\<close>

definition threshold_guard :: bool where
  "threshold_guard \<longleftrightarrow> \<not> archive_threshold \<le> decay_floor"

definition peak_weight :: "int \<Rightarrow> real" where
  "peak_weight n = min weight_max (1 + weight_increment * of_int (max 0 n))"

definition age_in_days :: "timestamp \<Rightarrow> timestamp \<Rightarrow> real" where
  "age_in_days accessed reference = max 0 (of_int (reference - accessed) / 1000000 / 86400)"

definition decay_weight :: "real \<Rightarrow> int \<Rightarrow> real option \<Rightarrow> real option \<Rightarrow> real option \<Rightarrow> real" where
  "decay_weight age n base_weight half_life low =
     (let base = (case base_weight of None \<Rightarrow> peak_weight n | Some b \<Rightarrow> b);
          hl = (case half_life of None \<Rightarrow> half_life_days | Some h \<Rightarrow> h);
          bottom = (case low of None \<Rightarrow> decay_floor | Some f \<Rightarrow> f)
      in if hl \<le> 0 then max bottom base
         else let effective = hl * (1 + of_int (max 0 n) / damping_reference)
              in max bottom (base * (1 / 2) powr (max 0 age / effective)))"

section \<open>The claim\<close>

record claimed_row =
  k_id :: uuid
  k_subject :: uuid
  k_weight :: real
  k_reinforced :: int
  k_accessed :: timestamp

definition from_row :: "'v mem \<Rightarrow> claimed_row" where
  "from_row m = \<lparr> k_id = m_id m, k_subject = m_subject m, k_weight = m_weight m,
     k_reinforced = m_reinforced m, k_accessed = m_accessed m \<rparr>"

definition eligible :: "uuid \<Rightarrow> uuid list option \<Rightarrow> 'v mem \<Rightarrow> bool" where
  "eligible run subjects m \<longleftrightarrow> m_deleted m = None \<and> m_archived m = None \<and> m_run m \<noteq> Some run \<and>
     (case subjects of None \<Rightarrow> True | Some ss \<Rightarrow> m_subject m \<in> set ss)"

definition stalest :: "'v mem \<Rightarrow> timestamp \<times> uuid" where
  "stalest m = (m_accessed m, m_id m)"

definition stamp :: "uuid \<Rightarrow> timestamp \<Rightarrow> 'v mem \<Rightarrow> 'v mem" where
  "stamp run now m = m \<lparr> m_run := Some run, m_claimed := Some now \<rparr>"

text \<open>The identifiers one claim takes: the stalest eligible rows nobody else has locked.\<close>

definition claim_ids :: "uuid set \<Rightarrow> uuid \<Rightarrow> nat \<Rightarrow> uuid list option \<Rightarrow> 'v tx \<Rightarrow> uuid list" where
  "claim_ids locked run n subjects t =
     map m_id (take n (sort_key stalest (select_rows (\<lambda>m. eligible run subjects m \<and> m_id m \<notin> locked) t)))"

definition claim_batch ::
  "uuid set \<Rightarrow> uuid \<Rightarrow> nat \<Rightarrow> uuid list option \<Rightarrow> 'v tx \<Rightarrow> claimed_row list \<times> 'v tx" where
  "claim_batch locked run n subjects t =
     (let ids = claim_ids locked run n subjects t;
          (rows, t1) = update_rows (\<lambda>m. m_id m \<in> set ids) (stamp run (x_now t)) t
      in (map from_row rows, t1))"

definition eligible_count :: "uuid \<Rightarrow> uuid list option \<Rightarrow> 'v tx \<Rightarrow> nat" where
  "eligible_count run subjects t = length (select_rows (eligible run subjects) t)"

section \<open>Computing and applying\<close>

record weight_update =
  u_id :: uuid
  u_old :: real
  u_new :: real
  u_archive :: bool

definition compute_update :: "timestamp \<Rightarrow> real \<Rightarrow> claimed_row \<Rightarrow> weight_update" where
  "compute_update reference cutoff r =
     (let w = decay_weight (age_in_days (k_accessed r) reference) (k_reinforced r) None None None
      in \<lparr> u_id = k_id r, u_old = k_weight r, u_new = w, u_archive = (w < cutoff) \<rparr>)"

definition compute_updates :: "timestamp \<Rightarrow> real option \<Rightarrow> claimed_row list \<Rightarrow> weight_update list" where
  "compute_updates reference threshold rows =
     map (compute_update reference (case threshold of None \<Rightarrow> archive_threshold | Some c \<Rightarrow> c)) rows"

definition new_weight :: "weight_update list \<Rightarrow> uuid \<Rightarrow> real option" where
  "new_weight us i = map_of (map (\<lambda>u. (u_id u, u_new u)) us) i"

definition apply_weights :: "weight_update list \<Rightarrow> 'v tx \<Rightarrow> uuid list \<times> 'v tx" where
  "apply_weights us t =
     (if us = [] then ([], t)
      else let (rows, t1) = update_rows (\<lambda>m. new_weight us (m_id m) \<noteq> None \<and> m_deleted m = None)
                 (\<lambda>m. m \<lparr> m_weight := (case new_weight us (m_id m) of Some w \<Rightarrow> w | None \<Rightarrow> m_weight m) \<rparr>) t
           in (map m_id rows, t1))"

definition archive_rows :: "uuid list \<Rightarrow> 'v tx \<Rightarrow> uuid list \<times> 'v tx" where
  "archive_rows is t =
     (if is = [] then ([], t)
      else let (rows, t1) = update_rows (\<lambda>m. m_id m \<in> set is \<and> m_archived m = None \<and> m_deleted m = None)
                 (\<lambda>m. m \<lparr> m_archived := Some (x_now t) \<rparr>) t
           in (map m_id rows, t1))"

definition archive_row :: "uuid \<Rightarrow> 'v tx \<Rightarrow> bool \<times> 'v tx" where
  "archive_row i t = (let (is, t1) = archive_rows [i] t in (is \<noteq> [], t1))"

section \<open>The graph\<close>

text \<open>What a batch did: rows claimed, decayed and archived, the change of weight, the extreme new weights.\<close>

record batch_stats =
  bs_claimed :: nat
  bs_decayed :: nat
  bs_archived :: nat
  bs_delta :: real
  bs_min :: "real option"
  bs_max :: "real option"

record decay_state =
  g_claimed :: "claimed_row list"
  g_claimed_ids :: "uuid list"
  g_updates :: "weight_update list"
  g_decayed :: "uuid list"
  g_candidates :: "uuid list"
  g_archived :: "uuid list"
  g_stats :: "batch_stats option"

definition decay_initial :: decay_state where
  "decay_initial = \<lparr> g_claimed = [], g_claimed_ids = [], g_updates = [], g_decayed = [],
     g_candidates = [], g_archived = [], g_stats = None \<rparr>"

definition claim_node :: "uuid set \<Rightarrow> uuid \<Rightarrow> nat \<Rightarrow> uuid list option \<Rightarrow> decay_state \<times> 'v tx \<Rightarrow> decay_state \<times> 'v tx" where
  "claim_node locked run n subjects st =
     (let (rows, t) = claim_batch locked run n subjects (snd st)
      in ((fst st) \<lparr> g_claimed := rows, g_claimed_ids := map k_id rows \<rparr>, t))"

text \<open>Without a time of its own the code reads the clock of its host; the model reads the transaction's, so
  the two clocks are taken to agree. Weights are exact, where the column stores single precision.\<close>

definition compute_node :: "timestamp option \<Rightarrow> decay_state \<times> 'v tx \<Rightarrow> decay_state \<times> 'v tx" where
  "compute_node now st =
     ((fst st) \<lparr> g_updates := compute_updates (case now of Some r \<Rightarrow> r | None \<Rightarrow> x_now (snd st)) None
         (g_claimed (fst st)) \<rparr>, snd st)"

definition apply_node :: "decay_state \<times> 'v tx \<Rightarrow> decay_state \<times> 'v tx" where
  "apply_node st = (let (is, t) = apply_weights (g_updates (fst st)) (snd st) in ((fst st) \<lparr> g_decayed := is \<rparr>, t))"

definition archive_node :: "decay_state \<times> 'v tx \<Rightarrow> decay_state \<times> 'v tx" where
  "archive_node st =
     (let candidates = map u_id (filter u_archive (g_updates (fst st)));
          (is, t) = archive_rows candidates (snd st)
      in ((fst st) \<lparr> g_candidates := candidates, g_archived := is \<rparr>, t))"

definition extreme :: "(real \<Rightarrow> real \<Rightarrow> real) \<Rightarrow> real list \<Rightarrow> real option" where
  "extreme f xs = (case xs of [] \<Rightarrow> None | y # ys \<Rightarrow> Some (fold f ys y))"

definition stats_node :: "decay_state \<times> 'v tx \<Rightarrow> decay_state \<times> 'v tx" where
  "stats_node st =
     (let us = g_updates (fst st)
      in ((fst st) \<lparr> g_stats := Some
            \<lparr> bs_claimed = length (g_claimed_ids (fst st)), bs_decayed = length (g_decayed (fst st)),
              bs_archived = length (g_archived (fst st)),
              bs_delta = py_round 6 (sum_list (map (\<lambda>u. u_new u - u_old u) us)),
              bs_min = extreme min (map u_new us), bs_max = extreme max (map u_new us) \<rparr> \<rparr>, snd st))"

text \<open>The edges: an empty claim goes to the end.\<close>

definition run_decay_batch ::
  "uuid set \<Rightarrow> uuid \<Rightarrow> nat \<Rightarrow> uuid list option \<Rightarrow> timestamp option \<Rightarrow> 'v tx \<Rightarrow> decay_state \<times> 'v tx" where
  "run_decay_batch locked run n subjects now t =
     (let st = claim_node locked run n subjects (decay_initial, t)
      in if g_claimed_ids (fst st) = [] then st
         else stats_node (archive_node (apply_node (compute_node now st))))"

section \<open>The drain loop\<close>

record run_stats =
  r_batches :: nat
  r_claimed :: nat
  r_decayed :: nat
  r_archived :: nat
  r_processed :: "uuid list"
  r_error :: "string option"

definition new_stats :: run_stats where
  "new_stats = \<lparr> r_batches = 0, r_claimed = 0, r_decayed = 0, r_archived = 0, r_processed = [], r_error = None \<rparr>"

text \<open>\<^verbatim>\<open>add_processed\<close> raises on a repeat, keeping what it had added before.\<close>

fun add_processed :: "uuid list \<Rightarrow> run_stats \<Rightarrow> bool \<times> run_stats" where
  "add_processed [] r = (True, r)"
| "add_processed (i # is) r =
     (if i \<in> set (r_processed r) then (False, r)
      else add_processed is (r \<lparr> r_processed := r_processed r @ [i] \<rparr>))"

definition repeat_error :: string where "repeat_error = ''RuntimeError''"
definition rail_error :: string where "rail_error = ''drain loop hit DECAY_MAX_BATCHES''"

definition count_batch :: "decay_state \<Rightarrow> run_stats \<Rightarrow> run_stats" where
  "count_batch st r = r \<lparr> r_batches := r_batches r + 1, r_claimed := r_claimed r + length (g_claimed_ids st),
     r_decayed := r_decayed r + length (g_decayed st), r_archived := r_archived r + length (g_archived st) \<rparr>"

text \<open>
  The loop over at most \<open>fuel\<close> batches, each a transaction of its own, at the times of \<open>clock\<close>. The
  outcome is \<^const>\<open>Inl\<close> when an exception is re-raised, with the record in both cases. The worker is
  alone on the table here; several workers are the step relation below.
\<close>

fun drain ::
  "nat \<Rightarrow> (nat \<Rightarrow> timestamp) \<Rightarrow> uuid \<Rightarrow> nat \<Rightarrow> uuid list option \<Rightarrow> timestamp option \<Rightarrow> run_stats \<Rightarrow> 'v db \<Rightarrow>
     (run_stats + run_stats) \<times> 'v db" where
  "drain 0 clock run n subjects now r d = (Inr (r \<lparr> r_error := Some rail_error \<rparr>), d)"
| "drain (Suc fuel) clock run n subjects now r d =
     (let (st, t) = run_decay_batch {} run n subjects now (admin_session (clock (r_batches r)) d)
      in if g_claimed_ids st = [] then (Inr r, x_db t)
         else (case add_processed (g_claimed_ids st) (count_batch st r) of
             (False, r1) \<Rightarrow> (Inl (r1 \<lparr> r_error := Some repeat_error \<rparr>), x_db t)
           | (True, r1) \<Rightarrow> drain fuel clock run n subjects now r1 (x_db t)))"

text \<open>The outcome label the record finishes with, and the record.\<close>

definition run_decay_worker ::
  "(nat \<Rightarrow> timestamp) \<Rightarrow> uuid \<Rightarrow> nat option \<Rightarrow> uuid list option \<Rightarrow> timestamp option \<Rightarrow> 'v db \<Rightarrow>
     (string \<times> run_stats) \<times> 'v db" where
  "run_decay_worker clock run per_batch subjects now d =
     (let n = (case per_batch of None \<Rightarrow> batch_size | Some k \<Rightarrow> k)
      in case drain max_batches clock run n subjects now new_stats d of
           (Inl r, d1) \<Rightarrow> ((''error'', r), d1)
         | (Inr r, d1) \<Rightarrow> ((''ok'', r), d1))"

section \<open>The weight function is sound\<close>

lemma peak_weight_bounds: "1 \<le> peak_weight n" "peak_weight n \<le> weight_max"
  by (simp_all add: peak_weight_def weight_max_def weight_increment_def)

lemma peak_weight_mono: "n \<le> n' \<Longrightarrow> peak_weight n \<le> peak_weight n'"
  by (auto simp: peak_weight_def weight_max_def weight_increment_def min_def max_def)

definition life :: "int \<Rightarrow> real" where
  "life n = half_life_days * (1 + of_int (max 0 n) / damping_reference)"

lemma life_pos: "0 < life n" and life_mono: "n \<le> n' \<Longrightarrow> life n \<le> life n'"
  by (simp_all add: life_def half_life_days_def damping_reference_def add_pos_nonneg)

lemma decay_weight_default:
  "decay_weight age n None None None = max decay_floor (peak_weight n * (1 / 2) powr (max 0 age / life n))"
  by (simp add: decay_weight_def life_def half_life_days_def)

lemma half_powr_antimono: "x \<le> y \<Longrightarrow> (1 / 2 :: real) powr y \<le> (1 / 2) powr x"
  by (rule powr_mono') auto

text \<open>The decayed weight is a sensible function of age and reinforcement: it lies between the floor
  and the peak of the memory; it starts at the peak; it falls as the memory ages and rises with
  reinforcement; above the floor it halves every effective half-life; and every memory that is not
  accessed again eventually falls below the archive threshold.
\<close>

lemma decay_weight_profile:
  "decay_floor \<le> decay_weight age n None None None \<and> decay_weight age n None None None \<le> peak_weight n \<and>
   (age \<le> 0 \<longrightarrow> decay_weight age n None None None = peak_weight n) \<and>
   (age \<le> age' \<longrightarrow> decay_weight age' n None None None \<le> decay_weight age n None None None) \<and>
   (n \<le> n' \<longrightarrow> decay_weight age n None None None \<le> decay_weight age n' None None None) \<and>
   (0 \<le> age \<longrightarrow> decay_weight (age + life n) n None None None =
      max decay_floor (peak_weight n * (1 / 2) powr (age / life n) / 2)) \<and>
   (\<exists>a. \<forall>b \<ge> a. decay_weight b n None None None < archive_threshold)"
proof -
  have p: "1 \<le> peak_weight n" "0 < life n" "decay_floor = 0.05" by (simp_all add: peak_weight_bounds life_pos decay_floor_def)
  have le1: "(1 / 2 :: real) powr (max 0 age / life n) \<le> 1"
    using half_powr_antimono[of 0 "max 0 age / life n"] p by simp
  then have "peak_weight n * (1 / 2) powr (max 0 age / life n) \<le> peak_weight n"
    using p by (simp add: mult_left_le)
  then have upper: "decay_weight age n None None None \<le> peak_weight n"
    unfolding decay_weight_default using p by simp
  have fresh: "age \<le> 0 \<longrightarrow> decay_weight age n None None None = peak_weight n"
    using p by (simp add: decay_weight_default)
  have older: "age \<le> age' \<longrightarrow> decay_weight age' n None None None \<le> decay_weight age n None None None"
  proof
    assume "age \<le> age'"
    then have "max 0 age / life n \<le> max 0 age' / life n" using p by (simp add: divide_right_mono)
    from half_powr_antimono[OF this] show "decay_weight age' n None None None \<le> decay_weight age n None None None"
      unfolding decay_weight_default using p by (meson max.mono mult_left_mono order_refl order_trans zero_le_one)
  qed
  have stronger: "n \<le> n' \<longrightarrow> decay_weight age n None None None \<le> decay_weight age n' None None None"
  proof
    assume le: "n \<le> n'"
    have "max 0 age / life n' \<le> max 0 age / life n"
      using life_mono[OF le] life_pos[of n] life_pos[of n'] by (simp add: frac_le)
    from half_powr_antimono[OF this] peak_weight_mono[OF le]
    have "peak_weight n * (1 / 2) powr (max 0 age / life n) \<le> peak_weight n' * (1 / 2) powr (max 0 age / life n')"
      using p by (intro mult_mono) auto
    then show "decay_weight age n None None None \<le> decay_weight age n' None None None"
      unfolding decay_weight_default by (meson max.mono order_refl)
  qed
  have halves: "0 \<le> age \<longrightarrow> decay_weight (age + life n) n None None None =
      max decay_floor (peak_weight n * (1 / 2) powr (age / life n) / 2)"
    using p by (auto simp: decay_weight_default add_divide_distrib powr_add)
  have "\<forall>b \<ge> 6 * life n. decay_weight b n None None None < archive_threshold"
  proof (intro allI impI)
    fix b assume b: "6 * life n \<le> b"
    then have "6 \<le> max 0 b / life n" using p by (simp add: le_divide_eq)
    from half_powr_antimono[OF this] have "(1 / 2) powr (max 0 b / life n) \<le> (1 / 2 :: real) powr 6" .
    also have "\<dots> = 1 / 64" using powr_realpow[of "1 / 2 :: real" 6] by (simp add: power_one_over)
    finally have "peak_weight n * (1 / 2) powr (max 0 b / life n) \<le> weight_max * (1 / 64)"
      using p peak_weight_bounds(2)[of n] by (intro mult_mono) auto
    also have "\<dots> < archive_threshold" by (simp add: weight_max_def archive_threshold_def)
    finally show "decay_weight b n None None None < archive_threshold"
      using p by (simp add: decay_weight_default archive_threshold_def)
  qed
  then have "\<exists>a. \<forall>b \<ge> a. decay_weight b n None None None < archive_threshold" by blast
  moreover have "decay_floor \<le> decay_weight age n None None None" by (simp add: decay_weight_default)
  ultimately show ?thesis using upper fresh older stronger halves by blast
qed

lemma decay_weight_profile_witness:
  "decay_weight 60 0 None None None \<le> decay_weight 30 0 None None None \<and>
   decay_weight 30 0 None None None \<le> decay_weight 30 3 None None None"
  using decay_weight_profile[of 30 0 60 3] by simp

section \<open>One batch in closed form\<close>

definition aged :: "timestamp \<Rightarrow> 'v mem \<Rightarrow> real" where
  "aged reference m = decay_weight (age_in_days (m_accessed m) reference) (m_reinforced m) None None None"

definition decayed :: "uuid \<Rightarrow> timestamp \<Rightarrow> timestamp \<Rightarrow> 'v mem \<Rightarrow> 'v mem" where
  "decayed run now reference m = m \<lparr> m_run := Some run, m_claimed := Some now, m_weight := aged reference m,
     m_archived := (if aged reference m < archive_threshold then Some now else m_archived m) \<rparr>"

lemma map_of_key: "distinct (map k xs) \<Longrightarrow> map_of (map (\<lambda>x. (k x, f x)) xs) i =
    map_option f (find (\<lambda>x. k x = i) xs)"
  by (induction xs) auto

lemma filter_find: "distinct (map k xs) \<Longrightarrow> x \<in> set xs \<Longrightarrow> P x \<Longrightarrow> find (\<lambda>y. k y = k x) (filter P xs) = Some x"
  by (induction xs) (auto simp: image_iff)

lemma claim_ids_props:
  assumes ok: "db_ok (x_db t)" and owner: "x_role t = Owner"
  shows "m \<in> set (d_mems (x_db t)) \<Longrightarrow> m_id m \<in> set (claim_ids locked run n subjects t) \<Longrightarrow>
      eligible run subjects m \<and> m_id m \<notin> locked"
    "i \<in> set (claim_ids locked run n subjects t) \<Longrightarrow> i \<in> ids (x_db t)"
    "distinct (claim_ids locked run n subjects t)"
    "length (claim_ids locked run n subjects t) =
      min n (length (filter (\<lambda>m. eligible run subjects m \<and> m_id m \<notin> locked) (d_mems (x_db t))))"
proof -
  let ?P = "\<lambda>m. eligible run subjects m \<and> m_id m \<notin> locked"
  have sel: "select_rows ?P t = filter ?P (d_mems (x_db t))" by (simp add: select_rows_def owner)
  have sub: "\<exists>m' \<in> set (d_mems (x_db t)). ?P m' \<and> m_id m' = i" if "i \<in> set (claim_ids locked run n subjects t)" for i
    using that unfolding claim_ids_def sel by (auto dest!: in_set_takeD)
  show "m \<in> set (d_mems (x_db t)) \<Longrightarrow> m_id m \<in> set (claim_ids locked run n subjects t) \<Longrightarrow> ?P m"
    using sub[of "m_id m"] row_eq[OF ok] by (metis option.inject)
  show "i \<in> set (claim_ids locked run n subjects t) \<Longrightarrow> i \<in> ids (x_db t)" using sub by (auto simp: ids_def)
  have "distinct (map m_id (filter ?P (d_mems (x_db t))))"
    using ok by (simp add: db_ok_def distinct_map_filter)
  then have "distinct (map m_id (sort_key stalest (filter ?P (d_mems (x_db t)))))"
    using mset_eq_imp_distinct_iff[of "map m_id (sort_key stalest (filter ?P (d_mems (x_db t))))"
        "map m_id (filter ?P (d_mems (x_db t)))"] by simp
  then show "distinct (claim_ids locked run n subjects t)"
    unfolding claim_ids_def sel take_map[symmetric] by simp
  show "length (claim_ids locked run n subjects t) = min n (length (filter ?P (d_mems (x_db t))))"
    unfolding claim_ids_def sel by simp
qed

lemma update_rows_owner:
  assumes "x_role t = Owner"
  shows "fst (update_rows P f t) = map f (filter P (d_mems (x_db t)))"
    "snd (update_rows P f t) = t \<lparr> x_db := (x_db t) \<lparr> d_mems := map (\<lambda>m. if P m then f m else m) (d_mems (x_db t)) \<rparr> \<rparr>"
  by (simp_all add: update_rows_def select_rows_def update_table_def assms)

lemma with_mems_self: "t \<lparr> x_db := (x_db t) \<lparr> d_mems := d_mems (x_db t) \<rparr> \<rparr> = t"
  by simp

lemma apply_weights_owner:
  assumes "x_role t = Owner"
  shows "apply_weights us t =
    (map m_id (filter (\<lambda>m. new_weight us (m_id m) \<noteq> None \<and> m_deleted m = None) (d_mems (x_db t))),
     t \<lparr> x_db := (x_db t) \<lparr> d_mems := map (\<lambda>m. if new_weight us (m_id m) \<noteq> None \<and> m_deleted m = None
        then m \<lparr> m_weight := (case new_weight us (m_id m) of Some w \<Rightarrow> w | None \<Rightarrow> m_weight m) \<rparr> else m) (d_mems (x_db t)) \<rparr> \<rparr>)"
proof (cases "us = []")
  case True
  then show ?thesis by (simp add: apply_weights_def new_weight_def)
next
  case False
  then show ?thesis
    by (simp add: apply_weights_def Let_def split_beta update_rows_owner[OF assms] comp_def)
qed

lemma archive_rows_owner:
  assumes "x_role t = Owner"
  shows "archive_rows is t =
    (map m_id (filter (\<lambda>m. m_id m \<in> set is \<and> m_archived m = None \<and> m_deleted m = None) (d_mems (x_db t))),
     t \<lparr> x_db := (x_db t) \<lparr> d_mems := map (\<lambda>m. if m_id m \<in> set is \<and> m_archived m = None \<and> m_deleted m = None
        then m \<lparr> m_archived := Some (x_now t) \<rparr> else m) (d_mems (x_db t)) \<rparr> \<rparr>)"
proof (cases "is = []")
  case True
  then show ?thesis by (simp add: archive_rows_def)
next
  case False
  then show ?thesis
    by (simp add: archive_rows_def Let_def split_beta update_rows_owner[OF assms] comp_def)
qed

lemma claim_batch_owner:
  assumes "x_role t = Owner"
  shows "claim_batch locked run n subjects t =
    (let is = claim_ids locked run n subjects t
     in (map (\<lambda>m. from_row (stamp run (x_now t) m)) (filter (\<lambda>m. m_id m \<in> set is) (d_mems (x_db t))),
         t \<lparr> x_db := (x_db t) \<lparr> d_mems := map (\<lambda>m. if m_id m \<in> set is then stamp run (x_now t) m else m) (d_mems (x_db t)) \<rparr> \<rparr>))"
  by (simp add: claim_batch_def Let_def split_beta update_rows_owner[OF assms] comp_def)

text \<open>The three statements on one row: what the batch does to a claimed row.\<close>

lemma filter_map_on:
  assumes "\<And>x. x \<in> set xs \<Longrightarrow> P (f x) = Q x" "\<And>x. x \<in> set xs \<Longrightarrow> k (f x) = k x"
  shows "map k (filter P (map f xs)) = map k (filter Q xs)"
  using assms by (induction xs) simp_all

lemma batch_effect:
  fixes t :: "'v tx"
  assumes ok: "db_ok (x_db t)" and owner: "x_role t = Owner"
    and is_def: "is = claim_ids locked run n subjects t"
    and reference: "reference = (case now of Some r \<Rightarrow> r | None \<Rightarrow> x_now t)"
    and mine_def: "mine = filter (\<lambda>m. m_id m \<in> set is) (d_mems (x_db t))"
  shows "g_claimed_ids (fst (run_decay_batch locked run n subjects now t)) = map m_id mine \<and>
    x_db (snd (run_decay_batch locked run n subjects now t)) = (x_db t)
       \<lparr> d_mems := map (\<lambda>m. if m_id m \<in> set is then decayed run (x_now t) reference m else m) (d_mems (x_db t)) \<rparr> \<and>
    (mine \<noteq> [] \<longrightarrow> g_decayed (fst (run_decay_batch locked run n subjects now t)) = map m_id mine \<and>
       g_archived (fst (run_decay_batch locked run n subjects now t)) =
         map m_id (filter (\<lambda>m. aged reference m < archive_threshold) mine))"
proof -
  let ?ms = "d_mems (x_db t)" and ?now = "x_now t"
  define us where "us = map (\<lambda>m. \<lparr> u_id = m_id m, u_old = m_weight m, u_new = aged reference m, u_archive = (aged reference m < archive_threshold) \<rparr>) mine"
  define low where "low = map m_id (filter (\<lambda>m. aged reference m < archive_threshold) mine)"
  define row1 where "row1 = (\<lambda>m :: 'v mem. if m_id m \<in> set is then stamp run ?now m else m)"
  define row2 where "row2 = (\<lambda>m :: 'v mem. if m_id m \<in> set is then (stamp run ?now m) \<lparr> m_weight := aged reference m \<rparr> else m)"
  define row3 where "row3 = (\<lambda>m :: 'v mem. if m_id m \<in> set is then decayed run ?now reference m else m)"
  have el: "m_deleted m = None \<and> m_archived m = None" if "m \<in> set ?ms" "m_id m \<in> set is" for m
    using claim_ids_props(1)[OF ok owner, of m locked run n subjects] that by (auto simp: is_def eligible_def)
  have dist: "distinct (map m_id ?ms)" using ok by (simp add: db_ok_def)
  have us: "compute_updates reference None (map (\<lambda>m. from_row (stamp run ?now m)) mine) = us"
    by (simp add: us_def compute_updates_def compute_update_def from_row_def stamp_def aged_def comp_def Let_def)
  have nw: "new_weight us (m_id m) = (if m_id m \<in> set is then Some (aged reference m) else None)" if "m \<in> set ?ms" for m
  proof -
    have "new_weight us (m_id m) = map_option (aged reference) (find (\<lambda>x. m_id x = m_id m) mine)"
      using map_of_key[of m_id mine "aged reference" "m_id m"] dist
      by (simp add: us_def new_weight_def comp_def mine_def distinct_map_filter)
    moreover have "find (\<lambda>x. m_id x = m_id m) mine = (if m_id m \<in> set is then Some m else None)"
      using filter_find[OF dist that, of "\<lambda>m. m_id m \<in> set is"] by (auto simp: mine_def find_None_iff)
    ultimately show ?thesis by simp
  qed
  have in_low: "m_id m \<in> set low \<longleftrightarrow> m_id m \<in> set is \<and> aged reference m < archive_threshold" if "m \<in> set ?ms" for m
    using that dist by (auto simp: low_def mine_def dest: inj_onD[OF distinct_map[THEN iffD1, THEN conjunct2]])
  have low: "map u_id (filter u_archive us) = low" by (simp add: us_def low_def filter_map comp_def)
  define t1 where "t1 = t \<lparr> x_db := (x_db t) \<lparr> d_mems := map row1 ?ms \<rparr> \<rparr>"
  define t2 where "t2 = t \<lparr> x_db := (x_db t) \<lparr> d_mems := map row2 ?ms \<rparr> \<rparr>"
  have claim: "claim_batch locked run n subjects t = (map (\<lambda>m. from_row (stamp run ?now m)) mine, t1)"
    unfolding claim_batch_owner[OF owner] by (simp add: is_def[symmetric] mine_def t1_def row1_def Let_def)
  have apply_us: "apply_weights us t1 = (map m_id mine, t2)"
  proof -
    have "map m_id (filter (\<lambda>m. new_weight us (m_id m) \<noteq> None \<and> m_deleted m = None) (map row1 ?ms)) = map m_id mine"
      unfolding mine_def by (rule filter_map_on) (use nw el in \<open>auto simp: row1_def stamp_def\<close>)
    moreover have "map (\<lambda>m. if new_weight us (m_id m) \<noteq> None \<and> m_deleted m = None
        then m \<lparr> m_weight := (case new_weight us (m_id m) of Some w \<Rightarrow> w | None \<Rightarrow> m_weight m) \<rparr> else m) (map row1 ?ms) = map row2 ?ms"
      unfolding map_map comp_def by (rule map_cong) (use nw el in \<open>auto simp: row1_def row2_def stamp_def\<close>)
    ultimately show ?thesis using apply_weights_owner[of t1 us] owner by (simp add: t1_def t2_def)
  qed
  have archive: "archive_rows low t2 = (low, t \<lparr> x_db := (x_db t) \<lparr> d_mems := map row3 ?ms \<rparr> \<rparr>)"
  proof -
    have "map m_id (filter (\<lambda>m. m_id m \<in> set low \<and> m_archived m = None \<and> m_deleted m = None) (map row2 ?ms)) =
        map m_id (filter (\<lambda>m. m_id m \<in> set is \<and> aged reference m < archive_threshold) ?ms)"
      by (rule filter_map_on) (use in_low el in \<open>auto simp: row2_def stamp_def\<close>)
    moreover have "\<dots> = low" by (simp add: low_def mine_def conj_commute)
    moreover have "map (\<lambda>m. if m_id m \<in> set low \<and> m_archived m = None \<and> m_deleted m = None
        then m \<lparr> m_archived := Some ?now \<rparr> else m) (map row2 ?ms) = map row3 ?ms"
      unfolding map_map comp_def
      by (rule map_cong) (use in_low el in \<open>auto simp: row2_def row3_def stamp_def decayed_def\<close>)
    moreover have t2: "x_role t2 = Owner" "x_now t2 = ?now" "d_mems (x_db t2) = map row2 ?ms"
      by (simp_all add: t2_def owner)
    ultimately show ?thesis unfolding archive_rows_owner[OF t2(1)] t2(2,3) by (simp only:) (simp add: t2_def)
  qed
  have k: "map k_id (map (\<lambda>m. from_row (stamp run ?now m)) mine) = map m_id mine"
    by (simp add: from_row_def stamp_def)
  define s1 where "s1 = decay_initial \<lparr> g_claimed := map (\<lambda>m. from_row (stamp run ?now m)) mine, g_claimed_ids := map m_id mine \<rparr>"
  have n1: "claim_node locked run n subjects (decay_initial, t) = (s1, t1)"
    unfolding claim_node_def snd_conv fst_conv claim Let_def prod.case k s1_def ..
  have now1: "x_now t1 = ?now" by (simp add: t1_def)
  have n2: "compute_node now (s1, t1) = (s1 \<lparr> g_updates := us \<rparr>, t1)"
    unfolding compute_node_def fst_conv snd_conv now1 reference[symmetric] by (simp add: s1_def us)
  have n3: "apply_node (s1 \<lparr> g_updates := us \<rparr>, t1) = (s1 \<lparr> g_updates := us, g_decayed := map m_id mine \<rparr>, t2)"
    by (simp add: apply_node_def apply_us)
  have n4: "archive_node (s1 \<lparr> g_updates := us, g_decayed := map m_id mine \<rparr>, t2) =
      (s1 \<lparr> g_updates := us, g_decayed := map m_id mine, g_candidates := low, g_archived := low \<rparr>,
       t \<lparr> x_db := (x_db t) \<lparr> d_mems := map row3 ?ms \<rparr> \<rparr>)"
    by (simp add: archive_node_def low archive)
  show ?thesis
  proof (cases "mine = []")
    case True
    then have "m_id m \<notin> set is" if "m \<in> set ?ms" for m
      using that by (auto simp: mine_def filter_empty_conv)
    then have "map row1 ?ms = ?ms" "map row3 ?ms = ?ms" by (auto simp: row1_def row3_def intro!: map_idI)
    then show ?thesis using True unfolding row3_def[symmetric]
      by (simp add: run_decay_batch_def n1 s1_def t1_def)
  next
    case False
    then have run: "run_decay_batch locked run n subjects now t =
        stats_node (archive_node (apply_node (compute_node now (s1, t1))))"
      by (simp add: run_decay_batch_def n1 s1_def)
    then show ?thesis using False unfolding row3_def[symmetric] run n2 n3 n4
      by (simp add: stats_node_def s1_def low_def)
  qed
qed

section \<open>Draining the table\<close>

lemma add_processed_ok:
  "distinct is \<Longrightarrow> set is \<inter> set (r_processed r) = {} \<Longrightarrow>
    add_processed is r = (True, r \<lparr> r_processed := r_processed r @ is \<rparr>)"
  by (induction "is" arbitrary: r) auto

definition todo :: "uuid \<Rightarrow> uuid list option \<Rightarrow> 'v db \<Rightarrow> 'v mem list" where
  "todo run subjects d = filter (eligible run subjects) (d_mems d)"

text \<open>The claim's time stamps left out, so that rows of different batches compare.\<close>

definition undated :: "'v mem \<Rightarrow> 'v mem" where
  "undated m = m \<lparr> m_claimed := None, m_archived := map_option (\<lambda>_. 0) (m_archived m) \<rparr>"

lemma not_eligible_decayed: "\<not> eligible run subjects (decayed run now reference m)"
  by (simp add: eligible_def decayed_def)

lemma batch_step:
  assumes ok: "db_ok d" and n: "0 < n"
    and t_def: "t = admin_session now0 d"
    and is_def: "is = claim_ids {} run n subjects t"
    and res_def: "res = run_decay_batch {} run n subjects (Some reference) t"
    and ks_def: "ks = g_claimed_ids (fst res)"
  shows "distinct ks \<and> length ks = min n (length (todo run subjects d)) \<and>
    set ks \<subseteq> m_id ` set (todo run subjects d) \<and>
    d_mems (x_db (snd res)) = map (\<lambda>m. if m_id m \<in> set ks then decayed run now0 reference m else m) (d_mems d) \<and>
    todo run subjects (x_db (snd res)) = filter (\<lambda>m. m_id m \<notin> set ks) (todo run subjects d) \<and>
    length (todo run subjects (x_db (snd res))) = length (todo run subjects d) - n \<and>
    d_audits (x_db (snd res)) = d_audits d \<and> db_ok (x_db (snd res))"
proof -
  define mine where "mine = filter (\<lambda>m. m_id m \<in> set is) (d_mems d)"
  have t: "db_ok (x_db t)" "x_role t = Owner" "x_db t = d" "x_now t = now0" using ok by (simp_all add: t_def)
  note props = claim_ids_props[where locked = "{}" and run = run and n = n and subjects = subjects, OF t(1,2), folded is_def, unfolded t(3)]
  have eff: "g_claimed_ids (fst res) = map m_id mine"
    "x_db (snd res) = d \<lparr> d_mems := map (\<lambda>m. if m_id m \<in> set is then decayed run now0 reference m else m) (d_mems d) \<rparr>"
    using batch_effect[OF t(1,2), of "is" "{}" run n subjects reference "Some reference" mine] t(3,4)
    by (simp_all add: is_def res_def mine_def)
  have dist: "distinct (map m_id (d_mems d))" using ok by (simp add: db_ok_def)
  have set: "m_id ` set mine = set is" using props(2) by (force simp: mine_def ids_def)
  have dm: "distinct (map m_id mine)" using dist by (simp add: mine_def distinct_map_filter)
  have len: "length (map m_id mine) = length is"
    using distinct_card[OF dm] distinct_card[OF props(3)] set by simp
  have lis: "length is = min n (length (todo run subjects d))" using props(4) by (simp add: todo_def)
  have mine: "mine = filter (\<lambda>m. m_id m \<in> set is) (todo run subjects d)"
    unfolding mine_def todo_def filter_filter by (rule filter_cong) (use props(1) in auto)
  have todo': "todo run subjects (x_db (snd res)) = filter (\<lambda>m. m_id m \<notin> set is) (todo run subjects d)"
  proof -
    have "filter (eligible run subjects) (map (\<lambda>m. if m_id m \<in> set is then decayed run now0 reference m else m) xs) =
        filter (\<lambda>m. m_id m \<notin> set is) (filter (eligible run subjects) xs)" for xs
      by (induction xs) (auto simp: not_eligible_decayed)
    then show ?thesis by (simp add: todo_def eff(2))
  qed
  have "length mine + length (filter (\<lambda>m. m_id m \<notin> set is) (todo run subjects d)) = length (todo run subjects d)"
    unfolding mine by (rule sum_length_filter_compl)
  then have lt: "length (todo run subjects (x_db (snd res))) = length (todo run subjects d) - n"
    unfolding todo' using len lis by simp
  have "set is \<subseteq> m_id ` set (todo run subjects d)" using set mine by auto
  moreover have "map m_id (d_mems (x_db (snd res))) = map m_id (d_mems d)"
    unfolding eff(2) by (simp add: decayed_def)
  then have "db_ok (x_db (snd res))"
    using ok db_ok_same_ids[of "map (\<lambda>m. if m_id m \<in> set is then decayed run now0 reference m else m) (d_mems d)" d]
    unfolding eff(2) by simp
  ultimately show ?thesis using eff set dm len lis todo' lt by (simp add: ks_def)
qed

lemma undated_decayed: "undated (decayed run now reference m) = undated (decayed run now' reference m)"
  by (simp add: undated_def decayed_def)

lemma drain_spec:
  assumes "db_ok d" "0 < n" "set (r_processed r) \<inter> m_id ` set (todo run subjects d) = {}"
  shows "\<exists>r' d' ps. drain fuel clock run n subjects (Some reference) r d = (Inr r', d') \<and>
     r_processed r' = r_processed r @ ps \<and> distinct ps \<and> set ps \<subseteq> m_id ` set (todo run subjects d) \<and>
     length ps = min (fuel * n) (length (todo run subjects d)) \<and>
     r_error r' = (if 0 < fuel \<and> length (todo run subjects d) \<le> (fuel - 1) * n then r_error r else Some rail_error) \<and>
     map undated (d_mems d') = map (\<lambda>m. undated (if m_id m \<in> set ps then decayed run 0 reference m else m)) (d_mems d) \<and>
     d_audits d' = d_audits d"
  using assms
proof (induction fuel arbitrary: r d)
  case (Suc fuel)
  let ?t = "admin_session (clock (r_batches r)) d"
  let ?is = "claim_ids {} run n subjects ?t"
  define res where "res = run_decay_batch {} run n subjects (Some reference) ?t"
  define ks where ks: "ks = g_claimed_ids (fst res)"
  define d1 where "d1 = x_db (snd res)"
  note step = batch_step[OF Suc.prems(1,2), of ?t "clock (r_batches r)" ?is run subjects res reference, OF refl refl res_def ks,
      folded d1_def]
  show ?case
  proof (cases "todo run subjects d = []")
    case True
    then have none: "ks = []" using step by auto
    then have "drain (Suc fuel) clock run n subjects (Some reference) r d = (Inr r, d1)"
      by (simp add: split_beta res_def[symmetric] ks[symmetric] d1_def[symmetric])
    moreover have "d_mems d1 = d_mems d" "d_audits d1 = d_audits d" using step none by simp_all
    ultimately show ?thesis using True by simp
  next
    case False
    then have "length ks \<noteq> 0" using step Suc.prems(2) by simp
    then have some: "ks \<noteq> []" by simp
    define r1 where "r1 = (count_batch (fst res) r) \<lparr> r_processed := r_processed r @ ks \<rparr>"
    have todo1: "todo run subjects d1 = filter (\<lambda>m. m_id m \<notin> set ks) (todo run subjects d)"
      "length (todo run subjects d1) = length (todo run subjects d) - n"
      "length ks = min n (length (todo run subjects d))" "distinct ks" "set ks \<subseteq> m_id ` set (todo run subjects d)"
      "d_mems d1 = map (\<lambda>m. if m_id m \<in> set ks then decayed run (clock (r_batches r)) reference m else m) (d_mems d)"
      "d_audits d1 = d_audits d" "db_ok d1"
      using step by blast+
    have "set ks \<inter> set (r_processed (count_batch (fst res) r)) = {}"
      using todo1(5) Suc.prems(3) by (simp add: count_batch_def) blast
    then have add: "add_processed ks (count_batch (fst res) r) = (True, r1)"
      using add_processed_ok[OF todo1(4)] by (simp add: r1_def count_batch_def)
    have run1: "drain (Suc fuel) clock run n subjects (Some reference) r d =
        drain fuel clock run n subjects (Some reference) r1 d1"
      using some add by (simp add: split_beta res_def[symmetric] ks[symmetric] d1_def[symmetric])
    have "set (r_processed r1) \<inter> m_id ` set (todo run subjects d1) = {}"
      using Suc.prems(3) unfolding todo1(1) r1_def by auto
    from Suc.IH[OF todo1(8) Suc.prems(2) this] obtain r' d' ps where
      ih: "drain fuel clock run n subjects (Some reference) r1 d1 = (Inr r', d')"
        "r_processed r' = r_processed r1 @ ps" "distinct ps" "set ps \<subseteq> m_id ` set (todo run subjects d1)"
        "length ps = min (fuel * n) (length (todo run subjects d1))"
        "r_error r' = (if 0 < fuel \<and> length (todo run subjects d1) \<le> (fuel - 1) * n then r_error r1 else Some rail_error)"
        "map undated (d_mems d') = map (\<lambda>m. undated (if m_id m \<in> set ps then decayed run 0 reference m else m)) (d_mems d1)"
        "d_audits d' = d_audits d1" by blast
    have disj: "set ks \<inter> set ps = {}" using ih(4) unfolding todo1(1) by auto
    have rows: "map undated (d_mems d') =
        map (\<lambda>m. undated (if m_id m \<in> set (ks @ ps) then decayed run 0 reference m else m)) (d_mems d)"
      unfolding ih(7) todo1(6) map_map comp_def
    proof (rule map_cong)
      fix m assume "m \<in> set (d_mems d)"
      have i: "m_id (decayed run now reference m) = m_id m" for now by (simp add: decayed_def)
      show "undated (if m_id (if m_id m \<in> set ks then decayed run (clock (r_batches r)) reference m else m) \<in> set ps
            then decayed run 0 reference (if m_id m \<in> set ks then decayed run (clock (r_batches r)) reference m else m)
            else if m_id m \<in> set ks then decayed run (clock (r_batches r)) reference m else m) =
          undated (if m_id m \<in> set (ks @ ps) then decayed run 0 reference m else m)"
        using disj undated_decayed[of run "clock (r_batches r)" reference m 0] by (auto simp: i)
    qed simp
    have pos: "0 < length (todo run subjects d)" using False by simp
    have err: "(0 < fuel \<and> length (todo run subjects d1) \<le> (fuel - 1) * n) \<longleftrightarrow> length (todo run subjects d) \<le> fuel * n"
      unfolding todo1(2) using pos by (cases fuel) auto
    have len: "length (ks @ ps) = min (Suc fuel * n) (length (todo run subjects d))"
      using todo1(2,3) ih(5) by (auto simp: min_def)
    show ?thesis
    proof (intro exI conjI)
      show "drain (Suc fuel) clock run n subjects (Some reference) r d = (Inr r', d')" using run1 ih(1) by simp
      show "r_processed r' = r_processed r @ (ks @ ps)" using ih(2) by (simp add: r1_def)
      show "distinct (ks @ ps)" using disj ih(3) todo1(4) by simp
      show "set (ks @ ps) \<subseteq> m_id ` set (todo run subjects d)" using ih(4) todo1(5) unfolding todo1(1) by auto
      show "r_error r' = (if 0 < Suc fuel \<and> length (todo run subjects d) \<le> (Suc fuel - 1) * n then r_error r else Some rail_error)"
        unfolding ih(6) err by (simp add: r1_def count_batch_def)
      show "d_audits d' = d_audits d" using ih(8) todo1(7) by simp
    qed (fact len rows)+
  qed
qed simp

lemma decay_run_spec:
  assumes "db_ok d" "0 < n"
  shows "case run_decay_worker clock run (Some n) subjects (Some reference) d of
    ((outcome, r), d') \<Rightarrow>
      outcome = ''ok'' \<and> distinct (r_processed r) \<and> set (r_processed r) \<subseteq> m_id ` set (todo run subjects d) \<and>
      map undated (d_mems d') =
        map (\<lambda>m. undated (if m_id m \<in> set (r_processed r) then decayed run 0 reference m else m)) (d_mems d) \<and>
      (if length (todo run subjects d) \<le> (max_batches - 1) * n
       then r_error r = None \<and> mset (r_processed r) = mset (map m_id (todo run subjects d))
       else r_error r = Some rail_error \<and> length (r_processed r) = min (max_batches * n) (length (todo run subjects d)))"
proof -
  have "set (r_processed new_stats) \<inter> m_id ` set (todo run subjects d) = {}" by (simp add: new_stats_def)
  from drain_spec[OF assms this, of max_batches clock reference] obtain r d' ps where
    s: "drain max_batches clock run n subjects (Some reference) new_stats d = (Inr r, d')"
      "r_processed r = ps" "distinct ps" "set ps \<subseteq> m_id ` set (todo run subjects d)"
      "length ps = min (max_batches * n) (length (todo run subjects d))"
      "r_error r = (if 0 < max_batches \<and> length (todo run subjects d) \<le> (max_batches - 1) * n then r_error new_stats else Some rail_error)"
      "map undated (d_mems d') = map (\<lambda>m. undated (if m_id m \<in> set ps then decayed run 0 reference m else m)) (d_mems d)"
    by (auto simp: new_stats_def)
  have all: "mset ps = mset (map m_id (todo run subjects d))" if "length (todo run subjects d) \<le> (max_batches - 1) * n"
  proof -
    have dm: "distinct (map m_id (todo run subjects d))"
      using assms(1) by (simp add: todo_def db_ok_def distinct_map_filter)
    have "length (todo run subjects d) \<le> max_batches * n" using that by (simp add: max_batches_def)
    then have "length ps = length (map m_id (todo run subjects d))" using s(5) by simp
    then have "card (set ps) = card (set (map m_id (todo run subjects d)))"
      using distinct_card[OF dm] distinct_card[OF s(3)] by simp
    then have "set ps = set (map m_id (todo run subjects d))"
      using card_subset_eq[of "set (map m_id (todo run subjects d))" "set ps"] s(4) by simp
    then show ?thesis using set_eq_iff_mset_eq_distinct[OF s(3) dm] by simp
  qed
  have "run_decay_worker clock run (Some n) subjects (Some reference) d = ((''ok'', r), d')"
    by (simp add: run_decay_worker_def s(1))
  then show ?thesis using s all by (auto simp: new_stats_def max_batches_def)
qed

text \<open>C22. A decay run handles every eligible memory exactly once and changes nothing else. With a fixed
  reference time, the run ends normally; the identifiers it processed are distinct and eligible. When
  the eligible rows fit into one batch less than the rail allows, the record has no error, every
  eligible row has been processed, and the table is the old one with exactly those rows given the
  weight of their age, archived if that is below the threshold (the claim's time stamps aside).
  When they do not fit, the rail's error is in the record, yet the outcome is still \<^verbatim>\<open>ok\<close>.
\<close>

theorem decay_run_exactly_once:
  assumes "db_ok d" "0 < n"
  shows "case run_decay_worker clock run (Some n) subjects (Some reference) d of
    ((outcome, r), d') \<Rightarrow>
      outcome = ''ok'' \<and> distinct (r_processed r) \<and> set (r_processed r) \<subseteq> m_id ` set (todo run subjects d) \<and>
      map undated (d_mems d') =
        map (\<lambda>m. undated (if m_id m \<in> set (r_processed r) then decayed run 0 reference m else m)) (d_mems d) \<and>
      (if length (todo run subjects d) \<le> (max_batches - 1) * n
       then r_error r = None \<and> mset (r_processed r) = mset (map m_id (todo run subjects d))
       else r_error r = Some rail_error \<and> length (r_processed r) = min (max_batches * n) (length (todo run subjects d)))"
  using assms by (rule decay_run_spec)

theorem decay_run_exactly_once_witness:
  "case run_decay_worker (\<lambda>_. 7) ''run'' (Some 50) None (Some 7) ex_db of
    ((outcome, r), d') \<Rightarrow> r_error r = None \<and> mset (r_processed r) = mset (map m_id (todo ''run'' None ex_db))"
proof -
  have "length (todo ''run'' None ex_db) \<le> (max_batches - 1) * 50"
    using length_filter_le[of "eligible ''run'' None" "d_mems ex_db"] by (simp add: todo_def ex_db_def max_batches_def)
  then show ?thesis
    using decay_run_exactly_once[where n = 50 and clock = "\<lambda>_. 7" and run = "''run''" and subjects = None and reference = 7, OF ex_db_ok] by (auto split: prod.splits)
qed

text \<open>A row without what a run stamps on it.\<close>

definition settled :: "'v mem \<Rightarrow> 'v mem" where
  "settled m = (undated m) \<lparr> m_run := None \<rparr>"

lemma settled_undated: "undated m = undated m' \<Longrightarrow> settled m = settled m'"
  by (simp add: settled_def)

lemma eligible_undated: "undated m = undated m' \<Longrightarrow> eligible run subjects m = eligible run subjects m'"
proof -
  assume u: "undated m = undated m'"
  have f: "m_deleted (undated x) = m_deleted x" "m_run (undated x) = m_run x" "m_subject (undated x) = m_subject x"
    "m_archived (undated x) = None \<longleftrightarrow> m_archived x = None" for x :: "'a mem"
    by (simp_all add: undated_def)
  show ?thesis unfolding eligible_def using f[of m] f[of m'] u by metis
qed

lemma decay_row_idem:
  assumes "m_run m \<noteq> Some run" "once = (if eligible run subjects m then decayed run 0 reference m else m)"
  shows "settled (if eligible run' subjects once then decayed run' 0 reference once else once) = settled once"
proof (cases "eligible run subjects m")
  case True
  then have once: "once = decayed run 0 reference m" using assms(2) by simp
  show ?thesis
  proof (cases "eligible run' subjects once")
    case True
    then have "m_archived once = None" by (simp add: eligible_def)
    moreover have "aged reference once = aged reference m" by (simp add: once aged_def decayed_def)
    ultimately show ?thesis
      using True by (simp add: once decayed_def settled_def undated_def split: if_splits)
  qed simp
next
  case False
  then have "\<not> eligible run' subjects m" using assms(1) by (auto simp: eligible_def)
  then show ?thesis using False assms(2) by simp
qed

lemma decayed_undated: "undated m = undated m' \<Longrightarrow> undated (decayed run 0 reference m) = undated (decayed run 0 reference m')"
proof -
  assume "undated m = undated m'"
  then have "decayed run 0 reference (undated m) = decayed run 0 reference (undated m')" by simp
  moreover have "undated (decayed run 0 reference x) = undated (decayed run 0 reference (undated x))" for x :: "'a mem"
    by (cases "m_archived x") (simp_all add: undated_def decayed_def aged_def)
  ultimately show ?thesis by metis
qed

lemma aged_bounds: "1 / 20 \<le> aged reference m" "aged reference m \<le> 5"
proof -
  let ?n = "m_reinforced m" and ?age = "age_in_days (m_accessed m) reference"
  have "(1 / 2 :: real) powr (max 0 ?age / life ?n) \<le> 1"
    using half_powr_antimono[of 0 "max 0 ?age / life ?n"] life_pos[of ?n] by simp
  then have "peak_weight ?n * (1 / 2) powr (max 0 ?age / life ?n) \<le> peak_weight ?n"
    using peak_weight_bounds(1)[of ?n] by (intro mult_left_le) auto
  then show "1 / 20 \<le> aged reference m" "aged reference m \<le> 5"
    using peak_weight_bounds(2)[of ?n] by (simp_all add: aged_def decay_weight_default decay_floor_def weight_max_def)
qed

lemma row_ok_decayed: "row_ok m \<Longrightarrow> row_ok (decayed run now reference m)"
  using aged_bounds[of reference m] by (simp add: row_ok_def decayed_def)

lemma evolves_decayed: "m_deleted m = None \<Longrightarrow> evolves ed m (decayed run now reference m)"
  unfolding evolves_def using row_ok_decayed[of m run now reference] by (simp, simp add: decayed_def)

lemma batch_grows:
  assumes "db_ok d"
  shows "grows ed Owner d (x_db (snd (run_decay_batch locked run n subjects now (admin_session now0 d))))"
proof -
  let ?t = "admin_session now0 d"
  let ?is = "claim_ids locked run n subjects ?t"
  let ?ref = "case now of Some r \<Rightarrow> r | None \<Rightarrow> now0"
  have ok: "db_ok (x_db ?t)" "x_role ?t = Owner" using assms by simp_all
  let ?g = "\<lambda>m. if m_id m \<in> set ?is then decayed run now0 ?ref m else m"
  have ref: "?ref = (case now of Some r \<Rightarrow> r | None \<Rightarrow> x_now ?t)" by (cases now) simp_all
  have eff: "x_db (snd (run_decay_batch locked run n subjects now ?t)) = d \<lparr> d_mems := map ?g (d_mems d) \<rparr>"
    using batch_effect[OF ok refl ref refl, of locked run n subjects] by simp
  have "evolves_for ed Owner m (?g m)" if "m \<in> set (d_mems d)" for m
    using claim_ids_props(1)[OF ok, of m locked run n subjects] that
    by (simp add: evolves_for_def evolves_decayed eligible_def)
  then have "list_all2 (evolves_for ed Owner) (d_mems d) (map ?g (d_mems d))"
    by (simp add: list_all2_map2 list.rel_refl_strong)
  moreover have "map m_id (map ?g (d_mems d)) = map m_id (d_mems d)" by (simp add: decayed_def)
  then have "db_ok (d \<lparr> d_mems := map ?g (d_mems d) \<rparr>)"
    using assms db_ok_same_ids[of "map ?g (d_mems d)" d] by blast
  ultimately show ?thesis unfolding eff
    by (intro growsI[where old = "map ?g (d_mems d)" and new = "[]" and as = "[]"]) simp_all
qed

lemma drain_grows: "db_ok d \<Longrightarrow> grows ed Owner d (snd (drain fuel clock run n subjects now r d))"
proof (induction fuel arbitrary: r d)
  case (Suc fuel)
  let ?res = "run_decay_batch {} run n subjects now (admin_session (clock (r_batches r)) d)"
  have g: "grows ed Owner d (x_db (snd ?res))" by (rule batch_grows[OF Suc.prems])
  then have "db_ok (x_db (snd ?res))" using Suc.prems by (simp add: grows_def)
  note ih = grows_trans[OF g Suc.IH[OF this]]
  show ?case using g ih by (simp add: split_beta split: bool.split)
qed simp

lemma run_decay_worker_grows: "db_ok d \<Longrightarrow> grows ed Owner d (snd (run_decay_worker clock run k subjects now d))"
proof -
  have "snd (run_decay_worker clock run k subjects now d) =
      snd (drain max_batches clock run (case k of None \<Rightarrow> batch_size | Some j \<Rightarrow> j) subjects now new_stats d)"
    by (simp add: run_decay_worker_def Let_def split: prod.split sum.split)
  then show "db_ok d \<Longrightarrow> ?thesis" using drain_grows by metis
qed

lemma decay_run_rows:
  assumes "db_ok d" "0 < n" "length (todo run subjects d) \<le> (max_batches - 1) * n"
  shows "map undated (d_mems (snd (run_decay_worker clock run (Some n) subjects (Some reference) d))) =
    map (\<lambda>m. undated (if eligible run subjects m then decayed run 0 reference m else m)) (d_mems d)"
proof -
  obtain r d' where run: "run_decay_worker clock run (Some n) subjects (Some reference) d = r" "snd r = d'" by simp
  have spec: "mset (r_processed (snd (fst r))) = mset (map m_id (todo run subjects d))"
    "map undated (d_mems d') = map (\<lambda>m. undated (if m_id m \<in> set (r_processed (snd (fst r))) then decayed run 0 reference m else m)) (d_mems d)"
    using decay_run_spec[where clock = clock and run = run and subjects = subjects and reference = reference, OF assms(1,2)] assms(3) unfolding run(1) run(2)[symmetric]
    by (auto simp: split_beta)
  have "m_id m \<in> set (r_processed (snd (fst r))) \<longleftrightarrow> eligible run subjects m" if "m \<in> set (d_mems d)" for m
  proof -
    have "set (r_processed (snd (fst r))) = m_id ` set (todo run subjects d)"
      using spec(1) by (metis list.set_map set_mset_mset)
    then show ?thesis using that row_eq[OF assms(1)] by (auto simp: todo_def) (metis option.inject)
  qed
  then have "map undated (d_mems d') = map (\<lambda>m. undated (if eligible run subjects m then decayed run 0 reference m else m)) (d_mems d)"
    unfolding spec(2) by (intro map_cong) auto
  then show ?thesis using run by simp
qed

text \<open>C23. Decay is idempotent. Running the job a second time under another run identifier, with the same
  reference time, leaves every memory as the first run left it: weight, archival and everything else
  but the stamps of the run itself. (The first run identifier is fresh, and both runs fit the rail.)
\<close>

theorem decay_idempotent:
  assumes ok: "db_ok d" "0 < n" and fresh: "list_all (\<lambda>m. m_run m \<noteq> Some run) (d_mems d)"
    and fits: "length (d_mems d) \<le> (max_batches - 1) * n"
  shows "let d1 = snd (run_decay_worker clock run (Some n) subjects (Some reference) d);
             d2 = snd (run_decay_worker clock' run' (Some n) subjects (Some reference) d1)
    in map settled (d_mems d2) = map settled (d_mems d1)"
proof -
  define d1 where "d1 = snd (run_decay_worker clock run (Some n) subjects (Some reference) d)"
  define d2 where "d2 = snd (run_decay_worker clock' run' (Some n) subjects (Some reference) d1)"
  let ?once = "\<lambda>m. if eligible run subjects m then decayed run 0 reference m else m"
  let ?twice = "\<lambda>m. if eligible run' subjects m then decayed run' 0 reference m else m"
  have ok1: "db_ok d1" unfolding d1_def by (rule grows_db_ok[OF run_decay_worker_grows[OF ok(1), of "{}"] ok(1)])
  have short: "length (todo x subjects d0) \<le> length (d_mems d0)" for x d0 by (simp add: todo_def)
  have 1: "map undated (d_mems d1) = map (\<lambda>m. undated (?once m)) (d_mems d)"
    unfolding d1_def by (rule decay_run_rows[OF ok order_trans[OF short fits]])
  have len: "length (d_mems d1) = length (d_mems d)" using arg_cong[OF 1, of length] by simp
  have 2: "map undated (d_mems d2) = map (\<lambda>m. undated (?twice m)) (d_mems d1)"
    unfolding d2_def by (rule decay_run_rows[OF ok1 ok(2) order_trans[OF short fits[folded len]]])
  have len2: "length (d_mems d2) = length (d_mems d1)" using arg_cong[OF 2, of length] by simp
  have "settled (d_mems d2 ! i) = settled (d_mems d1 ! i)" if i: "i < length (d_mems d1)" for i
  proof -
    have u1: "undated (d_mems d1 ! i) = undated (?once (d_mems d ! i))"
      using arg_cong[OF 1, of "\<lambda>xs. xs ! i"] i len by simp
    have u2: "undated (d_mems d2 ! i) = undated (?twice (d_mems d1 ! i))"
      using arg_cong[OF 2, of "\<lambda>xs. xs ! i"] i len2 by simp
    have "m_run (d_mems d ! i) \<noteq> Some run" using fresh i len by (simp add: list_all_length)
    then have "settled (?twice (?once (d_mems d ! i))) = settled (?once (d_mems d ! i))"
      using decay_row_idem by blast
    moreover have "settled (?twice (d_mems d1 ! i)) = settled (?twice (?once (d_mems d ! i)))"
      by (rule settled_undated) (simp add: eligible_undated[OF u1] decayed_undated[OF u1] u1)
    ultimately show ?thesis using settled_undated[OF u1] settled_undated[OF u2] by simp
  qed
  then have "map settled (d_mems d2) = map settled (d_mems d1)" using len2 by (simp add: list_eq_iff_nth_eq)
  then show ?thesis by (simp add: d1_def d2_def Let_def)
qed

theorem decay_idempotent_witness:
  "let d1 = snd (run_decay_worker (\<lambda>_. 7) ''one'' (Some 50) None (Some 7) ex_db);
       d2 = snd (run_decay_worker (\<lambda>_. 8) ''two'' (Some 50) None (Some 7) d1)
   in map settled (d_mems d2) = map settled (d_mems d1)"
  by (rule decay_idempotent[OF ex_db_ok]) (simp_all add: ex_store max_batches_def)

end
