(* ===== verification/Governance.thy ===== *)
theory Governance
  imports Memories Identity
begin

text \<open>
  The governance endpoints (\<^verbatim>\<open>api/memories.py\<close>, \<^verbatim>\<open>api/governance.py\<close>): the curated view, the soft
  delete, the edit and the export. A handler that uses several transactions takes the database
  through them in order; what other transactions do in between is a function on the database, an
  argument of the handler, as are the timestamps of its transactions. The embedding provider is a parameter.
\<close>

section \<open>Ownership and serialisation\<close>

definition ensure_owned :: "uuid \<Rightarrow> uuid \<Rightarrow> bool \<Rightarrow> 'v tx \<Rightarrow> 'v mem http" where
  "ensure_owned memory_id subject require_live t =
     (case select_rows (\<lambda>m. m_id m = memory_id) t of
        [] \<Rightarrow> Inl 404
      | m # _ \<Rightarrow>
          if m_subject m \<noteq> subject then Inl 403
          else if require_live \<and> m_deleted m \<noteq> None then Inl 404
          else Inr m)"

record memory_view =
  v_id :: uuid
  v_subject :: uuid
  v_actor :: uuid
  v_content :: string
  v_source :: "string option"
  v_importance :: "real option"
  v_confidence :: "real option"
  v_weight :: real
  v_reinforced :: int
  v_created :: timestamp
  v_updated :: timestamp
  v_accessed :: timestamp
  v_attribute :: "string option"
  v_superseded :: bool
  v_superseded_at :: "timestamp option"
  v_superseded_by :: "uuid option"
  v_deleted :: "(bool \<times> timestamp option) option"

definition serialize_memory :: "bool \<Rightarrow> 'v mem \<Rightarrow> memory_view" where
  "serialize_memory include_deleted_marker m =
     \<lparr> v_id = m_id m, v_subject = m_subject m, v_actor = m_actor m, v_content = m_content m,
       v_source = m_source m, v_importance = m_importance m, v_confidence = m_confidence m,
       v_weight = m_weight m, v_reinforced = m_reinforced m, v_created = m_created m,
       v_updated = m_updated m, v_accessed = m_accessed m, v_attribute = m_attribute m,
       v_superseded = (m_superseded m \<noteq> None), v_superseded_at = m_superseded m,
       v_superseded_by = m_superseded_by m,
       v_deleted = (if include_deleted_marker then Some (m_deleted m \<noteq> None, m_deleted m) else None) \<rparr>"

section \<open>\<^verbatim>\<open>GET /memories/me\<close>\<close>

definition max_page_size :: int where "max_page_size = 500"

definition newest_first :: "'v mem \<Rightarrow> timestamp \<times> uuid" where
  "newest_first m = (- m_created m, m_id m)"

text \<open>The body and the total-count header; the bounds on the parameters are the framework's 422.\<close>

definition list_my_memories ::
  "identity \<Rightarrow> int \<Rightarrow> int \<Rightarrow> timestamp \<Rightarrow> bool \<Rightarrow> 'v db \<Rightarrow> (nat \<times> memory_view list) http" where
  "list_my_memories who limit offset now k d =
     (if limit < 1 \<or> max_page_size < limit \<or> offset < 0 then Inl 422
      else let t = session (i_subject who) (i_actor who) now k d;
               live_rows = select_rows (\<lambda>m. m_subject m = i_subject who \<and> m_deleted m = None) t
           in Inr (length live_rows,
                map (serialize_memory False)
                  (take (nat limit) (drop (nat offset) (sort_key newest_first live_rows)))))"

section \<open>\<^verbatim>\<open>DELETE /memories/{id}\<close>\<close>

definition stamp_deleted :: "timestamp \<Rightarrow> 'v mem \<Rightarrow> 'v mem" where
  "stamp_deleted now m = m \<lparr> m_deleted := Some now, m_updated := now \<rparr>"

text \<open>The last transaction of the handler: the guarded update and its audit row.\<close>

definition delete_commit :: "uuid \<Rightarrow> identity \<Rightarrow> timestamp \<Rightarrow> bool \<Rightarrow> 'v db \<Rightarrow> timestamp http \<times> 'v db" where
  "delete_commit memory_id who now k d =
     (let t = session (i_subject who) (i_actor who) now k d;
          (rows, t1) = update_rows (\<lambda>m. m_id m = memory_id \<and> m_subject m = i_subject who \<and> m_deleted m = None)
                         (stamp_deleted now) t
      in case rows of
           [] \<Rightarrow> (Inl 404, d)
         | m # _ \<Rightarrow>
             (let (_, t2) = write_audit (i_subject who) (i_actor who) Delete (Some memory_id) SoftDelete False t1
              in (Inr now, x_db t2)))"

definition delete_memory ::
  "string \<Rightarrow> identity \<Rightarrow> timestamp \<Rightarrow> timestamp \<Rightarrow> bool \<Rightarrow> ('v db \<Rightarrow> 'v db) \<Rightarrow> ('v db \<Rightarrow> 'v db) \<Rightarrow> 'v db \<Rightarrow> timestamp http \<times> 'v db" where
  "delete_memory raw who now0 now k env1 env2 d =
     (case as_uuid raw of
        Inl e \<Rightarrow> (Inl e, d)
      | Inr memory_id \<Rightarrow>
          (case ensure_owned memory_id (i_subject who) True (session (i_subject who) (i_actor who) now0 k d) of
             Inl e \<Rightarrow> (Inl e, d)
           | Inr _ \<Rightarrow>
               (let (_, d2) = invalidate_summaries_for (i_subject who) (i_actor who) memory_id
                                ''source_deleted'' now0 (env1 d)
                in delete_commit memory_id who now k (env2 d2))))"

section \<open>\<^verbatim>\<open>PATCH /memories/{id}\<close>\<close>

definition edit :: "string \<Rightarrow> 'v \<Rightarrow> timestamp \<Rightarrow> 'v mem \<Rightarrow> 'v mem" where
  "edit content v now m = m \<lparr> m_content := content, m_embedding := Some v, m_updated := now \<rparr>"

definition patch_commit ::
  "uuid \<Rightarrow> string \<Rightarrow> string \<Rightarrow> 'v \<Rightarrow> identity \<Rightarrow> timestamp \<Rightarrow> bool \<Rightarrow> 'v db \<Rightarrow> memory_view http \<times> 'v db" where
  "patch_commit memory_id before content v who now k d =
     (let t = session (i_subject who) (i_actor who) now k d in
      case ensure_owned memory_id (i_subject who) True t of
        Inl e \<Rightarrow> (Inl e, d)
      | Inr _ \<Rightarrow>
          (let (rows, t1) = update_rows
                 (\<lambda>m. m_id m = memory_id \<and> m_subject m = i_subject who \<and> m_deleted m = None)
                 (edit content v now) t
           in case rows of
                [] \<Rightarrow> (Inl 404, d)
              | m # _ \<Rightarrow>
                  (let (_, t2) = write_audit (i_subject who) (i_actor who) Update (Some memory_id)
                                   (Edited (length before) (length content)) False t1
                   in (Inr (serialize_memory False m), x_db t2))))"

definition patch_memory ::
  "(string \<Rightarrow> 'v option) \<Rightarrow> string \<Rightarrow> string \<Rightarrow> identity \<Rightarrow> timestamp \<Rightarrow> timestamp \<Rightarrow> bool \<Rightarrow>
     ('v db \<Rightarrow> 'v db) \<Rightarrow> ('v db \<Rightarrow> 'v db) \<Rightarrow> 'v db \<Rightarrow> memory_view http \<times> 'v db" where
  "patch_memory embedder raw text who now0 now k env1 env2 d =
     (case as_uuid raw of
        Inl e \<Rightarrow> (Inl e, d)
      | Inr memory_id \<Rightarrow>
          (let content = strip text in
           if content = [] then (Inl 422, d)
           else case ensure_owned memory_id (i_subject who) True (session (i_subject who) (i_actor who) now0 k d) of
              Inl e \<Rightarrow> (Inl e, d)
            | Inr before \<Rightarrow>
                (case embedder content of
                   None \<Rightarrow> (Inl 502, d)
                 | Some v \<Rightarrow>
                     (let (_, d2) = invalidate_summaries_for (i_subject who) (i_actor who) memory_id
                                      ''source_edited'' now0 (env1 d)
                      in patch_commit memory_id (m_content before) content v who now k (env2 d2)))))"

section \<open>\<^verbatim>\<open>GET /memories/export\<close>\<close>

record feedback =
  fb_subject :: uuid
  fb_memory :: "uuid option"
  fb_signal :: string
  fb_comment :: "string option"
  fb_created :: timestamp

record export =
  e_memories :: "memory_view list"
  e_audits :: "audit list"
  e_feedback :: "feedback list"
  e_counts :: "nat \<times> nat \<times> nat \<times> nat \<times> nat"
  e_truncated :: "string list"

definition oldest_first :: "'v mem \<Rightarrow> timestamp \<times> uuid" where
  "oldest_first m = (m_created m, m_id m)"

definition export_my_data ::
  "identity \<Rightarrow> int \<Rightarrow> feedback list \<Rightarrow> timestamp \<Rightarrow> bool \<Rightarrow> 'v db \<Rightarrow> export http \<times> 'v db" where
  "export_my_data who row_cap fb now k d =
     (if row_cap < 1 then (Inl 422, d)
      else let cap = nat row_cap;
               s = i_subject who;
               t = session s (i_actor who) now k d;
               memories = map (serialize_memory True)
                 (take cap (sort_key oldest_first (select_rows (\<lambda>m. m_subject m = s) t)));
               audits = take cap (sort_key a_at
                 (filter (\<lambda>a. audit_visible (x_role t) a \<and> a_subject a = s) (d_audits d)));
               feedback_rows = take cap (sort_key fb_created (filter (\<lambda>f. fb_subject f = s) fb));
               deleted = (\<lambda>m. case v_deleted m of Some (b, _) \<Rightarrow> b | None \<Rightarrow> False);
               counts = (length memories, length (filter deleted memories),
                 length (filter (\<lambda>m. \<not> deleted m) memories), length audits, length feedback_rows);
               (_, t1) = write_audit s (i_actor who) Export None
                 (case counts of (a, b, c, e, f) \<Rightarrow> ExportCounts a b c e f cap) False t
           in (Inr \<lparr> e_memories = memories, e_audits = audits, e_feedback = feedback_rows, e_counts = counts,
                     e_truncated = (if length memories \<ge> cap then [''memories''] else []) @
                       (if length audits \<ge> cap then [''audit_log''] else []) @
                       (if length feedback_rows \<ge> cap then [''feedback''] else []) \<rparr>, x_db t1))"

section \<open>The handlers stay within their rights\<close>

lemma frame_add_audit: "audit_visible (x_role t) x \<Longrightarrow> frame ed t (add_audit x t)"
  unfolding frame_def
  by (intro conjI add_audit_simps, rule growsI[where old = "d_mems (x_db t)" and new = "[]" and as = "[x]"])
    (simp_all add: db_ok_cong[of "x_db (add_audit x t)" "x_db t"])

interpretation owner_audit: governed "\<lambda>r. r = Owner" ed "audit_stale_owner s a reason src"
  by unfold_locales (simp add: audit_stale_owner_def frame_add_audit)

lemma invalidate_grows: "grows ed Owner d (snd (invalidate_summaries_for s a src reason now d))"
proof -
  let ?t = "admin_session now d"
  let ?u = "snd (update_rows (summarises (\<lambda>m. m_subject m = s) src s ?t) (make_stale now) ?t)"
  have "frame ed ?t ?u" by (rule frame_update) (auto simp: summarises_def evolves_make_stale)
  then have "frame ed ?t (snd (run_each (audit_stale_owner s a reason src) cs ?u))" for cs
    by (rule owner_audit.then_each[rotated]) simp
  then show ?thesis by (simp add: frame_def invalidate_summaries_for_def split_beta Let_def)
qed

lemma evolves_stamp: "m_deleted m = None \<Longrightarrow> evolves ed m (stamp_deleted now m)"
  by (simp add: evolves_def stamp_deleted_def row_ok_def)

lemma evolves_edit: "m_deleted m = None \<Longrightarrow> m_id m \<in> ed \<Longrightarrow> evolves ed m (edit content v now m)"
  by (simp add: evolves_def edit_def row_ok_def)

abbreviation role_of :: "identity \<Rightarrow> role" where
  "role_of who \<equiv> App (i_subject who) (i_actor who)"

abbreviation deletable :: "uuid \<Rightarrow> identity \<Rightarrow> 'v mem \<Rightarrow> bool" where
  "deletable i who m \<equiv> m_id m = i \<and> m_subject m = i_subject who \<and> m_deleted m = None"

lemma frame_update_audit:
  assumes "\<And>m. visible (x_role t) m \<Longrightarrow> P m \<Longrightarrow> evolves ed m (f m)" "x_role t = App s a"
  shows "frame ed t (snd (write_audit s a act i meta rep (snd (update_rows P f t))))"
proof -
  have "frame ed t (snd (update_rows P f t))" using assms(1) by (rule frame_update)
  then show ?thesis using frame_own_audit[of "snd (update_rows P f t)" s a] assms(2) frame_trans by fastforce
qed

lemma delete_commit_grows: "grows ed (role_of who) d (snd (delete_commit i who now k d))"
proof -
  let ?t = "session (i_subject who) (i_actor who) now k d"
  have "frame ed ?t (snd (write_audit (i_subject who) (i_actor who) Delete (Some i) SoftDelete False
      (snd (update_rows (deletable i who) (stamp_deleted now) ?t))))"
    by (rule frame_update_audit) (simp_all add: evolves_stamp)
  then show ?thesis
    by (simp add: delete_commit_def Let_def split_beta frame_def split: list.split)
qed

lemma patch_commit_grows: "grows {i} (role_of who) d (snd (patch_commit i before content v who now k d))"
proof -
  let ?t = "session (i_subject who) (i_actor who) now k d"
  have "frame {i} ?t (snd (write_audit (i_subject who) (i_actor who) Update (Some i)
      (Edited (length before) (length content)) False
      (snd (update_rows (deletable i who) (edit content v now) ?t))))"
    by (rule frame_update_audit) (simp_all add: evolves_edit)
  then show ?thesis
    by (simp add: patch_commit_def Let_def split_beta frame_def split: list.split sum.split)
qed

text \<open>The one row a key selects.\<close>

lemma filter_key:
  assumes "distinct (map m_id ms)"
  shows "filter (\<lambda>m. m_id m = i \<and> P m) ms = (case find (\<lambda>m. m_id m = i) ms of
     None \<Rightarrow> [] | Some m \<Rightarrow> if P m then [m] else [])"
  using assms
proof (induction ms)
  case (Cons m ms)
  have "filter (\<lambda>n. m_id n = m_id m \<and> P n) ms = []"
  proof -
    have "m_id m \<notin> m_id ` set ms" using Cons.prems by simp
    then have "\<forall>n \<in> set ms. m_id n \<noteq> m_id m" by (metis image_eqI)
    then show ?thesis by (simp add: filter_empty_conv)
  qed
  then show ?case using Cons by auto
qed simp

lemma select_key:
  assumes "db_ok (x_db t)"
  shows "select_rows (\<lambda>m. m_id m = i \<and> P m) t = (case row (x_db t) i of
     None \<Rightarrow> [] | Some m \<Rightarrow> if visible (x_role t) m \<and> P m then [m] else [])"
proof -
  have "select_rows (\<lambda>m. m_id m = i \<and> P m) t = filter (\<lambda>m. m_id m = i \<and> (visible (x_role t) m \<and> P m)) (d_mems (x_db t))"
    unfolding select_rows_def by (rule filter_cong) auto
  then show ?thesis using filter_key assms by (auto simp: row_def db_ok_def)
qed

lemma select_key': "db_ok (x_db t) \<Longrightarrow> select_rows (\<lambda>m. m_id m = i) t = (case row (x_db t) i of
     None \<Rightarrow> [] | Some m \<Rightarrow> if visible (x_role t) m then [m] else [])"
  using select_key[of t i "\<lambda>_. True"] by (simp only: simp_thms)

text \<open>Who may touch what: a session answers 404 for anything that is not its own live row; only the
  owner connection can tell 403.\<close>

lemma ensure_owned_session:
  assumes "db_ok d"
  shows "ensure_owned i s live_only (session s a now k d) =
    (case row d i of
       Some m \<Rightarrow> if m_subject m = s \<and> m_actor m = a \<and> (live_only \<longrightarrow> m_deleted m = None) then Inr m else Inl 404
     | None \<Rightarrow> Inl 404)"
  using select_key'[of "session s a now k d" i] assms
  by (auto simp: ensure_owned_def split: option.split)

lemma ensure_owned_owner:
  assumes "db_ok d"
  shows "ensure_owned i s live_only (admin_session now d) =
    (case row d i of
       Some m \<Rightarrow> if m_subject m \<noteq> s then Inl 403 else if live_only \<and> m_deleted m \<noteq> None then Inl 404 else Inr m
     | None \<Rightarrow> Inl 404)"
  using select_key'[of "admin_session now d" i] assms
  by (auto simp: ensure_owned_def split: option.split)

definition own_live_row :: "identity \<Rightarrow> uuid \<Rightarrow> 'v db \<Rightarrow> 'v mem option" where
  "own_live_row who i d = (case row d i of
     Some m \<Rightarrow> if m_subject m = i_subject who \<and> m_actor m = i_actor who \<and> m_deleted m = None then Some m else None
   | None \<Rightarrow> None)"

lemma delete_commit_eq:
  assumes "db_ok d"
  shows "delete_commit i who now k d =
    (case own_live_row who i d of
       None \<Rightarrow> (Inl 404, d)
     | Some _ \<Rightarrow> (Inr now, d \<lparr> d_mems := update_table (\<lambda>m. m_id m = i) (stamp_deleted now) (d_mems d),
          d_audits := d_audits d @ [\<lparr> a_subject = i_subject who, a_actor = i_actor who, a_memory = Some i,
             a_action = Delete, a_meta = SoftDelete, a_at = now \<rparr>] \<rparr>))"
proof (cases "own_live_row who i d")
  case None
  then show ?thesis
    using assms by (auto simp: delete_commit_def Let_def update_rows_def select_key own_live_row_def split: option.splits if_splits)
next
  case (Some m)
  let ?t = "session (i_subject who) (i_actor who) now k d"
  have m: "row d i = Some m" "m_subject m = i_subject who" "m_actor m = i_actor who" "m_deleted m = None"
    using Some by (auto simp: own_live_row_def split: option.splits if_splits)
  have sel: "select_rows (deletable i who) ?t = [m]" using assms m by (simp add: select_key)
  have "update_table (\<lambda>n. visible (x_role ?t) n \<and> deletable i who n) (stamp_deleted now) (d_mems d) =
      update_table (\<lambda>n. m_id n = i) (stamp_deleted now) (d_mems d)"
    unfolding update_table_def
  proof (rule map_cong)
    fix n assume n: "n \<in> set (d_mems d)"
    have "m_id n = i \<Longrightarrow> n = m" using row_eq[OF assms n] m(1) by auto
    then show "(if visible (x_role ?t) n \<and> deletable i who n then stamp_deleted now n else n) =
        (if m_id n = i then stamp_deleted now n else n)" using m by auto
  qed simp
  then show ?thesis
    using Some sel by (simp add: delete_commit_def Let_def update_rows_def write_audit_def session_def add_audit_def)
qed

lemma invalidate_mems:
  "d_mems (snd (invalidate_summaries_for s a src reason now d)) =
     update_table (summarises (\<lambda>m. m_subject m = s) src s (admin_session now d)) (make_stale now) (d_mems d)"
proof -
  have step: "d_mems (x_db (snd (audit_stale_owner s a reason src m u))) = d_mems (x_db u)" for m and u :: "'a tx"
    by (simp add: audit_stale_owner_def)
  show ?thesis
    unfolding invalidate_summaries_for_def
    using run_each_keeps[where h = "\<lambda>u. d_mems (x_db u)" and op = "audit_stale_owner s a reason src", OF step]
    by (simp add: split_beta Let_def update_rows_mems)
qed

definition retired_or_stale :: "'v mem \<Rightarrow> bool" where
  "retired_or_stale m \<longleftrightarrow> m_deleted m \<noteq> None \<or> m_stale m \<noteq> None"

lemma retired_or_stale_evolves: "evolves_for ed r m m' \<Longrightarrow> retired_or_stale m \<Longrightarrow> retired_or_stale m'"
  by (auto simp: retired_or_stale_def evolves_for_def evolves_def)

lemma row_update_table:
  "(\<And>m. m_id (f m) = m_id m) \<Longrightarrow> d_mems d' = update_table P f (d_mems d) \<Longrightarrow>
     row d' i = map_option (\<lambda>m. if P m then f m else m) (row d i)"
  unfolding row_def update_table_def using find_map_key[of "\<lambda>m. if P m then f m else m" i "d_mems d"] by simp

lemma invalidate_reaches:
  assumes "db_ok d" "row d i = Some src" "m_subject src = s" "m_into src = Some j" "row d j = Some n" "m_subject n = s"
  shows "\<exists>n'. row (snd (invalidate_summaries_for s a i reason now d)) j = Some n' \<and> retired_or_stale n'"
proof -
  have "summarises (\<lambda>m. m_subject m = s) i s (admin_session now d) n \<or> retired_or_stale n"
    using assms select_key[of "admin_session now d" i "\<lambda>m. m_subject m = s"] row_Some[OF assms(5)]
    by (auto simp: summarises_def retired_or_stale_def)
  then show ?thesis
    using row_update_table[OF _ invalidate_mems[of s a i reason now d], of j] assms(5)
    by (auto simp: make_stale_def retired_or_stale_def)
qed

section \<open>Properties of the endpoints\<close>

text \<open>A deletion happens once. After a delete has been committed, and whatever other transactions
  have done since, every further delete of the same memory, by whomever, answers 404 and leaves the
  database as it is; in particular it writes no second audit row.
\<close>

lemma delete_once:
  assumes "db_ok d" "delete_commit i who now k d = (Inr ts, d1)" "grows ed r d1 d2"
  shows "delete_commit i who' now' k' d2 = (Inl 404, d2)"
proof -
  obtain m where m: "own_live_row who i d = Some m"
    and d1: "d_mems d1 = update_table (\<lambda>m. m_id m = i) (stamp_deleted now) (d_mems d)"
    using assms(2) by (cases "own_live_row who i d") (auto simp: delete_commit_eq[OF assms(1)])
  have ok1: "db_ok d1" using delete_commit_grows[of "{}" who d i now k] grows_db_ok assms(1,2) by (metis snd_conv)
  have rm: "row d i = Some m" using m by (auto simp: own_live_row_def split: option.splits if_splits)
  have "row d1 i = Some (stamp_deleted now m)"
    using row_update_table[OF _ d1, of i] rm row_Some[OF rm] by (simp add: stamp_deleted_def)
  then obtain m' where m': "row d2 i = Some m'" "evolves_for ed r (stamp_deleted now m) m'"
    using grows_row_of[OF assms(3) ok1] by blast
  then have "m_deleted m' \<noteq> None" by (auto simp: evolves_for_def evolves_def stamp_deleted_def)
  then have "own_live_row who' i d2 = None" using m'(1) by (simp add: own_live_row_def)
  then show ?thesis using delete_commit_eq[OF grows_db_ok[OF assms(3) ok1]] by simp
qed

lemma delete_once_witness:
  "delete_commit ''m1'' \<lparr> i_subject = ''s'', i_actor = ''a'' \<rparr> 8 True
     (snd (delete_commit ''m1'' \<lparr> i_subject = ''s'', i_actor = ''a'' \<rparr> 7 True ex_db)) =
   (Inl 404, snd (delete_commit ''m1'' \<lparr> i_subject = ''s'', i_actor = ''a'' \<rparr> 7 True ex_db))"
proof -
  let ?w = "\<lparr> i_subject = ''s'', i_actor = ''a'' \<rparr>"
  have "fst (delete_commit ''m1'' ?w 7 True ex_db) = Inr 7"
    unfolding delete_commit_eq[OF ex_db_ok] by (simp add: own_live_row_def row_def ex_store)
  then show ?thesis
    using delete_once[OF ex_db_ok, of "''m1''" ?w 7 True 7 "snd (delete_commit ''m1'' ?w 7 True ex_db)" "{}" Owner]
    by (metis grows_refl prod.collapse)
qed

text \<open>C6. Erasure reaches the summaries. Let other transactions run before the invalidation and between
  the invalidation and the final update, as long as they only grow the database. If the delete
  reports success, the memory is soft-deleted with its text kept, and every summary of the subject,
  of whichever actor, into which the memory was folded when the invalidation ran is deleted or marked
  stale. If it reports an error, the error is 404, never 403.
\<close>

theorem erasure_reaches_summaries:
  assumes i: "as_uuid raw = Inr i" and ok: "db_ok d"
    and pre: "grows ed Owner d (pre d)" and post: "\<And>x. grows ed' Owner x (post x)"
    and src: "row (pre d) i = Some src" "m_into src = Some j" "row (pre d) j = Some n" "m_subject n = i_subject who"
  shows "(case delete_memory raw who before now k pre post d of
      (Inl e, _) \<Rightarrow> e = 404
    | (Inr ts, d') \<Rightarrow> ts = now \<and> (\<exists>m'. row d' i = Some m' \<and> m_deleted m' = Some now) \<and>
        (\<exists>n'. row d' j = Some n' \<and> retired_or_stale n'))"
proof (cases "own_live_row who i d")
  case None
  then show ?thesis
    using ensure_owned_session[OF ok, of i "i_subject who" True "i_actor who" before k]
    by (auto simp: delete_memory_def i own_live_row_def split: option.splits if_splits)
next
  case (Some m)
  let ?d2 = "snd (invalidate_summaries_for (i_subject who) (i_actor who) i ''source_deleted'' before (pre d))"
  have ok1: "db_ok (pre d)" by (rule grows_db_ok[OF pre ok])
  have ok2: "db_ok ?d2" by (rule grows_db_ok[OF invalidate_grows ok1])
  have ok3: "db_ok (post ?d2)" by (rule grows_db_ok[OF post ok2])
  have m: "row d i = Some m" "m_subject m = i_subject who" "m_actor m = i_actor who" "m_deleted m = None"
    using Some by (auto simp: own_live_row_def split: option.splits if_splits)
  obtain src' where "row (pre d) i = Some src'" "evolves_for ed Owner m src'"
    by (rule grows_row_of[OF pre ok m(1)])
  then have sub: "m_subject src = i_subject who" using src(1) m(2) by (simp add: evolves_for_def evolves_def)
  obtain n1 where n1: "row ?d2 j = Some n1" "retired_or_stale n1"
    using invalidate_reaches[OF ok1 src(1) sub src(2,3,4)] by blast
  obtain n2 where n2: "row (post ?d2) j = Some n2" "retired_or_stale n2"
    by (rule grows_row_of[OF post ok2 n1(1)]) (use n1(2) retired_or_stale_evolves in blast)
  let ?fin = "delete_commit i who now k (post ?d2)"
  obtain n3 where n3: "row (snd ?fin) j = Some n3" "retired_or_stale n3"
    by (rule grows_row_of[OF delete_commit_grows ok3 n2(1)]) (use n2(2) retired_or_stale_evolves in blast)
  have run: "delete_memory raw who before now k pre post d = ?fin"
    using ensure_owned_session[OF ok, of i "i_subject who" True "i_actor who" before k] m
    by (simp add: delete_memory_def i split_beta)
  show ?thesis
  proof (cases "own_live_row who i (post ?d2)")
    case None
    then show ?thesis unfolding run by (simp add: delete_commit_eq[OF ok3])
  next
    case (Some q)
    then have q: "row (post ?d2) i = Some q" by (auto simp: own_live_row_def split: option.splits if_splits)
    have "fst ?fin = Inr now" "d_mems (snd ?fin) = update_table (\<lambda>m. m_id m = i) (stamp_deleted now) (d_mems (post ?d2))"
      using Some by (simp_all add: delete_commit_eq[OF ok3])
    moreover from row_update_table[OF _ this(2), of i] q row_Some[OF q]
    have "row (snd ?fin) i = Some (stamp_deleted now q)" by (simp add: stamp_deleted_def)
    ultimately show ?thesis unfolding run using n3 by (cases ?fin) (simp add: stamp_deleted_def)
  qed
qed

text \<open>A memory folded into a summary that another actor wrote.\<close>

definition ex_id :: uuid where
  "ex_id = uuid_str 1"

definition ex_folded :: "real db" where
  "ex_folded = \<lparr> d_mems = [(ex_row_of ex_id ''The user prefers Java.'' 0 ''chat'' None) \<lparr> m_into := Some ''sum'' \<rparr>,
                           (ex_row_of ''sum'' ''The user likes Java and tea.'' 0 ''reflection'' None) \<lparr> m_actor := ''job'' \<rparr>],
                 d_audits = [], d_gen = (\<lambda>n. replicate (n + 40) CHR ''x''), d_next = 0 \<rparr>"

abbreviation ex_who :: identity where
  "ex_who \<equiv> \<lparr> i_subject = ''s'', i_actor = ''a'' \<rparr>"

lemma length_uuid_str [simp]: "length (uuid_str n) = 36"
  by (simp add: uuid_str_def Let_def)

lemma ex_id [simp]: "as_uuid ex_id = Inr ex_id" "length ex_id = 36"
  by (simp_all only: ex_id_def as_uuid_str length_uuid_str)

lemma ex_folded_rows:
  "row ex_folded ex_id = Some ((ex_row_of ex_id ''The user prefers Java.'' 0 ''chat'' None) \<lparr> m_into := Some ''sum'' \<rparr>)"
  "row ex_folded ''sum'' = Some ((ex_row_of ''sum'' ''The user likes Java and tea.'' 0 ''reflection'' None) \<lparr> m_actor := ''job'' \<rparr>)"
  "db_ok ex_folded"
proof -
  have u: "ex_id \<noteq> ''sum''" 
  proof
    assume "ex_id = ''sum''"
    then have "length ''sum'' = 36" using ex_id(2) by metis
    then show False by simp
  qed
  have r: "replicate (n + 40) CHR ''x'' \<noteq> ex_id" for n
  proof
    assume "replicate (n + 40) CHR ''x'' = ex_id"
    then have "n + 40 = 36" using ex_id(2) by (metis length_replicate)
    then show False by simp
  qed
  have r2: "replicate (n + 40) CHR ''x'' \<noteq> ''sum''" for n by (simp add: numeral_eq_Suc)
  show "row ex_folded ex_id = Some ((ex_row_of ex_id ''The user prefers Java.'' 0 ''chat'' None) \<lparr> m_into := Some ''sum'' \<rparr>)"
    "row ex_folded ''sum'' = Some ((ex_row_of ''sum'' ''The user likes Java and tea.'' 0 ''reflection'' None) \<lparr> m_actor := ''job'' \<rparr>)"
    using u by (simp_all add: row_def ex_folded_def ex_row_of_def new_memory_def)
  show "db_ok ex_folded"
    unfolding db_ok_def ids_def using inj_replicate[of 40 "CHR ''x''"] u r r2
    by (simp add: ex_folded_def ex_row_of_def new_memory_def)
qed

theorem erasure_reaches_summaries_witness:
  "\<exists>d'. delete_memory ex_id ex_who 6 7 True id id ex_folded = (Inr 7, d') \<and>
     (\<exists>n'. row d' ''sum'' = Some n' \<and> retired_or_stale n')"
proof -
  have e: "case delete_memory ex_id ex_who 6 7 True id id ex_folded of
      (Inl e, _) \<Rightarrow> e = 404
    | (Inr ts, d') \<Rightarrow> ts = 7 \<and> (\<exists>m'. row d' ex_id = Some m' \<and> m_deleted m' = Some 7) \<and>
        (\<exists>n'. row d' ''sum'' = Some n' \<and> retired_or_stale n')"
    by (rule erasure_reaches_summaries[where pre = id and post = id and ed = "{}" and ed' = "{}", OF ex_id(1) ex_folded_rows(3)])
      (simp_all add: ex_folded_rows, simp_all add: ex_row_of_def new_memory_def)
  let ?d2 = "snd (invalidate_summaries_for ''s'' ''a'' ex_id ''source_deleted'' 6 ex_folded)"
  have own: "own_live_row ex_who ex_id ex_folded \<noteq> None"
    by (simp add: own_live_row_def ex_folded_rows) (simp add: ex_row_of_def new_memory_def)
  have "fst (delete_memory ex_id ex_who 6 7 True id id ex_folded) = Inr 7"
  proof -
    have ok: "db_ok ?d2" by (rule grows_db_ok[OF invalidate_grows ex_folded_rows(3)])
    have "own_live_row ex_who ex_id ?d2 \<noteq> None"
      using row_update_table[OF _ invalidate_mems[of "''s''" "''a''" ex_id "''source_deleted''" 6 ex_folded], of ex_id]
      by (simp add: own_live_row_def ex_folded_rows make_stale_def ex_row_of_def new_memory_def split: option.split)
    then show ?thesis
      using ensure_owned_session[OF ex_folded_rows(3), of "ex_id" "''s''" True "''a''" 6 True] own
      by (auto simp: delete_memory_def split_beta delete_commit_eq[OF ok] own_live_row_def
          split: option.splits if_splits)
  qed
  then show ?thesis using e by (cases "delete_memory ex_id ex_who 6 7 True id id ex_folded") auto
qed

text \<open>Nobody can delete or edit what is not theirs: when the identifier names no live memory of
  exactly this subject and actor (it is malformed, unknown, deleted, or belongs to somebody else),
  both handlers answer with an error and leave the whole database, audit trail included, untouched,
  whatever the other transactions would do, and no vector is requested.
\<close>

lemma foreign_memory_untouched:
  assumes ok: "db_ok d" and none: "case as_uuid raw of Inl _ \<Rightarrow> True | Inr i \<Rightarrow> own_live_row who i d = None"
  shows "(\<exists>e. delete_memory raw who before now k pre post d = (Inl e, d) \<and> e \<in> {400, 404}) \<and>
    (\<exists>e. patch_memory embedder raw text who before now k pre post d = (Inl e, d) \<and> e \<in> {400, 404, 422} \<and>
       patch_memory (\<lambda>_. None) raw text who before now k pre post d = (Inl e, d))"
proof (cases "as_uuid raw")
  case (Inl e)
  then have "e = 400" by (auto simp: as_uuid_def split: option.splits)
  with Inl show ?thesis by (simp add: delete_memory_def patch_memory_def)
next
  case (Inr i)
  then have "own_live_row who i d = None" using none by simp
  then have "ensure_owned i (i_subject who) True (session (i_subject who) (i_actor who) before k d) = Inl 404"
    unfolding ensure_owned_session[OF ok] by (auto simp: own_live_row_def split: option.splits if_splits)
  with Inr show ?thesis by (simp add: delete_memory_def patch_memory_def Let_def)
qed

lemma foreign_memory_untouched_witness:
  "delete_memory ex_id \<lparr> i_subject = ''t'', i_actor = ''t'' \<rparr> 6 7 True id id ex_folded \<in>
     {(Inl 400, ex_folded), (Inl 404, ex_folded)}"
proof -
  have "own_live_row \<lparr> i_subject = ''t'', i_actor = ''t'' \<rparr> ex_id ex_folded = None"
    by (simp add: own_live_row_def ex_folded_rows) (simp add: ex_row_of_def new_memory_def)
  then show ?thesis
    using foreign_memory_untouched[where raw = ex_id and who = "\<lparr> i_subject = ''t'', i_actor = ''t'' \<rparr>" and pre = id and post = id
        and before = 6 and now = 7 and k = True, OF ex_folded_rows(3)] by auto
qed

lemma patch_commit_eq:
  assumes "db_ok d"
  shows "patch_commit i before content v who now k d =
    (case own_live_row who i d of
       None \<Rightarrow> (Inl 404, d)
     | Some m \<Rightarrow> (Inr (serialize_memory False (edit content v now m)),
          d \<lparr> d_mems := update_table (\<lambda>m. m_id m = i) (edit content v now) (d_mems d),
              d_audits := d_audits d @ [\<lparr> a_subject = i_subject who, a_actor = i_actor who, a_memory = Some i,
                a_action = Update, a_meta = Edited (length before) (length content), a_at = now \<rparr>] \<rparr>))"
proof (cases "own_live_row who i d")
  case None
  then have "ensure_owned i (i_subject who) True (session (i_subject who) (i_actor who) now k d) = Inl 404"
    unfolding ensure_owned_session[OF assms] by (auto simp: own_live_row_def split: option.splits if_splits)
  then show ?thesis using None by (simp add: patch_commit_def Let_def)
next
  case (Some m)
  let ?t = "session (i_subject who) (i_actor who) now k d"
  have m: "row d i = Some m" "m_subject m = i_subject who" "m_actor m = i_actor who" "m_deleted m = None"
    using Some by (auto simp: own_live_row_def split: option.splits if_splits)
  have sel: "select_rows (deletable i who) ?t = [m]" using assms m by (simp add: select_key)
  have owned: "ensure_owned i (i_subject who) True ?t = Inr m"
    unfolding ensure_owned_session[OF assms] using m by simp
  have "update_table (\<lambda>n. visible (x_role ?t) n \<and> deletable i who n) (edit content v now) (d_mems d) =
      update_table (\<lambda>n. m_id n = i) (edit content v now) (d_mems d)"
    unfolding update_table_def
  proof (rule map_cong)
    fix n assume n: "n \<in> set (d_mems d)"
    have "m_id n = i \<Longrightarrow> n = m" using row_eq[OF assms n] m(1) by auto
    then show "(if visible (x_role ?t) n \<and> deletable i who n then edit content v now n else n) =
        (if m_id n = i then edit content v now n else n)" using m by auto
  qed simp
  then show ?thesis
    using Some sel owned
    by (simp add: patch_commit_def Let_def update_rows_def write_audit_def session_def add_audit_def)
qed

text \<open>C34. An edit replaces text and vector together or not at all. Whatever other transactions do
  around it as long as they only grow the database: on success the stored row carries the stripped
  text and the vector the provider returned for exactly that text, and is still live; the errors are
  404, 422 and 502, and an erroneous edit is no change of its own: the database is the one it started
  from, or the one the invalidation and the other transactions left.
\<close>

theorem edit_is_consistent:
  assumes i: "as_uuid raw = Inr i" and ok: "db_ok d"
    and pre: "grows ed Owner d (pre d)" and post: "\<And>x. grows ed' Owner x (post x)"
  shows "let d2 = snd (invalidate_summaries_for (i_subject who) (i_actor who) i ''source_edited'' before (pre d))
    in case patch_memory embedder raw body who before now k pre post d of
      (Inr view, d') \<Rightarrow> strip body \<noteq> [] \<and> v_content view = strip body \<and>
        (\<exists>v m'. embedder (strip body) = Some v \<and> row d' i = Some m' \<and> m_content m' = strip body \<and>
           m_embedding m' = Some v \<and> m_deleted m' = None \<and> m_updated m' = now)
    | (Inl e, d') \<Rightarrow> e \<in> {404, 422, 502} \<and> (d' = d \<or> d' = post d2)"
proof -
  let ?d2 = "snd (invalidate_summaries_for (i_subject who) (i_actor who) i ''source_edited'' before (pre d))"
  have ok3: "db_ok (post ?d2)"
    by (rule grows_db_ok[OF post grows_db_ok[OF invalidate_grows grows_db_ok[OF pre ok]]])
  let ?own = "ensure_owned i (i_subject who) True (session (i_subject who) (i_actor who) before k d)"
  have own: "?own = Inl 404 \<or> (\<exists>m. ?own = Inr m)"
    unfolding ensure_owned_session[OF ok] by (simp split: option.split)
  show ?thesis
  proof (cases "strip body = [] \<or> ?own = Inl 404 \<or> embedder (strip body) = None")
    case True
    then show ?thesis using own by (auto simp: patch_memory_def i Let_def split_beta)
  next
    case False
    then obtain m v where m: "?own = Inr m" "embedder (strip body) = Some v" "strip body \<noteq> []" using own by auto
    let ?fin = "patch_commit i (m_content m) (strip body) v who now k (post ?d2)"
    have run: "patch_memory embedder raw body who before now k pre post d = ?fin"
      using m by (simp add: patch_memory_def i Let_def split_beta)
    show ?thesis
    proof (cases "own_live_row who i (post ?d2)")
      case None
      then show ?thesis unfolding run Let_def by (simp add: patch_commit_eq[OF ok3])
    next
      case (Some q)
      then have q: "row (post ?d2) i = Some q" "m_deleted q = None"
        by (auto simp: own_live_row_def split: option.splits if_splits)
      have fin: "fst ?fin = Inr (serialize_memory False (edit (strip body) v now q))"
        "d_mems (snd ?fin) = update_table (\<lambda>m. m_id m = i) (edit (strip body) v now) (d_mems (post ?d2))"
        using Some by (simp_all add: patch_commit_eq[OF ok3])
      have "row (snd ?fin) i = Some (edit (strip body) v now q)"
        using row_update_table[OF _ fin(2), of i] q row_Some[OF q(1)] by (simp add: edit_def)
      then show ?thesis unfolding run Let_def using fin(1) m q(2)
        by (cases ?fin) (simp add: edit_def serialize_memory_def)
    qed
  qed
qed

theorem edit_is_consistent_witness:
  "case patch_memory (\<lambda>_. Some 0.5) ex_id '' tea '' ex_who 6 7 True id id ex_folded of
      (Inr view, d') \<Rightarrow> v_content view = strip '' tea '' | (Inl e, d') \<Rightarrow> e \<in> {404, 422, 502}"
  using edit_is_consistent[where pre = id and post = id and ed = "{}" and ed' = "{}" and embedder = "\<lambda>_. Some 0.5" and body = "'' tea ''"
    and who = ex_who and before = 6 and now = 7 and k = True, OF ex_id(1) ex_folded_rows(3)]
  by (auto simp: Let_def split: prod.splits sum.splits)

text \<open>The curated view, as one list.\<close>

definition curated :: "identity \<Rightarrow> 'v db \<Rightarrow> memory_view list" where
  "curated who d = map (serialize_memory False) (sort_key newest_first
     (filter (\<lambda>m. visible (role_of who) m \<and> m_deleted m = None) (d_mems d)))"

lemma list_page:
  assumes "1 \<le> limit" "limit \<le> 500" "0 \<le> offset"
  shows "list_my_memories who limit offset now k d =
    Inr (length (curated who d), take (nat limit) (drop (nat offset) (curated who d)))"
proof -
  have "select_rows (\<lambda>m. m_subject m = i_subject who \<and> m_deleted m = None)
      (session (i_subject who) (i_actor who) now k d) =
      filter (\<lambda>m. visible (role_of who) m \<and> m_deleted m = None) (d_mems d)"
    unfolding select_rows_def by (rule filter_cong) auto
  then show ?thesis
    using assms by (simp add: list_my_memories_def max_page_size_def Let_def curated_def take_map drop_map)
qed

lemma concat_pages: "concat (map (\<lambda>p. take n (drop (p * n) xs)) [0..<j]) = take (j * n) xs"
  by (induction j) (simp_all add: take_add[symmetric] add.commute)

text \<open>Pagination loses and repeats nothing: the pages of any admissible size, put together, are the
  curated view, which is sorted newest first and consists of exactly the caller's memories that are
  not deleted, superseded ones included; the total-count header of every page is its length.
\<close>

lemma pages_partition_the_view:
  assumes "1 \<le> n" "n \<le> 500" "length (curated who d) \<le> j * n"
  shows "concat (map (\<lambda>p. case list_my_memories who (int n) (int (p * n)) now k d of
           Inr (all, page) \<Rightarrow> page | Inl _ \<Rightarrow> []) [0..<j]) = curated who d \<and>
    (case list_my_memories who (int n) 0 now k d of Inr (all, _) \<Rightarrow> all = length (curated who d) | Inl _ \<Rightarrow> False) \<and>
    sorted (map (\<lambda>v. (- v_created v, v_id v)) (curated who d)) \<and>
    mset (map v_id (curated who d)) =
      mset (map m_id (filter (\<lambda>m. visible (role_of who) m \<and> m_deleted m = None) (d_mems d)))"
proof -
  have page: "list_my_memories who (int n) (int q) now k d = Inr (length (curated who d), take n (drop q (curated who d)))" for q
    using list_page[of "int n" "int q" who now k d] assms(1,2) by simp
  have "concat (map (\<lambda>p. case list_my_memories who (int n) (int (p * n)) now k d of
           Inr (all, page) \<Rightarrow> page | Inl _ \<Rightarrow> []) [0..<j]) = take (j * n) (curated who d)"
    unfolding page by (simp add: concat_pages)
  moreover have "map (\<lambda>v. (- v_created v, v_id v)) (curated who d) =
      map newest_first (sort_key newest_first (filter (\<lambda>m. visible (role_of who) m \<and> m_deleted m = None) (d_mems d)))"
    by (simp add: curated_def comp_def serialize_memory_def newest_first_def)
  moreover have "map v_id (curated who d) =
      map m_id (sort_key newest_first (filter (\<lambda>m. visible (role_of who) m \<and> m_deleted m = None) (d_mems d)))"
    by (simp add: curated_def comp_def serialize_memory_def)
  ultimately show ?thesis
    using assms(3) page[of 0] sorted_sort_key by (simp del: visible_App)
qed

lemma pages_partition_the_view_witness:
  "concat (map (\<lambda>p. case list_my_memories ex_who (int 1) (int (p * 1)) 7 True ex_folded of
     Inr (all, page) \<Rightarrow> page | Inl _ \<Rightarrow> []) [0..<5]) = curated ex_who ex_folded"
proof -
  have "length (curated ex_who ex_folded) \<le> 5 * 1"
    using length_filter_le[of _ "d_mems ex_folded"] by (simp add: curated_def ex_folded_def)
  then show ?thesis using pages_partition_the_view[of 1 ex_who ex_folded 5 7 True] by simp
qed

lemma write_audit_first:
  "x_db (snd (write_audit s' a' act i meta rep (session s a now k d))) =
     d \<lparr> d_audits := d_audits d @ [\<lparr> a_subject = s', a_actor = a', a_memory = i, a_action = act, a_meta = meta, a_at = now \<rparr>] \<rparr>"
  by (simp add: write_audit_def session_def add_audit_def)

lemma export_eq:
  assumes "1 \<le> cap"
  shows "export_my_data who cap fb now k d =
    (let t = session (i_subject who) (i_actor who) now k d;
         rows = take (nat cap) (sort_key oldest_first (filter (visible (role_of who)) (d_mems d)));
         audits = take (nat cap) (sort_key a_at (filter (audit_visible (role_of who)) (d_audits d)));
         fbs = take (nat cap) (sort_key fb_created (filter (\<lambda>f. fb_subject f = i_subject who) fb));
         gone = length (filter (\<lambda>m. m_deleted m \<noteq> None) rows);
         left = length (filter (\<lambda>m. m_deleted m = None) rows)
     in (Inr \<lparr> e_memories = map (serialize_memory True) rows, e_audits = audits, e_feedback = fbs,
               e_counts = (length rows, gone, left, length audits, length fbs),
               e_truncated = (if length rows \<ge> nat cap then [''memories''] else []) @
                 (if length audits \<ge> nat cap then [''audit_log''] else []) @
                 (if length fbs \<ge> nat cap then [''feedback''] else []) \<rparr>,
         d \<lparr> d_audits := d_audits d @ [\<lparr> a_subject = i_subject who, a_actor = i_actor who, a_memory = None,
               a_action = Export, a_meta = ExportCounts (length rows) gone left (length audits) (length fbs) (nat cap),
               a_at = now \<rparr>] \<rparr>))"
proof -
  have 1: "select_rows (\<lambda>m. m_subject m = i_subject who) (session (i_subject who) (i_actor who) now k d) =
      filter (visible (role_of who)) (d_mems d)"
    unfolding select_rows_def by (rule filter_cong) auto
  have 2: "filter (\<lambda>a. audit_visible (role_of who) a \<and> a_subject a = i_subject who) (d_audits d) =
      filter (audit_visible (role_of who)) (d_audits d)"
    by (rule filter_cong) auto
  have capped: "(cap < 1) = False" using assms by simp
  have gone: "filter (\<lambda>m. case v_deleted m of Some (b, _) \<Rightarrow> b | None \<Rightarrow> False) (map (serialize_memory True) xs) =
      map (serialize_memory True) (filter (\<lambda>m. m_deleted m \<noteq> None) xs)"
    "filter (\<lambda>m. \<not> (case v_deleted m of Some (b, _) \<Rightarrow> b | None \<Rightarrow> False)) (map (serialize_memory True) xs) =
      map (serialize_memory True) (filter (\<lambda>m. m_deleted m = None) xs)" for xs :: "'a mem list"
    by (simp_all add: filter_map comp_def serialize_memory_def)
  show ?thesis
    unfolding export_my_data_def session_simps 1 2 Let_def gone split_beta write_audit_first capped if_False
    by (simp only: length_map prod.case fst_conv snd_conv)
qed

text \<open>C32. The export is the whole truth about the caller's own rows. When no table reaches the cap, the
  export of a subject and actor holds each of their memories, deleted and superseded ones included
  and marked as such, each of their audit rows as of before the export and each feedback row of the
  subject; nothing is reported as truncated; the counts agree with the contents and the live count
  with the curated view. The request changes no memory and appends exactly one audit row, with those
  counts, which the export itself does not contain.
\<close>

theorem export_is_complete:
  assumes "1 \<le> cap" "int (length (filter (visible (role_of who)) (d_mems d))) < cap"
    "int (length (filter (audit_visible (role_of who)) (d_audits d))) < cap"
    "int (length (filter (\<lambda>f. fb_subject f = i_subject who) fb)) < cap"
  shows "case export_my_data who cap fb now k d of
      (Inr e, d') \<Rightarrow>
        mset (map (\<lambda>v. (v_id v, v_content v, v_superseded v, v_deleted v)) (e_memories e)) =
          mset (map (\<lambda>m. (m_id m, m_content m, m_superseded m \<noteq> None, Some (m_deleted m \<noteq> None, m_deleted m)))
            (filter (visible (role_of who)) (d_mems d))) \<and>
        mset (e_audits e) = mset (filter (audit_visible (role_of who)) (d_audits d)) \<and>
        mset (e_feedback e) = mset (filter (\<lambda>f. fb_subject f = i_subject who) fb) \<and>
        e_truncated e = [] \<and> d_mems d' = d_mems d \<and>
        (case e_counts e of (n, gone, left, na, nf) \<Rightarrow>
           n = length (e_memories e) \<and> gone + left = n \<and> left = length (curated who d) \<and>
           na = length (e_audits e) \<and> nf = length (e_feedback e) \<and>
           d_audits d' = d_audits d @ [\<lparr> a_subject = i_subject who, a_actor = i_actor who, a_memory = None,
             a_action = Export, a_meta = ExportCounts n gone left na nf (nat cap), a_at = now \<rparr>])
    | (Inl _, _) \<Rightarrow> False"
proof -
  let ?own = "filter (visible (role_of who)) (d_mems d)"
  let ?rows = "sort_key oldest_first ?own"
  let ?as = "sort_key a_at (filter (audit_visible (role_of who)) (d_audits d))"
  let ?fs = "sort_key fb_created (filter (\<lambda>f. fb_subject f = i_subject who) fb)"
  have cut: "take (nat cap) ?rows = ?rows" "take (nat cap) ?as = ?as" "take (nat cap) ?fs = ?fs"
    using assms by (simp_all del: visible_App audit_own)
  have short: "\<not> nat cap \<le> length ?rows" "\<not> nat cap \<le> length ?as" "\<not> nat cap \<le> length ?fs"
    using assms by (simp_all del: visible_App audit_own)
  have count: "length (filter P ?rows) = length (filter P ?own)" for P
    by (metis filter_sort length_sort)
  have split: "length (filter (\<lambda>m. m_deleted m \<noteq> None) xs) + length (filter (\<lambda>m. m_deleted m = None) xs) = length xs" for xs :: "'a mem list"
    using sum_length_filter_compl[of "\<lambda>m. m_deleted m \<noteq> None" xs] by simp
  have left: "length (filter (\<lambda>m. m_deleted m = None) ?own) = length (curated who d)"
    by (simp add: curated_def conj_commute)
  show ?thesis
    unfolding export_eq[OF assms(1)] Let_def cut using short count split[of ?own] left
    by (simp add: comp_def serialize_memory_def del: visible_App audit_own)
qed

theorem export_is_complete_witness:
  "case export_my_data ex_who 100 [] 7 True ex_folded of
     (Inr e, d') \<Rightarrow> e_truncated e = [] \<and> d_mems d' = d_mems ex_folded | (Inl _, _) \<Rightarrow> False"
proof -
  have "length (filter (visible (role_of ex_who)) (d_mems ex_folded)) \<le> 2"
    using length_filter_le[of "visible (role_of ex_who)" "d_mems ex_folded"] by (simp add: ex_folded_def)
  moreover have "d_audits ex_folded = []" by (simp add: ex_folded_def)
  ultimately show ?thesis
    using export_is_complete[of 100 ex_who ex_folded "[]" 7 True]
    by (cases "export_my_data ex_who 100 [] 7 True ex_folded"; cases "fst (export_my_data ex_who 100 [] 7 True ex_folded)")
      (simp_all del: visible_App)
qed

text \<open>What the export leaves out: a memory of the same subject written under another actor, for
  instance by the reflection job run for that actor, is in neither the export nor the curated view,
  although every statement filters on the subject only; row-level security filters on the actor too.
\<close>

lemma export_omits_other_actors:
  assumes "db_ok d" "m \<in> set (d_mems d)" "m_actor m \<noteq> i_actor who"
  shows "case fst (export_my_data who cap fb now k d) of
      Inr e \<Rightarrow> m_id m \<notin> set (map v_id (e_memories e)) \<and> m_id m \<notin> set (map v_id (curated who d))
    | Inl _ \<Rightarrow> cap < 1"
proof (cases "1 \<le> cap")
  case False
  then show ?thesis by (simp add: export_my_data_def)
next
  case True
  have own: "m_id m \<notin> m_id ` {n \<in> set (d_mems d). visible (role_of who) n}"
  proof
    assume "m_id m \<in> m_id ` {n \<in> set (d_mems d). visible (role_of who) n}"
    then obtain n where n: "n \<in> set (d_mems d)" "visible (role_of who) n" "m_id n = m_id m" by auto
    then have "n = m" using row_eq[OF assms(1)] assms(2) by (metis option.inject)
    with n(2) assms(3) show False by simp
  qed
  have "v_id ` set (curated who d) \<subseteq> m_id ` {n \<in> set (d_mems d). visible (role_of who) n}"
    by (auto simp: curated_def serialize_memory_def)
  moreover have "v_id ` set (map (serialize_memory True) (take j (sort_key oldest_first (filter (visible (role_of who)) (d_mems d))))) \<subseteq>
      m_id ` {n \<in> set (d_mems d). visible (role_of who) n}" for j
    by (auto simp: serialize_memory_def dest!: in_set_takeD)
  ultimately have "m_id m \<notin> v_id ` set (curated who d)"
    "m_id m \<notin> v_id ` set (map (serialize_memory True) (take (nat cap) (sort_key oldest_first (filter (visible (role_of who)) (d_mems d)))))"
    using own by blast+
  then show ?thesis unfolding export_eq[OF True] Let_def fst_conv sum.case export.simps set_map
    by simp
qed

lemma export_omits_other_actors_witness:
  "case fst (export_my_data ex_who 100 [] 7 True ex_folded) of
      Inr e \<Rightarrow> ''sum'' \<notin> set (map v_id (e_memories e)) | Inl _ \<Rightarrow> False"
proof -
  let ?m = "(ex_row_of ''sum'' ''The user likes Java and tea.'' 0 ''reflection'' None) \<lparr> m_actor := ''job'' \<rparr>"
  have m: "?m \<in> set (d_mems ex_folded)" by (simp add: ex_folded_def)
  have a: "m_actor ?m \<noteq> i_actor ex_who" "m_id ?m = ''sum''" by (simp_all add: ex_row_of_def new_memory_def)
  show ?thesis
    using export_omits_other_actors[OF ex_folded_rows(3) m a(1), of 100 "[]" 7 True] a(2)
    by (auto split: sum.splits)
qed

end
