(* ===== verification/Reflection.thy ===== *)
theory Reflection
  imports Capture Decay Governance
begin

text \<open>
  The reflection job (\<^verbatim>\<open>jobs/reflection.py\<close>, \<^verbatim>\<open>graphs/reflection_graph.py\<close>): choosing the densest
  cluster of a subject's unconsolidated memories, summarising it with one completion, writing the
  summary with its marks and audit rows, retiring stale summaries, finding the subjects to run for,
  and the run over them. The cosine distance of two vectors is a parameter; the settings are at their
  defaults.
\<close>

section \<open>Choosing a cluster\<close>

definition reflection_source :: string where "reflection_source = ''reflection''"
definition cluster_max_distance :: real where "cluster_max_distance = 0.45"
definition min_cluster_size :: nat where "min_cluster_size = 3"
definition max_cluster_size :: nat where "max_cluster_size = 8"
definition candidate_limit :: nat where "candidate_limit = 200"

record cluster_member =
  cm_id :: uuid
  cm_content :: string
  cm_distance :: real

record cluster =
  cl_subject :: uuid
  cl_seed :: uuid
  cl_members :: "cluster_member list"

text \<open>\<^verbatim>\<open>_CANDIDATES_CTE\<close>: live, embedded, not consolidated, not themselves summaries.\<close>

definition reflectable :: "uuid \<Rightarrow> 'v mem \<Rightarrow> bool" where
  "reflectable subject m \<longleftrightarrow> m_subject m = subject \<and> m_deleted m = None \<and> m_superseded m = None \<and>
     m_consolidated m = None \<and> m_embedding m \<noteq> None \<and> m_source m \<noteq> Some reflection_source"

definition freshest :: "'v mem \<Rightarrow> timestamp \<times> uuid" where
  "freshest m = (- m_accessed m, m_id m)"

definition reflection_candidates :: "uuid \<Rightarrow> nat \<Rightarrow> 'v tx \<Rightarrow> 'v mem list" where
  "reflection_candidates subject limit t = take limit (sort_key freshest (select_rows (reflectable subject) t))"

text \<open>The distance of two embedded rows, and whether it is within the bound.\<close>

definition apart :: "('v \<Rightarrow> 'v \<Rightarrow> real) \<Rightarrow> 'v mem \<Rightarrow> 'v mem \<Rightarrow> real option" where
  "apart cosd a b = (case m_embedding a of
       None \<Rightarrow> None
     | Some v \<Rightarrow> (case m_embedding b of None \<Rightarrow> None | Some w \<Rightarrow> Some (cosd v w)))"

definition close :: "('v \<Rightarrow> 'v \<Rightarrow> real) \<Rightarrow> real \<Rightarrow> 'v mem \<Rightarrow> 'v mem \<Rightarrow> bool" where
  "close cosd bound a b = (case apart cosd a b of None \<Rightarrow> False | Some x \<Rightarrow> x \<le> bound)"

definition neighbours :: "('v \<Rightarrow> 'v \<Rightarrow> real) \<Rightarrow> real \<Rightarrow> 'v mem list \<Rightarrow> 'v mem \<Rightarrow> nat" where
  "neighbours cosd bound cs a = length (filter (\<lambda>b. m_id b \<noteq> m_id a \<and> close cosd bound a b) cs)"

text \<open>\<^verbatim>\<open>_SEED_SQL\<close>: the candidate with the most neighbours; the join leaves out those without any.\<close>

definition densest :: "('v \<Rightarrow> 'v \<Rightarrow> real) \<Rightarrow> real \<Rightarrow> 'v mem list \<Rightarrow> 'v mem \<Rightarrow> int \<times> uuid" where
  "densest cosd bound cs a = (- int (neighbours cosd bound cs a), m_id a)"

definition seed_row :: "('v \<Rightarrow> 'v \<Rightarrow> real) \<Rightarrow> real \<Rightarrow> 'v mem list \<Rightarrow> 'v mem option" where
  "seed_row cosd bound cs =
     (case sort_key (densest cosd bound cs) (filter (\<lambda>a. 0 < neighbours cosd bound cs a) cs) of
        [] \<Rightarrow> None | a # _ \<Rightarrow> Some a)"

text \<open>\<^verbatim>\<open>_CLUSTER_SQL\<close>: the seed and its neighbours, nearest first.\<close>

definition member_of :: "('v \<Rightarrow> 'v \<Rightarrow> real) \<Rightarrow> 'v mem \<Rightarrow> 'v mem \<Rightarrow> cluster_member" where
  "member_of cosd seed c = \<lparr> cm_id = m_id c, cm_content = m_content c,
     cm_distance = (case apart cosd c seed of Some x \<Rightarrow> x | None \<Rightarrow> 0) \<rparr>"

definition nearest_member :: "cluster_member \<Rightarrow> real \<times> uuid" where
  "nearest_member c = (cm_distance c, cm_id c)"

definition cluster_around :: "('v \<Rightarrow> 'v \<Rightarrow> real) \<Rightarrow> real \<Rightarrow> 'v mem list \<Rightarrow> 'v mem \<Rightarrow> cluster_member list" where
  "cluster_around cosd bound cs seed =
     take max_cluster_size (sort_key nearest_member
       (map (member_of cosd seed) (filter (\<lambda>c. m_id c = m_id seed \<or> close cosd bound c seed) cs)))"

definition select_cluster :: "('v \<Rightarrow> 'v \<Rightarrow> real) \<Rightarrow> real option \<Rightarrow> uuid \<Rightarrow> 'v tx \<Rightarrow> cluster option" where
  "select_cluster cosd max_distance subject t =
     (let bound = (case max_distance of None \<Rightarrow> cluster_max_distance | Some x \<Rightarrow> x);
          cs = reflection_candidates subject candidate_limit t
      in case seed_row cosd bound cs of
           None \<Rightarrow> None
         | Some seed \<Rightarrow>
             (let members = cluster_around cosd bound cs seed
              in if length members < min_cluster_size then None
                 else Some \<lparr> cl_subject = subject, cl_seed = m_id seed, cl_members = members \<rparr>))"

section \<open>Summarising\<close>

definition summary_max_tokens :: int where "summary_max_tokens = 3072"

definition summary_messages :: "string \<Rightarrow> string list \<Rightarrow> prompt" where
  "summary_messages instructions texts =
     [(''system'', instructions),
      (''user'', ''Source memories:'' @ [newline] @ join [newline] (map (\<lambda>t. ''- '' @ t) texts))]"

definition summarize_cluster ::
  "capture_env \<Rightarrow> string \<Rightarrow> string list \<Rightarrow> int option \<Rightarrow> (llm_exn + string) \<times> pyfloat list" where
  "summarize_cluster env instructions texts max_tokens =
     (let (r, ws) = complete (ce_lib env) (ce_llm env) (ce_provider env) None
            (Some (case max_tokens of Some k \<Rightarrow> k | None \<Rightarrow> summary_max_tokens)) (2 / 10) None
            (summary_messages instructions texts)
      in (case r of Inl e \<Rightarrow> Inl e | Inr text \<Rightarrow> Inr (strip text), ws))"

section \<open>Writing the summary\<close>

definition consolidate :: "uuid \<Rightarrow> timestamp \<Rightarrow> 'v mem \<Rightarrow> 'v mem" where
  "consolidate summary now m = m \<lparr> m_consolidated := Some now, m_into := Some summary \<rparr>"

definition audit_consolidated :: "uuid \<Rightarrow> uuid \<Rightarrow> uuid \<Rightarrow> 'v mem \<Rightarrow> 'v tx \<Rightarrow> bool \<times> 'v tx" where
  "audit_consolidated subject actor summary m t =
     write_audit subject actor Update (Some (m_id m)) (ConsolidatedInto summary) False t"

definition write_summary ::
  "uuid \<Rightarrow> uuid \<Rightarrow> string \<Rightarrow> 'v option \<Rightarrow> uuid list \<Rightarrow> 'v tx \<Rightarrow> (uuid \<times> uuid list) \<times> 'v tx" where
  "write_summary subject actor content embedding source_ids t =
     (let (i, t1) = insert_memory subject actor content embedding (Some reflection_source) (Some (6 / 10))
                      (Some (7 / 10)) None t;
          (_, t2) = write_audit subject actor Write (Some i) (Summary (length source_ids) source_ids) False t1;
          (rows, t3) = (if source_ids = [] then ([], t2)
             else update_rows (\<lambda>m. m_id m \<in> set source_ids \<and> m_deleted m = None \<and> m_consolidated m = None)
                    (consolidate i (x_now t)) t2);
          (_, t4) = run_each (audit_consolidated subject actor i) rows t3
      in ((i, map m_id rows), t4))"

section \<open>Retiring stale summaries\<close>

definition stale_since :: "'v mem \<Rightarrow> timestamp" where
  "stale_since m = (case m_stale m of Some x \<Rightarrow> x | None \<Rightarrow> 0)"

definition retire_summary :: "timestamp \<Rightarrow> 'v mem \<Rightarrow> 'v mem" where
  "retire_summary now m = m \<lparr> m_deleted := Some now, m_updated := now \<rparr>"

definition release :: "timestamp \<Rightarrow> 'v mem \<Rightarrow> 'v mem" where
  "release now m = m \<lparr> m_consolidated := None, m_into := None, m_updated := now \<rparr>"

definition audit_released :: "uuid \<Rightarrow> uuid \<Rightarrow> uuid \<Rightarrow> 'v mem \<Rightarrow> 'v tx \<Rightarrow> bool \<times> 'v tx" where
  "audit_released subject actor summary m t =
     write_audit subject actor Update (Some (m_id m)) (Unconsolidated summary) True t"

text \<open>One summary: \<^const>\<open>None\<close> when somebody else retired it first, otherwise the freed sources.\<close>

definition rebuild_one :: "uuid \<Rightarrow> uuid \<Rightarrow> 'v mem \<Rightarrow> 'v tx \<Rightarrow> (uuid \<times> uuid list) option \<times> 'v tx" where
  "rebuild_one subject actor summary t =
     (let (rows, t1) = update_rows (\<lambda>m. m_id m = m_id summary \<and> m_subject m = subject \<and> m_deleted m = None)
                         (retire_summary (x_now t)) t
      in if rows = [] then (None, t1)
         else let (_, t2) = write_audit subject actor Delete (Some (m_id summary)) RetiredSummary True t1;
                  (freed, t3) = update_rows (\<lambda>m. m_into m = Some (m_id summary) \<and> m_subject m = subject \<and>
                                   m_deleted m = None \<and> m_superseded m = None) (release (x_now t)) t2;
                  (_, t4) = run_each (audit_released subject actor (m_id summary)) freed t3
              in (Some (m_id summary, map m_id freed), t4))"

definition stale_summaries :: "uuid \<Rightarrow> nat \<Rightarrow> 'v tx \<Rightarrow> 'v mem list" where
  "stale_summaries subject limit t =
     take limit (sort_key stale_since
       (select_rows (\<lambda>m. m_subject m = subject \<and> m_stale m \<noteq> None \<and> m_deleted m = None) t))"

definition rebuild_limit :: nat where "rebuild_limit = 25"

text \<open>The identifiers retired, and how many sources were freed.\<close>

definition rebuild_stale_summaries ::
  "uuid \<Rightarrow> uuid \<Rightarrow> nat \<Rightarrow> timestamp \<Rightarrow> bool \<Rightarrow> 'v db \<Rightarrow> (uuid list \<times> nat) \<times> 'v db" where
  "rebuild_stale_summaries subject actor limit now txid_known d =
     (let t = session subject actor now txid_known d;
          (outcomes, t1) = run_each (rebuild_one subject actor) (stale_summaries subject limit t) t;
          retired = [p. Some p \<leftarrow> outcomes]
      in ((map fst retired, sum_list (map (length \<circ> snd) retired)), x_db t1))"

section \<open>Finding the subjects\<close>

definition discoverable :: "'v mem \<Rightarrow> bool" where
  "discoverable m \<longleftrightarrow> m_deleted m = None \<and> m_consolidated m = None \<and> m_embedding m \<noteq> None \<and>
     m_source m \<noteq> Some reflection_source"

definition owner_of :: "'v mem \<Rightarrow> uuid \<times> uuid" where
  "owner_of m = (m_subject m, m_actor m)"

definition group_size :: "'v tx \<Rightarrow> uuid \<times> uuid \<Rightarrow> nat" where
  "group_size t g = length (filter (\<lambda>m. owner_of m = g) (select_rows discoverable t))"

definition list_subjects_with_candidates :: "nat \<Rightarrow> timestamp \<Rightarrow> 'v db \<Rightarrow> (uuid \<times> uuid) list" where
  "list_subjects_with_candidates limit now d =
     (let t = admin_session now d;
          groups = filter (\<lambda>g. min_cluster_size \<le> group_size t g) (remdups (map owner_of (select_rows discoverable t)))
      in take limit (sort_key (\<lambda>g. (- int (group_size t g), fst g)) groups))"

section \<open>One pass for one subject\<close>

record reflection_state =
  rf_cluster_ids :: "uuid list"
  rf_cluster_texts :: "string list"
  rf_seed :: "uuid option"
  rf_raw :: string
  rf_redacted :: string
  rf_entities :: "string list"
  rf_embedding :: "real list option"
  rf_summary :: "uuid option"
  rf_consolidated :: "uuid list"
  rf_skipped :: "string option"

definition new_reflection_state :: reflection_state where
  "new_reflection_state = \<lparr> rf_cluster_ids = [], rf_cluster_texts = [], rf_seed = None, rf_raw = [],
     rf_redacted = [], rf_entities = [], rf_embedding = None, rf_summary = None, rf_consolidated = [], rf_skipped = None \<rparr>"

text \<open>What a pass finds around it: the providers, the instructions, the distance, the times of its three
  sessions, and what other transactions do between the first and the second and between the second
  and the third.\<close>

record reflection_env =
  re_capture :: capture_env
  re_instructions :: string
  re_distance :: "real list \<Rightarrow> real list \<Rightarrow> real"
  re_rebuild_at :: timestamp
  re_before :: "real list db \<Rightarrow> real list db"
  re_select_at :: timestamp
  re_write_at :: timestamp
  re_txid :: bool
  re_others :: "real list db \<Rightarrow> real list db"

definition select_node :: "reflection_env \<Rightarrow> uuid \<Rightarrow> uuid \<Rightarrow> real list db \<Rightarrow> reflection_state \<Rightarrow> reflection_state" where
  "select_node e subject actor d st =
     (case select_cluster (re_distance e) None subject (session subject actor (re_select_at e) (re_txid e) d) of
        None \<Rightarrow> st \<lparr> rf_cluster_ids := [], rf_cluster_texts := [], rf_skipped := Some ''no_cluster'' \<rparr>
      | Some c \<Rightarrow> st \<lparr> rf_cluster_ids := map cm_id (cl_members c), rf_cluster_texts := map cm_content (cl_members c),
          rf_seed := Some (cl_seed c) \<rparr>)"

definition summarize_node :: "reflection_env \<Rightarrow> reflection_state \<Rightarrow> llm_exn + reflection_state" where
  "summarize_node e st =
     (case fst (summarize_cluster (re_capture e) (re_instructions e) (rf_cluster_texts st) None) of
        Inl x \<Rightarrow> Inl x
      | Inr text \<Rightarrow>
          Inr (if text = [] then st \<lparr> rf_raw := [], rf_skipped := Some ''empty_summary'' \<rparr> else st \<lparr> rf_raw := text \<rparr>))"

definition pii_adapter_node :: "reflection_env \<Rightarrow> reflection_state \<Rightarrow> reflection_state" where
  "pii_adapter_node e st =
     (let c = redact_candidate (re_capture e) (new_fact (rf_raw st) reflection_source None :: real list fact)
      in st \<lparr> rf_redacted := f_text c, rf_entities := f_pii c \<rparr>)"

definition embed_adapter_node :: "reflection_env \<Rightarrow> reflection_state \<Rightarrow> llm_exn + reflection_state" where
  "embed_adapter_node e st =
     (case fst (embed_candidates (re_capture e) [new_fact (rf_redacted st) reflection_source None]) of
        Inl x \<Rightarrow> Inl x
      | Inr [] \<Rightarrow> Inr (st \<lparr> rf_embedding := None, rf_skipped := Some ''no_embedding'' \<rparr>)
      | Inr (c # _) \<Rightarrow>
          Inr (case f_embedding c of
                 None \<Rightarrow> st \<lparr> rf_embedding := None, rf_skipped := Some ''no_embedding'' \<rparr>
               | Some v \<Rightarrow> st \<lparr> rf_embedding := Some v \<rparr>))"

definition reflection_write_node ::
  "reflection_env \<Rightarrow> uuid \<Rightarrow> uuid \<Rightarrow> reflection_state \<Rightarrow> real list db \<Rightarrow> reflection_state \<times> real list db" where
  "reflection_write_node e subject actor st d =
     (let ((i, consolidated), t) = write_summary subject actor (rf_redacted st) (rf_embedding st) (rf_cluster_ids st)
            (session subject actor (re_write_at e) (re_txid e) d)
      in (st \<lparr> rf_summary := Some i, rf_consolidated := consolidated \<rparr>, x_db t))"

text \<open>The graph: every hop is gated on the key its node filled.\<close>

definition run_reflection ::
  "reflection_env \<Rightarrow> uuid \<Rightarrow> uuid \<Rightarrow> real list db \<Rightarrow> (llm_exn + reflection_state) \<times> real list db" where
  "run_reflection e subject actor d =
     (let st1 = select_node e subject actor d new_reflection_state
      in if rf_cluster_ids st1 = [] then (Inr st1, d)
         else case summarize_node e st1 of
             Inl x \<Rightarrow> (Inl x, re_others e d)
           | Inr st2 \<Rightarrow>
               if rf_raw st2 = [] then (Inr st2, re_others e d)
               else let st3 = pii_adapter_node e st2
                    in if rf_redacted st3 = [] then (Inr st3, re_others e d)
                       else case embed_adapter_node e st3 of
                           Inl x \<Rightarrow> (Inl x, re_others e d)
                         | Inr st4 \<Rightarrow>
                             if rf_embedding st4 = None then (Inr st4, re_others e d)
                             else (let (st5, d') = reflection_write_node e subject actor st4 (re_others e d)
                                   in (Inr st5, d')))"

section \<open>The job\<close>

text \<open>The environment of the \<open>k\<close>th target, the subjects whose cluster produced no summary, and how the
  job ends: an exception of a provider, the complaint about barren subjects, or the count of
  summaries and sources.\<close>

datatype reflection_outcome =
    ReflectionFailed llm_exn
  | ProducedNothing "(uuid \<times> string) list"
  | Reflected nat nat

fun reflect_targets ::
  "(nat \<Rightarrow> reflection_env) \<Rightarrow> nat \<Rightarrow> (uuid \<times> uuid) list \<Rightarrow> nat \<Rightarrow> nat \<Rightarrow> (uuid \<times> string) list \<Rightarrow> real list db \<Rightarrow>
     reflection_outcome \<times> real list db" where
  "reflect_targets es k [] n m barren d = (if barren = [] then Reflected n m else ProducedNothing barren, d)"
| "reflect_targets es k ((subject, actor) # targets) n m barren d =
     (let d1 = snd (rebuild_stale_summaries subject actor rebuild_limit (re_rebuild_at (es k)) (re_txid (es k)) d)
      in case run_reflection (es k) subject actor (re_before (es k) d1) of
           (Inl x, d2) \<Rightarrow> (ReflectionFailed x, d2)
         | (Inr st, d2) \<Rightarrow>
             (case rf_summary st of
                Some i \<Rightarrow> reflect_targets es (Suc k) targets (Suc n) (m + length (rf_consolidated st)) barren d2
              | None \<Rightarrow>
                  reflect_targets es (Suc k) targets n m
                    (if rf_cluster_ids st = [] then barren
                     else barren @ [(subject, case rf_skipped st of Some w \<Rightarrow> w | None \<Rightarrow> ''unknown'')]) d2))"

definition max_subjects :: nat where "max_subjects = 25"

definition run_reflection_worker ::
  "(nat \<Rightarrow> reflection_env) \<Rightarrow> uuid option \<Rightarrow> uuid option \<Rightarrow> timestamp \<Rightarrow> real list db \<Rightarrow>
     reflection_outcome \<times> real list db" where
  "run_reflection_worker es subject actor now d =
     (let targets = (case subject of
            Some s \<Rightarrow> [(s, case actor of Some a \<Rightarrow> if a = [] then s else a | None \<Rightarrow> s)]
          | None \<Rightarrow> list_subjects_with_candidates max_subjects now d)
      in reflect_targets es 0 targets 0 0 [] d)"

section \<open>Facts about the choice\<close>

lemma reflection_candidates_props:
  assumes "db_ok (x_db t)" "m \<in> set (reflection_candidates s n t)"
  shows "m \<in> set (d_mems (x_db t))" "visible (x_role t) m" "reflectable s m"
  using in_set_takeD[OF assms(2)[unfolded reflection_candidates_def]] by (auto simp: select_rows_def)

lemma reflection_candidates_distinct:
  assumes "db_ok (x_db t)"
  shows "distinct (map m_id (reflection_candidates s n t))"
proof -
  have "distinct (map m_id (select_rows (reflectable s) t))"
    using assms by (simp add: db_ok_def select_rows_def distinct_map_filter)
  then have "distinct (map m_id (sort_key freshest (select_rows (reflectable s) t)))"
    by (simp only: distinct_map_sort_key)
  then show ?thesis unfolding reflection_candidates_def by (rule distinct_map_take)
qed

lemma apart_sym: "(\<And>v w. cosd v w = cosd w v) \<Longrightarrow> apart cosd a b = apart cosd b a"
  by (auto simp: apart_def split: option.split)

lemma close_sym: "(\<And>v w. cosd v w = cosd w v) \<Longrightarrow> close cosd bound a b = close cosd bound b a"
  by (simp add: close_def apart_sym[of cosd a b])

lemma length_filter_or:
  "length (filter (\<lambda>x. P x \<or> Q x) xs) = length (filter P xs) + length (filter (\<lambda>x. \<not> P x \<and> Q x) xs)"
  by (induction xs) auto

lemma length_filter_key:
  "distinct (map k xs) \<Longrightarrow> x \<in> set xs \<Longrightarrow> length (filter (\<lambda>y. k y = k x) xs) = Suc 0"
proof (induction xs)
  case (Cons y ys)
  have none: "filter (\<lambda>z. k z = k y) ys = []"
    using Cons.prems(1) by (auto simp: filter_empty_conv) (metis image_eqI)
  show ?case
  proof (cases "k y = k x")
    case True
    with none show ?thesis by simp
  next
    case False
    with Cons show ?thesis by auto
  qed
qed simp

text \<open>The rows a seed gathers are the seed and its neighbours.\<close>

lemma length_cluster_around:
  assumes "distinct (map m_id cs)" "seed \<in> set cs" "\<And>v w. cosd v w = cosd w v"
  shows "length (cluster_around cosd bound cs seed) = min max_cluster_size (Suc (neighbours cosd bound cs seed))"
proof -
  have "length (filter (\<lambda>c. m_id c = m_id seed \<or> close cosd bound c seed) cs) =
      Suc (neighbours cosd bound cs seed)"
    by (simp add: length_filter_or length_filter_key[OF assms(1,2)] neighbours_def close_sym[OF assms(3), where a = seed])
  then show ?thesis by (simp add: cluster_around_def min.commute)
qed

lemma seed_row_Some:
  assumes "seed_row cosd bound cs = Some seed"
  shows "seed \<in> set cs" "0 < neighbours cosd bound cs seed"
    "m \<in> set cs \<Longrightarrow> neighbours cosd bound cs m \<le> neighbours cosd bound cs seed"
proof -
  let ?xs = "sort_key (densest cosd bound cs) (filter (\<lambda>a. 0 < neighbours cosd bound cs a) cs)"
  obtain rest where xs: "?xs = seed # rest"
    using assms by (auto simp: seed_row_def split: list.splits)
  then have "seed \<in> set ?xs" by simp
  then show s: "seed \<in> set cs" "0 < neighbours cosd bound cs seed" by auto
  assume m: "m \<in> set cs"
  show "neighbours cosd bound cs m \<le> neighbours cosd bound cs seed"
  proof (cases "0 < neighbours cosd bound cs m")
    case True
    then have "m \<in> set ?xs" using m by simp
    moreover have "sorted (map (densest cosd bound cs) (seed # rest))"
      using sorted_sort_key[of "densest cosd bound cs"] xs by metis
    ultimately have "densest cosd bound cs seed \<le> densest cosd bound cs m" using xs by auto
    then show ?thesis by (auto simp: densest_def less_eq_prod_def)
  qed simp
qed

lemma seed_row_None: "seed_row cosd bound cs = None \<Longrightarrow> m \<in> set cs \<Longrightarrow> neighbours cosd bound cs m = 0"
proof -
  assume h: "seed_row cosd bound cs = None" and m: "m \<in> set cs"
  have "sort_key (densest cosd bound cs) (filter (\<lambda>a. 0 < neighbours cosd bound cs a) cs) = []"
    using h by (auto simp: seed_row_def split: list.splits)
  then have "filter (\<lambda>a. 0 < neighbours cosd bound cs a) cs = []"
    by (metis length_0_conv length_sort)
  then show ?thesis using m by (auto simp: filter_empty_conv)
qed

lemma cluster_around_member:
  assumes "x \<in> set (cluster_around cosd bound cs seed)"
  obtains m where "m \<in> set cs" "x = member_of cosd seed m" "m_id m = m_id seed \<or> close cosd bound m seed"
  using in_set_takeD[OF assms[unfolded cluster_around_def]] by auto

lemma cluster_around_distinct:
  assumes "distinct (map m_id cs)"
  shows "distinct (map cm_id (cluster_around cosd bound cs seed))"
    "sorted (map nearest_member (cluster_around cosd bound cs seed))"
proof -
  let ?ms = "map (member_of cosd seed) (filter (\<lambda>c. m_id c = m_id seed \<or> close cosd bound c seed) cs)"
  have eq: "map cm_id ?ms = map m_id (filter (\<lambda>c. m_id c = m_id seed \<or> close cosd bound c seed) cs)"
    by (simp add: member_of_def)
  have "distinct (map cm_id ?ms)" unfolding eq by (rule distinct_map_filter[OF assms])
  then have "distinct (map cm_id (sort_key nearest_member ?ms))" by (simp only: distinct_map_sort_key)
  then show "distinct (map cm_id (cluster_around cosd bound cs seed))"
    unfolding cluster_around_def by (rule distinct_map_take)
  show "sorted (map nearest_member (cluster_around cosd bound cs seed))"
    unfolding cluster_around_def by (rule sorted_take) simp
qed

section \<open>Facts about the writes\<close>

text \<open>A run of audit rows: the guard lets all of them through when their keys are fresh.\<close>

lemma run_each_write_audit:
  assumes "rep \<or> (distinct (map key cs) \<and> (\<forall>g. x_guard t = Some g \<longrightarrow> (\<forall>c \<in> set cs. (act, Some (key c)) \<notin> g)))"
  shows "x_db (snd (run_each (\<lambda>c. write_audit s a act (Some (key c)) (mt c) rep) cs t)) =
    (x_db t) \<lparr> d_audits := d_audits (x_db t) @ map (\<lambda>c. \<lparr> a_subject = s, a_actor = a, a_memory = Some (key c),
      a_action = act, a_meta = mt c, a_at = x_now t \<rparr>) cs \<rparr>"
  using assms
proof (induction cs arbitrary: t)
  case (Cons c cs)
  let ?t = "snd (write_audit s a act (Some (key c)) (mt c) rep t)"
  let ?a = "\<lparr> a_subject = s, a_actor = a, a_memory = Some (key c), a_action = act, a_meta = mt c, a_at = x_now t \<rparr>"
  have db: "x_db ?t = (x_db t) \<lparr> d_audits := d_audits (x_db t) @ [?a] \<rparr>"
    using Cons.prems by (auto simp: write_audit_def add_audit_def Let_def split: option.splits)
  have "rep \<or> (distinct (map key cs) \<and> (\<forall>g. x_guard ?t = Some g \<longrightarrow> (\<forall>c \<in> set cs. (act, Some (key c)) \<notin> g)))"
    using Cons.prems by (auto simp: write_audit_def Let_def image_iff split: option.splits if_splits)
  from Cons.IH[OF this] show ?case by (simp add: split_beta db)
qed simp

definition audit_of :: "uuid \<Rightarrow> uuid \<Rightarrow> action \<Rightarrow> audit_meta \<Rightarrow> timestamp \<Rightarrow> uuid \<Rightarrow> audit" where
  "audit_of s a act mt now i =
     \<lparr> a_subject = s, a_actor = a, a_memory = Some i, a_action = act, a_meta = mt, a_at = now \<rparr>"

text \<open>The rows a summary takes over.\<close>

definition foldable :: "uuid \<Rightarrow> uuid \<Rightarrow> uuid list \<Rightarrow> 'v mem \<Rightarrow> bool" where
  "foldable s a source_ids m \<longleftrightarrow> m_subject m = s \<and> m_actor m = a \<and> m_id m \<in> set source_ids \<and>
     m_deleted m = None \<and> m_consolidated m = None"

lemma write_summary_eq:
  assumes ok: "db_ok d" and srcs: "set source_ids \<subseteq> ids d"
    and i_def: "i = d_gen d (d_next d)"
    and taken_def: "taken = map m_id (filter (foldable s a source_ids) (d_mems d))"
  shows "\<exists>t'. write_summary s a content e source_ids (session s a now k d) = ((i, taken), t') \<and>
    x_db t' = d \<lparr> d_mems := map (\<lambda>m. if foldable s a source_ids m then consolidate i now m else m) (d_mems d) @
          [new_memory s a content e (Some reflection_source) (Some (6 / 10)) (Some (7 / 10)) None now i],
        d_next := Suc (d_next d),
        d_audits := d_audits d @ audit_of s a Write (Summary (length source_ids) source_ids) now i #
          map (audit_of s a Update (ConsolidatedInto i) now) taken \<rparr>"
proof -
  let ?t = "session s a now k d"
  let ?new = "new_memory s a content e (Some reflection_source) (Some (6 / 10)) (Some (7 / 10)) None now"
  define t1 where "t1 = snd (insert_memory s a content e (Some reflection_source) (Some (6 / 10)) (Some (7 / 10)) None ?t)"
  define t2 where "t2 = snd (write_audit s a Write (Some i) (Summary (length source_ids) source_ids) False t1)"
  have fresh: "i \<notin> set source_ids" using ok srcs by (auto simp: i_def db_ok_def)
  have t1: "fst (insert_memory s a content e (Some reflection_source) (Some (6 / 10)) (Some (7 / 10)) None ?t) = i"
    "x_db t1 = d \<lparr> d_mems := d_mems d @ [?new i], d_next := Suc (d_next d) \<rparr>"
    "x_role t1 = App s a" "x_now t1 = now" "x_guard t1 = (if k then Some {} else None)"
    by (simp_all add: t1_def insert_memory_def insert_row_def Let_def i_def session_def)
  have t2: "x_db t2 = d \<lparr> d_mems := d_mems d @ [?new i], d_next := Suc (d_next d),
        d_audits := d_audits d @ [audit_of s a Write (Summary (length source_ids) source_ids) now i] \<rparr>"
    "x_role t2 = App s a" "x_now t2 = now" "x_guard t2 = (if k then Some {(Write, Some i)} else None)"
    by (simp_all add: t2_def write_audit_def add_audit_def t1 audit_of_def)
  let ?P = "\<lambda>m. m_id m \<in> set source_ids \<and> m_deleted m = None \<and> m_consolidated m = None"
  define p where "p = (if source_ids = [] then ([], t2) else update_rows ?P (consolidate i now) t2)"
  have empty: "filter (foldable s a source_ids) (d_mems d) = []" "map (\<lambda>m. if foldable s a source_ids m then consolidate i now m else m) (d_mems d) = d_mems d"
    if "source_ids = []" using that by (simp_all add: foldable_def cong: map_cong)
  have pq: "map m_id (fst p) = taken \<and> x_role (snd p) = App s a \<and> x_now (snd p) = now \<and> x_guard (snd p) = x_guard t2 \<and>
      x_db (snd p) = (x_db t2) \<lparr> d_mems := map (\<lambda>m. if foldable s a source_ids m then consolidate i now m else m) (d_mems d) @ [?new i] \<rparr>"
  proof (cases "source_ids = []")
    case True
    then show ?thesis using empty[OF True] by (simp add: p_def taken_def t2)
  next
    case False
    have ids: "map (m_id \<circ> consolidate i now) ms = map m_id ms" for ms :: "'a mem list"
      by (simp add: consolidate_def)
    from False show ?thesis
      using fresh by (simp add: p_def taken_def update_rows_def select_rows_def update_table_def t2 ids
          foldable_def[abs_def] new_memory_def)
  qed
  note p = pq[THEN conjunct1] pq[THEN conjunct2, THEN conjunct1] pq[THEN conjunct2, THEN conjunct2, THEN conjunct1]
    pq[THEN conjunct2, THEN conjunct2, THEN conjunct2, THEN conjunct1]
    pq[THEN conjunct2, THEN conjunct2, THEN conjunct2, THEN conjunct2]
  have keys: "False \<or> (distinct (map m_id (fst p)) \<and>
      (\<forall>g. x_guard (snd p) = Some g \<longrightarrow> (\<forall>c \<in> set (fst p). (Update, Some (m_id c)) \<notin> g)))"
    using ok by (auto simp: p(1,4) t2(4) taken_def db_ok_def distinct_map_filter)
  have audit: "audit_consolidated s a i = (\<lambda>c. write_audit s a Update (Some (m_id c)) (ConsolidatedInto i) False)"
    by (simp add: audit_consolidated_def fun_eq_iff)
  have ws: "write_summary s a content e source_ids ?t =
      ((i, map m_id (fst p)), snd (run_each (audit_consolidated s a i) (fst p) (snd p)))"
    by (simp only: write_summary_def Let_def split_beta t1(1) t1_def[symmetric] t2_def[symmetric] p_def
        session_simps fst_conv snd_conv)
  have rows: "map (\<lambda>c. \<lparr> a_subject = s, a_actor = a, a_memory = Some (m_id c), a_action = Update,
      a_meta = ConsolidatedInto i, a_at = now \<rparr>) (fst p) = map (audit_of s a Update (ConsolidatedInto i) now) taken"
    by (simp add: audit_of_def p(1)[symmetric])
  show ?thesis
    unfolding ws audit using run_each_write_audit[OF keys] by (simp add: p rows t2)
qed

lemma write_summary_rows:
  assumes ok: "db_ok d" and srcs: "set source_ids \<subseteq> ids d"
    and w: "write_summary s a content e source_ids (session s a now k d) = ((i, taken), t')"
  shows "i = d_gen d (d_next d)" "i \<notin> ids d"
    "row (x_db t') i = Some (new_memory s a content e (Some reflection_source) (Some (6 / 10)) (Some (7 / 10)) None now i)"
    "j \<noteq> i \<Longrightarrow> row (x_db t') j = map_option (\<lambda>m. if foldable s a source_ids m then consolidate i now m else m) (row d j)"
    "taken = map m_id (filter (foldable s a source_ids) (d_mems d))" "distinct taken"
    "d_audits (x_db t') = d_audits d @ audit_of s a Write (Summary (length source_ids) source_ids) now i #
          map (audit_of s a Update (ConsolidatedInto i) now) taken"
    "d_mems (x_db t') = map (\<lambda>m. if foldable s a source_ids m then consolidate i now m else m) (d_mems d) @
      [new_memory s a content e (Some reflection_source) (Some (6 / 10)) (Some (7 / 10)) None now i]"
proof -
  obtain t'' where t'': "write_summary s a content e source_ids (session s a now k d) =
      ((d_gen d (d_next d), map m_id (filter (foldable s a source_ids) (d_mems d))), t'')"
    "x_db t'' = d \<lparr> d_mems := map (\<lambda>m. if foldable s a source_ids m then consolidate (d_gen d (d_next d)) now m else m) (d_mems d) @
          [new_memory s a content e (Some reflection_source) (Some (6 / 10)) (Some (7 / 10)) None now (d_gen d (d_next d))],
        d_next := Suc (d_next d),
        d_audits := d_audits d @ audit_of s a Write (Summary (length source_ids) source_ids) now (d_gen d (d_next d)) #
          map (audit_of s a Update (ConsolidatedInto (d_gen d (d_next d))) now) (map m_id (filter (foldable s a source_ids) (d_mems d))) \<rparr>"
    using write_summary_eq[OF ok srcs refl refl] by blast
  show i: "i = d_gen d (d_next d)" and taken: "taken = map m_id (filter (foldable s a source_ids) (d_mems d))"
    using w t''(1) by simp_all
  have t': "t' = t''" using w t''(1) by simp
  show new: "i \<notin> ids d" using ok by (simp add: i db_ok_def)
  show "distinct taken" using ok by (simp add: taken db_ok_def distinct_map_filter)
  show mems: "d_mems (x_db t') = map (\<lambda>m. if foldable s a source_ids m then consolidate i now m else m) (d_mems d) @
      [new_memory s a content e (Some reflection_source) (Some (6 / 10)) (Some (7 / 10)) None now i]"
    and "d_audits (x_db t') = d_audits d @ audit_of s a Write (Summary (length source_ids) source_ids) now i #
          map (audit_of s a Update (ConsolidatedInto i) now) taken"
    using t''(2) by (simp_all add: t' i taken)
  have find: "find (\<lambda>m. m_id m = j) (map (\<lambda>m. if foldable s a source_ids m then consolidate i now m else m) (d_mems d)) =
      map_option (\<lambda>m. if foldable s a source_ids m then consolidate i now m else m) (row d j)" for j
    unfolding row_def by (rule find_map_key) (simp add: consolidate_def)
  show "row (x_db t') i = Some (new_memory s a content e (Some reflection_source) (Some (6 / 10)) (Some (7 / 10)) None now i)"
    using find[of i] new row_None[of d i]
    by (simp add: row_def[of "x_db t'"] mems find_append new_memory_def del: if_distrib)
  show "row (x_db t') j = map_option (\<lambda>m. if foldable s a source_ids m then consolidate i now m else m) (row d j)"
    if "j \<noteq> i"
    using find[of j] that
    by (simp add: row_def[of "x_db t'"] mems find_append new_memory_def split: option.split)
qed

section \<open>Properties of a reflection pass\<close>

text \<open>C25. The choice of a cluster. With a symmetric distance, a chosen cluster has between three and
  eight members; they are distinct memories the session may summarise, each with its text, within the
  bound of the seed, listed nearest first; the seed is itself a candidate and none has more
  neighbours; and below eight members every neighbour of the seed is in. No cluster is chosen exactly when no candidate
  has two neighbours. (Closeness is to the seed: two members may be further apart than the bound.)\<close>

theorem cluster_is_dense:
  assumes ok: "db_ok d" and sym: "\<And>v w. cosd v w = cosd w v"
    and t_def: "t = session s a now k d" and cs_def: "cs = reflection_candidates s candidate_limit t"
  shows "case select_cluster cosd (Some bound) s t of
      None \<Rightarrow> list_all (\<lambda>m. neighbours cosd bound cs m < 2) cs
    | Some c \<Rightarrow> 3 \<le> length (cl_members c) \<and> length (cl_members c) \<le> 8 \<and>
        distinct (map cm_id (cl_members c)) \<and> sorted (map nearest_member (cl_members c)) \<and>
        list_all (\<lambda>m. visible (App s a) m \<and> reflectable s m) cs \<and>
        (\<exists>seed \<in> set cs. m_id seed = cl_seed c \<and>
           list_all (\<lambda>m. neighbours cosd bound cs m \<le> neighbours cosd bound cs seed) cs \<and>
           length (cl_members c) = min 8 (Suc (neighbours cosd bound cs seed)) \<and>
           list_all (\<lambda>x. list_ex (\<lambda>m. x = member_of cosd seed m \<and>
               (m_id m = m_id seed \<or> close cosd bound m seed)) cs) (cl_members c))"
proof -
  have ok': "db_ok (x_db t)" and role: "x_role t = App s a" using ok by (simp_all add: t_def)
  note dist = reflection_candidates_distinct[OF ok', of s candidate_limit, folded cs_def]
  have own: "list_all (\<lambda>m. visible (App s a) m \<and> reflectable s m) cs"
    using reflection_candidates_props[OF ok', of _ s candidate_limit] by (auto simp: list_all_iff cs_def role)
  show ?thesis
  proof (cases "seed_row cosd bound cs")
    case None
    then have "select_cluster cosd (Some bound) s t = None"
      by (simp add: select_cluster_def cs_def[symmetric])
    then show ?thesis using seed_row_None[OF None] by (auto simp: list_all_iff)
  next
    case (Some seed)
    note seed = seed_row_Some[OF Some]
    note len = length_cluster_around[where cosd = cosd and bound = bound, OF dist seed(1) sym]
    show ?thesis
    proof (cases "length (cluster_around cosd bound cs seed) < min_cluster_size")
      case True
      then have "select_cluster cosd (Some bound) s t = None"
        by (simp add: select_cluster_def cs_def[symmetric] Some)
      moreover have "neighbours cosd bound cs seed < 2"
        using True by (simp add: len max_cluster_size_def min_cluster_size_def)
      ultimately show ?thesis using seed(3) by (force simp: list_all_iff)
    next
      case False
      then have sel: "select_cluster cosd (Some bound) s t =
          Some \<lparr> cl_subject = s, cl_seed = m_id seed, cl_members = cluster_around cosd bound cs seed \<rparr>"
        by (simp add: select_cluster_def cs_def[symmetric] Some Let_def)
      have size: "3 \<le> length (cluster_around cosd bound cs seed)" "length (cluster_around cosd bound cs seed) \<le> 8"
        "length (cluster_around cosd bound cs seed) = min 8 (Suc (neighbours cosd bound cs seed))"
        using False by (simp_all add: len max_cluster_size_def min_cluster_size_def)
      have mem: "list_all (\<lambda>x. list_ex (\<lambda>m. x = member_of cosd seed m \<and>
               (m_id m = m_id seed \<or> close cosd bound m seed)) cs) (cluster_around cosd bound cs seed)"
        unfolding list_all_iff list_ex_iff by (blast elim: cluster_around_member)
      have max: "list_all (\<lambda>m. neighbours cosd bound cs m \<le> neighbours cosd bound cs seed) cs"
        using seed(3) by (simp add: list_all_iff)
      show ?thesis unfolding sel using size mem max own seed(1) cluster_around_distinct[OF dist] by auto
    qed
  qed
qed

text \<open>C26. A summary consumes its sources. Written in one transaction, the summary is a live row under a
  new identifier; exactly the listed sources that are still the caller's, live and unclaimed are
  marked as folded into it, and no other row changes; the trail gets one write row listing the
  sources and one update row per marked source; and neither the summary nor a marked source is ever a
  candidate of the resulting database.\<close>

theorem summary_consumes_sources:
  assumes ok: "db_ok d" and srcs: "set source_ids \<subseteq> ids d"
  shows "case write_summary s a content e source_ids (session s a now k d) of ((i, taken), t') \<Rightarrow>
    i \<notin> ids d \<and>
    row (x_db t') i = Some (new_memory s a content e (Some reflection_source) (Some (6 / 10)) (Some (7 / 10)) None now i) \<and>
    distinct taken \<and> set taken = {j. \<exists>m. row d j = Some m \<and> foldable s a source_ids m} \<and>
    (\<forall>j. j \<noteq> i \<longrightarrow> row (x_db t') j = map_option (\<lambda>m. if j \<in> set taken then consolidate i now m else m) (row d j)) \<and>
    d_audits (x_db t') = d_audits d @ audit_of s a Write (Summary (length source_ids) source_ids) now i #
      map (audit_of s a Update (ConsolidatedInto i) now) taken \<and>
    set (i # taken) \<inter> m_id ` set (reflection_candidates s n (session s a now' k' (x_db t'))) = {}"
proof -
  obtain i taken t' where w: "write_summary s a content e source_ids (session s a now k d) = ((i, taken), t')"
    by (metis prod.collapse)
  note r = write_summary_rows[OF ok srcs w]
  have taken: "set taken = {j. \<exists>m. row d j = Some m \<and> foldable s a source_ids m}"
    using row_eq[OF ok] row_Some[of d] by (auto simp: r(5))
  have here: "j \<in> set taken \<longleftrightarrow> foldable s a source_ids m" if "row d j = Some m" for j m
    using that taken by simp
  have rows: "row (x_db t') j = map_option (\<lambda>m. if j \<in> set taken then consolidate i now m else m) (row d j)" if "j \<noteq> i" for j
    using r(4)[OF that] here by (cases "row d j") simp_all
  have ok': "db_ok (x_db t')"
  proof -
    have gen: "x_db t' = d \<lparr> d_mems := d_mems (x_db t'), d_next := Suc (d_next d), d_audits := d_audits (x_db t') \<rparr>"
      using write_summary_eq[OF ok srcs refl refl, of s a content e now k] w by auto
    have "map m_id (d_mems (x_db t')) = map m_id (d_mems d) @ [i]"
      by (simp add: r(8) consolidate_def new_memory_def)
    moreover from this have "ids (x_db t') = insert i (ids d)" unfolding ids_def by (metis list.set_map set_append Un_insert_right list.simps(15) list.set(1) sup_bot_right)
    moreover have "d_gen (x_db t') = d_gen d" "d_next (x_db t') = Suc (d_next d)" by (subst gen, simp)+
    ultimately show ?thesis using ok r(1,2) by (auto simp: db_ok_def ids_def inj_eq)
  qed
  have not: "m_id m \<notin> set (i # taken)" if m: "m \<in> set (reflection_candidates s n (session s a now' k' (x_db t')))" for m
  proof
    assume mem: "m_id m \<in> set (i # taken)"
    have "db_ok (x_db (session s a now' k' (x_db t')))" using ok' by simp
    from reflection_candidates_props[OF this m] have m': "m \<in> set (d_mems (x_db t'))" "reflectable s m" by simp_all
    have rm: "row (x_db t') (m_id m) = Some m" by (rule row_eq[OF ok' m'(1)])
    show False
    proof (cases "m_id m = i")
      case True
      with rm r(3) have "m = new_memory s a content e (Some reflection_source) (Some (6 / 10)) (Some (7 / 10)) None now i"
        by (metis option.inject)
      then have "m_source m = Some reflection_source" by (simp add: new_memory_def)
      then show False using m'(2) by (simp add: reflectable_def)
    next
      case False
      then have "m_id m \<in> set taken" using mem by simp
      then obtain m0 where "row d (m_id m) = Some m0" using taken by auto
      then show False using rm rows[OF False] \<open>m_id m \<in> set taken\<close> m'(2)
        by (auto simp: reflectable_def consolidate_def)
    qed
  qed
  show ?thesis unfolding w using r(2,3,6,7) taken rows not by auto
qed

lemma run_reflection_written:
  assumes "run_reflection e s a d = (Inr st, d')" "rf_summary st = Some i"
  obtains c t' where "select_cluster (re_distance e) None s (session s a (re_select_at e) (re_txid e) d) = Some c"
    "rf_cluster_ids st = map cm_id (cl_members c)"
    "write_summary s a (rf_redacted st) (rf_embedding st) (rf_cluster_ids st)
       (session s a (re_write_at e) (re_txid e) (re_others e d)) = ((i, rf_consolidated st), t')"
    "d' = x_db t'"
proof -
  define st1 where "st1 = select_node e s a d new_reflection_state"
  have none: "rf_summary st1 = None"
    by (simp add: st1_def select_node_def new_reflection_state_def split: option.split)
  have ne: "rf_cluster_ids st1 \<noteq> []"
    using assms none by (auto simp: run_reflection_def Let_def st1_def[symmetric])
  obtain st2 where st2: "summarize_node e st1 = Inr st2"
    using assms ne by (cases "summarize_node e st1") (auto simp: run_reflection_def Let_def st1_def[symmetric])
  have k2: "rf_summary st2 = None" "rf_cluster_ids st2 = rf_cluster_ids st1"
    using st2 none by (auto simp: summarize_node_def split: sum.splits if_splits)
  have raw: "rf_raw st2 \<noteq> []"
    using assms ne st2 k2 by (auto simp: run_reflection_def Let_def st1_def[symmetric])
  define st3 where "st3 = pii_adapter_node e st2"
  have k3: "rf_summary st3 = None" "rf_cluster_ids st3 = rf_cluster_ids st1"
    using k2 by (simp_all add: st3_def pii_adapter_node_def Let_def)
  have red: "rf_redacted st3 \<noteq> []"
    using assms ne st2 raw k3 by (auto simp: run_reflection_def Let_def st1_def[symmetric] st3_def[symmetric])
  obtain st4 where st4: "embed_adapter_node e st3 = Inr st4"
    using assms ne st2 raw red
    by (cases "embed_adapter_node e st3") (auto simp: run_reflection_def Let_def st1_def[symmetric] st3_def[symmetric])
  have k4: "rf_summary st4 = None" "rf_cluster_ids st4 = rf_cluster_ids st1"
    using st4 k3 by (auto simp: embed_adapter_node_def split: sum.splits list.splits option.splits)
  have emb: "rf_embedding st4 \<noteq> None"
    using assms ne st2 raw red st4 k4
    by (cases "rf_embedding st4") (auto simp: run_reflection_def Let_def st1_def[symmetric] st3_def[symmetric])
  let ?w = "write_summary s a (rf_redacted st4) (rf_embedding st4) (rf_cluster_ids st4)
       (session s a (re_write_at e) (re_txid e) (re_others e d))"
  have w: "st = st4 \<lparr> rf_summary := Some (fst (fst ?w)), rf_consolidated := snd (fst ?w) \<rparr>" "d' = x_db (snd ?w)"
    using assms(1) ne st2 raw red st4 emb
    by (auto simp: run_reflection_def Let_def st1_def[symmetric] st3_def[symmetric] reflection_write_node_def split_beta)
  obtain c where c: "select_cluster (re_distance e) None s (session s a (re_select_at e) (re_txid e) d) = Some c"
    "rf_cluster_ids st1 = map cm_id (cl_members c)"
    using ne by (auto simp: st1_def select_node_def new_reflection_state_def split: option.splits)
  show ?thesis
  proof (rule that[OF c(1), of "snd ?w"])
    show "rf_cluster_ids st = map cm_id (cl_members c)" using c(2) k4(2) w(1) by simp
    show "d' = x_db (snd ?w)" by (rule w(2))
    show "write_summary s a (rf_redacted st) (rf_embedding st) (rf_cluster_ids st)
       (session s a (re_write_at e) (re_txid e) (re_others e d)) = ((i, rf_consolidated st), snd ?w)"
      using w(1) assms(2) by (simp add: prod_eq_iff)
  qed
qed

text \<open>The identifiers of a cluster are rows of the database it was chosen from.\<close>

lemma select_cluster_ids:
  assumes "db_ok d" "select_cluster cosd b s (session s a now k d) = Some c"
  shows "set (map cm_id (cl_members c)) \<subseteq> ids d" "distinct (map cm_id (cl_members c))" "3 \<le> length (cl_members c)"
    "x \<in> set (cl_members c) \<Longrightarrow> \<exists>m. row d (cm_id x) = Some m \<and> m_subject m = s \<and> m_actor m = a \<and> reflectable s m"
proof -
  let ?t = "session s a now k d"
  have ok: "db_ok (x_db ?t)" using assms(1) by simp
  let ?cs = "reflection_candidates s candidate_limit ?t"
  obtain bound seed where c: "cl_members c = cluster_around cosd bound ?cs seed" "3 \<le> length (cl_members c)"
    using assms(2) by (auto simp: select_cluster_def Let_def min_cluster_size_def split: option.splits if_splits)
  show "3 \<le> length (cl_members c)" by (rule c(2))
  show "distinct (map cm_id (cl_members c))"
    unfolding c by (rule cluster_around_distinct(1)[OF reflection_candidates_distinct[OF ok]])
  have m: "\<exists>m. row d (cm_id x) = Some m \<and> m_subject m = s \<and> m_actor m = a \<and> reflectable s m"
    if x: "x \<in> set (cl_members c)" for x
  proof -
    obtain m where m: "m \<in> set ?cs" "x = member_of cosd seed m"
      using x unfolding c(1) by (blast elim: cluster_around_member)
    show ?thesis
      using reflection_candidates_props[OF ok m(1)] row_eq[OF assms(1)] by (auto simp: m(2) member_of_def visible_def)
  qed
  show "x \<in> set (cl_members c) \<Longrightarrow> \<exists>m. row d (cm_id x) = Some m \<and> m_subject m = s \<and> m_actor m = a \<and> reflectable s m"
    by (rule m)
  show "set (map cm_id (cl_members c)) \<subseteq> ids d"
  proof
    fix y assume "y \<in> set (map cm_id (cl_members c))"
    then obtain x where "x \<in> set (cl_members c)" "y = cm_id x" by auto
    then show "y \<in> ids d" using m[of x] row_None[of d y] by auto
  qed
qed

text \<open>An erasure that lands between the two sessions of a pass is undone in substance. If a source is
  deleted after the cluster was read and before the summary is written, the summary, a completion over
  the deleted text, is stored all the same as a live memory that is not stale; the trail lists the
  deleted row among its sources; the deleted row does not point to the summary; and repeating the
  invalidation for that row leaves the summary as it is.\<close>

lemma erased_source_is_summarised:
  assumes ok: "db_ok (re_others e d)" "db_ok d" and grows: "grows ed r d (re_others e d)"
    and run: "run_reflection e s a d = (Inr st, d')" "rf_summary st = Some i"
    and erased: "j \<in> set (rf_cluster_ids st)" "row (re_others e d) j = Some m" "m_deleted m \<noteq> None" "m_into m = None"
  shows "(\<exists>n. row d' i = Some n \<and> m_deleted n = None \<and> m_stale n = None \<and> m_content n = rf_redacted st) \<and>
    row d' j = Some m \<and> j \<notin> set (rf_consolidated st) \<and>
    audit_of s a Write (Summary (length (rf_cluster_ids st)) (rf_cluster_ids st)) (re_write_at e) i \<in> set (d_audits d') \<and>
    row (snd (invalidate_summaries_for s a j reason now d')) i = row d' i"
proof -
  let ?d = "re_others e d"
  obtain c t' where c: "select_cluster (re_distance e) None s (session s a (re_select_at e) (re_txid e) d) = Some c"
    "rf_cluster_ids st = map cm_id (cl_members c)"
    and w: "write_summary s a (rf_redacted st) (rf_embedding st) (rf_cluster_ids st)
       (session s a (re_write_at e) (re_txid e) ?d) = ((i, rf_consolidated st), t')"
    and d': "d' = x_db t'"
    using run_reflection_written[OF run] by metis
  have srcs: "set (rf_cluster_ids st) \<subseteq> ids ?d"
    using grows_ids[OF grows] select_cluster_ids(1)[OF ok(2) c(1)] c(2) by auto
  note r = write_summary_rows[OF ok(1) srcs w]
  have ji: "j \<noteq> i" using r(2) row_Some[OF erased(2)] by (auto simp: ids_def)
  have nf: "\<not> foldable s a (rf_cluster_ids st) m" using erased(3) by (simp add: foldable_def)
  have rj: "row d' j = Some m" using r(4)[OF ji] erased(2) nf by (simp add: d')
  have "j \<notin> set (rf_consolidated st)"
    using nf row_eq[OF ok(1)] erased(2) by (auto simp: r(5))
  moreover have "row (snd (invalidate_summaries_for s a j reason now d')) i = row d' i"
  proof -
    let ?P = "summarises (\<lambda>m. m_subject m = s) j s (admin_session now d')"
    have "row (snd (invalidate_summaries_for s a j reason now d')) i =
        map_option (\<lambda>m. if ?P m then make_stale now m else m) (row d' i)"
      by (rule row_update_table[OF _ invalidate_mems]) (simp add: make_stale_def)
    moreover have "\<not> ?P n" if n: "m_id n = i" for n
    proof
      assume "?P n"
      then obtain src where src: "src \<in> set (d_mems d')" "m_id src = j" "m_into src = Some i"
        using n by (auto simp: summarises_def select_rows_def list_ex_iff)
      have "src = m" if q: "src \<in> set (d_mems d')" "m_id src = j"
      proof -
        have "src \<noteq> new_memory s a (rf_redacted st) (rf_embedding st) (Some reflection_source) (Some (6 / 10)) (Some (7 / 10)) None (re_write_at e) i"
          using q(2) ji by (auto simp: new_memory_def)
        then obtain m0 where m0: "m0 \<in> set (d_mems ?d)"
          "src = (if foldable s a (rf_cluster_ids st) m0 then consolidate i (re_write_at e) m0 else m0)"
          using q(1) by (auto simp: d' r(8))
        then have "m_id m0 = j" using q(2) by (auto simp: consolidate_def split: if_splits)
        then have "m0 = m" using row_eq[OF ok(1) m0(1)] erased(2) by simp
        then show ?thesis using m0(2) nf by simp
      qed
      then show False using src erased(4) by simp
    qed
    ultimately show ?thesis using r(3) by (simp add: d' new_memory_def)
  qed
  ultimately show ?thesis using r(3,7) rj by (simp add: d' new_memory_def)
qed

lemma length_filter_split:
  "length (filter P xs) = length (filter (\<lambda>x. P x \<and> \<not> Q x) xs) + length (filter (\<lambda>x. P x \<and> Q x) xs)"
  by (induction xs) auto

text \<open>C27. Reflection converges. A pass that writes a summary with nobody interfering marks exactly its
  cluster, at least three memories, and the subject has that many memories fewer left to
  summarise, so repeated passes come to an end.\<close>

theorem each_pass_shrinks:
  assumes ok: "db_ok d" and alone: "re_others e d = d"
    and run: "run_reflection e s a d = (Inr st, d')" "rf_summary st = Some i"
  shows "length (select_rows (reflectable s) (session s a now k d')) + length (rf_consolidated st) =
      length (select_rows (reflectable s) (session s a now k d)) \<and>
    3 \<le> length (rf_consolidated st) \<and> mset (rf_consolidated st) = mset (rf_cluster_ids st)"
proof -
  obtain c t' where c: "select_cluster (re_distance e) None s (session s a (re_select_at e) (re_txid e) d) = Some c"
    "rf_cluster_ids st = map cm_id (cl_members c)"
    and w: "write_summary s a (rf_redacted st) (rf_embedding st) (rf_cluster_ids st)
       (session s a (re_write_at e) (re_txid e) d) = ((i, rf_consolidated st), t')"
    and d': "d' = x_db t'"
    using run_reflection_written[OF run] alone by metis
  note sel = select_cluster_ids[OF ok c(1)]
  have srcs: "set (rf_cluster_ids st) \<subseteq> ids d" using sel(1) c(2) by simp
  note r = write_summary_rows[OF ok srcs w]
  let ?F = "foldable s a (rf_cluster_ids st)"
  have F: "?F m \<longleftrightarrow> m_id m \<in> set (rf_cluster_ids st)" "?F m \<Longrightarrow> visible (App s a) m \<and> reflectable s m"
    if m: "m \<in> set (d_mems d)" for m
  proof -
    have "m_subject m = s \<and> m_actor m = a \<and> reflectable s m" if q: "m_id m \<in> set (rf_cluster_ids st)"
    proof -
      obtain x where x: "x \<in> set (cl_members c)" "cm_id x = m_id m" using q c(2) by auto
      then show ?thesis using sel(4)[OF x(1)] row_eq[OF ok m] by auto
    qed
    then show "?F m \<longleftrightarrow> m_id m \<in> set (rf_cluster_ids st)" "?F m \<Longrightarrow> visible (App s a) m \<and> reflectable s m"
      by (auto simp: foldable_def reflectable_def)
  qed
  have taken: "set (rf_consolidated st) = set (rf_cluster_ids st)"
  proof -
    have "set (rf_consolidated st) = {j \<in> ids d. j \<in> set (rf_cluster_ids st)}"
      using F(1) by (auto simp: r(5) ids_def image_iff)
    then show ?thesis using srcs by auto
  qed
  moreover have dist: "distinct (rf_consolidated st)" "distinct (rf_cluster_ids st)" using r(6) sel(2) c(2) by simp_all
  ultimately have ms: "mset (rf_consolidated st) = mset (rf_cluster_ids st)" by (simp add: set_eq_iff_mset_eq_distinct)
  then have len: "length (rf_consolidated st) = length (rf_cluster_ids st)" by (metis size_mset)
  let ?V = "\<lambda>m. visible (App s a) m \<and> reflectable s m"
  have "filter ?V (d_mems d') = filter ?V (map (\<lambda>m. if ?F m then consolidate i (re_write_at e) m else m) (d_mems d))"
    by (simp add: d' r(8) reflectable_def new_memory_def)
  also have "length \<dots> = length (filter (\<lambda>m. ?V m \<and> \<not> ?F m) (d_mems d))"
    by (simp add: filter_map o_def reflectable_def consolidate_def if_distrib cong: if_cong)
      (rule arg_cong[where f = length], rule filter_cong, auto simp: consolidate_def reflectable_def)
  finally have after: "length (filter ?V (d_mems d')) = length (filter (\<lambda>m. ?V m \<and> \<not> ?F m) (d_mems d))" .
  have "filter (\<lambda>m. ?V m \<and> ?F m) (d_mems d) = filter ?F (d_mems d)"
    by (rule filter_cong) (use F(2) in auto)
  then have "length (filter (\<lambda>m. ?V m \<and> ?F m) (d_mems d)) = length (rf_consolidated st)" by (simp add: r(5))
  then have "length (filter ?V (d_mems d)) = length (filter ?V (d_mems d')) + length (rf_consolidated st)"
    using length_filter_split[of ?V "d_mems d" ?F] after by simp
  then show ?thesis using ms len sel(3) c(2) by (simp add: select_rows_def)
qed

section \<open>Rebuilding\<close>

text \<open>What retiring the summary \<open>j\<close> does to a row.\<close>

definition rebuilt :: "role \<Rightarrow> timestamp \<Rightarrow> uuid \<Rightarrow> 'v mem \<Rightarrow> 'v mem" where
  "rebuilt r now j m =
     (if \<not> visible r m then m else if m_id m = j then retire_summary now m
      else if m_into m = Some j \<and> live m then release now m else m)"

lemma rebuilt_keeps [simp]: "m_id (rebuilt r now j m) = m_id m" "visible r (rebuilt r now j m) = visible r m"
  by (cases r; simp add: rebuilt_def retire_summary_def release_def visible_def)+

lemma rebuilt_other: "m_id m \<noteq> j \<Longrightarrow> m_deleted (rebuilt r now j m) = m_deleted m"
  by (simp add: rebuilt_def release_def)

lemma fold_rebuilt_keeps: "m_id (fold (rebuilt r now) js m) = m_id m"
  by (induction js arbitrary: m) simp_all

lemma fold_rebuilt_dead: "m_id m \<notin> set js \<Longrightarrow> \<not> live m \<Longrightarrow> fold (rebuilt r now) js m = m"
  by (induction js) (simp_all add: rebuilt_def)

lemma fold_rebuilt_unlinked: "m_id m \<notin> set js \<Longrightarrow> m_into m \<notin> Some ` set js \<Longrightarrow> fold (rebuilt r now) js m = m"
  by (induction js) (auto simp: rebuilt_def)

lemma fold_rebuilt_source:
  "m_id m \<notin> set js \<Longrightarrow> fold (rebuilt r now) js m =
     (if visible r m \<and> live m \<and> m_into m \<in> Some ` set js then release now m else m)"
proof (induction js)
  case (Cons j js)
  show ?case
  proof (cases "visible r m \<and> live m \<and> m_into m = Some j")
    case True
    then have "rebuilt r now j m = release now m" using Cons.prems by (simp add: rebuilt_def)
    moreover have "fold (rebuilt r now) js (release now m) = release now m"
      using Cons.prems by (intro fold_rebuilt_unlinked) (auto simp: release_def)
    ultimately show ?thesis using True by simp
  next
    case False
    then have "rebuilt r now j m = m" using Cons.prems by (auto simp: rebuilt_def)
    then show ?thesis using Cons False by auto
  qed
qed simp

lemma fold_rebuilt_own:
  "distinct js \<Longrightarrow> m_id m \<in> set js \<Longrightarrow> visible r m \<Longrightarrow> m_deleted (fold (rebuilt r now) js m) = Some now"
proof (induction js arbitrary: m)
  case (Cons j js)
  show ?case
  proof (cases "m_id m = j")
    case True
    then have "rebuilt r now j m = retire_summary now m" using Cons.prems by (simp add: rebuilt_def)
    moreover have "fold (rebuilt r now) js (retire_summary now m) = retire_summary now m"
      using Cons.prems True by (intro fold_rebuilt_dead) (auto simp: retire_summary_def live_def)
    ultimately show ?thesis by (simp add: retire_summary_def)
  next
    case False
    with Cons show ?thesis by simp
  qed
qed simp

lemma evolves_retire_summary: "m_deleted m = None \<Longrightarrow> evolves ed m (retire_summary now m)"
  and evolves_release: "m_deleted m = None \<Longrightarrow> evolves ed m (release now m)"
  and evolves_consolidate: "m_deleted m = None \<Longrightarrow> evolves ed m (consolidate i now m)"
  by (simp_all add: evolves_def retire_summary_def release_def consolidate_def row_ok_def)

interpretation released: governed "\<lambda>r. r = App s a" ed "audit_released s a summary"
  by unfold_locales (simp add: audit_released_def frame_own_audit)

interpretation folded: governed "\<lambda>r. r = App s a" ed "audit_consolidated s a summary"
  by unfold_locales (simp add: audit_consolidated_def frame_own_audit)

interpretation rebuild: governed "\<lambda>r. r = App s a" ed "rebuild_one s a"
proof unfold_locales
  fix t :: "'a tx" and sm :: "'a mem"
  assume role: "x_role t = App s a"
  let ?P = "\<lambda>m. m_id m = m_id sm \<and> m_subject m = s \<and> m_deleted m = None"
  define u where "u = update_rows ?P (retire_summary (x_now t)) t"
  define t2 where "t2 = snd (write_audit s a Delete (Some (m_id sm)) RetiredSummary True (snd u))"
  let ?Q = "\<lambda>m. m_into m = Some (m_id sm) \<and> m_subject m = s \<and> m_deleted m = None \<and> m_superseded m = None"
  define v where "v = update_rows ?Q (release (x_now t)) t2"
  have u: "frame ed t (snd u)" unfolding u_def by (rule frame_update) (simp add: evolves_retire_summary)
  have t2: "frame ed t t2"
    unfolding t2_def using frame_trans[OF u frame_own_audit] frame_role[OF u] role by simp
  have v: "frame ed t (snd v)"
    unfolding v_def by (rule frame_trans[OF t2], rule frame_update) (simp add: evolves_release)
  have "snd (rebuild_one s a sm t) =
      (if fst u = [] then snd u else snd (run_each (audit_released s a (m_id sm)) (fst v) (snd v)))"
    by (simp add: rebuild_one_def split_beta u_def[symmetric] t2_def[symmetric] v_def[symmetric] Let_def)
  then show "frame ed t (snd (rebuild_one s a sm t))"
    using u released.then_each[OF role v] by simp
qed

lemma rebuild_one_eq:
  assumes ok: "db_ok (x_db t)" and role: "x_role t = App s a"
    and row: "row (x_db t) (m_id sm) = Some m" "visible (App s a) m" "m_deleted m = None"
  shows "\<exists>freed. fst (rebuild_one s a sm t) = Some (m_id sm, freed)"
    and "d_mems (x_db (snd (rebuild_one s a sm t))) = map (rebuilt (App s a) (x_now t) (m_id sm)) (d_mems (x_db t))"
proof -
  let ?P = "\<lambda>m. m_id m = m_id sm \<and> m_subject m = s \<and> m_deleted m = None"
  define u where "u = update_rows ?P (retire_summary (x_now t)) t"
  define t2 where "t2 = snd (write_audit s a Delete (Some (m_id sm)) RetiredSummary True (snd u))"
  let ?Q = "\<lambda>m. m_into m = Some (m_id sm) \<and> m_subject m = s \<and> m_deleted m = None \<and> m_superseded m = None"
  define v where "v = update_rows ?Q (release (x_now t)) t2"
  have m: "m \<in> set (d_mems (x_db t))" "m_id m = m_id sm" using row_Some[OF row(1)] by simp_all
  have "m \<in> set (select_rows ?P t)" using m row(2,3) role by (simp add: select_rows_def visible_def)
  then have ne: "fst u \<noteq> []" by (auto simp: u_def update_rows_def)
  have one: "rebuild_one s a sm t =
      (Some (m_id sm, map m_id (fst v)), snd (run_each (audit_released s a (m_id sm)) (fst v) (snd v)))"
    using ne by (simp add: rebuild_one_def split_beta u_def[symmetric] t2_def[symmetric] v_def[symmetric] Let_def)
  then show "\<exists>freed. fst (rebuild_one s a sm t) = Some (m_id sm, freed)" by simp
  have audit: "audit_released s a (m_id sm) = (\<lambda>c. write_audit s a Update (Some (m_id c)) (Unconsolidated (m_id sm)) True)"
    by (simp add: audit_released_def fun_eq_iff)
  have "d_mems (x_db (snd (rebuild_one s a sm t))) = d_mems (x_db (snd v))"
    unfolding one audit by (simp add: run_each_write_audit)
  also have "\<dots> = update_table (\<lambda>m. visible (App s a) m \<and> ?Q m) (release (x_now t))
      (update_table (\<lambda>m. visible (App s a) m \<and> ?P m) (retire_summary (x_now t)) (d_mems (x_db t)))"
    by (simp add: v_def t2_def u_def update_rows_mems role)
  also have "\<dots> = map (rebuilt (App s a) (x_now t) (m_id sm)) (d_mems (x_db t))"
  proof -
    let ?n1 = "\<lambda>n. if visible (App s a) n \<and> ?P n then retire_summary (x_now t) n else n"
    have "(if visible (App s a) (?n1 n) \<and> ?Q (?n1 n) then release (x_now t) (?n1 n) else ?n1 n) =
        rebuilt (App s a) (x_now t) (m_id sm) n" if n: "n \<in> set (d_mems (x_db t))" for n
    proof (cases "m_id n = m_id sm")
      case True
      then have "n = m" using row_eq[OF ok n] row(1) by simp
      then have "?P n" "visible (App s a) n" using row(2,3) True by simp_all
      then show ?thesis by (simp add: rebuilt_def retire_summary_def)
    next
      case False
      then show ?thesis by (auto simp: rebuilt_def live_def)
    qed
    then show ?thesis unfolding update_table_def map_map comp_def by (intro map_cong refl)
  qed
  finally show "d_mems (x_db (snd (rebuild_one s a sm t))) = map (rebuilt (App s a) (x_now t) (m_id sm)) (d_mems (x_db t))" .
qed

lemma rebuild_each_eq:
  assumes "db_ok (x_db t)" "x_role t = App s a" "distinct (map m_id sms)"
    and "\<And>sm. sm \<in> set sms \<Longrightarrow> \<exists>m. row (x_db t) (m_id sm) = Some m \<and> visible (App s a) m \<and> m_deleted m = None"
  shows "map (map_option fst) (fst (run_each (rebuild_one s a) sms t)) = map (Some \<circ> m_id) sms \<and>
    d_mems (x_db (snd (run_each (rebuild_one s a) sms t))) =
      map (fold (rebuilt (App s a) (x_now t)) (map m_id sms)) (d_mems (x_db t))"
  using assms
proof (induction sms arbitrary: t)
  case (Cons sm sms)
  let ?t = "snd (rebuild_one s a sm t)"
  obtain m where m: "row (x_db t) (m_id sm) = Some m" "visible (App s a) m" "m_deleted m = None"
    using Cons.prems(4)[of sm] by auto
  note eq = rebuild_one_eq[OF Cons.prems(1,2) m]
  have fr: "frame {} t ?t" by (rule rebuild.stays[OF Cons.prems(2)])
  then have t: "db_ok (x_db ?t)" "x_role ?t = App s a" "x_now ?t = x_now t"
    using Cons.prems(1,2) grows_db_ok by (auto simp: frame_def)
  have rest: "\<exists>m. row (x_db ?t) (m_id sm') = Some m \<and> visible (App s a) m \<and> m_deleted m = None"
    if sm': "sm' \<in> set sms" for sm'
  proof -
    obtain m' where m': "row (x_db t) (m_id sm') = Some m'" "visible (App s a) m'" "m_deleted m' = None"
      using Cons.prems(4)[of sm'] sm' by auto
    have "m_id sm' \<noteq> m_id sm" using Cons.prems(3) sm' by (auto simp: image_iff)
    moreover have "row (x_db ?t) (m_id sm') = Some (rebuilt (App s a) (x_now t) (m_id sm) m')"
      unfolding row_def eq(2) using m'(1) by (subst find_map_key) (simp_all add: row_def)
    ultimately show ?thesis using m' row_Some[OF m'(1)] by (simp add: rebuilt_other del: visible_App)
  qed
  have dist: "distinct (map m_id sms)" using Cons.prems(3) by simp
  from Cons.IH[OF t(1,2) dist rest]
  show ?case using eq by (auto simp: split_beta t(3) del: visible_App)
qed simp

text \<open>C28. Rebuilding stale summaries. When the session sees no more stale summaries than the limit, it
  retires exactly those, leaves none behind, and sets free exactly the live memories that had been
  folded into them; deleted and superseded sources stay out, and nothing else changes.\<close>

theorem rebuild_frees_live_sources:
  assumes ok: "db_ok d"
    and few: "length (select_rows (\<lambda>m. m_subject m = s \<and> m_stale m \<noteq> None \<and> m_deleted m = None) (session s a now k d)) \<le> limit"
  shows "case rebuild_stale_summaries s a limit now k d of ((retired, freed), d') \<Rightarrow>
    distinct retired \<and>
    set retired = {j. \<exists>m. row d j = Some m \<and> visible (App s a) m \<and> m_stale m \<noteq> None \<and> m_deleted m = None} \<and>
    (\<forall>j m. row d j = Some m \<longrightarrow> (\<exists>m'. row d' j = Some m' \<and>
       (if j \<in> set retired then m_deleted m' = Some now
        else m' = (if visible (App s a) m \<and> live m \<and> m_into m \<in> Some ` set retired then release now m else m)))) \<and>
    stale_summaries s limit (session s a now k d') = []"
proof -
  let ?t = "session s a now k d"
  let ?S = "\<lambda>m. m_subject m = s \<and> m_stale m \<noteq> None \<and> m_deleted m = None"
  let ?sms = "stale_summaries s limit ?t"
  let ?js = "map m_id ?sms"
  have all: "?sms = sort_key stale_since (select_rows ?S ?t)" using few by (simp add: stale_summaries_def)
  have sel: "distinct (map m_id (select_rows ?S ?t))"
    using ok by (simp add: select_rows_def db_ok_def distinct_map_filter)
  have dist: "distinct ?js" unfolding all distinct_map_sort_key by (rule sel)
  have js: "set ?js = {j. \<exists>m. row d j = Some m \<and> visible (App s a) m \<and> m_stale m \<noteq> None \<and> m_deleted m = None}"
    using row_eq[OF ok] row_Some[of d] by (force simp: all select_rows_def)
  have ex: "\<exists>m. row (x_db ?t) (m_id sm) = Some m \<and> visible (App s a) m \<and> m_deleted m = None" if "sm \<in> set ?sms" for sm
    using that js by auto
  define res where "res = run_each (rebuild_one s a) ?sms ?t"
  have res: "map (map_option fst) (fst res) = map (Some \<circ> m_id) ?sms"
    "d_mems (x_db (snd res)) = map (fold (rebuilt (App s a) now) ?js) (d_mems d)"
    using rebuild_each_eq[OF _ _ dist ex] ok by (simp_all add: res_def)
  have retired: "map fst [p. Some p \<leftarrow> os] = is" if "map (map_option fst) os = map Some is"
    for os :: "(uuid \<times> uuid list) option list" and "is"
    using that by (induction os arbitrary: "is") auto
  have fin: "rebuild_stale_summaries s a limit now k d =
      ((?js, snd (fst (rebuild_stale_summaries s a limit now k d))), x_db (snd res))"
    using retired[of "fst res" ?js] res(1) by (simp add: rebuild_stale_summaries_def split_beta Let_def res_def)
  have row': "row (x_db (snd res)) j = map_option (fold (rebuilt (App s a) now) ?js) (row d j)" for j
    unfolding row_def res(2) by (rule find_map_key) (rule fold_rebuilt_keeps)
  have each: "\<exists>m'. row (x_db (snd res)) j = Some m' \<and>
       (if j \<in> set ?js then m_deleted m' = Some now
        else m' = (if visible (App s a) m \<and> live m \<and> m_into m \<in> Some ` set ?js then release now m else m))"
    if m: "row d j = Some m" for j m
  proof (cases "j \<in> set ?js")
    case True
    then have "visible (App s a) m" using m js by auto
    then show ?thesis using True fold_rebuilt_own[OF dist, of m] row_Some[OF m] by (simp add: row' m)
  next
    case False
    then show ?thesis using fold_rebuilt_source[of m ?js "App s a" now] row_Some[OF m] by (simp add: row' m)
  qed
  have gone: "stale_summaries s limit (session s a now k (x_db (snd res))) = []"
  proof -
    have "\<not> (visible (App s a) m' \<and> ?S m')" if m': "m' \<in> set (d_mems (x_db (snd res)))" for m'
    proof
      assume h: "visible (App s a) m' \<and> ?S m'"
      obtain m where m: "m \<in> set (d_mems d)" "m' = fold (rebuilt (App s a) now) ?js m"
        using m' by (auto simp: res(2))
      have r: "row d (m_id m) = Some m" by (rule row_eq[OF ok m(1)])
      show False
      proof (cases "m_id m \<in> set ?js")
        case True
        then have "m_deleted m' = Some now" using r each[OF r] by (simp add: row' m(2))
        then show False using h by simp
      next
        case False
        then have "m' = (if visible (App s a) m \<and> live m \<and> m_into m \<in> Some ` set ?js then release now m else m)"
          by (simp add: m(2) fold_rebuilt_source)
        then have "visible (App s a) m" "m_stale m \<noteq> None" "m_deleted m = None"
          using h by (auto simp: release_def split: if_splits)
        then show False using False r js by auto
      qed
    qed
    then show ?thesis by (simp add: stale_summaries_def select_rows_def filter_empty_conv)
  qed
  show ?thesis
    by (subst fin) (use dist js each gone in simp)
qed

section \<open>An example\<close>

definition ex_source :: "uuid \<Rightarrow> timestamp \<Rightarrow> real list mem" where
  "ex_source i at' = new_memory ''s'' ''a'' ''I like tea'' (Some [1]) (Some ''chat'') None None None at' i"

definition ex_rdb :: "real list db" where
  "ex_rdb = \<lparr> d_mems = [ex_source ''a1'' 3, ex_source ''a2'' 2, ex_source ''a3'' 1],
     d_audits = [], d_gen = (\<lambda>n. replicate (n + 3) CHR ''x''), d_next = 0 \<rparr>"

definition ex_renv :: "(real list db \<Rightarrow> real list db) \<Rightarrow> reflection_env" where
  "ex_renv others = \<lparr> re_capture = ex_env, re_instructions = ''reflect'', re_distance = (\<lambda>v w. 0),
     re_rebuild_at = 4, re_before = id, re_select_at = 5, re_write_at = 6, re_txid = True, re_others = others \<rparr>"

lemma ex_rdb_ok: "db_ok ex_rdb"
proof -
  have "replicate (n + 3) CHR ''x'' \<noteq> ''a1''" "replicate (n + 3) CHR ''x'' \<noteq> ''a2''"
    "replicate (n + 3) CHR ''x'' \<noteq> ''a3''" for n
    by (simp_all add: numeral_3_eq_3)
  then show ?thesis unfolding db_ok_def ids_def using inj_replicate[of 3 "CHR ''x''"]
    by (simp add: ex_rdb_def ex_source_def new_memory_def)
qed

lemma ex_candidates: "reflection_candidates ''s'' candidate_limit (session ''s'' ''a'' now k ex_rdb) =
    [ex_source ''a1'' 3, ex_source ''a2'' 2, ex_source ''a3'' 1]"
  by (simp add: reflection_candidates_def select_rows_def ex_rdb_def ex_source_def new_memory_def reflectable_def
      reflection_source_def candidate_limit_def freshest_def)

lemma ex_close: "close (\<lambda>v w. 0) cluster_max_distance (ex_source i n) (ex_source j m)"
  by (simp add: close_def apart_def ex_source_def new_memory_def cluster_max_distance_def)

lemma ex_select: "select_cluster (\<lambda>v w. 0) None ''s'' (session ''s'' ''a'' now k ex_rdb) =
    Some \<lparr> cl_subject = ''s'', cl_seed = ''a1'', cl_members = map (\<lambda>i. \<lparr> cm_id = i, cm_content = ''I like tea'', cm_distance = 0 \<rparr>)
      [''a1'', ''a2'', ''a3''] \<rparr>"
proof -
  let ?cs = "[ex_source ''a1'' 3, ex_source ''a2'' 2, ex_source ''a3'' 1]"
  have n: "neighbours (\<lambda>v w. 0) cluster_max_distance ?cs (ex_source ''a1'' 3) = 2"
    "neighbours (\<lambda>v w. 0) cluster_max_distance ?cs (ex_source ''a2'' 2) = 2"
    "neighbours (\<lambda>v w. 0) cluster_max_distance ?cs (ex_source ''a3'' 1) = 2"
    unfolding neighbours_def by (simp_all add: ex_close, simp_all add: ex_source_def new_memory_def)
  have "seed_row (\<lambda>v w. 0) cluster_max_distance ?cs = Some (ex_source ''a1'' 3)"
    by (simp add: seed_row_def n densest_def, simp add: ex_source_def new_memory_def)
  moreover have "cluster_around (\<lambda>v w. 0) cluster_max_distance ?cs (ex_source ''a1'' 3) =
      map (\<lambda>i. \<lparr> cm_id = i, cm_content = ''I like tea'', cm_distance = 0 \<rparr>) [''a1'', ''a2'', ''a3'']"
    by (simp add: cluster_around_def ex_close max_cluster_size_def,
        simp add: member_of_def nearest_member_def apart_def ex_source_def new_memory_def)
  ultimately show ?thesis
    by (simp add: select_cluster_def ex_candidates min_cluster_size_def, simp add: ex_source_def new_memory_def)
qed

lemma ex_reflection:
  "\<exists>st d'. run_reflection (ex_renv others) ''s'' ''a'' ex_rdb = (Inr st, d') \<and>
     rf_summary st = Some (d_gen (others ex_rdb) (d_next (others ex_rdb))) \<and>
     rf_cluster_ids st = [''a1'', ''a2'', ''a3'']"
proof -
  have 1: "with_rate_limit_retry lib ls j (pv_complete (ce_provider ex_env)
        (request_of (ce_llm ex_env) None mt x ((''system'', ''reflect'') # ms))) None w =
      (Inr (Some ''sorry, no scores today''), [])" for lib ls j mt x ms w
    by (rule retry_immediate_Inr, simp add: ex_env_def ex_provider_def request_of_def)
  have 2: "summarize_cluster ex_env ''reflect'' texts None = (Inr ''sorry, no scores today'', [])" for texts
    by (simp add: summarize_cluster_def complete_def summary_messages_def 1 strip_def py_space_def)
  have 3: "redact_candidate ex_env (new_fact ''sorry, no scores today'' reflection_source None) =
      (new_fact ''I like [REDACTED_TEA]'' reflection_source None) \<lparr> f_raw := Some ''sorry, no scores today'', f_pii := [''TEA''] \<rparr>"
    by (simp add: redact_candidate_def redact_def ex_env_def new_fact_def strip_def py_space_def)
  have "with_rate_limit_retry lib ls j (pv_embed (ce_rounds ex_env 0) m [x]) n w = (Inr [(0, [1])], [])" for lib ls j m x n w
    by (rule retry_immediate_Inr) (simp add: ex_env_def ex_provider_def)
  then have "embed_texts lib ls (ce_rounds ex_env 0) None None [x] = (Inr [[1]], [])" for lib ls x
    by (simp add: embed_texts_def)
  then have 4: "embed_candidates ex_env [c] = (Inr [c \<lparr> f_embedding := Some [1] \<rparr>], [])" for c
    by (simp add: embed_candidates_def embed_retry_delays_def attach_vector_def List.map_filter_def ex_env_def)
  let ?e = "ex_renv others"
  have env: "re_capture ?e = ex_env" "re_instructions ?e = ''reflect''" "re_distance ?e = (\<lambda>v w. 0)" "re_others ?e = others"
    by (simp_all add: ex_renv_def)
  have s1: "select_node ?e ''s'' ''a'' ex_rdb st = st \<lparr> rf_cluster_ids := [''a1'', ''a2'', ''a3''],
      rf_cluster_texts := [''I like tea'', ''I like tea'', ''I like tea''], rf_seed := Some ''a1'' \<rparr>" for st
    by (simp add: select_node_def env ex_select)
  have s2: "summarize_node ?e st = Inr (st \<lparr> rf_raw := ''sorry, no scores today'' \<rparr>)" for st
    by (simp add: summarize_node_def env 2)
  have s3: "pii_adapter_node ?e (st \<lparr> rf_raw := ''sorry, no scores today'' \<rparr>) =
      st \<lparr> rf_raw := ''sorry, no scores today'', rf_redacted := ''I like [REDACTED_TEA]'', rf_entities := [''TEA''] \<rparr>" for st
    by (simp add: pii_adapter_node_def env 3, simp add: new_fact_def)
  have s4: "embed_adapter_node ?e st = Inr (st \<lparr> rf_embedding := Some [1] \<rparr>)" for st
    by (simp add: embed_adapter_node_def env 4)
  have s5: "reflection_write_node ?e ''s'' ''a'' st d = (st', d') \<Longrightarrow>
      rf_summary st' = Some (d_gen d (d_next d)) \<and> rf_cluster_ids st' = rf_cluster_ids st" for st st' d d'
    by (auto simp: reflection_write_node_def write_summary_def split_beta insert_memory_def)
  let ?st = "new_reflection_state \<lparr> rf_cluster_ids := [''a1'', ''a2'', ''a3''],
      rf_cluster_texts := [''I like tea'', ''I like tea'', ''I like tea''], rf_seed := Some ''a1'',
      rf_raw := ''sorry, no scores today'', rf_redacted := ''I like [REDACTED_TEA]'', rf_entities := [''TEA''],
      rf_embedding := Some [1] \<rparr>"
  obtain st' d' where w: "reflection_write_node ?e ''s'' ''a'' ?st (others ex_rdb) = (st', d')" by fastforce
  have "run_reflection ?e ''s'' ''a'' ex_rdb = (Inr st', d')"
    unfolding run_reflection_def Let_def s1 s2 env by (simp add: s3 s4 w)
  then show ?thesis using s5[OF w] by simp
qed

theorem cluster_is_dense_witness:
  "case select_cluster (\<lambda>v w. 0) (Some cluster_max_distance) ''s'' (session ''s'' ''a'' 9 True ex_rdb) of
     None \<Rightarrow> False | Some c \<Rightarrow> 3 \<le> length (cl_members c) \<and> length (cl_members c) \<le> 8"
  using cluster_is_dense[where cosd = "\<lambda>v w. 0" and s = "''s''" and a = "''a''" and now = 9 and k = True
      and bound = cluster_max_distance, OF ex_rdb_ok refl refl refl] ex_select[of 9 True]
  by (simp add: select_cluster_def)

theorem summary_consumes_sources_witness:
  "case write_summary ''s'' ''a'' ''The user likes tea.'' (Some [1]) [''a1'', ''a2''] (session ''s'' ''a'' 9 True ex_rdb) of
     ((i, taken), t') \<Rightarrow> i \<notin> ids ex_rdb \<and> distinct taken"
  using summary_consumes_sources[where source_ids = "[''a1'', ''a2'']" and s = "''s''" and a = "''a''" and now = 9 and k = True
      and content = "''The user likes tea.''" and e = "Some [1]", OF ex_rdb_ok]
  by (auto simp: ids_def ex_rdb_def ex_source_def new_memory_def split: prod.splits)

theorem each_pass_shrinks_witness:
  "\<exists>st d'. run_reflection (ex_renv id) ''s'' ''a'' ex_rdb = (Inr st, d') \<and>
     length (select_rows (reflectable ''s'') (session ''s'' ''a'' 9 True d')) < 3"
proof -
  obtain st d' where r: "run_reflection (ex_renv id) ''s'' ''a'' ex_rdb = (Inr st, d')"
    "rf_summary st = Some (d_gen ex_rdb (d_next ex_rdb))"
    using ex_reflection[of id] by auto
  have "re_others (ex_renv id) ex_rdb = ex_rdb" by (simp add: ex_renv_def)
  from each_pass_shrinks[OF ex_rdb_ok this r, of 9 True]
  have "length (select_rows (reflectable ''s'') (session ''s'' ''a'' 9 True d')) + 3 \<le>
      length (select_rows (reflectable ''s'') (session ''s'' ''a'' 9 True ex_rdb))" by linarith
  also have "\<dots> \<le> 3" unfolding select_rows_def by (rule order.trans[OF length_filter_le]) (simp add: ex_rdb_def)
  finally show ?thesis using r(1) by auto
qed

lemma erased_source_is_summarised_witness:
  "\<exists>st d' i n. run_reflection (ex_renv (\<lambda>d. snd (delete_commit ''a1'' ex_who 5 True d))) ''s'' ''a'' ex_rdb = (Inr st, d') \<and>
     row d' i = Some n \<and> m_deleted n = None \<and> m_stale n = None"
proof -
  let ?del = "\<lambda>d. snd (delete_commit ''a1'' ex_who 5 True d)"
  let ?d = "?del ex_rdb"
  have r1: "row ex_rdb ''a1'' = Some (ex_source ''a1'' 3)"
    by (simp add: row_def ex_rdb_def ex_source_def new_memory_def)
  have d: "row ?d ''a1'' = Some (stamp_deleted 5 (ex_source ''a1'' 3))"
    by (simp add: delete_commit_eq[OF ex_rdb_ok] own_live_row_def r1, simp add: row_def ex_rdb_def ex_source_def new_memory_def
        stamp_deleted_def update_table_def)
  have grows: "grows {} (role_of ex_who) ex_rdb ?d" by (rule delete_commit_grows)
  obtain st d' where r: "run_reflection (ex_renv ?del) ''s'' ''a'' ex_rdb = (Inr st, d')"
    "rf_summary st = Some (d_gen ?d (d_next ?d))" "rf_cluster_ids st = [''a1'', ''a2'', ''a3'']"
    using ex_reflection[of ?del] by auto
  have others: "re_others (ex_renv ?del) ex_rdb = ?d" by (simp add: ex_renv_def)
  have ok: "db_ok (re_others (ex_renv ?del) ex_rdb)" unfolding others by (rule grows_db_ok[OF grows ex_rdb_ok])
  have g: "grows {} (role_of ex_who) ex_rdb (re_others (ex_renv ?del) ex_rdb)" unfolding others by (rule grows)
  have j: "''a1'' \<in> set (rf_cluster_ids st)" using r(3) by simp
  have m: "row (re_others (ex_renv ?del) ex_rdb) ''a1'' = Some (stamp_deleted 5 (ex_source ''a1'' 3))"
    unfolding others by (rule d)
  have dead: "m_deleted (stamp_deleted 5 (ex_source ''a1'' 3)) \<noteq> None" "m_into (stamp_deleted 5 (ex_source ''a1'' 3)) = None"
    by (simp_all add: stamp_deleted_def ex_source_def new_memory_def)
  show ?thesis using erased_source_is_summarised[OF ok ex_rdb_ok g r(1,2) j m dead] r(1) by blast
qed

definition ex_stale :: "real list db" where
  "ex_stale = \<lparr> d_mems = [(ex_source ''a1'' 3) \<lparr> m_consolidated := Some 4, m_into := Some ''a2'' \<rparr>,
       (ex_source ''a2'' 2) \<lparr> m_source := Some reflection_source, m_stale := Some 5 \<rparr>],
     d_audits = [], d_gen = (\<lambda>n. replicate (n + 3) CHR ''x''), d_next = 0 \<rparr>"

lemma ex_stale_ok: "db_ok ex_stale"
proof -
  have "replicate (n + 3) CHR ''x'' \<noteq> ''a1''" "replicate (n + 3) CHR ''x'' \<noteq> ''a2''" for n
    by (simp_all add: numeral_3_eq_3)
  then show ?thesis unfolding db_ok_def ids_def using inj_replicate[of 3 "CHR ''x''"]
    by (simp add: ex_stale_def ex_source_def new_memory_def)
qed

theorem rebuild_frees_live_sources_witness:
  "\<exists>m n. row (snd (rebuild_stale_summaries ''s'' ''a'' rebuild_limit 9 True ex_stale)) ''a1'' = Some m \<and> m_into m = None \<and>
     row (snd (rebuild_stale_summaries ''s'' ''a'' rebuild_limit 9 True ex_stale)) ''a2'' = Some n \<and> m_deleted n = Some 9"
proof -
  have few: "length (select_rows (\<lambda>m. m_subject m = ''s'' \<and> m_stale m \<noteq> None \<and> m_deleted m = None)
      (session ''s'' ''a'' 9 True ex_stale)) \<le> rebuild_limit"
    unfolding select_rows_def by (rule order.trans[OF length_filter_le]) (simp add: ex_stale_def rebuild_limit_def)
  obtain retired freed d' where r: "rebuild_stale_summaries ''s'' ''a'' rebuild_limit 9 True ex_stale = ((retired, freed), d')"
    by (metis prod.collapse)
  have rows: "row ex_stale ''a1'' = Some ((ex_source ''a1'' 3) \<lparr> m_consolidated := Some 4, m_into := Some ''a2'' \<rparr>)"
    "row ex_stale ''a2'' = Some ((ex_source ''a2'' 2) \<lparr> m_source := Some reflection_source, m_stale := Some 5 \<rparr>)"
    by (simp_all add: row_def ex_stale_def ex_source_def new_memory_def)
  note spec = rebuild_frees_live_sources[OF ex_stale_ok few, unfolded r prod.case]
  have "set retired = {j. \<exists>m. row ex_stale j = Some m \<and> visible (App ''s'' ''a'') m \<and> m_stale m \<noteq> None \<and> m_deleted m = None}"
    using spec by blast
  then have ret: "''a2'' \<in> set retired" "''a1'' \<notin> set retired"
    by (simp_all add: rows ex_source_def new_memory_def)
  have each: "\<exists>m'. row d' j = Some m' \<and>
       (if j \<in> set retired then m_deleted m' = Some 9
        else m' = (if visible (App ''s'' ''a'') m \<and> live m \<and> m_into m \<in> Some ` set retired then release 9 m else m))"
    if "row ex_stale j = Some m" for j m using spec that by blast
  have "\<exists>n. row d' ''a2'' = Some n \<and> m_deleted n = Some 9" using each[OF rows(2)] ret(1) by simp
  moreover have "\<exists>m. row d' ''a1'' = Some m \<and> m_into m = None"
    using each[OF rows(1)] ret by (auto simp: release_def live_def ex_source_def new_memory_def split: if_splits)
  ultimately show ?thesis unfolding r by auto
qed

end
