(* ===== verification/System.thy ===== *)
theory System
  imports Response Search Reflection
begin

text \<open>
  The program as a whole: a chat turn over the database (guarded hybrid search over the two real
  paths, ranking, composition, prompt), and the transactions of all components as one step relation
  on the database, with what every history of them keeps.
\<close>

section \<open>A chat turn over the database\<close>

text \<open>Each path ends in time or not; an exception of a path is one of the hybrid search's failures. The
  two paths run in sessions of their own, which may see different databases and may fail: an error of
  the pool or of the statement is what the path raises. The semantic path opens its session only once
  it has a vector.\<close>

record search_conditions =
  sc_env :: search_env
  sc_now :: timestamp
  sc_txid :: bool
  sc_cache :: query_cache
  sc_semantic_in_time :: bool
  sc_keyword_in_time :: bool
  sc_semantic_error :: "py_exn option"
  sc_keyword_error :: "py_exn option"
  sc_in_budget :: bool
  sc_failure :: py_exn

definition path_outcome_of ::
  "search_conditions \<Rightarrow> bool \<Rightarrow> py_exn option \<Rightarrow> llm_exn + candidate list \<Rightarrow> path_outcome" where
  "path_outcome_of sc in_time broken r =
     (if \<not> in_time then Hangs
      else case r of
          Inl _ \<Rightarrow> Raises (sc_failure sc)
        | Inr cs \<Rightarrow> (case broken of Some e \<Rightarrow> Raises e | None \<Rightarrow> Returned cs))"

definition has_vector :: "search_conditions \<Rightarrow> query \<Rightarrow> bool" where
  "has_vector sc q = (case fst (fst (embed_query (sc_env sc) (q_text q) (sc_cache sc))) of
     Inr (Some v) \<Rightarrow> v \<noteq> [] | _ \<Rightarrow> False)"

definition semantic_fn :: "search_conditions \<Rightarrow> real list db \<Rightarrow> query \<Rightarrow> path_outcome" where
  "semantic_fn sc d q = path_outcome_of sc (sc_semantic_in_time sc) (if has_vector sc q then sc_semantic_error sc else None)
     (fst (semantic_search (sc_env sc) q (sc_now sc) (sc_txid sc) d (sc_cache sc)))"

definition keyword_fn :: "search_conditions \<Rightarrow> real list db \<Rightarrow> query \<Rightarrow> path_outcome" where
  "keyword_fn sc d q = path_outcome_of sc (sc_keyword_in_time sc) (sc_keyword_error sc)
     (Inr (keyword_search (sc_env sc) q (sc_now sc) (sc_txid sc) d))"

definition database_search :: "search_conditions \<Rightarrow> real list db \<Rightarrow> real list db \<Rightarrow> query \<Rightarrow> search_end" where
  "database_search sc d1 d2 q =
     (if \<not> sc_in_budget sc then Exceeds
      else case hybrid_search (semantic_fn sc d1) (keyword_fn sc d2) q of Inl e \<Rightarrow> Throws e | Inr h \<Rightarrow> Answers h)"

definition turn_over ::
  "breaker_config \<Rightarrow> real \<Rightarrow> real \<Rightarrow> uuid \<Rightarrow> replica \<Rightarrow> search_conditions \<Rightarrow> real list db \<Rightarrow> real list db \<Rightarrow> turn_env \<Rightarrow> turn_env" where
  "turn_over cfg t_start t_end token rp sc d1 d2 env = env \<lparr> te_search :=
     \<lambda>q. fst (guarded_hybrid_search cfg t_start t_end token (database_search sc d1 d2) q rp) \<rparr>"

section \<open>From the rows to the prompt\<close>

lemma merged_content:
  assumes "path_result_ok Semantic scs" "path_result_ok Keyword kcs" "c \<in> set (merged scs kcs)"
  shows "\<exists>c' \<in> set scs \<union> set kcs. c_id c = c_id c' \<and> c_content c = c_content c'"
proof -
  obtain b i where b: "combine (map_option (normalized Semantic) (map_of (keyed scs) i))
           (map_option (normalized Keyword) (map_of (keyed kcs) i)) = Some b" "c = final_of scs kcs b"
    using assms(3) unfolding merged_mem[OF assms(1,2)] by blast
  have c: "c_id c = c_id b" "c_content c = c_content b"
    by (simp_all add: b(2) final_of_def finalize_def Let_def)
  show ?thesis
  proof (cases "map_of (keyed scs) i")
    case (Some x)
    then have "x \<in> set scs" by (auto simp: keyed_def dest: map_of_SomeD)
    moreover have "c_id b = c_id x" "c_content b = c_content x"
      using b(1) Some by (auto simp: combine_def absorb_def normalized_def split: option.splits)
    ultimately show ?thesis using c by auto
  next
    case None
    then obtain y where y: "map_of (keyed kcs) i = Some y" "b = normalized Keyword y"
      using b(1) by (auto simp: combine_def split: option.splits)
    then have "y \<in> set kcs" by (auto simp: keyed_def dest: map_of_SomeD)
    then show ?thesis using c y(2) by (auto simp: normalized_def)
  qed
qed

lemma fit_loop_subset: "set (fst (fit_loop cnt budget selected dropped)) \<subseteq> set selected"
proof (induction cnt budget selected dropped rule: fit_loop.induct)
  case (1 cnt budget selected dropped)
  show ?case
  proof (cases "selected \<noteq> [] \<and> int (cnt (render_block selected)) > budget")
    case True
    let ?i = "lowest_scored_index selected"
    have "fit_loop cnt budget selected dropped = fit_loop cnt budget (pop ?i selected) (dropped @ [selected ! ?i])"
      unfolding fit_loop.simps[of cnt budget selected dropped] Let_def using True by (rule if_P)
    moreover have "set (pop ?i selected) \<subseteq> set selected" by (auto intro: pop_mem)
    ultimately show ?thesis using 1[OF True refl] by (metis subset_trans)
  next
    case False
    have "fit_loop cnt budget selected dropped = (selected, dropped)"
      unfolding fit_loop.simps[of cnt budget selected dropped] using False by (rule if_not_P)
    then show ?thesis by simp
  qed
qed

lemma compose_profile_block_items:
  obtains items where "set items \<subseteq> set ranked" "x_ids (compose_profile_block cnt b ranked budget) = map r_id items"
    "x_block (compose_profile_block cnt b ranked budget) = render_block items"
proof -
  let ?items = "filter (\<lambda>item. clean (r_content item) \<noteq> []) ranked"
  let ?f = "fst (fit_loop cnt (budget_limit b budget) ?items [])"
  show ?thesis
  proof (cases "?items = []")
    case True
    then show ?thesis using that[of "[]"] by (simp add: compose_profile_block_def Let_def render_block_def)
  next
    case False
    have "set ?f \<subseteq> set ?items" by (rule fit_loop_subset)
    then have "set ?f \<subseteq> set ranked" by auto
    then show ?thesis
      using that[of ?f] False by (simp add: compose_profile_block_def fit_def Let_def split_beta)
  qed
qed

lemma rank_candidates:
  assumes "rank lib k clock cs tk now = Inr rs" "r \<in> set rs"
  shows "r_candidate r \<in> set cs"
proof -
  have "cs \<noteq> []" using assms by (auto simp: rank_def)
  then obtain ref xs n where xs: "map_res (rank_one lib ref clock) cs = Inr xs" "rs = take n (sort_key sort_key_of xs)"
    using assms(1) by (auto simp: rank_def Let_def bind_res_Inr_iff)
  then have "r \<in> set xs" using assms(2) by (auto dest: in_set_takeD)
  then obtain c where "c \<in> set cs" "rank_one lib ref clock c = Inr r" using map_res_set[OF xs(1)] by blast
  then show ?thesis by (auto simp: rank_one_def bind_res_Inr_iff)
qed

lemma composed_items:
  assumes "composed_of env h = Inr x"
  obtains items where "x_ids x = map r_id items" "x_block x = render_block items"
    "list_all (\<lambda>item. r_candidate item \<in> set (h_candidates h)) items"
proof -
  let ?cs = "map Raw (h_candidates h)"
  show ?thesis
  proof (cases "h_candidates h = []")
    case True
    then have "x_ids x = map r_id []" "x_block x = render_block []"
      using assms by (auto simp: composed_of_def compose_def render_block_def)
    then show ?thesis using that[of "[]"] by simp
  next
    case False
    then have raw: "\<not> list_all is_scored ?cs" "\<not> list_ex is_scored ?cs"
      by (cases "h_candidates h"; auto simp: list_ex_iff)+
    have "map the_raw ?cs = h_candidates h" by (simp add: comp_def)
    then obtain rs where rs: "rank (te_lib env) (te_top_k env) (te_clock env) (h_candidates h) None None = Inr rs"
      "x = compose_profile_block (te_count env) (te_budget env) rs None"
      using assms False raw by (auto simp: composed_of_def compose_def bind_res_Inr_iff simp del: list.map_comp)
    obtain items where "set items \<subseteq> set rs" "x_ids x = map r_id items" "x_block x = render_block items"
      using compose_profile_block_items[of rs "te_count env" "te_budget env" None] rs(2) by metis
    moreover from this have "list_all (\<lambda>item. r_candidate item \<in> set (h_candidates h)) items"
      using rank_candidates[OF rs(1)] by (auto simp: list_all_iff)
    ultimately show ?thesis using that by blast
  qed
qed

text \<open>What the search hands on: every candidate stands for a row of one of the two databases.\<close>

lemma live_candidate_cong: "c_id c = c_id c' \<Longrightarrow> c_content c = c_content c' \<Longrightarrow> live_candidate q d c = live_candidate q d c'"
  by (simp add: live_candidate_def)

lemma answer_outcome: "x \<in> set (answer (path_outcome_of sc in_time broken r)) \<Longrightarrow> \<exists>cs. r = Inr cs \<and> x \<in> set cs"
  by (auto simp: answer_def path_outcome_of_def run_path_def split: sum.splits option.splits if_splits)

lemma database_paths_ok:
  assumes "db_ok d1" "db_ok d2" "\<not> is_blank q"
  shows "path_result_ok Semantic (answer (semantic_fn sc d1 q))" "list_all (live_candidate q d1) (answer (semantic_fn sc d1 q))"
    "path_result_ok Keyword (answer (keyword_fn sc d2 q))" "list_all (live_candidate q d2) (answer (keyword_fn sc d2 q))"
proof -
  note serve1 = search_serves_live_rows_lemma[OF assms(1,3), of "sc_env sc" "sc_now sc" "sc_txid sc" "sc_cache sc"]
  note serve2 = search_serves_live_rows_lemma[OF assms(2,3), of "sc_env sc" "sc_now sc" "sc_txid sc" "sc_cache sc"]
  have "path_result_ok Semantic (answer (semantic_fn sc d1 q)) \<and> list_all (live_candidate q d1) (answer (semantic_fn sc d1 q))"
    using conjunct2[OF serve1]
    by (auto simp: answer_def semantic_fn_def path_outcome_of_def run_path_def serves_def path_result_ok_def
        split: sum.splits option.splits if_splits)
  then show "path_result_ok Semantic (answer (semantic_fn sc d1 q))" "list_all (live_candidate q d1) (answer (semantic_fn sc d1 q))"
    by blast+
  have "path_result_ok Keyword (answer (keyword_fn sc d2 q)) \<and> list_all (live_candidate q d2) (answer (keyword_fn sc d2 q))"
    using conjunct1[OF serve2]
    by (auto simp: answer_def keyword_fn_def path_outcome_of_def run_path_def serves_def path_result_ok_def split: option.split)
  then show "path_result_ok Keyword (answer (keyword_fn sc d2 q))" "list_all (live_candidate q d2) (answer (keyword_fn sc d2 q))"
    by blast+
qed

lemma database_search_live:
  assumes "db_ok d1" "db_ok d2" "database_search sc d1 d2 q = Answers h" "c \<in> set (h_candidates h)"
  shows "live_candidate q d1 c \<or> live_candidate q d2 c"
proof -
  have nb: "\<not> is_blank q" using assms(3,4) by (auto simp: database_search_def hybrid_search_def split: if_splits)
  have h: "hybrid_search (semantic_fn sc d1) (keyword_fn sc d2) q = Inr h"
    using assms(3) by (auto simp: database_search_def split: if_splits sum.splits)
  note paths = database_paths_ok[OF assms(1,2) nb, of sc]
  have "h_candidates h = merged (answer (semantic_fn sc d1 q)) (answer (keyword_fn sc d2 q))"
    using hybrid_search_ok[OF nb] paths h by auto
  then obtain c' where "c' \<in> set (answer (semantic_fn sc d1 q)) \<union> set (answer (keyword_fn sc d2 q))"
    "c_id c = c_id c'" "c_content c = c_content c'"
    using merged_content paths assms(4) by metis
  then show ?thesis using paths live_candidate_cong[of c c'] by (auto simp: list_all_iff)
qed

lemma hybrid_search_live:
  assumes "db_ok d" "hybrid_search (semantic_fn sc d) (keyword_fn sc d) q = Inr h" "c \<in> set (h_candidates h)"
  shows "live_candidate q d c"
proof -
  have "semantic_fn (sc \<lparr> sc_in_budget := True \<rparr>) d = semantic_fn sc d" "keyword_fn (sc \<lparr> sc_in_budget := True \<rparr>) d = keyword_fn sc d"
    by (simp_all add: fun_eq_iff semantic_fn_def keyword_fn_def path_outcome_of_def has_vector_def split: sum.split option.split)
  then have "database_search (sc \<lparr> sc_in_budget := True \<rparr>) d d q = Answers h"
    using assms(2) by (simp add: database_search_def)
  then show ?thesis using database_search_live[OF assms(1,1) _ assms(3)] by blast
qed

lemma guarded_retrieved: "fst (guarded_hybrid_search cfg t0 t1 token search q rp) = Retrieved h \<Longrightarrow> search q = Answers h"
  by (auto simp: guarded_hybrid_search_def guarded_with_def split_beta Let_def split: search_end.splits if_splits)

lemma turn_prompts_live:
  assumes ok: "db_ok d1" "db_ok d2" and a: "a \<noteq> []"
    and run: "run_response (turn_over cfg t0 t1 token rp sc d1 d2 env) s a messages = Inr st"
  obtains items where "rs_ids st = map r_id items" "rs_block st = render_block items"
    "list_all (\<lambda>item. list_ex (\<lambda>d. live_candidate (the_query (new_state s a messages)) d (r_candidate item)) [d1, d2]) items"
proof -
  let ?env = "turn_over cfg t0 t1 token rp sc d1 d2 env" and ?s = "new_state s a messages"
  show ?thesis
  proof (cases "strip (latest_user_message (rs_messages ?s)) = []")
    case True
    show ?thesis
      using run that[of "[]"] retrieval_node_cases(1)[OF True, of ?env]
      by (auto simp: run_response_def invoke_eq respond_node_eq without_memory_def render_block_def split: prod.splits option.splits)
  next
    case False
    show ?thesis
    proof (cases "te_search ?env (the_query ?s)")
      case (Unavailable why c)
      then show ?thesis
        using run that[of "[]"] retrieval_node_cases(2)[OF False Unavailable]
        by (auto simp: run_response_def invoke_eq respond_node_eq without_memory_def render_block_def split: prod.splits option.splits)
    next
      case Propagates_cancel
      then have "retrieval_node ?env ?s = Inl Cancel"
        using False by (simp add: retrieval_node_def Let_def the_query_def)
      then show ?thesis using run by (simp add: run_response_def invoke_eq)
    next
      case (Retrieved h)
      show ?thesis
      proof (cases "composed_of ?env h")
        case (Inl e)
        then have "retrieval_node ?env ?s = Inl (Exn e)"
          using False Retrieved by (simp add: retrieval_node_def Let_def the_query_def composed_of_def)
        then show ?thesis using run by (simp add: run_response_def invoke_eq)
      next
        case (Inr x)
        have st: "rs_ids st = x_ids x" "rs_block st = x_block x"
          using run retrieval_node_cases(3)[OF False Retrieved Inr]
          by (auto simp: run_response_def invoke_eq respond_node_eq with_memory_def split: prod.splits option.splits)
        obtain items where items: "x_ids x = map r_id items" "x_block x = render_block items"
          "list_all (\<lambda>item. r_candidate item \<in> set (h_candidates h)) items"
          by (rule composed_items[OF Inr])
        have "database_search sc d1 d2 (the_query ?s) = Answers h"
          using guarded_retrieved Retrieved by (simp add: turn_over_def)
        then show ?thesis
          using that[of items] items st database_search_live[OF ok] by (auto simp: list_all_iff)
      qed
    qed
  qed
qed

section \<open>What reaches the ranking\<close>

lemma row_metadata_ok_cong: "c_metadata c = c_metadata c' \<Longrightarrow> row_metadata_ok lib c = row_metadata_ok lib c'"
  by (simp add: row_metadata_ok_def meta_def)

lemma row_metadata_ok_absorb:
  assumes "row_metadata_ok lib e" "row_metadata_ok lib c"
  shows "row_metadata_ok lib (absorb e c)"
proof -
  have m: "meta (absorb e c) k = meta e k \<or> meta (absorb e c) k = meta c k" for k
    by (simp add: meta_def absorb_def map_add_def split: option.split)
  let ?date = "\<lambda>v. case v of PyNone \<Rightarrow> True
     | PyStr s \<Rightarrow> strip s = [] \<or> (case from_isoformat lib (z_suffix (strip s)) of
         Some (Aware u) \<Rightarrow> dt_min \<le> u \<and> u \<le> dt_max | _ \<Rightarrow> True)
     | _ \<Rightarrow> False"
  have dates: "?date (meta (absorb e c) k)" if "k = ''created_at'' \<or> k = ''last_accessed_at''" for k
  proof -
    have "?date (meta e k)" "?date (meta c k)" using assms that unfolding row_metadata_ok_def by blast+
    then show ?thesis using m[of k] by (elim disjE; simp only:)
  qed
  let ?count = "\<lambda>v. case v of PyInt n \<Rightarrow> \<bar>n\<bar> < 2 ^ 31 | PyNone \<Rightarrow> True | _ \<Rightarrow> False"
  let ?number = "\<lambda>v. case v of PyFloat _ \<Rightarrow> True | PyNone \<Rightarrow> True | _ \<Rightarrow> False"
  have "?count (meta e ''reinforcement_count'')" "?count (meta c ''reinforcement_count'')"
    "?number (meta e ''importance'')" "?number (meta c ''importance'')"
    using assms unfolding row_metadata_ok_def by blast+
  then have "?count (meta (absorb e c) ''reinforcement_count'')" "?number (meta (absorb e c) ''importance'')"
    using m[of "''reinforcement_count''"] m[of "''importance''"] by (elim disjE; simp only:)+
  then show ?thesis using dates unfolding row_metadata_ok_def by blast
qed

lemma merged_metadata:
  assumes "path_result_ok Semantic scs" "path_result_ok Keyword kcs" "c \<in> set (merged scs kcs)"
    and rows: "\<And>c. c \<in> set scs \<union> set kcs \<Longrightarrow> row_metadata_ok lib c"
  shows "row_metadata_ok lib c"
proof -
  obtain b i where b: "combine (map_option (normalized Semantic) (map_of (keyed scs) i))
           (map_option (normalized Keyword) (map_of (keyed kcs) i)) = Some b" "c = final_of scs kcs b"
    using assms(3) unfolding merged_mem[OF assms(1,2)] by blast
  have c: "row_metadata_ok lib c = row_metadata_ok lib b"
    by (rule row_metadata_ok_cong) (simp add: b(2) final_of_def finalize_def Let_def)
  have mem: "row_metadata_ok lib (normalized p x)" if "map_of (keyed cs) i = Some x" "cs = scs \<or> cs = kcs" for cs x p
  proof -
    have "x \<in> set cs" using that(1) by (auto simp: keyed_def dest: map_of_SomeD)
    then show ?thesis using rows that(2) row_metadata_ok_cong[of "normalized p x" x lib] by (auto simp: normalized_def)
  qed
  show ?thesis
    using b(1) mem row_metadata_ok_absorb unfolding c
    by (auto simp: combine_def split: option.splits)
qed

text \<open>The library prints timestamps it can read back, and the count is a 32-bit integer column.\<close>

definition dates_readable :: "pylib \<Rightarrow> search_env \<Rightarrow> bool" where
  "dates_readable lib env \<longleftrightarrow> (\<forall>n. case from_isoformat lib (z_suffix (strip (se_isoformat env n))) of
     Some (Aware u) \<Rightarrow> dt_min \<le> u \<and> u \<le> dt_max | _ \<Rightarrow> True)"

definition counts_fit :: "'v db \<Rightarrow> bool" where
  "counts_fit d \<longleftrightarrow> list_all (\<lambda>m. \<bar>m_reinforced m\<bar> < 2 ^ 31) (d_mems d)"

lemma path_candidate_metadata:
  assumes "dates_readable lib env" "counts_fit d" "m \<in> set (d_mems d)" "label \<in> {''cosine_distance'', ''ts_rank''}"
  shows "row_metadata_ok lib (path_candidate env p label x y m)"
proof -
  let ?c = "path_candidate env p label x y m"
  have m: "meta ?c ''reinforcement_count'' = PyInt (m_reinforced m)" "meta ?c ''importance'' = opt_num (m_importance m)"
    "meta ?c ''created_at'' = PyStr (se_isoformat env (m_created m))"
    "meta ?c ''last_accessed_at'' = PyStr (se_isoformat env (m_accessed m))"
    by (simp_all add: meta_def path_candidate_def row_metadata_def)
  have "\<bar>m_reinforced m\<bar> < 2 ^ 31" using assms(2,3) by (simp add: counts_fit_def list_all_iff)
  then show ?thesis
    using assms(1) by (auto simp: row_metadata_ok_def m opt_num_def dates_readable_def split: option.split)
qed

lemma keyword_search_rows:
  "c \<in> set (keyword_search env q now k d) \<Longrightarrow> \<exists>m \<in> set (d_mems d). c = keyword_candidate env (q_text q) m"
  by (auto simp: keyword_search_def keyword_rows_def select_rows_def dest!: in_set_takeD split: if_splits)

lemma semantic_search_rows:
  "fst (semantic_search env q now k d c) = Inr cs \<Longrightarrow> x \<in> set cs \<Longrightarrow>
     \<exists>v. \<exists>m \<in> set (d_mems d). x = semantic_candidate env v m"
  by (auto simp: semantic_search_def semantic_rows_def select_rows_def Let_def
      dest!: in_set_takeD split: if_splits prod.splits sum.splits option.splits) blast

lemma database_search_metadata:
  assumes "db_ok d1" "db_ok d2" "counts_fit d1" "counts_fit d2" "dates_readable lib (sc_env sc)"
    and "database_search sc d1 d2 q = Answers h" "c \<in> set (h_candidates h)"
  shows "row_metadata_ok lib c"
proof -
  have nb: "\<not> is_blank q" using assms(6,7) by (auto simp: database_search_def hybrid_search_def split: if_splits)
  have h: "hybrid_search (semantic_fn sc d1) (keyword_fn sc d2) q = Inr h"
    using assms(6) by (auto simp: database_search_def split: if_splits sum.splits)
  note paths = database_paths_ok[OF assms(1,2) nb, of sc]
  have "h_candidates h = merged (answer (semantic_fn sc d1 q)) (answer (keyword_fn sc d2 q))"
    using hybrid_search_ok[OF nb] paths h by auto
  moreover have "row_metadata_ok lib x" if "x \<in> set (answer (semantic_fn sc d1 q)) \<union> set (answer (keyword_fn sc d2 q))" for x
  proof -
    have "(\<exists>v. \<exists>m \<in> set (d_mems d1). x = semantic_candidate (sc_env sc) v m) \<or>
        (\<exists>m \<in> set (d_mems d2). x = keyword_candidate (sc_env sc) (q_text q) m)"
      using that unfolding semantic_fn_def keyword_fn_def
      by (auto dest!: answer_outcome intro: keyword_search_rows semantic_search_rows)
    then show ?thesis
      using path_candidate_metadata[OF assms(5,3)] path_candidate_metadata[OF assms(5,4)]
      by (auto simp: semantic_candidate_def keyword_candidate_def)
  qed
  ultimately show ?thesis using merged_metadata paths assms(7) by metis
qed

lemma composed_total:
  assumes "\<And>c. c \<in> set (h_candidates h) \<Longrightarrow> row_metadata_ok (te_lib env) c"
  shows "\<exists>x. composed_of env h = Inr x"
proof (cases "h_candidates h = []")
  case True
  then show ?thesis by (simp add: composed_of_def compose_def)
next
  case False
  then have raw: "\<not> list_all is_scored (map Raw (h_candidates h))" "\<not> list_ex is_scored (map Raw (h_candidates h))"
    by (cases "h_candidates h"; auto simp: list_ex_iff)+
  obtain rs where "rank (te_lib env) (te_top_k env) (te_clock env) (h_candidates h) None None = Inr rs"
    using rank_total assms by metis
  moreover have "map (the_raw \<circ> Raw) (h_candidates h) = h_candidates h" by (simp add: comp_def)
  ultimately show ?thesis using False raw by (simp add: composed_of_def compose_def)
qed

lemma turn_answered:
  assumes "db_ok d1" "db_ok d2" "counts_fit d1" "counts_fit d2" "dates_readable (te_lib env) (sc_env sc)"
    and stream: "\<And>p. te_stream env p = (tokens p, None)"
  shows "\<exists>st. run_response (turn_over cfg t0 t1 token rp sc d1 d2 env) s a messages = Inr st \<and>
    rs_reply st = concat (tokens (rs_prompt st))"
proof -
  let ?env = "turn_over cfg t0 t1 token rp sc d1 d2 env" and ?s = "new_state s a messages"
  have stream': "te_stream ?env p = (tokens p, None)" for p by (simp add: turn_over_def stream)
  have "\<exists>st' ev audit. retrieval_node ?env ?s = Inr (st', ev, audit)"
  proof (cases "strip (latest_user_message (rs_messages ?s)) = []")
    case True
    then show ?thesis using retrieval_node_cases(1) by blast
  next
    case False
    show ?thesis
    proof (cases "te_search ?env (the_query ?s)")
      case (Unavailable why c)
      then show ?thesis using retrieval_node_cases(2)[OF False] by blast
    next
      case Propagates_cancel
      have "database_search sc d1 d2 q \<noteq> Cancelled" for q by (simp add: database_search_def split: sum.split)
      then show ?thesis using Propagates_cancel
        by (auto simp: turn_over_def guarded_hybrid_search_def guarded_with_def split_beta Let_def
            split: search_end.splits if_splits)
    next
      case (Retrieved h)
      then have "database_search sc d1 d2 (the_query ?s) = Answers h"
        using guarded_retrieved by (simp add: turn_over_def)
      then have "row_metadata_ok (te_lib ?env) c" if "c \<in> set (h_candidates h)" for c
        using database_search_metadata[OF assms(1-5)] that by (simp add: turn_over_def)
      then obtain x where "composed_of ?env h = Inr x" using composed_total by metis
      then show ?thesis using retrieval_node_cases(3)[OF False Retrieved] by blast
    qed
  qed
  then obtain st' ev audit where r: "retrieval_node ?env ?s = Inr (st', ev, audit)" by blast
  show ?thesis by (simp add: run_response_def invoke_eq r respond_node_eq stream')
qed

section \<open>The transactions\<close>

text \<open>Every transaction of the program, with what decides it free: the parameters of the request, the
  clock, the distances, the rows other workers hold.\<close>

inductive step :: "'v db \<Rightarrow> 'v db \<Rightarrow> bool" where
  capture: "step d (snd (persist_candidates cosd threshold s a candidates now k d))"
| invalidate: "step d (snd (invalidate_summaries_for s a i reason now d))"
| delete: "step d (snd (delete_commit i who now k d))"
| edit: "step d (snd (patch_commit i before content v who now k d))"
| read_audit: "step d (snd (record_read_audit up s a shown n m now k d))"
| export: "step d (snd (export_my_data who cap fb now k d))"
| decay: "step d (x_db (snd (run_decay_batch locked run n subjects reference (admin_session now d))))"
| summarise: "set source_ids \<subseteq> ids d \<Longrightarrow>
     step d (x_db (snd (write_summary s a content e source_ids (session s a now k d))))"
| rebuild: "step d (snd (rebuild_stale_summaries s a limit now k d))"

text \<open>The histories: any number of transactions, in any order.\<close>

abbreviation history :: "'v db \<Rightarrow> 'v db \<Rightarrow> bool" where
  "history \<equiv> step\<^sup>*\<^sup>*"

lemma write_audit_many_frame: "x_role t = App s a \<Longrightarrow> frame ed t (snd (write_audit_many s a act is mt t))"
proof (induction "is" arbitrary: t)
  case (Cons i "is")
  have f: "frame ed t (snd (write_audit s a act (Some i) mt False t))" by (rule frame_own_audit[OF Cons.prems])
  moreover have "x_role (snd (write_audit s a act (Some i) mt False t)) = App s a" using Cons.prems by simp
  ultimately show ?case using Cons.IH frame_trans by (fastforce simp: split_beta)
qed simp

lemma record_read_audit_grows: "grows ed (App s a) d (snd (record_read_audit up s a shown n m now k d))"
proof -
  let ?t = "session s a now k d"
  have "frame ed ?t (snd (write_audit_many s a Read is mt ?t))" for "is" mt
    by (rule write_audit_many_frame) simp
  then show ?thesis by (auto simp: record_read_audit_def frame_def Let_def split_beta)
qed

lemma export_grows: "grows ed (role_of who) d (snd (export_my_data who cap fb now k d))"
proof -
  let ?t = "session (i_subject who) (i_actor who) now k d"
  have f: "frame ed ?t (snd (write_audit (i_subject who) (i_actor who) Export None mt rep ?t))" for mt rep
    by (rule frame_own_audit) simp
  show ?thesis
    using f by (auto simp: export_my_data_def frame_def Let_def split_beta split: sum.split)
qed

lemma write_summary_grows: "grows ed (App s a) d (x_db (snd (write_summary s a c e srcs (session s a now k d))))"
proof -
  let ?t = "session s a now k d"
  define p where "p = insert_memory s a c e (Some reflection_source) (Some (6 / 10)) (Some (7 / 10)) None ?t"
  define t2 where "t2 = snd (write_audit s a Write (Some (fst p)) (Summary (length srcs) srcs) False (snd p))"
  define u where "u = (if srcs = [] then ([], t2)
     else update_rows (\<lambda>m. m_id m \<in> set srcs \<and> m_deleted m = None \<and> m_consolidated m = None) (consolidate (fst p) (x_now ?t)) t2)"
  have r: "x_role ?t = App s a" by simp
  have p: "frame ed ?t (snd p)" unfolding p_def by (rule frame_insert_memory[OF r])
  have t2: "frame ed ?t t2" unfolding t2_def using frame_trans[OF p frame_own_audit] frame_role[OF p] r by simp
  have "frame ed t2 (snd (update_rows (\<lambda>m. m_id m \<in> set srcs \<and> m_deleted m = None \<and> m_consolidated m = None)
      (consolidate (fst p) (x_now ?t)) t2))"
    by (rule frame_update) (simp add: evolves_consolidate)
  then have "frame ed t2 (snd u)" by (simp add: u_def)
  then have u: "frame ed ?t (snd u)" by (rule frame_trans[OF t2])
  have "snd (write_summary s a c e srcs ?t) = snd (run_each (audit_consolidated s a (fst p)) (fst u) (snd u))"
    by (simp only: write_summary_def Let_def split_beta p_def[symmetric] t2_def[symmetric] u_def snd_conv)
  then have "frame ed ?t (snd (write_summary s a c e srcs ?t))" using folded.then_each[OF r u] by simp
  then show ?thesis by (simp add: frame_def)
qed

lemma rebuild_stale_grows: "grows ed (App s a) d (snd (rebuild_stale_summaries s a limit now k d))"
proof -
  let ?t = "session s a now k d"
  have r: "x_role ?t = App s a" by simp
  have "frame ed ?t (snd (run_each (rebuild_one s a) sms ?t))" for sms by (rule rebuild.each[OF r])
  then show ?thesis by (simp add: rebuild_stale_summaries_def frame_def split_beta Let_def)
qed

lemma step_grows: "step d d' \<Longrightarrow> db_ok d \<Longrightarrow> grows UNIV Owner d d'"
proof (induction rule: step.induct)
  case (capture d cosd threshold s a candidates now k)
  show ?case by (rule grows_weaken[OF persist_candidates_grows subset_UNIV])
next
  case (invalidate d s a i reason now)
  show ?case by (rule invalidate_grows)
next
  case (delete d i who now k)
  show ?case by (rule grows_weaken[OF delete_commit_grows subset_UNIV])
next
  case (edit d i before content v who now k)
  show ?case by (rule grows_weaken[OF patch_commit_grows subset_UNIV])
next
  case (read_audit d up s a shown n m now k)
  show ?case by (rule grows_weaken[OF record_read_audit_grows subset_UNIV])
next
  case (export d who cap fb now k)
  show ?case by (rule grows_weaken[OF export_grows subset_UNIV])
next
  case (decay d locked run n subjects reference now)
  show ?case by (rule batch_grows[OF decay])
next
  case (summarise source_ids d s a content e now k)
  show ?case by (rule grows_weaken[OF write_summary_grows subset_UNIV])
next
  case (rebuild d s a limit now k)
  show ?case by (rule grows_weaken[OF rebuild_stale_grows subset_UNIV])
qed

lemma history_grows: "history d d' \<Longrightarrow> db_ok d \<Longrightarrow> grows UNIV Owner d d'"
proof (induction rule: rtranclp_induct)
  case (step y z)
  have "grows UNIV Owner d y" by (rule step.IH[OF step.prems])
  moreover from this have "grows UNIV Owner y z" using step_grows[OF step.hyps(2)] grows_db_ok step.prems by blast
  ultimately show ?case by (rule grows_trans)
qed simp

text \<open>A new row without a single-valued slot brings no clash.\<close>

lemma slots_ok_unslotted:
  assumes "grows ed r d d'" "slots_ok d" "db_ok d"
    and "\<And>m. m \<in> set (d_mems d') \<Longrightarrow> m_id m \<notin> ids d \<Longrightarrow> \<not> is_single_valued (m_attribute m)"
  shows "slots_ok d'"
  by (rule slots_ok_grows[OF assms(1-3)]) (use assms(4) in \<open>auto simp: slot_clash_def\<close>)

lemma step_slots_ok: "step d d' \<Longrightarrow> db_ok d \<Longrightarrow> slots_ok d \<Longrightarrow> slots_ok d'"
proof -
  assume s: "step d d'" and ok: "db_ok d" "slots_ok d"
  have same: "slots_ok d'" if "map m_id (d_mems d') = map m_id (d_mems d)"
  proof (rule slots_ok_unslotted[OF step_grows[OF s ok(1)] ok(2,1)])
    fix m assume "m \<in> set (d_mems d')" "m_id m \<notin> ids d"
    moreover have "m_id ` set (d_mems d') = ids d" using that by (metis ids_def list.set_map)
    ultimately show "\<not> is_single_valued (m_attribute m)" by blast
  qed
  from s show "slots_ok d'"
  proof cases
    case (capture cosd threshold s a candidates now k)
    then show ?thesis using persist_candidates_slots_ok[OF ok] by simp
  next
    case (invalidate s a i reason now)
    have "map m_id (d_mems d') = map m_id (d_mems d)"
      unfolding invalidate invalidate_mems by (rule update_table_ids) (simp add: make_stale_def)
    then show ?thesis by (rule same)
  next
    case (delete i who now k)
    have "map m_id (d_mems d') = map m_id (d_mems d)"
      unfolding delete delete_commit_eq[OF ok(1)]
      by (auto simp: update_table_ids stamp_deleted_def split: option.split)
    then show ?thesis by (rule same)
  next
    case (edit i before content v who now k)
    have "map m_id (d_mems d') = map m_id (d_mems d)"
      unfolding edit patch_commit_eq[OF ok(1)]
      by (auto simp: update_table_ids edit_def split: option.split)
    then show ?thesis by (rule same)
  next
    case (read_audit up s a shown n m now k)
    have "d_mems (x_db (snd (write_audit_many s a act is mt t))) = d_mems (x_db t)" for act "is" mt and t :: "'a tx"
      by (induction "is" arbitrary: t) (simp_all add: split_beta)
    then have "d_mems d' = d_mems d"
      by (simp add: read_audit record_read_audit_def Let_def split_beta)
    then show ?thesis using same by simp
  next
    case (export who cap fb now k)
    have "d_mems d' = d_mems d"
      by (simp add: export export_my_data_def Let_def split_beta)
    then show ?thesis using same by simp
  next
    case (decay locked run n subjects reference now)
    let ?t = "admin_session now d"
    let ?ref = "case reference of Some r \<Rightarrow> r | None \<Rightarrow> now"
    have t: "db_ok (x_db ?t)" "x_role ?t = Owner" using ok by simp_all
    have ref: "?ref = (case reference of Some r \<Rightarrow> r | None \<Rightarrow> x_now ?t)" by (cases reference) simp_all
    have "map m_id (d_mems d') = map m_id (d_mems d)"
      using batch_effect[OF t refl ref refl, of locked run n subjects] by (simp add: decay decayed_def)
    then show ?thesis by (rule same)
  next
    case (summarise source_ids s a content e now k)
    obtain i taken t' where w: "write_summary s a content e source_ids (session s a now k d) = ((i, taken), t')"
      by (metis prod.collapse)
    note r = write_summary_rows[OF ok(1) summarise(2) w]
    show ?thesis
    proof (rule slots_ok_unslotted[OF step_grows[OF s ok(1)] ok(2,1)])
      fix m assume m: "m \<in> set (d_mems d')" "m_id m \<notin> ids d"
      have "m \<notin> (\<lambda>m. if foldable s a source_ids m then consolidate i now m else m) ` set (d_mems d)"
        using m(2) by (auto simp: ids_def consolidate_def image_iff split: if_splits)
      then have "m_attribute m = None" using m(1) by (auto simp: summarise w r(8) new_memory_def)
      then show "\<not> is_single_valued (m_attribute m)" by simp
    qed
  next
    case (rebuild s a limit now k)
    have one: "map m_id (d_mems (x_db (snd (rebuild_one s a sm t)))) = map m_id (d_mems (x_db t))" for sm and t :: "'a tx"
    proof -
      have aud: "d_mems (x_db (snd (run_each (audit_released s a i) ms t))) = d_mems (x_db t)" for i ms and t :: "'a tx"
        by (induction ms arbitrary: t) (simp_all add: split_beta audit_released_def)
      show ?thesis
        by (simp add: rebuild_one_def Let_def split_beta aud update_rows_mems update_table_ids retire_summary_def release_def)
    qed
    have "map m_id (d_mems (x_db (snd (run_each (rebuild_one s a) sms t)))) = map m_id (d_mems (x_db t))" for sms and t :: "'a tx"
      by (induction sms arbitrary: t) (simp_all add: split_beta one)
    then have "map m_id (d_mems d') = map m_id (d_mems d)"
      by (simp add: rebuild rebuild_stale_summaries_def Let_def split_beta)
    then show ?thesis by (rule same)
  qed
qed

section \<open>Properties of the whole program\<close>

lemma history_invariant:
  "history d d' \<Longrightarrow> db_ok d \<Longrightarrow> slots_ok d \<Longrightarrow> list_all row_ok (d_mems d) \<Longrightarrow>
     db_ok d' \<and> slots_ok d' \<and> list_all row_ok (d_mems d')"
proof (induction rule: rtranclp_induct)
  case (step y z)
  then have y: "db_ok y" "slots_ok y" "list_all row_ok (d_mems y)" by simp_all
  have g: "grows UNIV Owner y z" by (rule step_grows[OF step.hyps(2) y(1)])
  show ?case
    using grows_db_ok[OF g y(1)] step_slots_ok[OF step.hyps(2) y(1,2)] grows_rows_ok[OF g y(3)] by simp
qed simp

text \<open>C3. The database invariant. Whatever transactions of the program run, in whatever order and with
  whatever arguments, identifiers stay unique and new ones fresh, every single-valued slot has at
  most one live value per subject and actor, and every row stays well-formed: its weight between the
  floor of decay and the cap of reinforcement, its reinforcement count not negative, its
  supersession and consolidation marks exactly where it points to another row.\<close>

theorem every_history_keeps_the_invariant:
  assumes "history d d'" "db_ok d" "slots_ok d" "list_all row_ok (d_mems d)"
  shows "db_ok d' \<and> slots_ok d' \<and> list_all row_ok (d_mems d')"
  using assms by (rule history_invariant)

text \<open>C4. History is only ever added to. Along any run of transactions the audit trail keeps what it has,
  and no memory disappears or changes hands: its owner, origin, slot and creation time stay, its
  reinforcement count never falls, an erased memory stays byte for byte as it is, and what was
  superseded or marked stale stays so.\<close>

theorem history_is_append_only:
  assumes "history d d'" "db_ok d"
  shows "(\<exists>more. d_audits d' = d_audits d @ more) \<and>
    (\<forall>i m. row d i = Some m \<longrightarrow> (\<exists>m'. row d' i = Some m' \<and>
       m_subject m' = m_subject m \<and> m_actor m' = m_actor m \<and> m_source m' = m_source m \<and>
       m_attribute m' = m_attribute m \<and> m_created m' = m_created m \<and> m_reinforced m \<le> m_reinforced m' \<and>
       (m_deleted m \<noteq> None \<longrightarrow> m' = m) \<and> (forgotten m \<longrightarrow> forgotten m')))"
proof -
  have g: "grows UNIV Owner d d'" by (rule history_grows[OF assms])
  show ?thesis
  proof (intro conjI allI impI)
    show "\<exists>more. d_audits d' = d_audits d @ more" using grows_prefix[OF g] by blast
  next
    fix i m assume "row d i = Some m"
    then obtain m' where m': "row d' i = Some m'" "evolves UNIV m m'"
      using grows_row_of[OF g assms(2)] by (auto simp: evolves_for_def)
    show "\<exists>m'. row d' i = Some m' \<and>
       m_subject m' = m_subject m \<and> m_actor m' = m_actor m \<and> m_source m' = m_source m \<and>
       m_attribute m' = m_attribute m \<and> m_created m' = m_created m \<and> m_reinforced m \<le> m_reinforced m' \<and>
       (m_deleted m \<noteq> None \<longrightarrow> m' = m) \<and> (forgotten m \<longrightarrow> forgotten m')"
      using evolves_forgotten[OF m'(2)] m'(2) by (intro exI[of _ m'] conjI m'(1)) (simp_all add: evolves_def)
  qed
qed

text \<open>C2. From the rows to the prompt. Whatever the two search paths, their timeouts, the breaker, the
  ranking and the budget do, the memory block of a turn that succeeds is the rendering of memories
  that each stand, with their text, for a row of the caller in the database one of the paths read, and none of
  which is erased, superseded or a stale summary; the audited identifiers are theirs.\<close>

theorem prompts_only_live_memories:
  assumes "db_ok d1" "db_ok d2" "a \<noteq> []"
    and "run_response (turn_over cfg t0 t1 token rp sc d1 d2 env) s a messages = Inr st"
  shows "\<exists>items. rs_ids st = map r_id items \<and> rs_block st = render_block items \<and>
    list_all (\<lambda>item. list_ex (\<lambda>d. list_ex (\<lambda>m. m_id m = r_id item \<and> Store.m_content m = r_content item \<and>
       m_subject m = s \<and> m_actor m = a \<and> \<not> forgotten m) (d_mems d)) [d1, d2]) items"
proof -
  obtain items where items: "rs_ids st = map r_id items" "rs_block st = render_block items"
    "list_all (\<lambda>item. list_ex (\<lambda>d. live_candidate (the_query (new_state s a messages)) d (r_candidate item)) [d1, d2]) items"
    by (rule turn_prompts_live[OF assms])
  have q: "q_subject (the_query (new_state s a messages)) = s" "q_actor (the_query (new_state s a messages)) = a"
    using assms(3) by (simp_all add: the_query_def new_state_def actor_or_subject_def)
  show ?thesis
    using items by (intro exI[of _ items]) (simp add: live_candidate_def q r_id_def r_content_def)
qed

text \<open>C1. Forgetting is final. Once a memory is erased, superseded or a stale summary, no later turn of
  anybody, however long the history in between, quotes it or lists it as shown: this holds however the
  database changed before each of the two paths read it.\<close>

theorem forgotten_is_never_prompted:
  assumes start: "db_ok d" "row d i = Some m" "forgotten m"
    and later: "history d d1" "history d d2"
    and turn: "run_response (turn_over cfg t0 t1 token rp sc d1 d2 env) s a messages = Inr st" "a \<noteq> []"
  shows "i \<notin> set (rs_ids st)"
proof
  assume i: "i \<in> set (rs_ids st)"
  have ok: "db_ok d1" "db_ok d2"
    using history_grows[OF later(1) start(1)] history_grows[OF later(2) start(1)] grows_db_ok start(1) by blast+
  obtain items where items: "rs_ids st = map r_id items"
    "list_all (\<lambda>item. list_ex (\<lambda>d. live_candidate (the_query (new_state s a messages)) d (r_candidate item)) [d1, d2]) items"
    using turn_prompts_live[OF ok turn(2,1)] by metis
  obtain item where item: "item \<in> set items" "r_id item = i" using i items(1) by auto
  then obtain d' where d': "d' \<in> {d1, d2}" "live_candidate (the_query (new_state s a messages)) d' (r_candidate item)"
    using items(2) by (auto simp: list_all_iff)
  then obtain n where n: "n \<in> set (d_mems d')" "m_id n = i" "\<not> forgotten n"
    using item(2) by (auto simp: live_candidate_def list_ex_iff r_id_def)
  have h: "history d d'" "db_ok d'" using d'(1) later ok by auto
  obtain m' where m': "row d' i = Some m'" "evolves_for UNIV Owner m m'"
    using grows_row_of[OF history_grows[OF h(1) start(1)] start(1,2)] by blast
  have "forgotten m'" using m'(2) start(3) by (auto simp: evolves_for_def dest: evolves_forgotten)
  moreover have "n = m'" using row_eq[OF h(2) n(1)] n(2) m'(1) by simp
  ultimately show False using n(3) by simp
qed

text \<open>C5. Every turn is answered. Over any two databases of the schema's types, with any breaker state
  and any configuration, whichever path hangs or raises and however late it is, a turn whose stream
  completes ends with a reply, and the reply is the stream's text for the prompt that was built.\<close>

theorem every_turn_is_answered:
  assumes "db_ok d1" "db_ok d2" "counts_fit d1" "counts_fit d2" "dates_readable (te_lib env) (sc_env sc)"
    and "\<And>p. te_stream env p = (tokens p, None)"
  shows "\<exists>st. run_response (turn_over cfg t0 t1 token rp sc d1 d2 env) s a messages = Inr st \<and>
    rs_reply st = concat (tokens (rs_prompt st))"
  using assms by (rule turn_answered)

section \<open>An example history\<close>

definition ex_conditions :: search_conditions where
  "ex_conditions = \<lparr> sc_env = ex_senv, sc_now = 9, sc_txid = True, sc_cache = \<lparr> qc_memory = [], qc_disk = None \<rparr>,
     sc_semantic_in_time = True, sc_keyword_in_time = True, sc_semantic_error = None,
     sc_keyword_error = None, sc_in_budget = True, sc_failure = ValueError \<rparr>"

lemma ex_erased:
  "row (snd (delete_commit ''m1'' ex_who 5 True ex_sdb)) ''m1'' =
     Some (stamp_deleted 5 (new_memory ''s'' ''a'' ''I like tea'' (Some [1]) (Some ''chat'') None None None 3 ''m1''))"
proof -
  have r: "row ex_sdb ''m1'' = Some (new_memory ''s'' ''a'' ''I like tea'' (Some [1]) (Some ''chat'') None None None 3 ''m1'')"
    by (simp add: row_def ex_sdb_def new_memory_def)
  show ?thesis
    by (simp add: delete_commit_eq[OF ex_sdb_ok] own_live_row_def r, simp add: row_def ex_sdb_def new_memory_def
        stamp_deleted_def update_table_def)
qed

lemma ex_sdb_slots: "slots_ok ex_sdb" "list_all row_ok (d_mems ex_sdb)"
  by (simp_all add: slots_ok_def slot_clash_def ex_sdb_def new_memory_def row_ok_def)

theorem every_history_keeps_the_invariant_witness:
  "slots_ok (snd (persist_candidates (\<lambda>v w. 1) None ''s'' ''a'' [new_fact ''I like jazz'' ''chat'' None] 9 True ex_sdb))"
proof -
  have "history ex_sdb (snd (persist_candidates (\<lambda>v w. 1) None ''s'' ''a'' [new_fact ''I like jazz'' ''chat'' None] 9 True ex_sdb))"
    by (rule r_into_rtranclp, rule step.capture)
  from every_history_keeps_the_invariant[OF this ex_sdb_ok ex_sdb_slots] show ?thesis by blast
qed

lemma ex_deletion: "history ex_sdb (snd (delete_commit ''m1'' ex_who 5 True ex_sdb))"
  by (rule r_into_rtranclp, rule step.delete)

theorem history_is_append_only_witness:
  "\<exists>m'. row (snd (delete_commit ''m1'' ex_who 5 True ex_sdb)) ''m1'' = Some m' \<and> m_subject m' = ''s''"
proof -
  have "row ex_sdb ''m1'' = Some (new_memory ''s'' ''a'' ''I like tea'' (Some [1]) (Some ''chat'') None None None 3 ''m1'')"
    by (simp add: row_def ex_sdb_def new_memory_def)
  moreover have "m_subject (new_memory ''s'' ''a'' ''I like tea'' (Some [1 :: real]) (Some ''chat'') None None None 3 ''m1'') = ''s''"
    by (simp add: new_memory_def)
  ultimately show ?thesis using history_is_append_only[OF ex_deletion ex_sdb_ok] by metis
qed


definition ex_turn :: "real list db \<Rightarrow> real list db \<Rightarrow> turn_env" where
  "ex_turn d1 d2 = turn_over default_breaker 0 1 ''t'' (ex_replica Missing) ex_conditions d1 d2 Response.ex_env"

definition ex_erased_db :: "real list db" where
  "ex_erased_db = snd (delete_commit ''m1'' ex_who 5 True ex_sdb)"

lemma ex_erased_db_ok: "history ex_sdb ex_erased_db" "db_ok ex_erased_db"
proof -
  show h: "history ex_sdb ex_erased_db" unfolding ex_erased_db_def by (rule ex_deletion)
  show "db_ok ex_erased_db" using history_invariant[OF h ex_sdb_ok ex_sdb_slots] by blast
qed

lemma ex_counts: "counts_fit ex_sdb" "counts_fit ex_erased_db"
proof -
  show c: "counts_fit ex_sdb" by (simp add: counts_fit_def ex_sdb_def new_memory_def)
  have "m_reinforced (stamp_deleted 5 m) = m_reinforced m" for m :: "real list mem" by (simp add: stamp_deleted_def)
  then have "\<bar>m_reinforced m\<bar> < 2 ^ 31" if "m \<in> set (d_mems ex_erased_db)" for m
    using that c unfolding ex_erased_db_def delete_commit_eq[OF ex_sdb_ok]
    by (auto simp: counts_fit_def list_all_iff update_table_def split: option.splits if_splits)
  then show "counts_fit ex_erased_db" by (simp add: counts_fit_def list_all_iff)
qed

lemma ex_dates: "dates_readable (te_lib Response.ex_env) (sc_env ex_conditions)"
  by (simp add: dates_readable_def Response.ex_env_def Ranking.ex_lib_def)

lemma ex_stream: "te_stream Response.ex_env p = ([''He'', ''llo''], None)"
  by (simp add: Response.ex_env_def)

lemma ex_turn_ends:
  assumes "db_ok d1" "db_ok d2" "counts_fit d1" "counts_fit d2"
  obtains st where "run_response (turn_over default_breaker 0 1 ''t'' (ex_replica Missing) ex_conditions d1 d2 Response.ex_env)
    ''s'' ''a'' [ex_message] = Inr st"
  using turn_answered[OF assms ex_dates ex_stream] by blast

theorem prompts_only_live_memories_witness:
  "\<exists>st items. run_response (ex_turn ex_sdb ex_sdb) ''s'' ''a'' [ex_message] = Inr st \<and>
     rs_block st = render_block items \<and> list_all (\<lambda>item. r_id item \<in> ids ex_sdb) items"
proof -
  obtain st where st: "run_response (turn_over default_breaker 0 1 ''t'' (ex_replica Missing) ex_conditions ex_sdb ex_sdb Response.ex_env)
    ''s'' ''a'' [ex_message] = Inr st"
    by (rule ex_turn_ends[OF ex_sdb_ok ex_sdb_ok ex_counts(1) ex_counts(1)])
  from prompts_only_live_memories[OF ex_sdb_ok ex_sdb_ok _ st] obtain items where
    "rs_block st = render_block items"
    "list_all (\<lambda>item. list_ex (\<lambda>d. list_ex (\<lambda>m. m_id m = r_id item \<and> Store.m_content m = r_content item \<and>
       m_subject m = ''s'' \<and> m_actor m = ''a'' \<and> \<not> forgotten m) (d_mems d)) [ex_sdb, ex_sdb]) items"
    by auto
  then have "rs_block st = render_block items" "list_all (\<lambda>item. r_id item \<in> ids ex_sdb) items"
    by (auto simp: list_all_iff list_ex_iff ids_def) (metis imageI)
  then show ?thesis using st by (auto simp: ex_turn_def)
qed

theorem forgotten_is_never_prompted_witness:
  "\<exists>st. run_response (ex_turn ex_erased_db ex_erased_db) ''s'' ''a'' [ex_message] = Inr st \<and> ''m1'' \<notin> set (rs_ids st)"
proof -
  obtain st where st: "run_response (turn_over default_breaker 0 1 ''t'' (ex_replica Missing) ex_conditions ex_erased_db ex_erased_db Response.ex_env)
    ''s'' ''a'' [ex_message] = Inr st"
    by (rule ex_turn_ends[OF ex_erased_db_ok(2) ex_erased_db_ok(2) ex_counts(2) ex_counts(2)])
  have "''m1'' \<notin> set (rs_ids st)"
    by (rule forgotten_is_never_prompted[OF ex_erased_db_ok(2) ex_erased[folded ex_erased_db_def] _
        rtranclp.rtrancl_refl rtranclp.rtrancl_refl st])
      (simp_all add: forgotten_def stamp_deleted_def)
  then show ?thesis using st by (auto simp: ex_turn_def)
qed

theorem every_turn_is_answered_witness:
  "\<exists>st. run_response (ex_turn ex_sdb ex_erased_db) ''s'' ''a'' [ex_message] = Inr st \<and> rs_reply st = ''Hello''"
  using every_turn_is_answered[OF ex_sdb_ok ex_erased_db_ok(2) ex_counts ex_dates ex_stream]
  by (simp add: ex_turn_def)

end
