(* ===== verification/Sweep.thy ===== *)
theory Sweep
  imports Decay
begin

text \<open>
  Several workers draining one decay run (\<^verbatim>\<open>jobs/claims.py\<close>, \<^verbatim>\<open>jobs/decay.py\<close>): each batch is a
  transaction that locks the rows it claims (\<^verbatim>\<open>FOR UPDATE SKIP LOCKED\<close>) and is invisible until it
  commits; a worker may die and its claim is rolled back; other transactions run in between, and
  those that want a locked row wait. There is one run at a time, as the scheduler arranges.
\<close>

section \<open>The workers\<close>

record 'v sweep =
  sw_db :: "'v db"
  sw_open :: "(nat \<times> uuid list) list"
  sw_done :: "(nat \<times> uuid list) list"

definition claims_of :: "(nat \<times> uuid list) list \<Rightarrow> uuid list" where
  "claims_of cs = concat (map snd cs)"

definition sweep_locked :: "'v sweep \<Rightarrow> uuid set" where
  "sweep_locked s = set (claims_of (sw_open s))"

definition stamped :: "uuid \<Rightarrow> 'v db \<Rightarrow> uuid \<Rightarrow> bool" where
  "stamped run d i \<longleftrightarrow> (case row d i of None \<Rightarrow> False | Some m \<Rightarrow> m_run m = Some run)"

text \<open>The committed effect of a batch that holds the rows \<open>is\<close>: the batch, with every other row
  out of its reach.\<close>

definition settle_batch :: "uuid \<Rightarrow> uuid list option \<Rightarrow> timestamp option \<Rightarrow> timestamp \<Rightarrow> uuid list \<Rightarrow> 'v db \<Rightarrow> 'v db" where
  "settle_batch run subjects reference now is d =
     x_db (snd (run_decay_batch (ids d - set is) run (length is) subjects reference (admin_session now d)))"

inductive sweep_step :: "uuid \<Rightarrow> nat \<Rightarrow> uuid list option \<Rightarrow> 'v sweep \<Rightarrow> 'v sweep \<Rightarrow> bool"
  for run :: uuid and n :: nat and subjects :: "uuid list option" where
  claim: "w \<notin> fst ` set (sw_open s) \<Longrightarrow>
     is = claim_ids (sweep_locked s) run n subjects (admin_session now (sw_db s)) \<Longrightarrow>
     sweep_step run n subjects s (s \<lparr> sw_open := sw_open s @ [(w, is)] \<rparr>)"
| commit: "sw_open s = before @ (w, is) # after \<Longrightarrow>
     sweep_step run n subjects s (s \<lparr> sw_db := settle_batch run subjects reference now is (sw_db s),
       sw_open := before @ after, sw_done := sw_done s @ [(w, is)] \<rparr>)"
| crash: "sw_open s = before @ (w, is) # after \<Longrightarrow>
     sweep_step run n subjects s (s \<lparr> sw_open := before @ after \<rparr>)"
| others: "grows UNIV Owner (sw_db s) d' \<Longrightarrow> list_all (\<lambda>i. row d' i = row (sw_db s) i) (claims_of (sw_open s)) \<Longrightarrow>
     stamped run d' = stamped run (sw_db s) \<Longrightarrow>
     sweep_step run n subjects s (s \<lparr> sw_db := d' \<rparr>)"

abbreviation sweep_runs :: "uuid \<Rightarrow> nat \<Rightarrow> uuid list option \<Rightarrow> 'v sweep \<Rightarrow> 'v sweep \<Rightarrow> bool" where
  "sweep_runs run n subjects \<equiv> (sweep_step run n subjects)\<^sup>*\<^sup>*"

section \<open>What the workers keep\<close>

definition claimable :: "uuid \<Rightarrow> uuid list option \<Rightarrow> 'v db \<Rightarrow> uuid \<Rightarrow> bool" where
  "claimable run subjects d i \<longleftrightarrow> (case row d i of None \<Rightarrow> False | Some m \<Rightarrow> eligible run subjects m)"

definition sweep_inv :: "uuid \<Rightarrow> uuid list option \<Rightarrow> 'v sweep \<Rightarrow> 'v sweep \<Rightarrow> bool" where
  "sweep_inv run subjects s0 s \<longleftrightarrow> db_ok (sw_db s) \<and>
     distinct (claims_of (sw_done s) @ claims_of (sw_open s)) \<and>
     list_all (claimable run subjects (sw_db s)) (claims_of (sw_open s)) \<and>
     stamped run (sw_db s) = (\<lambda>i. stamped run (sw_db s0) i \<or> i \<in> set (claims_of (sw_done s)))"

lemma claims_of_simps [simp]: "claims_of [] = []" "claims_of (c # cs) = snd c @ claims_of cs"
  "claims_of (cs @ ds) = claims_of cs @ claims_of ds"
  by (simp_all add: claims_of_def)

lemma claimable_row: "claimable run subjects d i \<longleftrightarrow> (\<exists>m. row d i = Some m \<and> eligible run subjects m)"
  by (simp add: claimable_def split: option.split)

lemma claimable_not_stamped: "claimable run subjects d i \<Longrightarrow> \<not> stamped run d i"
  by (auto simp: claimable_def stamped_def eligible_def split: option.splits)

lemma claim_ids_claimable:
  assumes "db_ok d" "i \<in> set (claim_ids locked run n subjects (admin_session now d))"
  shows "claimable run subjects d i" "i \<notin> locked"
proof -
  have ok: "db_ok (x_db (admin_session now d))" "x_role (admin_session now d) = Owner" using assms(1) by simp_all
  obtain m where m: "m \<in> set (d_mems d)" "m_id m = i"
    using claim_ids_props(2)[OF ok assms(2)] by (auto simp: ids_def)
  then show "claimable run subjects d i" "i \<notin> locked"
    using claim_ids_props(1)[OF ok, of m locked run n subjects] assms(2) row_eq[OF assms(1) m(1)]
    by (auto simp: claimable_def)
qed

text \<open>A batch that holds claimable rows claims exactly those.\<close>

lemma settle_batch_eq:
  assumes ok: "db_ok d" and held: "distinct is" "\<And>i. i \<in> set is \<Longrightarrow> claimable run subjects d i"
  shows "settle_batch run subjects reference now is d =
    d \<lparr> d_mems := map (\<lambda>m. if m_id m \<in> set is then decayed run now (case reference of Some r \<Rightarrow> r | None \<Rightarrow> now) m else m) (d_mems d) \<rparr>"
proof -
  let ?t = "admin_session now d"
  let ?P = "\<lambda>m. eligible run subjects m \<and> m_id m \<notin> ids d - set is"
  let ?sel = "select_rows ?P ?t"
  have t: "db_ok (x_db ?t)" "x_role ?t = Owner" using ok by simp_all
  have sel: "m_id ` set ?sel = set is"
  proof
    show "m_id ` set ?sel \<subseteq> set is" by (auto simp: select_rows_def ids_def)
    show "set is \<subseteq> m_id ` set ?sel"
    proof
      fix i assume i: "i \<in> set is"
      then obtain m where "row d i = Some m" "eligible run subjects m"
        using held(2)[OF i] by (auto simp: claimable_def split: option.splits)
      then show "i \<in> m_id ` set ?sel" using i row_Some by (force simp: select_rows_def)
    qed
  qed
  have "distinct (map m_id ?sel)" using ok by (simp add: select_rows_def db_ok_def distinct_map_filter)
  then have "length ?sel = card (m_id ` set ?sel)" using distinct_card by fastforce
  then have "length ?sel = length is" unfolding sel using distinct_card[OF held(1)] by simp
  then have claimed: "set (claim_ids (ids d - set is) run (length is) subjects ?t) = set is"
    using sel by (simp add: claim_ids_def)
  have ref: "(case reference of Some r \<Rightarrow> r | None \<Rightarrow> now) = (case reference of Some r \<Rightarrow> r | None \<Rightarrow> x_now ?t)"
    by (cases reference) simp_all
  show ?thesis
    unfolding settle_batch_def
    using batch_effect[OF t refl ref refl, of "ids d - set is" run "length is" subjects] claimed by simp
qed

lemma decayed_id [simp]: "m_id (decayed run now reference m) = m_id m"
  by (simp add: decayed_def)

lemma row_map_key:
  "(\<And>m. m_id (f m) = m_id m) \<Longrightarrow> row (d \<lparr> d_mems := map f (d_mems d) \<rparr>) i = map_option f (row d i)"
  unfolding row_def using find_map_key[of f i "d_mems d"] by simp

lemma sweep_step_inv:
  assumes "sweep_step run n subjects s s'" "sweep_inv run subjects s0 s"
  shows "sweep_inv run subjects s0 s'"
  using assms(1)
proof cases
  case (claim w "is" now)
  have ok: "db_ok (sw_db s)" using assms(2) by (simp add: sweep_inv_def)
  have ids: "distinct is" "\<And>i. i \<in> set is \<Longrightarrow> claimable run subjects (sw_db s) i \<and> i \<notin> sweep_locked s"
    using claim_ids_props(3)[of "admin_session now (sw_db s)"] claim_ids_claimable[OF ok] ok
    by (auto simp: claim(3))
  have "i \<notin> set (claims_of (sw_done s))" if "i \<in> set is" for i
  proof -
    have "\<not> stamped run (sw_db s) i" using claimable_not_stamped ids(2)[OF that] by blast
    moreover have "stamped run (sw_db s) i \<longleftrightarrow> stamped run (sw_db s0) i \<or> i \<in> set (claims_of (sw_done s))"
      using assms(2) by (simp add: sweep_inv_def)
    ultimately show ?thesis by blast
  qed
  then show ?thesis using assms(2) ids by (auto simp: sweep_inv_def claim(1) sweep_locked_def list_all_iff)
next
  case (commit before w "is" after reference now)
  let ?d = "sw_db s" and ?d' = "settle_batch run subjects reference now is (sw_db s)"
  have ok: "db_ok ?d" and inv: "distinct (claims_of (sw_done s) @ claims_of before @ is @ claims_of after)"
    "list_all (claimable run subjects ?d) (claims_of before @ is @ claims_of after)"
    "stamped run ?d = (\<lambda>i. stamped run (sw_db s0) i \<or> i \<in> set (claims_of (sw_done s)))"
    using assms(2) by (simp_all add: sweep_inv_def commit(2))
  let ?f = "\<lambda>m. if m_id m \<in> set is then decayed run now (case reference of Some r \<Rightarrow> r | None \<Rightarrow> now) m else m"
  have eq: "?d' = ?d \<lparr> d_mems := map ?f (d_mems ?d) \<rparr>"
    by (rule settle_batch_eq[OF ok]) (use inv in \<open>auto simp: list_all_iff\<close>)
  have row': "row ?d' i = map_option ?f (row ?d i)" for i unfolding eq by (rule row_map_key) simp
  have ok': "db_ok ?d'" unfolding settle_batch_def by (rule grows_db_ok[OF batch_grows[OF ok] ok])
  have st: "stamped run ?d' i \<longleftrightarrow> stamped run ?d i \<or> i \<in> set is" for i
  proof (cases "row ?d i")
    case None
    then have "\<not> claimable run subjects ?d i" by (simp add: claimable_row)
    then have "i \<notin> set is" using inv(2) by (auto simp: list_all_iff)
    then show ?thesis using None by (simp add: stamped_def row')
  next
    case (Some m)
    then show ?thesis using row_Some[OF Some] by (simp add: stamped_def row' decayed_def)
  qed
  have "claimable run subjects ?d' i" if "i \<in> set (claims_of before @ claims_of after)" for i
  proof -
    have "i \<notin> set is" "claimable run subjects ?d i" using that inv by (auto simp: list_all_iff)
    then show ?thesis using row_Some by (fastforce simp: claimable_def row' split: option.splits)
  qed
  then show ?thesis
    using inv ok' st by (auto simp: sweep_inv_def commit(1) list_all_iff fun_eq_iff)
next
  case (crash before w "is" after)
  then show ?thesis using assms(2) by (auto simp: sweep_inv_def)
next
  case (others d')
  have "claimable run subjects d' i = claimable run subjects (sw_db s) i" if "i \<in> set (claims_of (sw_open s))" for i
    using others(3) that by (simp add: claimable_def list_all_iff)
  then show ?thesis
    using assms(2) grows_db_ok[OF others(2)] others(4) by (auto simp: sweep_inv_def others(1) list_all_iff)
qed

lemma sweep_runs_inv:
  "sweep_runs run n subjects s0 s \<Longrightarrow> db_ok (sw_db s0) \<Longrightarrow> sw_open s0 = [] \<Longrightarrow> sw_done s0 = [] \<Longrightarrow>
     sweep_inv run subjects s0 s"
proof (induction rule: rtranclp_induct)
  case base
  then show ?case by (simp add: sweep_inv_def)
next
  case (step y z)
  then show ?case using sweep_step_inv by blast
qed

lemma filter_settled:
  "filter (eligible run subjects) (map (\<lambda>m. if m_id m \<in> S then decayed run now reference m else m) ms) =
     filter (\<lambda>m. eligible run subjects m \<and> m_id m \<notin> S) ms"
  by (induction ms) (simp_all add: not_eligible_decayed)

lemma length_filter_both:
  "length (filter P xs) = length (filter (\<lambda>x. P x \<and> f x \<notin> S) xs) + length (filter (\<lambda>x. P x \<and> f x \<in> S) xs)"
  by (induction xs) auto

text \<open>C21. Several workers share a decay run without a coordinator. However claims, commits, crashes and
  other transactions interleave, no memory is held by two workers, none is processed twice, and the
  memories that carry the run's stamp are, beside those that had it before, exactly the ones of
  committed batches, so a crash leaves every row it held eligible for the next claim.\<close>

theorem sweep_processes_once:
  assumes "sweep_runs run n subjects s0 s" "db_ok (sw_db s0)" "sw_open s0 = []" "sw_done s0 = []"
  shows "distinct (claims_of (sw_done s) @ claims_of (sw_open s)) \<and>
    list_all (claimable run subjects (sw_db s)) (claims_of (sw_open s)) \<and>
    stamped run (sw_db s) = (\<lambda>i. stamped run (sw_db s0) i \<or> i \<in> set (claims_of (sw_done s)))"
  using sweep_runs_inv[OF assms] by (simp add: sweep_inv_def)

text \<open>A sweep never gets stuck short of its end: while a row is eligible and nobody holds it, any
  further worker that asks claims something, and committing that claim makes the run's remaining work
  smaller.\<close>

lemma sweep_advances:
  assumes run: "sweep_runs run n subjects s0 s" "db_ok (sw_db s0)" "sw_open s0 = []" "sw_done s0 = []"
    and n: "0 < n" and left: "claimable run subjects (sw_db s) i" "i \<notin> sweep_locked s"
    and w: "w \<notin> fst ` set (sw_open s)"
  shows "\<exists>is s1 s2. is \<noteq> [] \<and> sweep_step run n subjects s s1 \<and> sw_open s1 = sw_open s @ [(w, is)] \<and>
    sweep_step run n subjects s1 s2 \<and> sw_open s2 = sw_open s \<and>
    length (todo run subjects (sw_db s2)) + length is = length (todo run subjects (sw_db s))"
proof -
  have inv: "sweep_inv run subjects s0 s" by (rule sweep_runs_inv[OF run])
  then have ok: "db_ok (sw_db s)" by (simp add: sweep_inv_def)
  let ?d = "sw_db s"
  let ?t = "admin_session 0 ?d"
  let ?is = "claim_ids (sweep_locked s) run n subjects ?t"
  have t: "db_ok (x_db ?t)" "x_role ?t = Owner" using ok by simp_all
  obtain m where m: "row ?d i = Some m" "eligible run subjects m"
    using left(1) by (auto simp: claimable_def split: option.splits)
  then have "m \<in> set (filter (\<lambda>m. eligible run subjects m \<and> m_id m \<notin> sweep_locked s) (d_mems (x_db ?t)))"
    using row_Some[OF m(1)] left(2) by simp
  then have "0 < length (filter (\<lambda>m. eligible run subjects m \<and> m_id m \<notin> sweep_locked s) (d_mems (x_db ?t)))"
    by (rule length_pos_if_in_set)
  then have "0 < length ?is" using n claim_ids_props(4)[OF t, of "sweep_locked s" run n subjects] by simp
  then have ne: "?is \<noteq> []" by simp
  have held: "distinct ?is" "\<And>i. i \<in> set ?is \<Longrightarrow> claimable run subjects ?d i"
    using claim_ids_props(3)[OF t] claim_ids_claimable(1)[OF ok] by auto
  let ?s1 = "s \<lparr> sw_open := sw_open s @ [(w, ?is)] \<rparr>"
  let ?d2 = "settle_batch run subjects None 0 ?is ?d"
  let ?s2 = "?s1 \<lparr> sw_db := ?d2, sw_open := sw_open s @ [], sw_done := sw_done s @ [(w, ?is)] \<rparr>"
  have s1: "sweep_step run n subjects s ?s1" by (rule sweep_step.claim[OF w refl])
  have s2: "sweep_step run n subjects ?s1 ?s2"
    using sweep_step.commit[of ?s1 "sw_open s" w ?is "[]" run n subjects None 0] by simp
  let ?f = "\<lambda>m. if m_id m \<in> set ?is then decayed run 0 0 m else m"
  have d2: "d_mems ?d2 = map ?f (d_mems ?d)" using settle_batch_eq[OF ok held, of None 0] by simp
  have "filter (eligible run subjects) (map ?f (d_mems ?d)) = filter (\<lambda>m. eligible run subjects m \<and> m_id m \<notin> set ?is) (d_mems ?d)"
    by (rule filter_settled)
  then have after: "todo run subjects ?d2 = filter (\<lambda>m. eligible run subjects m \<and> m_id m \<notin> set ?is) (d_mems ?d)"
    by (simp add: todo_def d2)
  have "length (filter (\<lambda>m. m_id m \<in> set ?is) (d_mems ?d)) = length ?is"
  proof -
    have "m_id ` set (filter (\<lambda>m. m_id m \<in> set ?is) (d_mems ?d)) = set ?is"
      using held(2) row_Some[of ?d] by (force simp: claimable_def split: option.splits)
    moreover have "distinct (map m_id (filter (\<lambda>m. m_id m \<in> set ?is) (d_mems ?d)))"
      using ok by (simp add: db_ok_def distinct_map_filter)
    ultimately show ?thesis using distinct_card[OF held(1)] distinct_card by fastforce
  qed
  moreover have "filter (\<lambda>m. eligible run subjects m \<and> m_id m \<in> set ?is) (d_mems ?d) = filter (\<lambda>m. m_id m \<in> set ?is) (d_mems ?d)"
  proof (intro filter_cong refl)
    fix m assume m: "m \<in> set (d_mems ?d)"
    show "(eligible run subjects m \<and> m_id m \<in> set ?is) = (m_id m \<in> set ?is)"
      using held(2)[of "m_id m"] row_eq[OF ok m] by (auto simp: claimable_row)
  qed
  moreover have "length (filter (eligible run subjects) (d_mems ?d)) =
      length (filter (\<lambda>m. eligible run subjects m \<and> m_id m \<notin> set ?is) (d_mems ?d)) +
      length (filter (\<lambda>m. eligible run subjects m \<and> m_id m \<in> set ?is) (d_mems ?d))"
    by (rule length_filter_both)
  ultimately have "length (todo run subjects ?d2) + length ?is = length (todo run subjects ?d)"
    by (simp add: after todo_def[of run subjects ?d])
  then show ?thesis using ne s1 s2 by (intro exI[of _ ?is] exI[of _ ?s1] exI[of _ ?s2]) simp
qed

section \<open>An example\<close>

definition ex_sweep :: "real sweep" where
  "ex_sweep = \<lparr> sw_db = ex_db, sw_open = [], sw_done = [] \<rparr>"

lemma ex_sweep_start: "db_ok (sw_db ex_sweep)" "sw_open ex_sweep = []" "sw_done ex_sweep = []"
  by (simp_all add: ex_sweep_def ex_db_ok)

theorem sweep_processes_once_witness:
  "\<exists>s. sweep_runs ''run'' 1 None ex_sweep s \<and> length (sw_open s) = 2 \<and> distinct (claims_of (sw_open s))"
proof -
  let ?one = "claim_ids (sweep_locked ex_sweep) ''run'' 1 None (admin_session 7 (sw_db ex_sweep))"
  let ?s1 = "ex_sweep \<lparr> sw_open := sw_open ex_sweep @ [(0, ?one)] \<rparr>"
  let ?two = "claim_ids (sweep_locked ?s1) ''run'' 1 None (admin_session 8 (sw_db ?s1))"
  let ?s2 = "?s1 \<lparr> sw_open := sw_open ?s1 @ [(1, ?two)] \<rparr>"
  have "sweep_step ''run'' 1 None ex_sweep ?s1" by (rule sweep_step.claim) (simp_all add: ex_sweep_start)
  moreover have "sweep_step ''run'' 1 None ?s1 ?s2" by (rule sweep_step.claim) (simp_all add: ex_sweep_start)
  ultimately have r: "sweep_runs ''run'' 1 None ex_sweep ?s2" by (meson r_into_rtranclp rtranclp_trans)
  have "distinct (claims_of (sw_done ?s2) @ claims_of (sw_open ?s2))"
    using sweep_processes_once[OF r ex_sweep_start] by blast
  then show ?thesis using r by (intro exI[of _ ?s2]) (simp add: ex_sweep_start)
qed

lemma sweep_advances_witness:
  "\<exists>s2. (\<exists>s1. sweep_step ''run'' 1 None ex_sweep s1 \<and> sweep_step ''run'' 1 None s1 s2) \<and>
     length (todo ''run'' None (sw_db s2)) < length (todo ''run'' None ex_db)"
proof -
  have "claimable ''run'' None ex_db ''m1''"
    by (simp add: claimable_row row_def ex_store eligible_def)
  then have left: "claimable ''run'' None (sw_db ex_sweep) ''m1''" "''m1'' \<notin> sweep_locked ex_sweep" "0 \<notin> fst ` set (sw_open ex_sweep)"
    by (simp_all add: ex_sweep_def sweep_locked_def)
  have n: "(0 :: nat) < 1" by simp
  have db: "sw_db ex_sweep = ex_db" by (simp add: ex_sweep_def)
  show ?thesis using sweep_advances[OF rtranclp.rtrancl_refl ex_sweep_start n left, unfolded db]
  proof (elim exE conjE, goal_cases)
    case (1 "is" s1 s2)
    then have "length (todo ''run'' None (sw_db s2)) < length (todo ''run'' None ex_db)"
      by (metis length_greater_0_conv less_add_same_cancel1)
    then show ?case using 1(2,4) by (intro exI[of _ s2] conjI exI[of _ s1])
  qed
qed

end
