(* ===== verification/Metrics.thy ===== *)
theory Metrics
  imports Prelude
begin

text \<open>
  The retrieval metrics of the evaluation harness (\<^verbatim>\<open>evals/metrics.py\<close>): precision, recall and F1 on
  sets, reciprocal rank and R-precision on the ranking, the score of one query with its one cutoff,
  and the aggregate. A cutoff is Python's slice bound: none and zero keep everything, a negative one
  drops from the end.
\<close>

section \<open>The metrics\<close>

definition precision :: "uuid list \<Rightarrow> uuid list \<Rightarrow> real" where
  "precision retrieved expected =
     (if retrieved = [] then 0
      else real (card (set retrieved \<inter> set expected)) / real (card (set retrieved)))"

definition recall :: "uuid list \<Rightarrow> uuid list \<Rightarrow> real" where
  "recall retrieved expected =
     (if expected = [] then 1
      else real (card (set retrieved \<inter> set expected)) / real (card (set expected)))"

definition f1 :: "real \<Rightarrow> real \<Rightarrow> real" where
  "f1 p r = (if p + r \<le> 0 then 0 else 2 * p * r / (p + r))"

text \<open>The loop over the ranking, from the given position on.\<close>

fun first_hit :: "nat \<Rightarrow> uuid list \<Rightarrow> uuid list \<Rightarrow> real" where
  "first_hit position expected [] = 0"
| "first_hit position expected (i # ranked) =
     (if i \<in> set expected then 1 / real position else first_hit (Suc position) expected ranked)"

definition reciprocal_rank :: "uuid list \<Rightarrow> uuid list \<Rightarrow> real" where
  "reciprocal_rank ranked expected = (if expected = [] then 0 else first_hit (Suc 0) expected ranked)"

definition precision_at_r :: "uuid list \<Rightarrow> uuid list \<Rightarrow> real" where
  "precision_at_r ranked expected =
     (if expected = [] then 0
      else let r = card (set expected)
           in real (card (set (take r ranked) \<inter> set expected)) / real r)"

section \<open>One query\<close>

record query_score =
  qs_id :: string
  qs_retrieved :: "uuid list"
  qs_expected :: "uuid list"
  qs_hits :: "uuid list"
  qs_precision :: real
  qs_recall :: real
  qs_f1 :: real
  qs_reciprocal_rank :: real
  qs_precision_at_r :: real

text \<open>\<^verbatim>\<open>xs[:n]\<close>, and the cutoff \<^verbatim>\<open>xs[:k] if k else xs\<close>.\<close>

definition slice_to :: "int \<Rightarrow> 'a list \<Rightarrow> 'a list" where
  "slice_to n xs = (if 0 \<le> n then take (nat n) xs else take (length xs - nat (- n)) xs)"

definition cut_at :: "int option \<Rightarrow> 'a list \<Rightarrow> 'a list" where
  "cut_at k xs = (case k of None \<Rightarrow> xs | Some n \<Rightarrow> if n = 0 then xs else slice_to n xs)"

definition score_query :: "string \<Rightarrow> uuid list \<Rightarrow> uuid list \<Rightarrow> int option \<Rightarrow> query_score" where
  "score_query query_id retrieved expected k =
     (let truncated = cut_at k retrieved;
          p = precision truncated expected;
          r = recall truncated expected
      in \<lparr> qs_id = query_id, qs_retrieved = truncated, qs_expected = expected,
           qs_hits = filter (\<lambda>i. i \<in> set expected) truncated, qs_precision = p, qs_recall = r, qs_f1 = f1 p r,
           qs_reciprocal_rank = reciprocal_rank truncated expected,
           qs_precision_at_r = precision_at_r truncated expected \<rparr>)"

text \<open>\<^verbatim>\<open>to_dict\<close> rounds the five numbers.\<close>

definition score_row :: "query_score \<Rightarrow> query_score" where
  "score_row s = s \<lparr> qs_precision := py_round 6 (qs_precision s), qs_recall := py_round 6 (qs_recall s),
     qs_f1 := py_round 6 (qs_f1 s), qs_reciprocal_rank := py_round 6 (qs_reciprocal_rank s),
     qs_precision_at_r := py_round 6 (qs_precision_at_r s) \<rparr>"

section \<open>The aggregate\<close>

text \<open>The keys of the dictionary; the empty aggregate has no \<^verbatim>\<open>mean_expected_size\<close>.\<close>

record aggregates =
  ag_queries :: nat
  ag_macro_precision :: real
  ag_macro_recall :: real
  ag_macro_f1 :: real
  ag_micro_precision :: real
  ag_micro_recall :: real
  ag_micro_f1 :: real
  ag_mrr :: real
  ag_mean_precision_at_r :: real
  ag_precision :: real
  ag_recall :: real
  ag_f1 :: real
  ag_mean_expected_size :: "real option"

definition mean_of :: "('a \<Rightarrow> real) \<Rightarrow> 'a list \<Rightarrow> real" where
  "mean_of f xs = sum_list (map f xs) / real (length xs)"

definition ratio_or :: "real \<Rightarrow> nat \<Rightarrow> nat \<Rightarrow> real" where
  "ratio_or other num den = (if den = 0 then other else real num / real den)"

definition aggregate :: "query_score list \<Rightarrow> aggregates" where
  "aggregate scores =
     (if scores = [] then
        \<lparr> ag_queries = 0, ag_macro_precision = 0, ag_macro_recall = 0, ag_macro_f1 = 0, ag_micro_precision = 0,
          ag_micro_recall = 0, ag_micro_f1 = 0, ag_mrr = 0, ag_mean_precision_at_r = 0, ag_precision = 0,
          ag_recall = 0, ag_f1 = 0, ag_mean_expected_size = None \<rparr>
      else
        let hits = sum_list (map (\<lambda>s. card (set (qs_retrieved s) \<inter> set (qs_expected s))) scores);
            retrieved = sum_list (map (\<lambda>s. card (set (qs_retrieved s))) scores);
            expected = sum_list (map (\<lambda>s. card (set (qs_expected s))) scores);
            micro_p = ratio_or 0 hits retrieved;
            micro_r = ratio_or 1 hits expected;
            p = py_round 6 (mean_of qs_precision scores);
            r = py_round 6 (mean_of qs_recall scores);
            f = py_round 6 (mean_of qs_f1 scores)
        in \<lparr> ag_queries = length scores, ag_macro_precision = p, ag_macro_recall = r, ag_macro_f1 = f,
             ag_micro_precision = py_round 6 micro_p, ag_micro_recall = py_round 6 micro_r,
             ag_micro_f1 = py_round 6 (f1 micro_p micro_r), ag_mrr = py_round 6 (mean_of qs_reciprocal_rank scores),
             ag_mean_precision_at_r = py_round 6 (mean_of qs_precision_at_r scores), ag_precision = p,
             ag_recall = r, ag_f1 = f,
             ag_mean_expected_size = Some (py_round 6 (mean_of (\<lambda>s. real (card (set (qs_expected s)))) scores)) \<rparr>)"

section \<open>Facts\<close>

lemma card_ratio_bounds [bounded01]:
  "finite B \<Longrightarrow> 0 \<le> real (card (A \<inter> B)) / real (card B)" "finite B \<Longrightarrow> real (card (A \<inter> B)) / real (card B) \<le> 1"
  by (simp_all add: divide_le_eq card_mono)

lemma precision_bounds [bounded01]: "0 \<le> precision rs es" "precision rs es \<le> 1"
  using card_ratio_bounds[of "set rs" "set es"] by (simp_all add: precision_def Int_commute)

lemma recall_bounds [bounded01]: "0 \<le> recall rs es" "recall rs es \<le> 1"
  using card_ratio_bounds[of "set es" "set rs"] by (simp_all add: recall_def)

lemma f1_bounds [bounded01]:
  assumes "0 \<le> p" "p \<le> 1" "0 \<le> r" "r \<le> 1"
  shows "0 \<le> f1 p r" "f1 p r \<le> 1"
proof -
  have "p * r \<le> p" "p * r \<le> r" using assms by (simp_all add: mult_left_le mult_left_le_one_le)
  then show "0 \<le> f1 p r" "f1 p r \<le> 1" using assms by (auto simp: f1_def divide_le_eq)
qed

lemma first_hit_bounds: "0 < n \<Longrightarrow> 0 \<le> first_hit n es rs \<and> first_hit n es rs \<le> 1"
  by (induction rs arbitrary: n) auto

lemma first_hit_zero: "0 < n \<Longrightarrow> first_hit n es rs = 0 \<longleftrightarrow> set rs \<inter> set es = {}"
  by (induction rs arbitrary: n) auto

lemma first_hit_position:
  "first_hit n es rs \<noteq> 0 \<Longrightarrow> 0 < n \<Longrightarrow> \<exists>j < length rs. rs ! j \<in> set es \<and> set (take j rs) \<inter> set es = {} \<and>
     first_hit n es rs = 1 / real (n + j)"
proof (induction rs arbitrary: n)
  case (Cons r rs)
  show ?case
  proof (cases "r \<in> set es")
    case True
    then show ?thesis by (intro exI[of _ 0]) simp
  next
    case False
    then obtain j where "j < length rs" "rs ! j \<in> set es" "set (take j rs) \<inter> set es = {}"
      "first_hit (Suc n) es rs = 1 / real (Suc n + j)"
      using Cons.IH[of "Suc n"] Cons.prems by auto
    then show ?thesis using False by (intro exI[of _ "Suc j"]) simp
  qed
qed simp

lemma reciprocal_rank_bounds [bounded01]: "0 \<le> reciprocal_rank rs es" "reciprocal_rank rs es \<le> 1"
  using first_hit_bounds[of 1 es rs] by (simp_all add: reciprocal_rank_def)

lemma precision_at_r_bounds [bounded01]: "0 \<le> precision_at_r rs es" "precision_at_r rs es \<le> 1"
  using card_ratio_bounds[of "set es"] by (simp_all add: precision_at_r_def Let_def)

lemma ratio_zero: "finite A \<Longrightarrow> finite B \<Longrightarrow> B \<noteq> {} \<Longrightarrow> real (card A) / real (card B) = 0 \<longleftrightarrow> A = {}"
  by simp

lemma no_hit:
  "es \<noteq> [] \<Longrightarrow> recall rs es = 0 \<longleftrightarrow> set rs \<inter> set es = {}"
  "rs \<noteq> [] \<Longrightarrow> precision rs es = 0 \<longleftrightarrow> set rs \<inter> set es = {}"
  "es \<noteq> [] \<Longrightarrow> reciprocal_rank rs es = 0 \<longleftrightarrow> set rs \<inter> set es = {}"
  by (auto simp: recall_def precision_def reciprocal_rank_def first_hit_zero)

lemma recall_zero: "recall rs es = 0 \<longleftrightarrow> es \<noteq> [] \<and> set rs \<inter> set es = {}"
  by (auto simp: recall_def)

lemma precision_zero: "precision rs es = 0 \<longleftrightarrow> set rs \<inter> set es = {}"
  by (auto simp: precision_def)

lemma f1_zero: "0 \<le> p \<Longrightarrow> 0 \<le> r \<Longrightarrow> f1 p r = 0 \<longleftrightarrow> p = 0 \<or> r = 0"
  by (auto simp: f1_def)

lemma precision_at_r_none: "set rs \<inter> set es = {} \<Longrightarrow> precision_at_r rs es = 0"
proof -
  assume a: "set rs \<inter> set es = {}"
  have "set (take n rs) \<inter> set es = {}" for n using a by (blast dest: in_set_takeD)
  then show ?thesis by (simp add: precision_at_r_def Let_def)
qed

lemma recall_full: "recall rs es = 1 \<longleftrightarrow> set es \<subseteq> set rs"
proof (cases "es = []")
  case False
  then have c: "card (set es) \<noteq> 0" by simp
  have "recall rs es = 1 \<longleftrightarrow> card (set rs \<inter> set es) = card (set es)"
    using False c by (auto simp: recall_def)
  also have "\<dots> \<longleftrightarrow> set rs \<inter> set es = set es"
    using card_subset_eq[of "set es" "set rs \<inter> set es"] by auto
  also have "\<dots> \<longleftrightarrow> set es \<subseteq> set rs" by blast
  finally show ?thesis .
qed (simp add: recall_def)

lemma mean_of_mono: "list_all (\<lambda>x. f x \<le> g x) xs \<Longrightarrow> mean_of f xs \<le> mean_of g xs"
  by (auto simp: mean_of_def list_all_iff intro!: divide_right_mono sum_list_mono)

lemma mean_of_const: "xs \<noteq> [] \<Longrightarrow> mean_of (\<lambda>_. c) xs = c"
  by (simp add: mean_of_def sum_list_triv)

lemma mean_of_bounds:
  assumes "xs \<noteq> []" "list_all (\<lambda>x. 0 \<le> f x \<and> f x \<le> 1) xs"
  shows "0 \<le> mean_of f xs" "mean_of f xs \<le> 1"
  using mean_of_mono[of "\<lambda>_. 0" f xs] mean_of_mono[of f "\<lambda>_. 1" xs] mean_of_const[OF assms(1)] assms(2)
  by (simp_all add: list_all_iff)

lemma mean_of_scale: "mean_of (\<lambda>x. f x / c) xs = mean_of f xs / c"
proof -
  have "sum_list (map (\<lambda>x. f x / c) xs) = sum_list (map f xs) / c"
    by (induction xs) (simp_all add: add_divide_distrib)
  then show ?thesis by (simp add: mean_of_def)
qed

lemma mean_of_cong: "(\<And>x. x \<in> set xs \<Longrightarrow> f x = g x) \<Longrightarrow> mean_of f xs = mean_of g xs"
  by (simp add: mean_of_def cong: map_cong)

text \<open>Rounding at the sixth digit keeps the order and hides no drop of more than a millionth.\<close>

lemma py_round_drop:
  assumes "x < y - 1 / 10 ^ n"
  shows "py_round n x \<le> py_round n y - 1 / 10 ^ n"
proof -
  let ?k = "10 ^ n :: real"
  have "x * ?k < (y - 1 / ?k) * ?k" using assms by (simp add: mult_strict_right_mono)
  then have "x * ?k + 1 < y * ?k" by (simp add: left_diff_distrib)
  then have "round_even (x * ?k) < round_even (y * ?k)"
    using round_even_close[of "x * ?k"] round_even_close[of "y * ?k"] by linarith
  then have "real_of_int (round_even (x * ?k)) + 1 \<le> real_of_int (round_even (y * ?k))" by linarith
  then have "(real_of_int (round_even (x * ?k)) + 1) / ?k \<le> real_of_int (round_even (y * ?k)) / ?k"
    by (rule divide_right_mono) simp
  then show ?thesis by (simp add: py_round_def add_divide_distrib)
qed

section \<open>Properties\<close>

text \<open>One cutoff for all metrics. Whatever the ranking, the labels and the cutoff, the five numbers
  of a query lie between 0 and 1 and agree on what was found: recall 0 is the same as no labelled
  document in the cut list (with something labelled), and then precision, F1, reciprocal rank and
  R-precision are 0 too; a positive reciprocal rank is one over the position of the first labelled
  document of the cut list, and recall 1 means all labelled documents are in it.\<close>

lemma metrics_share_one_cutoff:
  fixes query_id :: string and ranking expected :: "uuid list" and k :: "int option"
  defines "s \<equiv> score_query query_id ranking expected k"
  shows "list_all (\<lambda>x. 0 \<le> x \<and> x \<le> 1)
       [qs_precision s, qs_recall s, qs_f1 s, qs_reciprocal_rank s, qs_precision_at_r s]
    \<and> (qs_recall s = 0 \<longleftrightarrow> expected \<noteq> [] \<and> set (cut_at k ranking) \<inter> set expected = {})
    \<and> (qs_hits s = [] \<longrightarrow> qs_precision s = 0 \<and> qs_f1 s = 0 \<and> qs_reciprocal_rank s = 0 \<and> qs_precision_at_r s = 0)
    \<and> (qs_recall s = 1 \<longleftrightarrow> set expected \<subseteq> set (cut_at k ranking))
    \<and> (qs_reciprocal_rank s \<noteq> 0 \<longrightarrow> (\<exists>j < length (cut_at k ranking). cut_at k ranking ! j \<in> set expected \<and>
         set (take j (cut_at k ranking)) \<inter> set expected = {} \<and> qs_reciprocal_rank s = 1 / real (Suc j)))"
proof -
  let ?c = "cut_at k ranking"
  have fields: "qs_precision s = precision ?c expected" "qs_recall s = recall ?c expected"
    "qs_f1 s = f1 (precision ?c expected) (recall ?c expected)" "qs_reciprocal_rank s = reciprocal_rank ?c expected"
    "qs_precision_at_r s = precision_at_r ?c expected" "qs_hits s = filter (\<lambda>i. i \<in> set expected) ?c"
    by (simp_all add: s_def score_query_def Let_def)
  have bounds: "list_all (\<lambda>x. 0 \<le> x \<and> x \<le> 1)
       [qs_precision s, qs_recall s, qs_f1 s, qs_reciprocal_rank s, qs_precision_at_r s]"
    by (simp add: fields precision_bounds recall_bounds f1_bounds reciprocal_rank_bounds precision_at_r_bounds)
  have none: "qs_hits s = [] \<longleftrightarrow> set ?c \<inter> set expected = {}"
    by (auto simp: fields filter_empty_conv)
  have zero: "qs_hits s = [] \<longrightarrow> qs_precision s = 0 \<and> qs_f1 s = 0 \<and> qs_reciprocal_rank s = 0 \<and> qs_precision_at_r s = 0"
    unfolding none
    by (auto simp: fields precision_zero f1_zero precision_bounds recall_bounds precision_at_r_none
        reciprocal_rank_def first_hit_zero)
  have first: "qs_reciprocal_rank s \<noteq> 0 \<longrightarrow> (\<exists>j < length ?c. ?c ! j \<in> set expected \<and>
         set (take j ?c) \<inter> set expected = {} \<and> qs_reciprocal_rank s = 1 / real (Suc j))"
    using first_hit_position[of "Suc 0" expected ?c] by (auto simp: fields reciprocal_rank_def split: if_splits)
  have full: "qs_recall s = 0 \<longleftrightarrow> expected \<noteq> [] \<and> set ?c \<inter> set expected = {}" "qs_recall s = 1 \<longleftrightarrow> set expected \<subseteq> set ?c"
    by (simp_all add: fields recall_zero recall_full)
  show ?thesis by (intro conjI bounds full zero first)
qed

lemma metrics_share_one_cutoff_witness:
  "qs_reciprocal_rank (score_query ''q'' [''a'', ''b'', ''c''] [''b''] (Some 2)) = 1 / 2 \<and>
   (\<exists>j < 2. [''a'', ''b''] ! j \<in> {''b''} \<and> 1 / 2 = 1 / real (Suc j))"
proof -
  have cut: "cut_at (Some 2) [''a'', ''b'', ''c''] = [''a'', ''b'']" by (simp add: cut_at_def slice_to_def numeral_2_eq_2)
  have r: "qs_reciprocal_rank (score_query ''q'' [''a'', ''b'', ''c''] [''b''] (Some 2)) = 1 / 2"
    by (simp add: score_query_def cut reciprocal_rank_def Let_def)
  show ?thesis
    using metrics_share_one_cutoff[of "''q''" "[''a'', ''b'', ''c'']" "[''b'']" "Some 2"] r by (auto simp: cut)
qed

text \<open>What precision at a fixed cutoff measures. When every query of a suite is answered with the
  same number of distinct results and full recall, macro precision is the mean number of labelled
  documents divided by that number, whatever the order of the results: it reports the labels, not the
  ranking. Both sides are rounded as the aggregate rounds them.\<close>

lemma macro_precision_is_pinned:
  assumes "scores \<noteq> []" "0 < n"
    and "list_all (\<lambda>s. \<exists>q rs es k. s = score_query q rs es k) scores"
    and "list_all (\<lambda>s. qs_recall s = 1 \<and> card (set (qs_retrieved s)) = n) scores"
  shows "ag_macro_precision (aggregate scores) =
      py_round 6 (mean_of (\<lambda>s. real (card (set (qs_expected s)))) scores / real n)
    \<and> ag_mean_expected_size (aggregate scores) = Some (py_round 6 (mean_of (\<lambda>s. real (card (set (qs_expected s)))) scores))"
proof -
  have one: "qs_precision s = real (card (set (qs_expected s))) / real n" if s: "s \<in> set scores" for s
  proof -
    obtain q rs es k where q: "s = score_query q rs es k" using assms(3) s by (auto simp: list_all_iff)
    have "qs_recall s = 1" "card (set (qs_retrieved s)) = n" using assms(4) s unfolding list_all_iff by blast+
    then have full: "set es \<subseteq> set (cut_at k rs)" "card (set (cut_at k rs)) = n"
      by (simp_all add: q score_query_def Let_def recall_full)
    then have "cut_at k rs \<noteq> []" "set (cut_at k rs) \<inter> set es = set es" using assms(2) by auto
    then show ?thesis using full(2) by (simp add: q score_query_def Let_def precision_def)
  qed
  have "mean_of qs_precision scores = mean_of (\<lambda>s. real (card (set (qs_expected s))) / real n) scores"
    by (rule mean_of_cong) (rule one)
  then show ?thesis using assms(1) by (simp add: aggregate_def Let_def mean_of_scale)
qed

lemma macro_precision_is_pinned_witness:
  "ag_macro_precision (aggregate [score_query ''q'' [''a'', ''b''] [''b''] None]) = py_round 6 (1 / 2)"
proof -
  define s where "s = score_query ''q'' [''a'', ''b''] [''b''] None"
  have e: "list_all (\<lambda>s. \<exists>q rs es k. s = score_query q rs es k) [s]" by (auto simp: s_def)
  have "qs_recall s = 1" "qs_retrieved s = [''a'', ''b'']" "qs_expected s = [''b'']"
    by (simp_all add: s_def score_query_def cut_at_def recall_def Let_def)
  then show ?thesis using macro_precision_is_pinned[of "[s]" 2, OF _ _ e] by (simp add: mean_of_def s_def)
qed

end
