(* ===== verification/Gate.thy ===== *)
theory Gate
  imports Metrics Json Hybrid
begin

text \<open>
  The evaluation run over an abstract search (\<^verbatim>\<open>evals/run_eval.py\<close>): the suite file, one query's
  record with its path expectation and its forbidden memories, the aggregates by tier, the regression
  gate against a baseline and the exit code. What is printed or written to the result file beyond
  these values is left out. A field of a suite record that is missing or of another type than the
  code expects ends the run.
\<close>

section \<open>The suite file\<close>

datatype eval_exn =
    FileMissing
  | BadLine nat
  | NoRecords
  | BadRecord
  | NotAPayload
  | BadMetric
  | NoCap
  | NoVector
  | NoMargin
  | Embedding string
  | SearchFailed py_exn
  | SeedingFailed

definition line_break :: "char \<Rightarrow> bool" where
  "line_break c \<longleftrightarrow> c \<in> {CHR 0x0A, CHR 0x0B, CHR 0x0C, CHR 0x0D, CHR 0x1C, CHR 0x1D, CHR 0x1E, CHR 0x85}"

text \<open>\<^verbatim>\<open>str.splitlines()\<close> with the current line so far.\<close>

fun split_lines :: "string \<Rightarrow> string \<Rightarrow> string list" where
  "split_lines acc [] = (if acc = [] then [] else [acc])"
| "split_lines acc [c] = (if line_break c then [acc] else [acc @ [c]])"
| "split_lines acc (c # d # cs) =
     (if c = CHR 0x0D \<and> d = CHR 0x0A then acc # split_lines [] cs
      else if line_break c then acc # split_lines [] (d # cs)
      else split_lines (acc @ [c]) (d # cs))"

fun load_lines :: "(nat \<Rightarrow> char) \<Rightarrow> nat \<Rightarrow> string list \<Rightarrow> eval_exn + json list" where
  "load_lines wide n [] = Inr []"
| "load_lines wide n (l # ls) =
     (let line = strip l in
      if line = [] \<or> hd line = CHR ''#'' then load_lines wide (Suc n) ls
      else case json_loads wide line of
          Inl _ \<Rightarrow> Inl (BadLine n)
        | Inr j \<Rightarrow> (case load_lines wide (Suc n) ls of Inl e \<Rightarrow> Inl e | Inr js \<Rightarrow> Inr (j # js)))"

definition load_suite :: "(nat \<Rightarrow> char) \<Rightarrow> string option \<Rightarrow> eval_exn + json list" where
  "load_suite wide file = (case file of
       None \<Rightarrow> Inl FileMissing
     | Some text \<Rightarrow> (case load_lines wide 1 (split_lines [] text) of
         Inl e \<Rightarrow> Inl e
       | Inr js \<Rightarrow> if js = [] then Inl NoRecords else Inr js))"

record suite_record =
  sr_id :: string
  sr_query :: string
  sr_expected :: "uuid list"
  sr_forbidden :: "uuid list"
  sr_expectation :: string
  sr_tier :: string

fun string_list :: "json list \<Rightarrow> string list option" where
  "string_list [] = Some []"
| "string_list (JStr s # js) = map_option ((#) s) (string_list js)"
| "string_list (_ # js) = None"

definition str_field :: "json option \<Rightarrow> string option \<Rightarrow> string option" where
  "str_field v dflt = (case v of None \<Rightarrow> dflt | Some (JStr s) \<Rightarrow> Some s | Some _ \<Rightarrow> None)"

definition ids_field :: "json option \<Rightarrow> uuid list option \<Rightarrow> uuid list option" where
  "ids_field v dflt = (case v of None \<Rightarrow> dflt | Some (JList js) \<Rightarrow> string_list js | Some _ \<Rightarrow> None)"

definition gate_tier :: string where "gate_tier = ''v1_holdout''"

definition suite_record_of :: "json \<Rightarrow> eval_exn + suite_record" where
  "suite_record_of j = (case j of
       JObj ps \<Rightarrow>
         (case (str_field (json_get ps ''query_id'') None, str_field (json_get ps ''query'') None,
                ids_field (json_get ps ''expected_memory_ids'') None, ids_field (json_get ps ''forbidden_memory_ids'') (Some []),
                str_field (json_get ps ''path_expectation'') (Some ''any''), str_field (json_get ps ''tier'') (Some gate_tier)) of
            (Some i, Some q, Some es, Some fs, Some p, Some t) \<Rightarrow>
              Inr \<lparr> sr_id = i, sr_query = q, sr_expected = es, sr_forbidden = fs, sr_expectation = p, sr_tier = t \<rparr>
          | _ \<Rightarrow> Inl BadRecord)
     | _ \<Rightarrow> Inl BadRecord)"

fun suite_records :: "json list \<Rightarrow> eval_exn + suite_record list" where
  "suite_records [] = Inr []"
| "suite_records (j # js) = (case suite_record_of j of
       Inl e \<Rightarrow> Inl e
     | Inr r \<Rightarrow> (case suite_records js of Inl e \<Rightarrow> Inl e | Inr rs \<Rightarrow> Inr (r # rs)))"

text \<open>The union of the query texts of all suites, in order of first appearance.\<close>

definition query_text :: "json \<Rightarrow> string list" where
  "query_text j = (case j of JObj ps \<Rightarrow> (case json_get ps ''query'' of Some (JStr s) \<Rightarrow> if s = [] then [] else [s] | _ \<Rightarrow> []) | _ \<Rightarrow> [])"

fun all_suite_queries :: "(nat \<Rightarrow> char) \<Rightarrow> string option list \<Rightarrow> string list \<Rightarrow> eval_exn + string list" where
  "all_suite_queries wide [] acc = Inr acc"
| "all_suite_queries wide (None # files) acc = all_suite_queries wide files acc"
| "all_suite_queries wide (Some text # files) acc =
     (case load_suite wide (Some text) of
        Inl e \<Rightarrow> Inl e
      | Inr js \<Rightarrow> all_suite_queries wide files
          (acc @ filter (\<lambda>q. q \<notin> set acc) (rev (remdups (rev (concat (map query_text js)))))))"

section \<open>One query\<close>

record separation_report =
  sp_corpus_size :: nat
  sp_target_id :: "uuid option"
  sp_target_rank :: "nat option"
  sp_target_distance :: "real option"
  sp_boundary_rank :: int
  sp_boundary_distance :: "real option"
  sp_margin :: "real option"

record query_result =
  qr_score :: query_score
  qr_tier :: string
  qr_resurfaced :: "(uuid \<times> nat) list"
  qr_met :: bool
  qr_hit_paths :: "path set"
  qr_both :: nat
  qr_semantic_only :: nat
  qr_keyword_only :: nat
  qr_separation :: "separation_report option"

definition expectation_met :: "string \<Rightarrow> path set \<Rightarrow> bool" where
  "expectation_met expectation hit_paths =
     (if expectation = ''keyword_only'' then Keyword \<in> hit_paths \<and> Semantic \<notin> hit_paths
      else if expectation = ''semantic_only'' then Semantic \<in> hit_paths \<and> Keyword \<notin> hit_paths
      else if expectation = ''both'' then {Semantic, Keyword} \<subseteq> hit_paths
      else True)"

text \<open>\<^verbatim>\<open>ranked.index(m) + 1\<close>\<close>

definition rank_in :: "uuid list \<Rightarrow> uuid \<Rightarrow> nat" where
  "rank_in ranked i = length (takeWhile (\<lambda>j. j \<noteq> i) ranked) + 1"

definition suite_query :: "uuid \<Rightarrow> suite_record \<Rightarrow> query" where
  "suite_query subject r = \<lparr> q_text = sr_query r, q_subject = subject, q_actor = subject,
     q_semantic_top_k = None, q_keyword_top_k = None \<rparr>"

text \<open>One turn of the loop. Printing the separation of a keyword-only probe formats its margin, which fails when there
  is a target and no margin.\<close>

definition eval_record ::
  "(query \<Rightarrow> eval_exn + hybrid_result) \<Rightarrow> (string \<Rightarrow> uuid list \<Rightarrow> eval_exn + separation_report) \<Rightarrow> uuid \<Rightarrow> int \<Rightarrow>
     suite_record \<Rightarrow> eval_exn + query_result" where
  "eval_record search separation subject top_k r =
     (case search (suite_query subject r) of
        Inl e \<Rightarrow> Inl e
      | Inr result \<Rightarrow>
          (let ranked = map c_id (h_candidates result);
               kept = slice_to top_k (h_candidates result);
               hits = \<Union> (set (map c_paths (filter (\<lambda>c. c_id c \<in> set (sr_expected r)) kept)));
               res = \<lparr> qr_score = score_query (sr_id r) ranked (sr_expected r) (Some top_k), qr_tier = sr_tier r,
                 qr_resurfaced = map (\<lambda>i. (i, rank_in ranked i)) (filter (\<lambda>i. i \<in> set (sr_forbidden r)) ranked),
                 qr_met = expectation_met (sr_expectation r) hits, qr_hit_paths = hits,
                 qr_both = length (filter (\<lambda>c. 1 < card (c_paths c)) kept),
                 qr_semantic_only = length (filter (\<lambda>c. c_paths c = {Semantic}) kept),
                 qr_keyword_only = length (filter (\<lambda>c. c_paths c = {Keyword}) kept), qr_separation = None \<rparr>
           in if sr_expectation r = ''keyword_only'' \<or> sr_expectation r = ''semantic_only''
              then (case separation (sr_query r) (sr_expected r) of
                      Inl e \<Rightarrow> Inl e
                    | Inr report \<Rightarrow>
                        if sr_expectation r = ''keyword_only'' \<and> sp_target_rank report \<noteq> None \<and> sp_margin report = None
                        then Inl NoMargin else Inr (res \<lparr> qr_separation := Some report \<rparr>))
              else Inr res))"

fun eval_records ::
  "(query \<Rightarrow> eval_exn + hybrid_result) \<Rightarrow> (string \<Rightarrow> uuid list \<Rightarrow> eval_exn + separation_report) \<Rightarrow> uuid \<Rightarrow> int \<Rightarrow>
     suite_record list \<Rightarrow> eval_exn + query_result list" where
  "eval_records search separation subject top_k [] = Inr []"
| "eval_records search separation subject top_k (r # rs) =
     (case eval_record search separation subject top_k r of
        Inl e \<Rightarrow> Inl e
      | Inr q \<Rightarrow> (case eval_records search separation subject top_k rs of Inl e \<Rightarrow> Inl e | Inr qs \<Rightarrow> Inr (q # qs)))"

section \<open>The regression gate\<close>

definition gate_metrics :: "string list" where
  "gate_metrics = [''macro_recall'', ''mrr'', ''mean_precision_at_r'']"

definition gate_tolerance :: real where "gate_tolerance = 1 / 10 ^ 9"

datatype gate_status = NoBaseline | Missing_metric | Regressed | Held

record gate_row =
  gr_metric :: string
  gr_baseline :: "pyfloat option"
  gr_current :: "pyfloat option"
  gr_delta :: "pyfloat option"
  gr_status :: gate_status

fun pf_neg :: "pyfloat \<Rightarrow> pyfloat" where
  "pf_neg (Fin x) = Fin (- x)"
| "pf_neg NaN = NaN"
| "pf_neg PosInf = NegInf"
| "pf_neg NegInf = PosInf"

text \<open>The row of one metric, and whether it fails the gate.\<close>

definition gate_row_of :: "(string \<Rightarrow> pyfloat option) \<Rightarrow> (string \<Rightarrow> pyfloat option) \<Rightarrow> real \<Rightarrow> string \<Rightarrow> gate_row" where
  "gate_row_of current baseline tolerance name =
     (case baseline name of
        None \<Rightarrow> \<lparr> gr_metric = name, gr_baseline = None, gr_current = current name, gr_delta = None, gr_status = NoBaseline \<rparr>
      | Some b \<Rightarrow> (case current name of
          None \<Rightarrow> \<lparr> gr_metric = name, gr_baseline = Some b, gr_current = None, gr_delta = None, gr_status = Missing_metric \<rparr>
        | Some c \<Rightarrow>
            (let delta = pf_add c (pf_neg b)
             in \<lparr> gr_metric = name, gr_baseline = Some b, gr_current = Some c, gr_delta = Some delta,
                  gr_status = (if pf_lt delta (Fin (- tolerance)) then Regressed else Held) \<rparr>)))"

definition compare_to_baseline ::
  "(string \<Rightarrow> pyfloat option) \<Rightarrow> (string \<Rightarrow> pyfloat option) \<Rightarrow> string list \<Rightarrow> real \<Rightarrow> bool \<times> gate_row list" where
  "compare_to_baseline current baseline names tolerance =
     (let rows = map (gate_row_of current baseline tolerance) names
      in (list_all (\<lambda>r. gr_status r \<noteq> Missing_metric \<and> gr_status r \<noteq> Regressed) rows, rows))"

text \<open>An aggregate as the dictionary the gate reads.\<close>

definition aggregate_dict :: "aggregates \<Rightarrow> string \<Rightarrow> pyfloat option" where
  "aggregate_dict a = map_of
     [(''queries'', Fin (real (ag_queries a))), (''macro_precision'', Fin (ag_macro_precision a)),
      (''macro_recall'', Fin (ag_macro_recall a)), (''macro_f1'', Fin (ag_macro_f1 a)),
      (''micro_precision'', Fin (ag_micro_precision a)), (''micro_recall'', Fin (ag_micro_recall a)),
      (''micro_f1'', Fin (ag_micro_f1 a)), (''mrr'', Fin (ag_mrr a)),
      (''mean_precision_at_r'', Fin (ag_mean_precision_at_r a)), (''precision'', Fin (ag_precision a)),
      (''recall'', Fin (ag_recall a)), (''f1'', Fin (ag_f1 a))]"

definition default_baselines :: "(string \<times> string) list" where
  "default_baselines = [(''golden_set_v2'', ''golden_set_v1.json'')]"

definition resolve_baseline :: "(string \<Rightarrow> bool) \<Rightarrow> string \<Rightarrow> string option \<Rightarrow> bool \<Rightarrow> string option" where
  "resolve_baseline exists suite explicit disabled =
     (if disabled then None
      else case explicit of
          Some path \<Rightarrow> Some path
        | None \<Rightarrow> (case map_of default_baselines suite of
            None \<Rightarrow> None
          | Some name \<Rightarrow> if exists name then Some name else None))"

definition baseline_number :: "(string \<times> json) list \<Rightarrow> string \<Rightarrow> pyfloat option" where
  "baseline_number ps name = (case json_get ps name of
       Some (JInt n) \<Rightarrow> Some (Fin (of_int n)) | Some (JBool b) \<Rightarrow> Some (Fin (of_bool b)) | Some (JFloat x) \<Rightarrow> Some x | _ \<Rightarrow> None)"

definition is_metric :: "json option \<Rightarrow> bool" where
  "is_metric v = (case v of None \<Rightarrow> True | Some j \<Rightarrow> (case j of JNull \<Rightarrow> True | JInt _ \<Rightarrow> True | JBool _ \<Rightarrow> True | JFloat _ \<Rightarrow> True | _ \<Rightarrow> False))"

definition load_baseline :: "(nat \<Rightarrow> char) \<Rightarrow> string option \<Rightarrow> eval_exn + (string \<Rightarrow> pyfloat option)" where
  "load_baseline wide file = (case file of
       None \<Rightarrow> Inl FileMissing
     | Some text \<Rightarrow> (case json_loads wide text of
         Inl _ \<Rightarrow> Inl NotAPayload
       | Inr (JObj ps) \<Rightarrow> (case json_get ps ''aggregate'' of
           None \<Rightarrow> Inl NotAPayload
         | Some (JObj agg) \<Rightarrow>
             if list_all (\<lambda>name. is_metric (json_get agg name)) gate_metrics then Inr (baseline_number agg) else Inl BadMetric
         | Some _ \<Rightarrow> Inl BadMetric)
       | Inr _ \<Rightarrow> Inl NotAPayload))"

section \<open>The run\<close>

record eval_outcome =
  eo_aggregate :: aggregates
  eo_by_tier :: "(string \<times> aggregates) list"
  eo_gate :: "gate_row list"
  eo_gate_passed :: bool
  eo_expectation_failures :: "string list"
  eo_forbidden_failures :: "(string \<times> (uuid \<times> nat) list) list"
  eo_both :: nat
  eo_semantic_only :: nat
  eo_keyword_only :: nat

text \<open>The printed cap on precision divides by the cutoff and needs a record.\<close>

text \<open>\<^verbatim>\<open>tier_of\<close>: a repeated query id takes the tier of its last record.\<close>

definition tier_of :: "query_result list \<Rightarrow> string \<Rightarrow> string option" where
  "tier_of qs i = map_of (rev (map (\<lambda>q. (qs_id (qr_score q), qr_tier q)) qs)) i"

definition aggregate_by_tier :: "query_result list \<Rightarrow> (string \<times> aggregates) list" where
  "aggregate_by_tier qs =
     (let in_tier = (\<lambda>t. filter (\<lambda>s. tier_of qs (qs_id s) = Some t) (map qr_score qs));
          tiers = sort (remdups (map qr_tier qs))
      in map (\<lambda>t. (t, aggregate (in_tier t))) (filter (\<lambda>t. in_tier t \<noteq> []) tiers))"

definition run_eval ::
  "(query \<Rightarrow> eval_exn + hybrid_result) \<Rightarrow> (string \<Rightarrow> uuid list \<Rightarrow> eval_exn + separation_report) \<Rightarrow> uuid \<Rightarrow> int \<Rightarrow>
     (eval_exn + (string \<Rightarrow> pyfloat option)) option \<Rightarrow> suite_record list \<Rightarrow> eval_exn + eval_outcome" where
  "run_eval search separation subject top_k baseline records =
     (case eval_records search separation subject top_k records of
        Inl e \<Rightarrow> Inl e
      | Inr qs \<Rightarrow>
          if qs = [] \<or> top_k = 0 then Inl NoCap
          else
            (let agg = aggregate (map qr_score qs);
                 tiers = aggregate_by_tier qs;
                 failed = map (\<lambda>q. qs_id (qr_score q)) (filter (\<lambda>q. \<not> qr_met q) qs);
                 forbidden = map (\<lambda>q. (qs_id (qr_score q), qr_resurfaced q)) (filter (\<lambda>q. qr_resurfaced q \<noteq> []) qs);
                 current = (case map_of tiers gate_tier of Some a \<Rightarrow> a | None \<Rightarrow> agg);
                 outcome = (\<lambda>(passed, rows). \<lparr> eo_aggregate = agg, eo_by_tier = tiers, eo_gate = rows, eo_gate_passed = passed,
                   eo_expectation_failures = failed, eo_forbidden_failures = forbidden,
                   eo_both = sum_list (map qr_both qs), eo_semantic_only = sum_list (map qr_semantic_only qs),
                   eo_keyword_only = sum_list (map qr_keyword_only qs) \<rparr>)
             in case baseline of
                 None \<Rightarrow> Inr (outcome (True, []))
               | Some (Inl e) \<Rightarrow> Inl e
               | Some (Inr base) \<Rightarrow>
                   Inr (outcome (compare_to_baseline (aggregate_dict current) base gate_metrics gate_tolerance))))"

definition exit_regression :: int where "exit_regression = 3"

definition exit_code :: "eval_outcome \<Rightarrow> int" where
  "exit_code out = (if eo_expectation_failures out \<noteq> [] \<or> eo_forbidden_failures out \<noteq> [] then 2
     else if \<not> eo_gate_passed out then exit_regression else 0)"

text \<open>\<^verbatim>\<open>main\<close>: an exception of the run is exit code 1.\<close>

definition main_code :: "eval_exn + eval_outcome \<Rightarrow> int" where
  "main_code r = (case r of Inl _ \<Rightarrow> 1 | Inr out \<Rightarrow> exit_code out)"

section \<open>Facts\<close>

lemma compare_passes:
  "fst (compare_to_baseline current baseline names tol) \<longleftrightarrow> list_all (\<lambda>name. case baseline name of None \<Rightarrow> True
     | Some b \<Rightarrow> (case current name of None \<Rightarrow> False | Some c \<Rightarrow> \<not> pf_lt (pf_add c (pf_neg b)) (Fin (- tol)))) names"
  by (auto simp: compare_to_baseline_def gate_row_of_def Let_def list_all_iff split: option.split)

text \<open>The metrics the gate reads, as the means they round.\<close>

definition gated :: "(query_score \<Rightarrow> real) list" where
  "gated = [qs_recall, qs_reciprocal_rank, qs_precision_at_r]"

lemma aggregate_gated:
  assumes "ss \<noteq> []"
  shows "map (aggregate_dict (aggregate ss)) gate_metrics = map (\<lambda>f. Some (Fin (py_round 6 (mean_of f ss)))) gated"
  using assms by (simp add: gate_metrics_def gated_def aggregate_dict_def aggregate_def Let_def)

lemma list_all_map_eq: "list_all (\<lambda>n. P (f n) (g n)) ns = list_all2 P (map f ns) (map g ns)"
  by (induction ns) auto

lemma gate_on_aggregates:
  assumes "cur \<noteq> []" "base \<noteq> []"
  shows "fst (compare_to_baseline (aggregate_dict (aggregate cur)) (aggregate_dict (aggregate base)) gate_metrics gate_tolerance) \<longleftrightarrow>
     list_all (\<lambda>f. py_round 6 (mean_of f base) - gate_tolerance \<le> py_round 6 (mean_of f cur)) gated"
  unfolding compare_passes
    list_all_map_eq[where P = "\<lambda>x y. case x of None \<Rightarrow> True
     | Some b \<Rightarrow> (case y of None \<Rightarrow> False | Some c \<Rightarrow> \<not> pf_lt (pf_add c (pf_neg b)) (Fin (- gate_tolerance)))"]
    aggregate_gated[OF assms(1)] aggregate_gated[OF assms(2)]
  by (auto simp: gated_def)

lemma eval_records_all2:
  "eval_records search sep subject k rs = Inr qs \<Longrightarrow> list_all2 (\<lambda>r q. eval_record search sep subject k r = Inr q) rs qs"
  by (induction rs arbitrary: qs) (auto split: sum.splits)

text \<open>What a query found its labelled documents by, and whether it returned a forbidden one.\<close>

definition found_via :: "(query \<Rightarrow> eval_exn + hybrid_result) \<Rightarrow> uuid \<Rightarrow> int \<Rightarrow> suite_record \<Rightarrow> path set" where
  "found_via search subject k r = (case search (suite_query subject r) of Inl _ \<Rightarrow> {}
     | Inr h \<Rightarrow> \<Union> (set (map c_paths (filter (\<lambda>c. c_id c \<in> set (sr_expected r)) (slice_to k (h_candidates h))))))"

definition resurfaces :: "(query \<Rightarrow> eval_exn + hybrid_result) \<Rightarrow> uuid \<Rightarrow> suite_record \<Rightarrow> bool" where
  "resurfaces search subject r = (case search (suite_query subject r) of Inl _ \<Rightarrow> False
     | Inr h \<Rightarrow> list_ex (\<lambda>c. c_id c \<in> set (sr_forbidden r)) (h_candidates h))"

lemma eval_record_checks:
  assumes "eval_record search sep subject k r = Inr q"
  shows "qr_met q \<longleftrightarrow> expectation_met (sr_expectation r) (found_via search subject k r)"
    "qr_resurfaced q \<noteq> [] \<longleftrightarrow> resurfaces search subject r"
  using assms by (auto simp: eval_record_def found_via_def resurfaces_def Let_def filter_empty_conv list_ex_iff
      split: sum.splits if_splits)

lemma run_eval_checks:
  assumes "run_eval search sep subject k baseline rs = Inr out"
  shows "eo_expectation_failures out \<noteq> [] \<longleftrightarrow>
      list_ex (\<lambda>r. \<not> expectation_met (sr_expectation r) (found_via search subject k r)) rs"
    "eo_forbidden_failures out \<noteq> [] \<longleftrightarrow> list_ex (resurfaces search subject) rs"
proof -
  obtain qs where qs: "eval_records search sep subject k rs = Inr qs"
    using assms by (auto simp: run_eval_def split: sum.splits)
  have out: "eo_expectation_failures out \<noteq> [] \<longleftrightarrow> list_ex (\<lambda>q. \<not> qr_met q) qs"
    "eo_forbidden_failures out \<noteq> [] \<longleftrightarrow> list_ex (\<lambda>q. qr_resurfaced q \<noteq> []) qs"
    using assms by (auto simp: run_eval_def qs Let_def split_beta filter_empty_conv list_ex_iff
        split: if_splits option.splits sum.splits)
  have all: "list_all2 (\<lambda>r q. eval_record search sep subject k r = Inr q) rs qs" by (rule eval_records_all2[OF qs])
  then have "list_ex (\<lambda>q. \<not> qr_met q) qs \<longleftrightarrow> list_ex (\<lambda>r. \<not> expectation_met (sr_expectation r) (found_via search subject k r)) rs \<and>
      True" "list_ex (\<lambda>q. qr_resurfaced q \<noteq> []) qs \<longleftrightarrow> list_ex (resurfaces search subject) rs"
    by (induction rule: list_all2_induct) (auto dest: eval_record_checks)
  then show "eo_expectation_failures out \<noteq> [] \<longleftrightarrow>
      list_ex (\<lambda>r. \<not> expectation_met (sr_expectation r) (found_via search subject k r)) rs"
    "eo_forbidden_failures out \<noteq> [] \<longleftrightarrow> list_ex (resurfaces search subject) rs"
    using out by simp_all
qed

section \<open>Properties\<close>

text \<open>C37. The gate is sound and complete up to rounding. With the baseline computed by the same
  aggregation, a run whose mean recall, reciprocal rank and R-precision are not below the baseline's
  passes, and a run that passes has none of the three more than a millionth below: the six digits the
  aggregate keeps and the tolerance hide no larger drop.\<close>

theorem gate_catches_regressions:
  assumes "cur \<noteq> []" "base \<noteq> []"
  defines "passed \<equiv> fst (compare_to_baseline (aggregate_dict (aggregate cur)) (aggregate_dict (aggregate base))
      gate_metrics gate_tolerance)"
  shows "(list_all (\<lambda>f. mean_of f base \<le> mean_of f cur) gated \<longrightarrow> passed)
    \<and> (passed \<longrightarrow> list_all (\<lambda>f. mean_of f base - 1 / 10 ^ 6 \<le> mean_of f cur) gated)"
proof (intro conjI impI)
  assume "list_all (\<lambda>f. mean_of f base \<le> mean_of f cur) gated"
  then have "list_all (\<lambda>f. py_round 6 (mean_of f base) - gate_tolerance \<le> py_round 6 (mean_of f cur)) gated"
    using py_round_mono[where n = 6] by (force simp: list_all_iff gate_tolerance_def)
  then show passed by (simp add: passed_def gate_on_aggregates[OF assms(1,2)])
next
  assume passed
  then have p: "py_round 6 (mean_of f base) - gate_tolerance \<le> py_round 6 (mean_of f cur)" if "f \<in> set gated" for f
    using that by (simp add: passed_def gate_on_aggregates[OF assms(1,2)] list_all_iff)
  have "mean_of f base - 1 / 10 ^ 6 \<le> mean_of f cur" if f: "f \<in> set gated" for f
  proof (rule ccontr)
    assume "\<not> ?thesis"
    then have "py_round 6 (mean_of f cur) \<le> py_round 6 (mean_of f base) - 1 / 10 ^ 6" by (intro py_round_drop) simp
    then show False using p[OF f] by (simp add: gate_tolerance_def)
  qed
  then show "list_all (\<lambda>f. mean_of f base - 1 / 10 ^ 6 \<le> mean_of f cur) gated" by (simp add: list_all_iff)
qed

theorem gate_catches_regressions_witness:
  "\<not> fst (compare_to_baseline (aggregate_dict (aggregate [score_query ''q'' [''b'', ''a''] [''a''] None]))
       (aggregate_dict (aggregate [score_query ''q'' [''a''] [''a''] None])) gate_metrics gate_tolerance)"
proof -
  have "\<not> list_all (\<lambda>f. mean_of f [score_query ''q'' [''a''] [''a''] None] - 1 / 10 ^ 6 \<le>
      mean_of f [score_query ''q'' [''b'', ''a''] [''a''] None]) gated"
    by (simp add: gated_def mean_of_def score_query_def cut_at_def reciprocal_rank_def Let_def)
  then show ?thesis
    using gate_catches_regressions[of "[score_query ''q'' [''b'', ''a''] [''a''] None]" "[score_query ''q'' [''a''] [''a''] None]"]
    by blast
qed

text \<open>C36. The exit code is a contract. A run that ends by itself exits 2 exactly when some query returned
  a forbidden memory anywhere in its ranking, or reached its labelled documents by other paths than it
  is labelled with; otherwise it exits 3 exactly when there is a baseline and the gate does not hold;
  otherwise 0. A broken suite is never reported as a regression, nor the other way round.\<close>

theorem exit_code_contract:
  assumes "run_eval search separation subject k baseline records = Inr out"
  shows "main_code (Inr out) =
    (if list_ex (resurfaces search subject) records \<or>
        list_ex (\<lambda>r. \<not> expectation_met (sr_expectation r) (found_via search subject k r)) records then 2
     else if \<exists>b. baseline = Some (Inr b) \<and> \<not> fst (compare_to_baseline
        (aggregate_dict (case map_of (eo_by_tier out) gate_tier of Some a \<Rightarrow> a | None \<Rightarrow> eo_aggregate out)) b gate_metrics gate_tolerance)
     then 3 else 0)"
proof -
  have "eo_gate_passed out = (case baseline of Some (Inr b) \<Rightarrow> fst (compare_to_baseline
      (aggregate_dict (case map_of (eo_by_tier out) gate_tier of Some a \<Rightarrow> a | None \<Rightarrow> eo_aggregate out)) b gate_metrics gate_tolerance)
    | _ \<Rightarrow> True)"
    using assms by (auto simp: run_eval_def Let_def split_beta split: sum.splits if_splits option.splits)
  then show ?thesis
    using run_eval_checks[OF assms]
    by (auto simp: main_code_def exit_code_def exit_regression_def split: option.split sum.split)
qed

definition ex_suite_record :: suite_record where
  "ex_suite_record = \<lparr> sr_id = ''gs-001'', sr_query = ''tea'', sr_expected = [''m1''], sr_forbidden = [''m9''],
     sr_expectation = ''any'', sr_tier = gate_tier \<rparr>"

theorem exit_code_contract_witness:
  "\<exists>out. run_eval (\<lambda>q. Inr \<lparr> h_candidates = [ex_row Keyword ''m9'' 1], h_degraded = [], h_path_counts = [] \<rparr>) (\<lambda>t es. Inl NoVector)
      ''s'' 5 None [ex_suite_record] = Inr out \<and> main_code (Inr out) = 2"
proof -
  let ?search = "\<lambda>q :: query. Inr \<lparr> h_candidates = [ex_row Keyword ''m9'' 1], h_degraded = [], h_path_counts = [] \<rparr>"
  obtain out where out: "run_eval ?search (\<lambda>t es. Inl NoVector) ''s'' 5 None [ex_suite_record] = Inr out"
    by (simp add: run_eval_def eval_record_def ex_suite_record_def Let_def)
  have "resurfaces ?search ''s'' ex_suite_record" by (simp add: resurfaces_def ex_suite_record_def)
  then show ?thesis using out exit_code_contract[OF out] by simp
qed

end
