(* ===== verification/Fixtures.thy ===== *)
theory Fixtures
  imports Search
begin

text \<open>
  The fixture corpus of the evaluation (\<^verbatim>\<open>evals/fixtures/seed_memories.py\<close>): the embedding cache on
  disk, the reset of a subject's rows in one transaction, and the overrides that put some of the new
  rows into states capture never writes. The rows of the corpora are data and arguments here. The
  vectors have the column's width, and intervals are counted in days of 24 hours.
\<close>

section \<open>The corpus and its embeddings\<close>

record seed_memory =
  sm_slug :: string
  sm_id :: uuid
  sm_content :: string
  sm_source :: string
  sm_importance :: real
  sm_confidence :: real

datatype seed_exn =
    Provider llm_exn
  | CacheMiss
  | UnknownSlug string
  | BadOverride string
  | DatabaseError
  | MatchedRows nat

text \<open>The file is the dictionary; a missing or unreadable one is empty.\<close>

definition missing_vectors :: "search_env \<Rightarrow> (string \<times> real list) list \<Rightarrow> string list \<Rightarrow> string list" where
  "missing_vectors env cache texts = filter (\<lambda>t. map_of cache (cache_key env t) = None) texts"

definition cached_vectors :: "search_env \<Rightarrow> (string \<times> real list) list \<Rightarrow> string list \<Rightarrow> seed_exn + real list list" where
  "cached_vectors env cache texts =
     (if missing_vectors env cache texts \<noteq> [] then Inl CacheMiss
      else Inr (map (\<lambda>t. the (map_of cache (cache_key env t))) texts))"

definition embeddings_for ::
  "search_env \<Rightarrow> string list \<Rightarrow> bool \<Rightarrow> (string \<times> real list) list \<Rightarrow>
     (seed_exn + real list list) \<times> (string \<times> real list) list" where
  "embeddings_for env texts use_cache file =
     (let cache = (if use_cache then file else []);
          missing = missing_vectors env cache texts
      in if missing = [] then (cached_vectors env cache texts, file)
         else case fst (embed_texts (se_lib env) (se_llm env) (se_rounds env 0) None None missing) of
             Inl e \<Rightarrow> (Inl (Provider e), file)
           | Inr vectors \<Rightarrow>
               (let cache' = dict_update cache (map (\<lambda>(t, v). (cache_key env t, v)) (zip missing vectors))
                in (cached_vectors env cache' texts, if use_cache then cache' else file)))"

definition all_corpus_texts :: "seed_memory list list \<Rightarrow> string list" where
  "all_corpus_texts corpora = rev (remdups (rev (map sm_content (concat corpora))))"

definition prune_cache ::
  "search_env \<Rightarrow> string list \<Rightarrow> (string \<times> real list) list \<Rightarrow> nat \<times> (string \<times> real list) list" where
  "prune_cache env texts cache =
     (let live = map (cache_key env) texts;
          orphans = filter (\<lambda>key. key \<notin> set live) (map fst cache)
      in (length orphans, filter (\<lambda>e. fst e \<notin> set orphans) cache))"

section \<open>Statements\<close>

text \<open>\<^verbatim>\<open>DELETE FROM memories WHERE P\<close>: the references of the audit trail become null.\<close>

definition delete_rows :: "('v mem \<Rightarrow> bool) \<Rightarrow> 'v tx \<Rightarrow> nat \<times> 'v tx" where
  "delete_rows P t =
     (let gone = map m_id (select_rows P t);
          d = x_db t
      in (length gone, t \<lparr> x_db := d \<lparr> d_mems := filter (\<lambda>m. \<not> (visible (x_role t) m \<and> P m)) (d_mems d),
            d_audits := map (\<lambda>a. case a_memory a of None \<Rightarrow> a
               | Some i \<Rightarrow> if i \<in> set gone then a \<lparr> a_memory := None \<rparr> else a) (d_audits d) \<rparr> \<rparr>))"

definition insert_seed :: "uuid \<Rightarrow> uuid \<Rightarrow> seed_memory \<Rightarrow> 'v \<Rightarrow> 'v tx \<Rightarrow> seed_exn + 'v tx" where
  "insert_seed subject actor sm v t =
     (let d = x_db t in
      if sm_id sm \<in> m_id ` set (d_mems d) then Inl DatabaseError
      else Inr (t \<lparr> x_db := d \<lparr> d_mems := d_mems d @
        [new_memory subject actor (sm_content sm) (Some v) (Some (sm_source sm)) (Some (sm_importance sm))
           (Some (sm_confidence sm)) None (x_now t) (sm_id sm)] \<rparr> \<rparr>))"

fun insert_seeds :: "uuid \<Rightarrow> uuid \<Rightarrow> (seed_memory \<times> 'v) list \<Rightarrow> 'v tx \<Rightarrow> seed_exn + 'v tx" where
  "insert_seeds subject actor [] t = Inr t"
| "insert_seeds subject actor ((sm, v) # rest) t =
     (case insert_seed subject actor sm v t of
        Inl e \<Rightarrow> Inl e
      | Inr t' \<Rightarrow> insert_seeds subject actor rest t')"

section \<open>Overrides\<close>

datatype override = Flag bool | Number real | Text string

definition lifecycle_columns :: "string list" where
  "lifecycle_columns = [''archived_at'', ''deleted_at'', ''decay_claimed_at'', ''decay_run_id'', ''weight'',
     ''last_accessed_at'', ''reinforcement_count'']"

text \<open>\<^verbatim>\<open>_LIFECYCLE_SQL\<close>: what a text may say, as the timestamp it stands for; the \<^verbatim>\<open>$\<close> of the
  expression lets a final newline pass.\<close>

definition interval_units :: "(string \<times> int) list" where
  "interval_units = [('' days'' @ [CHR 0x27], 86400), ('' hours'' @ [CHR 0x27], 3600), ('' minutes'' @ [CHR 0x27], 60)]"

definition interval_head :: string where
  "interval_head = ''now() - interval '' @ [CHR 0x27]"

definition lifecycle_sql :: "string \<Rightarrow> timestamp \<Rightarrow> timestamp option option" where
  "lifecycle_sql s now =
     (let s1 = (if s \<noteq> [] \<and> last s = newline then butlast s else s);
          r = drop (length interval_head) s1;
          digits = takeWhile digit r
      in if s1 = ''now()'' then Some (Some now)
         else if s1 = ''null'' then Some None
         else if take (length interval_head) s1 = interval_head \<and> digits \<noteq> [] \<and> length digits \<le> 6
         then map_option (\<lambda>unit. Some (now - int (digits_value digits) * unit * 1000000))
                (map_of interval_units (dropWhile digit r))
         else None)"

text \<open>One assignment; none when the statement would fail with a type or null error.\<close>

definition set_time :: "string \<Rightarrow> timestamp option \<Rightarrow> 'v mem \<Rightarrow> 'v mem option" where
  "set_time column value m =
     (if column = ''archived_at'' then Some (m \<lparr> m_archived := value \<rparr>)
      else if column = ''deleted_at'' then Some (m \<lparr> m_deleted := value \<rparr>)
      else if column = ''decay_claimed_at'' then Some (m \<lparr> m_claimed := value \<rparr>)
      else if column = ''last_accessed_at'' then map_option (\<lambda>x. m \<lparr> m_accessed := x \<rparr>) value
      else if column = ''decay_run_id'' \<and> value = None then Some (m \<lparr> m_run := None \<rparr>)
      else None)"

definition set_number :: "string \<Rightarrow> real \<Rightarrow> 'v mem \<Rightarrow> 'v mem option" where
  "set_number column x m =
     (if column = ''weight'' then Some (m \<lparr> m_weight := x \<rparr>)
      else if column = ''reinforcement_count'' \<and> \<bar>round_even x\<bar> < 2 ^ 31 then Some (m \<lparr> m_reinforced := round_even x \<rparr>)
      else None)"

text \<open>The checks of one override: the assignment, or the message of the \<^verbatim>\<open>ValueError\<close>.\<close>

definition assignment :: "timestamp \<Rightarrow> string \<times> override \<Rightarrow> seed_exn + ('v mem \<Rightarrow> 'v mem option)" where
  "assignment now cv =
     (let (column, value) = cv in
      if column \<notin> set lifecycle_columns then Inl (BadOverride column)
      else case value of
          Flag _ \<Rightarrow> Inl (BadOverride column)
        | Number x \<Rightarrow> Inr (set_number column x)
        | Text s \<Rightarrow> (case lifecycle_sql s now of
            None \<Rightarrow> Inl (BadOverride column)
          | Some x \<Rightarrow> Inr (set_time column x)))"

fun assignments :: "timestamp \<Rightarrow> (string \<times> override) list \<Rightarrow> seed_exn + ('v mem \<Rightarrow> 'v mem option) list" where
  "assignments now [] = Inr []"
| "assignments now (cv # cvs) =
     (case assignment now cv of
        Inl e \<Rightarrow> Inl e
      | Inr f \<Rightarrow> (case assignments now cvs of Inl e \<Rightarrow> Inl e | Inr fs \<Rightarrow> Inr (f # fs)))"

fun assign_all :: "('v mem \<Rightarrow> 'v mem option) list \<Rightarrow> 'v mem \<Rightarrow> 'v mem option" where
  "assign_all [] m = Some m"
| "assign_all (f # fs) m = (case f m of None \<Rightarrow> None | Some m' \<Rightarrow> assign_all fs m')"

text \<open>The statement for one slug: its rows that are visible, exactly one of them. An empty override
  is not an \<^verbatim>\<open>UPDATE\<close> PostgreSQL can parse.\<close>

definition override_row ::
  "uuid \<Rightarrow> seed_memory list \<Rightarrow> string \<times> (string \<times> override) list \<Rightarrow> 'v tx \<Rightarrow> seed_exn + 'v tx" where
  "override_row subject memories entry t =
     (let (slug, overrides) = entry in
      case find (\<lambda>sm. sm_slug sm = slug) (rev memories) of
        None \<Rightarrow> Inl (UnknownSlug slug)
      | Some sm \<Rightarrow>
          (case assignments (x_now t) overrides of
             Inl e \<Rightarrow> Inl e
           | Inr fs \<Rightarrow>
               (let P = (\<lambda>m. m_id m = sm_id sm \<and> m_subject m = subject);
                    rows = select_rows P t
                in if fs = [] \<or> list_ex (\<lambda>m. assign_all fs m = None) rows then Inl DatabaseError
                   else if length rows \<noteq> 1 then Inl (MatchedRows (length rows))
                   else Inr (snd (update_rows P (\<lambda>m. the (assign_all fs m)) t)))))"

fun apply_lifecycle ::
  "uuid \<Rightarrow> seed_memory list \<Rightarrow> (string \<times> (string \<times> override) list) list \<Rightarrow> 'v tx \<Rightarrow> seed_exn + nat \<times> 'v tx" where
  "apply_lifecycle subject memories [] t = Inr (0, t)"
| "apply_lifecycle subject memories (entry # entries) t =
     (case override_row subject memories entry t of
        Inl e \<Rightarrow> Inl e
      | Inr t' \<Rightarrow> (case apply_lifecycle subject memories entries t' of
          Inl e \<Rightarrow> Inl e
        | Inr (n, t'') \<Rightarrow> Inr (Suc n, t'')))"

section \<open>Seeding\<close>

record seed_summary =
  ss_deleted :: nat
  ss_inserted :: nat
  ss_lifecycle_applied :: nat
  ss_cache_pruned :: nat

text \<open>The transaction: an exception rolls it back.\<close>

definition seed_session ::
  "uuid \<Rightarrow> uuid \<Rightarrow> seed_memory list \<Rightarrow> 'v list \<Rightarrow> (string \<times> (string \<times> override) list) list \<Rightarrow> 'v tx \<Rightarrow>
     seed_exn + (nat \<times> nat) \<times> 'v tx" where
  "seed_session subject actor memories vectors lifecycle t =
     (let (deleted, t1) = delete_rows (\<lambda>m. m_subject m = subject) t in
      case insert_seeds subject actor (zip memories vectors) t1 of
        Inl e \<Rightarrow> Inl e
      | Inr t2 \<Rightarrow> (case apply_lifecycle subject memories lifecycle t2 of
          Inl e \<Rightarrow> Inl e
        | Inr (aged, t3) \<Rightarrow> Inr ((deleted, aged), t3)))"

definition seed ::
  "search_env \<Rightarrow> seed_memory list list \<Rightarrow> uuid \<Rightarrow> uuid \<Rightarrow> seed_memory list \<Rightarrow>
     (string \<times> (string \<times> override) list) list \<Rightarrow> bool \<Rightarrow> timestamp \<Rightarrow> (string \<times> real list) list \<Rightarrow> real list db \<Rightarrow>
     (seed_exn + seed_summary) \<times> (string \<times> real list) list \<times> real list db" where
  "seed env corpora subject actor memories lifecycle use_cache now file d =
     (case embeddings_for env (map sm_content memories) use_cache file of
        (Inl e, file1) \<Rightarrow> (Inl e, file1, d)
      | (Inr vectors, file1) \<Rightarrow>
          (let (pruned, file2) = (if use_cache then prune_cache env (all_corpus_texts corpora) file1 else (0, file1))
           in case seed_session subject actor memories vectors lifecycle (session subject actor now True d) of
                Inl e \<Rightarrow> (Inl e, file2, d)
              | Inr ((deleted, aged), t) \<Rightarrow>
                  (Inr \<lparr> ss_deleted = deleted, ss_inserted = length memories, ss_lifecycle_applied = aged,
                     ss_cache_pruned = pruned \<rparr>, file2, x_db t)))"

section \<open>Facts\<close>

text \<open>The statements depend on the rows, the role and the time only.\<close>

definition same_rows :: "'v tx \<Rightarrow> 'v tx \<Rightarrow> bool" where
  "same_rows t u \<longleftrightarrow> d_mems (x_db t) = d_mems (x_db u) \<and> x_role t = x_role u \<and> x_now t = x_now u"

lemma insert_seed_same:
  "same_rows t u \<Longrightarrow> rel_sum (=) same_rows (insert_seed s a sm v t) (insert_seed s a sm v u)"
  by (auto simp: insert_seed_def same_rows_def Let_def)

lemma insert_seeds_same:
  "same_rows t u \<Longrightarrow> rel_sum (=) same_rows (insert_seeds s a ps t) (insert_seeds s a ps u)"
proof (induction s a ps t arbitrary: u rule: insert_seeds.induct)
  case (2 s a sm v rest t)
  have "rel_sum (=) same_rows (insert_seed s a sm v t) (insert_seed s a sm v u)"
    by (rule insert_seed_same[OF 2(2)])
  then show ?case using 2(1) by (auto split: sum.split elim!: rel_sum.cases)
qed simp

lemma override_row_same:
  "same_rows t u \<Longrightarrow> rel_sum (=) same_rows (override_row s ms e t) (override_row s ms e u)"
  by (auto simp: override_row_def same_rows_def Let_def select_rows_def update_rows_def split: prod.split option.split sum.split)

lemma apply_lifecycle_same:
  "same_rows t u \<Longrightarrow> rel_sum (=) (rel_prod (=) same_rows) (apply_lifecycle s ms es t) (apply_lifecycle s ms es u)"
proof (induction s ms es t arbitrary: u rule: apply_lifecycle.induct)
  case (2 s ms e es t)
  have "rel_sum (=) same_rows (override_row s ms e t) (override_row s ms e u)"
    by (rule override_row_same[OF 2(2)])
  then show ?case
  proof cases
    case (2 t' u')
    have "rel_sum (=) (rel_prod (=) same_rows) (apply_lifecycle s ms es t') (apply_lifecycle s ms es u')"
      by (rule "2.IH") (use 2 in auto)
    then show ?thesis using 2(1,2) by (auto split: sum.split elim!: rel_sum.cases)
  qed simp
qed simp

text \<open>What the statements leave: the rows of others, and of the new rows everything but the columns of
  the lifecycle.\<close>

definition written_as :: "'v mem \<Rightarrow> 'v mem \<Rightarrow> bool" where
  "written_as m m' \<longleftrightarrow> m_id m' = m_id m \<and> m_subject m' = m_subject m \<and> m_actor m' = m_actor m \<and>
     m_content m' = m_content m \<and> m_embedding m' = m_embedding m \<and> m_source m' = m_source m \<and>
     m_importance m' = m_importance m \<and> m_confidence m' = m_confidence m \<and> m_created m' = m_created m \<and>
     m_superseded m' = m_superseded m \<and> m_stale m' = m_stale m \<and> m_consolidated m' = m_consolidated m"

lemma written_as_refl [simp]: "written_as m m"
  by (simp add: written_as_def)

lemma written_as_trans [trans]: "written_as m n \<Longrightarrow> written_as n p \<Longrightarrow> written_as m p"
  by (simp add: written_as_def)

lemma assignment_written:
  "assignment now cv = Inr f \<Longrightarrow> f m = Some m' \<Longrightarrow> written_as m m'"
  by (auto simp: assignment_def set_time_def set_number_def written_as_def Let_def
      split: prod.splits override.splits option.splits if_splits)

lemma assign_all_written:
  "assignments now cvs = Inr fs \<Longrightarrow> assign_all fs m = Some m' \<Longrightarrow> written_as m m'"
proof (induction cvs arbitrary: fs m)
  case (Cons cv cvs)
  then obtain f gs where f: "assignment now cv = Inr f" "assignments now cvs = Inr gs" "fs = f # gs"
    by (auto split: sum.splits)
  then obtain n where "f m = Some n" "assign_all gs n = Some m'" using Cons.prems(2) by (auto split: option.splits)
  then show ?case using assignment_written[OF f(1)] Cons.IH[OF f(2)] written_as_trans by blast
qed simp

lemma override_row_effect:
  fixes t t' :: "'v tx"
  assumes "override_row s ms e t = Inr t'"
  shows "x_role t' = x_role t \<and> x_now t' = x_now t \<and>
    list_all2 (\<lambda>m m'. written_as m m' \<and> (visible (x_role t) m \<or> m' = m)) (d_mems (x_db t)) (d_mems (x_db t'))"
proof -
  obtain slug ov where e: "e = (slug, ov)" by (cases e)
  obtain sm where sm: "find (\<lambda>sm. sm_slug sm = slug) (rev ms) = Some sm"
    using assms by (auto simp: override_row_def e split: option.splits)
  obtain fs :: "('v mem \<Rightarrow> 'v mem option) list" where fs0: "assignments (x_now t) ov = Inr fs"
    using assms by (auto simp: override_row_def e sm split: sum.splits)
  let ?P = "\<lambda>m. m_id m = sm_id sm \<and> m_subject m = s"
  have fs: "assignments (x_now t) ov = Inr fs" "t' = snd (update_rows ?P (\<lambda>m. the (assign_all fs m)) t)"
    "\<not> list_ex (\<lambda>m. assign_all fs m = None) (select_rows ?P t)"
    using assms by (simp_all add: override_row_def e sm fs0 Let_def split: if_splits)
  have "written_as m (the (assign_all fs m))"
    if "m \<in> set (d_mems (x_db t))" "visible (x_role t) m" "m_id m = sm_id sm \<and> m_subject m = s" for m
  proof -
    have "assign_all fs m \<noteq> None" using fs(3) that by (auto simp: select_rows_def list_ex_iff)
    then show ?thesis using assign_all_written[OF fs(1)] by auto
  qed
  then show ?thesis
    by (auto simp: fs(2) update_rows_def update_table_def list_all2_map2 list.rel_refl_strong intro!: list.rel_refl_strong)
qed

definition keeps :: "role \<Rightarrow> 'v mem \<Rightarrow> 'v mem \<Rightarrow> bool" where
  "keeps r m m' \<longleftrightarrow> written_as m m' \<and> (visible r m \<or> m' = m)"

lemma written_visible: "written_as m m' \<Longrightarrow> visible r m' = visible r m"
  by (simp add: written_as_def visible_def split: role.split)

lemma keeps_trans: "keeps r m n \<Longrightarrow> keeps r n p \<Longrightarrow> keeps r m p"
proof -
  assume a: "keeps r m n" and b: "keeps r n p"
  have w: "written_as m p" using a b written_as_trans[of m n p] by (simp add: keeps_def)
  have v: "visible r n = visible r m" using a written_visible[of m n r] by (simp add: keeps_def)
  show "keeps r m p"
  proof (cases "visible r m")
    case False
    then show ?thesis using a b v w by (auto simp: keeps_def)
  qed (simp add: keeps_def w)
qed

lemma apply_lifecycle_effect:
  "apply_lifecycle s ms es t = Inr (n, t') \<Longrightarrow> n = length es \<and> x_role t' = x_role t \<and> x_now t' = x_now t \<and>
     list_all2 (keeps (x_role t)) (d_mems (x_db t)) (d_mems (x_db t'))"
proof (induction s ms es t arbitrary: n t' rule: apply_lifecycle.induct)
  case (2 s ms e es t)
  from "2.prems" obtain u m where u: "override_row s ms e t = Inr u" "apply_lifecycle s ms es u = Inr (m, t')" "n = Suc m"
    by (auto split: sum.splits)
  have one: "x_role u = x_role t" "x_now u = x_now t" "list_all2 (keeps (x_role t)) (d_mems (x_db t)) (d_mems (x_db u))"
    using override_row_effect[OF u(1)] by (simp_all add: keeps_def[abs_def])
  have two: "m = length es" "x_role t' = x_role u" "x_now t' = x_now u"
    "list_all2 (keeps (x_role u)) (d_mems (x_db u)) (d_mems (x_db t'))"
    using "2.IH"[OF u(1,2)] by auto
  have "list_all2 (keeps (x_role t)) (d_mems (x_db t)) (d_mems (x_db t'))"
    by (rule list_all2_trans[OF keeps_trans one(3) two(4)[unfolded one(1)]])
  then show ?case by (simp add: one two(1-3) u(3))
qed (simp add: keeps_def list.rel_refl_strong)

definition seeded :: "uuid \<Rightarrow> uuid \<Rightarrow> timestamp \<Rightarrow> seed_memory \<times> 'v \<Rightarrow> 'v mem" where
  "seeded s a now p = (case p of (sm, v) \<Rightarrow> new_memory s a (sm_content sm) (Some v) (Some (sm_source sm))
     (Some (sm_importance sm)) (Some (sm_confidence sm)) None now (sm_id sm))"

lemma insert_seeds_effect:
  "insert_seeds s a ps t = Inr t' \<Longrightarrow> x_role t' = x_role t \<and> x_now t' = x_now t \<and>
     d_mems (x_db t') = d_mems (x_db t) @ map (seeded s a (x_now t)) ps"
proof (induction s a ps t rule: insert_seeds.induct)
  case (2 s a sm v rest t)
  from "2.prems" obtain u where u: "insert_seed s a sm v t = Inr u" "insert_seeds s a rest u = Inr t'"
    by (auto split: sum.splits)
  have "x_role u = x_role t" "x_now u = x_now t" "d_mems (x_db u) = d_mems (x_db t) @ [seeded s a (x_now t) (sm, v)]"
    using u(1) by (auto simp: insert_seed_def seeded_def Let_def split: if_splits)
  then show ?case using "2.IH"[OF u] by simp
qed simp

lemma map_of_filter_key: "P k \<Longrightarrow> map_of (filter (\<lambda>e. P (fst e)) xs) k = map_of xs k"
  by (induction xs) auto

lemma cached_vectors_Inr:
  "cached_vectors env cache texts = Inr vs \<longleftrightarrow>
     list_all (\<lambda>t. map_of cache (cache_key env t) \<noteq> None) texts \<and>
     vs = map (\<lambda>t. the (map_of cache (cache_key env t))) texts"
  by (auto simp: cached_vectors_def missing_vectors_def filter_empty_conv list_all_iff)

lemma embeddings_for_Inr:
  assumes "embeddings_for env texts True file = (Inr vs, file1)"
  shows "cached_vectors env file1 texts = Inr vs"
  using assms by (auto simp: embeddings_for_def Let_def split: if_splits sum.splits)

lemma set_all_corpus_texts: "set (all_corpus_texts corpora) = sm_content ` (\<Union> (set ` set corpora))"
  by (simp add: all_corpus_texts_def)

lemma prune_cache_keeps:
  assumes "prune_cache env texts file = (n, file')" "t \<in> set texts"
  shows "map_of file' (cache_key env t) = map_of file (cache_key env t)"
proof -
  have "file' = filter (\<lambda>e. fst e \<notin> set (filter (\<lambda>key. key \<notin> set (map (cache_key env) texts)) (map fst file))) file"
    using assms(1) by (simp add: prune_cache_def Let_def)
  then show ?thesis using map_of_filter_key[of "\<lambda>k. k \<notin> set (filter (\<lambda>key. key \<notin> set (map (cache_key env) texts)) (map fst file))"]
    assms(2) by auto
qed

lemma prune_cache_again:
  assumes "prune_cache env texts file = (n, file')"
  shows "prune_cache env texts file' = (0, file')"
proof -
  have "file' = filter (\<lambda>e. fst e \<notin> set (filter (\<lambda>key. key \<notin> set (map (cache_key env) texts)) (map fst file))) file"
    using assms by (simp add: prune_cache_def Let_def)
  then have "fst e \<in> cache_key env ` set texts" if "e \<in> set file'" for e using that by auto
  then have none: "filter (\<lambda>key. key \<notin> set (map (cache_key env) texts)) (map fst file') = []"
    by (auto simp: filter_empty_conv)
  show ?thesis unfolding prune_cache_def Let_def none by simp
qed

lemma filter_written:
  "list_all2 (keeps r) ms ms' \<Longrightarrow> filter (\<lambda>m. \<not> visible r m) ms' = filter (\<lambda>m. \<not> visible r m) ms \<and>
     list_all2 (keeps r) (filter (visible r) ms) (filter (visible r) ms')"
proof (induction rule: list_all2_induct)
  case (Cons m ms m' ms')
  moreover have "visible r m' = visible r m" using Cons(1) by (simp add: keeps_def written_visible)
  moreover have "m' = m" if "\<not> visible r m" using Cons(1) that by (simp add: keeps_def)
  ultimately show ?case by auto
qed simp

lemma visible_seeded [simp]: "visible (App s a) (seeded s a now p)"
  by (simp add: visible_def seeded_def new_memory_def split: prod.split)

lemma delete_rows_mems: "d_mems (x_db (snd (delete_rows P t))) = filter (\<lambda>m. \<not> (visible (x_role t) m \<and> P m)) (d_mems (x_db t))"
  and delete_rows_count: "fst (delete_rows P t) = length (select_rows P t)"
  and delete_rows_frame: "x_role (snd (delete_rows P t)) = x_role t" "x_now (snd (delete_rows P t)) = x_now t"
  by (simp_all add: delete_rows_def Let_def)

lemma own_visible: "visible (App s a) m \<Longrightarrow> m_subject m = s"
  by (simp add: visible_def)

lemma own_session_rows:
  "select_rows (\<lambda>m. m_subject m = s) (session s a now k d) = filter (visible (App s a)) (d_mems d)"
  "d_mems (x_db (snd (delete_rows (\<lambda>m. m_subject m = s) (session s a now k d)))) = filter (\<lambda>m. \<not> visible (App s a) m) (d_mems d)"
  unfolding select_rows_def delete_rows_mems by (rule filter_cong; auto simp: visible_def session_def)+

text \<open>The transaction: what others own stays, what the subject and actor own becomes the corpus.\<close>

lemma seed_session_effect:
  assumes "seed_session s a ms vs lc (session s a now k d) = Inr ((deleted, aged), t)" "length vs = length ms"
  shows "deleted = length (filter (visible (App s a)) (d_mems d))" "aged = length lc"
    "filter (\<lambda>m. \<not> visible (App s a) m) (d_mems (x_db t)) = filter (\<lambda>m. \<not> visible (App s a) m) (d_mems d)"
    "list_all2 (keeps (App s a)) (map (seeded s a now) (zip ms vs)) (filter (visible (App s a)) (d_mems (x_db t)))"
proof -
  let ?t = "session s a now k d" and ?P = "\<lambda>m. m_subject m = s"
  let ?t1 = "snd (delete_rows ?P ?t)" and ?r = "App s a"
  obtain t2 where t2: "insert_seeds s a (zip ms vs) ?t1 = Inr t2" "apply_lifecycle s ms lc t2 = Inr (aged, t)"
    "deleted = fst (delete_rows ?P ?t)"
    using assms(1) by (auto simp: seed_session_def split_beta split: sum.splits)
  have i: "x_role t2 = ?r" "d_mems (x_db t2) = filter (\<lambda>m. \<not> visible ?r m) (d_mems d) @ map (seeded s a now) (zip ms vs)"
    using insert_seeds_effect[OF t2(1)] by (simp_all add: own_session_rows delete_rows_frame del: visible_App)
  have l: "aged = length lc" "list_all2 (keeps ?r) (d_mems (x_db t2)) (d_mems (x_db t))"
    using apply_lifecycle_effect[OF t2(2)] i(1) by auto
  show "deleted = length (filter (visible ?r) (d_mems d))"
    by (simp only: t2(3) delete_rows_count own_session_rows)
  show "aged = length lc" by (rule l(1))
  have new: "filter (visible ?r) (map (seeded s a now) ps) = map (seeded s a now) ps"
    "filter (\<lambda>m. \<not> visible ?r m) (map (seeded s a now) ps) = []" for ps :: "(seed_memory \<times> 'a) list"
    by (simp_all add: filter_id_conv filter_empty_conv del: visible_App)
  show "filter (\<lambda>m. \<not> visible ?r m) (d_mems (x_db t)) = filter (\<lambda>m. \<not> visible ?r m) (d_mems d)"
    "list_all2 (keeps ?r) (map (seeded s a now) (zip ms vs)) (filter (visible ?r) (d_mems (x_db t)))"
    using filter_written[OF l(2)] unfolding i(2) by (simp_all add: new del: visible_App)
qed

text \<open>The same corpus seeded over its own result, at the same time, is the same rows.\<close>

lemma seed_session_again:
  assumes one: "seed_session s a ms vs lc (session s a now k d) = Inr ((deleted, aged), t)" "length vs = length ms"
  shows "\<exists>t'. seed_session s a ms vs lc (session s a now k' (x_db t)) = Inr ((length ms, length lc), t') \<and>
     d_mems (x_db t') = d_mems (x_db t)"
proof -
  let ?P = "\<lambda>m. m_subject m = s" and ?r = "App s a"
  let ?u = "session s a now k' (x_db t)"
  let ?t1 = "snd (delete_rows ?P (session s a now k d))" and ?u1 = "snd (delete_rows ?P ?u)"
  note eff = seed_session_effect[OF one]
  have "same_rows ?t1 ?u1"
    using eff(3) by (simp add: same_rows_def own_session_rows delete_rows_frame del: visible_App)
  then have i: "rel_sum (=) same_rows (insert_seeds s a (zip ms vs) ?t1) (insert_seeds s a (zip ms vs) ?u1)"
    by (rule insert_seeds_same)
  obtain t2 where t2: "insert_seeds s a (zip ms vs) ?t1 = Inr t2" "apply_lifecycle s ms lc t2 = Inr (aged, t)"
    using one(1) by (auto simp: seed_session_def split_beta split: sum.splits)
  obtain u2 where u2: "insert_seeds s a (zip ms vs) ?u1 = Inr u2" "same_rows t2 u2"
    using i unfolding t2(1) by (auto elim: rel_sum.cases)
  have "rel_sum (=) (rel_prod (=) same_rows) (apply_lifecycle s ms lc t2) (apply_lifecycle s ms lc u2)"
    by (rule apply_lifecycle_same[OF u2(2)])
  then obtain u where u: "apply_lifecycle s ms lc u2 = Inr (aged, u)" "same_rows t u"
    unfolding t2(2) by (auto elim: rel_sum.cases)
  have "length (filter (visible ?r) (d_mems (x_db t))) = length ms"
    using eff(4) one(2) by (simp add: list_all2_lengthD[symmetric] del: visible_App)
  then have "fst (delete_rows ?P ?u) = length ms" by (simp only: delete_rows_count own_session_rows)
  then show ?thesis
    using u u2(1) eff(2) by (auto simp: seed_session_def split_beta same_rows_def)
qed

section \<open>Property\<close>

text \<open>What a row of the corpus looks like in the table, with the vector the cache holds for its text.\<close>

definition corpus_row :: "search_env \<Rightarrow> (string \<times> real list) list \<Rightarrow> uuid \<Rightarrow> uuid \<Rightarrow> seed_memory \<Rightarrow> real list mem \<Rightarrow> bool" where
  "corpus_row env file s a sm m \<longleftrightarrow> m_id m = sm_id sm \<and> m_subject m = s \<and> m_actor m = a \<and>
     m_content m = sm_content sm \<and> m_source m = Some (sm_source sm) \<and> m_importance m = Some (sm_importance sm) \<and>
     m_confidence m = Some (sm_confidence sm) \<and> m_embedding m = map_of file (cache_key env (sm_content sm)) \<and>
     m_embedding m \<noteq> None"

lemma seed_lemma:
  assumes "seed env corpora s a ms lc True now file d = (Inr summary, file', d')" "ms \<in> set corpora"
  shows "filter (\<lambda>m. \<not> visible (App s a) m) (d_mems d') = filter (\<lambda>m. \<not> visible (App s a) m) (d_mems d)
    \<and> list_all2 (corpus_row env file' s a) ms (filter (visible (App s a)) (d_mems d'))
    \<and> (\<exists>d''. seed (env \<lparr> se_rounds := rounds \<rparr>) corpora s a ms lc True now file' d' =
         (Inr (summary \<lparr> ss_deleted := length ms, ss_cache_pruned := 0 \<rparr>), file', d'') \<and> d_mems d'' = d_mems d')"
proof -
  let ?env = "env \<lparr> se_rounds := rounds \<rparr>" and ?texts = "map sm_content ms"
  obtain vs file1 where e: "embeddings_for env ?texts True file = (Inr vs, file1)"
    using assms(1) by (auto simp: seed_def split: prod.splits sum.splits)
  obtain pruned where p: "prune_cache env (all_corpus_texts corpora) file1 = (pruned, file')"
    using assms(1) by (auto simp: seed_def e split: prod.splits sum.splits)
  obtain deleted aged t where t: "seed_session s a ms vs lc (session s a now True d) = Inr ((deleted, aged), t)"
    "summary = \<lparr> ss_deleted = deleted, ss_inserted = length ms, ss_lifecycle_applied = aged, ss_cache_pruned = pruned \<rparr>"
    "d' = x_db t"
    using assms(1) by (auto simp: seed_def e p split: sum.splits)
  have cached: "cached_vectors env file1 ?texts = Inr vs" by (rule embeddings_for_Inr[OF e])
  have keys: "map_of file' (cache_key env (sm_content sm)) = map_of file1 (cache_key env (sm_content sm))"
    if "sm \<in> set ms" for sm
    by (rule prune_cache_keeps[OF p]) (use that assms(2) in \<open>auto simp: set_all_corpus_texts\<close>)
  have len: "length vs = length ms" using cached by (simp add: cached_vectors_Inr)
  note eff = seed_session_effect[OF t(1) len]
  have row: "corpus_row env file' s a (ms ! i) (filter (visible (App s a)) (d_mems d') ! i)" if i: "i < length ms" for i
  proof -
    have "keeps (App s a) (seeded s a now (ms ! i, vs ! i)) (filter (visible (App s a)) (d_mems d') ! i)"
      using list_all2_nthD[OF eff(4), of i] i len t(3) by simp
    moreover have "map_of file1 (cache_key env (sm_content (ms ! i))) = Some (vs ! i)"
      using cached i by (auto simp: cached_vectors_Inr list_all_iff)
    ultimately show ?thesis
      using keys[of "ms ! i"] i by (auto simp: corpus_row_def keeps_def written_as_def seeded_def new_memory_def)
  qed
  have rows: "list_all2 (corpus_row env file' s a) ms (filter (visible (App s a)) (d_mems d'))"
    using row list_all2_lengthD[OF eff(4)] len t(3) by (auto intro!: list_all2_all_nthI)
  have key: "cache_key ?env = cache_key env" by (simp add: fun_eq_iff cache_key_def)
  have hit: "cached_vectors ?env file' ?texts = Inr vs" "missing_vectors ?env file' ?texts = []"
    using cached keys by (auto simp: cached_vectors_Inr list_all_iff key missing_vectors_def filter_empty_conv)
  have e': "embeddings_for ?env ?texts True file' = (Inr vs, file')" by (simp add: embeddings_for_def hit)
  have p': "prune_cache ?env (all_corpus_texts corpora) file' = (0, file')"
    using prune_cache_again[OF p] by (simp add: prune_cache_def key)
  obtain t' where t': "seed_session s a ms vs lc (session s a now True d') = Inr ((length ms, length lc), t')"
    "d_mems (x_db t') = d_mems d'"
    using seed_session_again[OF t(1) len, of True] t(3) by blast
  have "seed ?env corpora s a ms lc True now file' d' =
      (Inr (summary \<lparr> ss_deleted := length ms, ss_cache_pruned := 0 \<rparr>), file', x_db t')"
    by (simp add: seed_def e' p' t' t(2) eff(2))
  then show ?thesis using eff(3) rows t'(2) t(3) by blast
qed

text \<open>C39. Seeding a suite's corpus is repeatable. A seeding that succeeds leaves the rows of everybody
  else as they were and makes the subject's own rows exactly the corpus, in order, with the texts,
  sources, scores and cached vectors of the fixtures; run again at the same time over its own result,
  with any provider at all, it asks the provider nothing, writes the same rows and leaves the cache
  file as it is. (A seeding that fails leaves the database as it was, by its definition.)\<close>

theorem seeding_is_repeatable:
  assumes "seed env corpora s a ms lc True now file d = (Inr summary, file', d')" "ms \<in> set corpora"
  shows "filter (\<lambda>m. \<not> visible (App s a) m) (d_mems d') = filter (\<lambda>m. \<not> visible (App s a) m) (d_mems d)
    \<and> list_all2 (corpus_row env file' s a) ms (filter (visible (App s a)) (d_mems d'))
    \<and> (\<exists>d''. seed (env \<lparr> se_rounds := rounds \<rparr>) corpora s a ms lc True now file' d' =
         (Inr (summary \<lparr> ss_deleted := length ms, ss_cache_pruned := 0 \<rparr>), file', d'') \<and> d_mems d'' = d_mems d')"
  using assms by (rule seed_lemma)

definition ex_seed :: seed_memory where
  "ex_seed = \<lparr> sm_slug = ''chess'', sm_id = ''f1'', sm_content = ''plays chess'', sm_source = ''eval_fixture'',
     sm_importance = 1 / 2, sm_confidence = 9 / 10 \<rparr>"

lemma ex_seed_embed: "embed_texts (se_lib ex_senv) (se_llm ex_senv) (se_rounds ex_senv 0) None None [''plays chess''] = (Inr [[1]], [])"
proof -
  have "with_rate_limit_retry lib ls j (pv_embed (se_rounds ex_senv i) m [t]) n w = (Inr [(0, [1])], [])"
    for lib ls j i m n w t by (rule retry_immediate_Inr) (simp add: ex_senv_def)
  then show ?thesis by (simp add: embed_texts_def)
qed

theorem seeding_is_repeatable_witness:
  "\<exists>file' d' d''. seed ex_senv [[ex_seed]] ''s'' ''a'' [ex_seed] [(''chess'', [(''deleted_at'', Text ''now()'')])] True 9 [] ex_sdb =
       (Inr \<lparr> ss_deleted = 1, ss_inserted = 1, ss_lifecycle_applied = 1, ss_cache_pruned = 0 \<rparr>, file', d') \<and>
     seed (ex_senv \<lparr> se_rounds := undefined \<rparr>) [[ex_seed]] ''s'' ''a'' [ex_seed]
       [(''chess'', [(''deleted_at'', Text ''now()'')])] True 9 file' d' =
       (Inr \<lparr> ss_deleted = 1, ss_inserted = 1, ss_lifecycle_applied = 1, ss_cache_pruned = 0 \<rparr>, file', d'') \<and>
     d_mems d'' = d_mems d'"
proof -
  have sql: "lifecycle_sql ''now()'' 9 = Some (Some 9)" by (simp add: lifecycle_sql_def)
  have as: "assignment 9 (''deleted_at'', Text ''now()'') = Inr (set_time ''deleted_at'' (Some 9))"
    by (simp add: assignment_def lifecycle_columns_def sql)
  have emb: "embeddings_for ex_senv [''plays chess''] True [] = (Inr [[1]], [(cache_key ex_senv ''plays chess'', [1])])"
    by (simp add: embeddings_for_def missing_vectors_def ex_seed_embed cached_vectors_def dict_update_def Let_def)
  have prune: "prune_cache ex_senv [''plays chess''] [(cache_key ex_senv ''plays chess'', [1])] =
      (0, [(cache_key ex_senv ''plays chess'', [1])])" by (simp add: prune_cache_def)
  have "\<exists>d'. seed ex_senv [[ex_seed]] ''s'' ''a'' [ex_seed] [(''chess'', [(''deleted_at'', Text ''now()'')])] True 9 [] ex_sdb =
     (Inr \<lparr> ss_deleted = 1, ss_inserted = 1, ss_lifecycle_applied = 1, ss_cache_pruned = 0 \<rparr>,
      [(cache_key ex_senv ''plays chess'', [1])], d')"
    by (simp add: seed_def ex_seed_def emb prune all_corpus_texts_def seed_session_def delete_rows_def select_rows_def
        ex_sdb_def new_memory_def insert_seed_def override_row_def as set_time_def Let_def)
  then obtain d' where d': "seed ex_senv [[ex_seed]] ''s'' ''a'' [ex_seed] [(''chess'', [(''deleted_at'', Text ''now()'')])] True 9 [] ex_sdb =
     (Inr \<lparr> ss_deleted = 1, ss_inserted = 1, ss_lifecycle_applied = 1, ss_cache_pruned = 0 \<rparr>,
      [(cache_key ex_senv ''plays chess'', [1])], d')" by blast
  from seeding_is_repeatable[OF d', of undefined] obtain d'' where
    "seed (ex_senv \<lparr> se_rounds := undefined \<rparr>) [[ex_seed]] ''s'' ''a'' [ex_seed]
       [(''chess'', [(''deleted_at'', Text ''now()'')])] True 9 [(cache_key ex_senv ''plays chess'', [1])] d' =
       (Inr \<lparr> ss_deleted = 1, ss_inserted = 1, ss_lifecycle_applied = 1, ss_cache_pruned = 0 \<rparr>,
        [(cache_key ex_senv ''plays chess'', [1])], d'')" "d_mems d'' = d_mems d'"
    by auto
  with d' show ?thesis by blast
qed

end
