(* ===== verification/Evaluation.thy ===== *)
theory Evaluation
  imports Gate Fixtures System
begin

text \<open>
  The evaluation over the database (\<^verbatim>\<open>evals/run_eval.py\<close>, \<^verbatim>\<open>evals/separation.py\<close>): where a labelled
  row stands in the full cosine ranking, and the whole run from the suite file through seeding, cache
  warming and retrieval to the exit code. What it adds to theory Gate is that the searches are those
  of theory System.
\<close>

section \<open>Separation\<close>

text \<open>The statement without a limit. It hides erased rows, but not superseded or stale ones. pgvector
  documents that its index serves only statements with a limit, so this one sorts all of its rows.\<close>

definition ranked_corpus :: "search_env \<Rightarrow> uuid \<Rightarrow> real list \<Rightarrow> real list tx \<Rightarrow> (uuid \<times> real) list" where
  "ranked_corpus env subject v t =
     map (\<lambda>m. (m_id m, distance_to env v m))
       (sort_key (\<lambda>m. (distance_to env v m, m_id m))
         (select_rows (\<lambda>m. m_subject m = subject \<and> m_deleted m = None \<and> m_embedding m \<noteq> None) t))"

fun first_target :: "nat \<Rightarrow> uuid list \<Rightarrow> (uuid \<times> real) list \<Rightarrow> (nat \<times> uuid \<times> real) option" where
  "first_target position targets [] = None"
| "first_target position targets ((i, x) # ranked) =
     (if i \<in> set targets then Some (position, i, x) else first_target (Suc position) targets ranked)"

definition report_of :: "(uuid \<times> real) list \<Rightarrow> uuid list \<Rightarrow> int \<Rightarrow> separation_report" where
  "report_of ranked targets boundary =
     (let boundary_distance = (if 0 < boundary \<and> boundary \<le> int (length ranked)
            then Some (snd (ranked ! (nat boundary - 1))) else None)
      in case first_target (Suc 0) targets ranked of
           Some (position, i, distance) \<Rightarrow>
             \<lparr> sp_corpus_size = length ranked, sp_target_id = Some i, sp_target_rank = Some position,
               sp_target_distance = Some distance, sp_boundary_rank = boundary, sp_boundary_distance = boundary_distance,
               sp_margin = map_option (\<lambda>b. distance - b) boundary_distance \<rparr>
         | None \<Rightarrow>
             \<lparr> sp_corpus_size = length ranked, sp_target_id = None, sp_target_rank = None, sp_target_distance = None,
               sp_boundary_rank = boundary, sp_boundary_distance = boundary_distance, sp_margin = None \<rparr>)"

definition is_outside :: "separation_report \<Rightarrow> bool" where
  "is_outside r \<longleftrightarrow> (case sp_target_rank r of None \<Rightarrow> False | Some n \<Rightarrow> sp_boundary_rank r < int n)"

definition measure_separation ::
  "search_env \<Rightarrow> uuid \<Rightarrow> uuid \<Rightarrow> int \<Rightarrow> timestamp \<Rightarrow> bool \<Rightarrow> real list db \<Rightarrow> query_cache \<Rightarrow> string \<Rightarrow> uuid list \<Rightarrow>
     eval_exn + separation_report" where
  "measure_separation env subject actor boundary now txid_known d c text expected =
     (case fst (fst (embed_query env text c)) of
        Inl e \<Rightarrow> Inl (Embedding (le_type e))
      | Inr vector \<Rightarrow>
          (let v = (case vector of Some v \<Rightarrow> v | None \<Rightarrow> [])
           in if v = [] then Inl NoVector
              else Inr (report_of (ranked_corpus env subject v (session subject actor now txid_known d)) expected boundary)))"

section \<open>The run over the database\<close>

definition suite_search :: "search_conditions \<Rightarrow> real list db \<Rightarrow> query \<Rightarrow> eval_exn + hybrid_result" where
  "suite_search sc d q = (case hybrid_search (semantic_fn sc d) (keyword_fn sc d) q of
       Inl e \<Rightarrow> Inl (SearchFailed e) | Inr h \<Rightarrow> Inr h)"

record suite_setup =
  su_wide :: "nat \<Rightarrow> char"
  su_file :: "string option"
  su_all_files :: "string option list"
  su_corpora :: "seed_memory list list"
  su_corpus :: "seed_memory list"
  su_lifecycle :: "(string \<times> (string \<times> override) list) list"
  su_subject :: uuid
  su_top_k :: int
  su_seed :: bool
  su_seed_at :: timestamp
  su_corpus_cache :: "(string \<times> real list) list"
  su_baseline :: "string option option"

text \<open>The part after seeding: the records, the warmed and pruned query cache, the queries over the
  database as it then is.\<close>

definition run_queries ::
  "suite_setup \<Rightarrow> search_conditions \<Rightarrow> real list db \<Rightarrow> json list \<Rightarrow> eval_exn + eval_outcome" where
  "run_queries su sc d js =
     (case suite_records js of
        Inl e \<Rightarrow> Inl e
      | Inr records \<Rightarrow>
          (case warm_query_cache (sc_env sc) (map sr_query records) (sc_cache sc) of
             (Inl e, _) \<Rightarrow> Inl (Embedding (le_type e))
           | (Inr _, c) \<Rightarrow>
               (case all_suite_queries (su_wide su) (su_all_files su) [] of
                  Inl e \<Rightarrow> Inl e
                | Inr texts \<Rightarrow>
                    (let sc' = sc \<lparr> sc_cache := snd (prune_persistent_cache (sc_env sc) texts c) \<rparr>
                     in run_eval (suite_search sc' d)
                          (measure_separation (sc_env sc) (su_subject su) (su_subject su) (int semantic_top_k)
                             (sc_now sc) (sc_txid sc) d (sc_cache sc'))
                          (su_subject su) (su_top_k su) (map_option (load_baseline (su_wide su)) (su_baseline su)) records))))"

definition run_suite ::
  "suite_setup \<Rightarrow> search_conditions \<Rightarrow> real list db \<Rightarrow> (eval_exn + eval_outcome) \<times> real list db" where
  "run_suite su sc d =
     (case load_suite (su_wide su) (su_file su) of
        Inl e \<Rightarrow> (Inl e, d)
      | Inr js \<Rightarrow>
          if su_seed su
          then (case seed (sc_env sc) (su_corpora su) (su_subject su) (su_subject su) (su_corpus su) (su_lifecycle su) True
                       (su_seed_at su) (su_corpus_cache su) d of
                  (Inl _, _, d') \<Rightarrow> (Inl SeedingFailed, d')
                | (Inr _, _, d') \<Rightarrow> (run_queries su sc d' js, d'))
          else (run_queries su sc d js, d))"

section \<open>Facts\<close>

lemma suite_search_live:
  assumes "db_ok d" "suite_search sc d q = Inr h" "c \<in> set (h_candidates h)"
  shows "live_candidate q d c"
  using assms(2) by (intro hybrid_search_live[OF assms(1) _ assms(3)]) (auto simp: suite_search_def split: sum.splits)

lemma no_forgotten_resurfaces:
  assumes "db_ok d" "list_all (\<lambda>i. \<exists>m. row d i = Some m \<and> forgotten m) (sr_forbidden r)"
  shows "\<not> resurfaces (suite_search sc d) subject r"
proof
  assume "resurfaces (suite_search sc d) subject r"
  then obtain h c where h: "suite_search sc d (suite_query subject r) = Inr h" "c \<in> set (h_candidates h)"
    "c_id c \<in> set (sr_forbidden r)"
    by (auto simp: resurfaces_def list_ex_iff split: sum.splits)
  obtain m where m: "m \<in> set (d_mems d)" "m_id m = c_id c" "\<not> forgotten m"
    using suite_search_live[OF assms(1) h(1,2)] by (auto simp: live_candidate_def list_ex_iff)
  obtain m' where m': "row d (c_id c) = Some m'" "forgotten m'" using assms(2) h(3) by (auto simp: list_all_iff)
  have "m = m'" using row_eq[OF assms(1) m(1)] m(2) m'(1) by simp
  then show False using m(3) m'(2) by simp
qed

lemma first_target_spec:
  "first_target n ts rs = Some (p, i, x) \<Longrightarrow> n \<le> p \<and> p - n < length rs \<and> rs ! (p - n) = (i, x) \<and> i \<in> set ts \<and>
     set (map fst (take (p - n) rs)) \<inter> set ts = {}"
proof (induction n ts rs rule: first_target.induct)
  case (2 n ts j y rs)
  show ?case
  proof (cases "j \<in> set ts")
    case False
    then have "Suc n \<le> p \<and> p - Suc n < length rs \<and> rs ! (p - Suc n) = (i, x) \<and> i \<in> set ts \<and>
        set (map fst (take (p - Suc n) rs)) \<inter> set ts = {}" using 2 by simp
    moreover from this have "p - n = Suc (p - Suc n)" by linarith
    ultimately show ?thesis using False by simp
  qed (use 2 in auto)
qed simp

lemma first_target_None: "first_target n ts rs = None \<longleftrightarrow> set (map fst rs) \<inter> set ts = {}"
  by (induction n ts rs rule: first_target.induct) auto

lemma first_target_within:
  assumes "first_target (Suc 0) ts rs = Some (p, i, x)"
  shows "(\<exists>j \<in> set (map fst (take n rs)). j \<in> set ts) \<longleftrightarrow> p \<le> n"
proof -
  note s = first_target_spec[OF assms]
  show ?thesis
  proof
    assume "p \<le> n"
    then have "rs ! (p - 1) \<in> set (take n rs)" using s by (auto simp: in_set_conv_nth intro!: exI[of _ "p - 1"])
    then have "i \<in> set (map fst (take n rs))" using s by force
    then show "\<exists>j \<in> set (map fst (take n rs)). j \<in> set ts" using s by blast
  next
    assume ex: "\<exists>j \<in> set (map fst (take n rs)). j \<in> set ts"
    show "p \<le> n"
    proof (rule ccontr)
      assume "\<not> p \<le> n"
      then have "set (take n rs) \<subseteq> set (take (p - 1) rs)" by (intro set_take_subset_set_take) simp
      then show False using ex s by force
    qed
  qed
qed

lemma ranked_corpus_sorted: "sorted (map snd (ranked_corpus env s v t))"
  using sorted_map_fst[of "distance_to env v" m_id, OF sorted_sort_key]
  by (simp add: ranked_corpus_def comp_def)

lemma report_of_target:
  fixes b :: int
  assumes "first_target (Suc 0) ts rs = Some (p, i, x)" "sorted (map snd rs)"
  defines "r \<equiv> report_of rs ts b"
  shows "sp_target_rank r = Some p" "is_outside r \<longleftrightarrow> b < int p"
    "sp_margin r = Some y \<Longrightarrow> (b < int p \<longrightarrow> 0 \<le> y) \<and> (int p \<le> b \<longrightarrow> y \<le> 0)"
proof -
  show "sp_target_rank r = Some p" "is_outside r \<longleftrightarrow> b < int p"
    by (simp_all add: r_def report_of_def Let_def assms(1) is_outside_def)
  note s = first_target_spec[OF assms(1)]
  assume "sp_margin r = Some y"
  then have b: "0 < b" "b \<le> int (length rs)" "y = x - snd (rs ! (nat b - 1))"
    by (auto simp: r_def report_of_def Let_def assms(1) split: if_splits)
  let ?xs = "map snd rs"
  have x: "x = ?xs ! (p - 1)" "p - 1 < length ?xs" "1 \<le> p" using s by auto
  have y: "snd (rs ! (nat b - 1)) = ?xs ! (nat b - 1)" "nat b - 1 < length ?xs" using b by auto
  have "?xs ! (nat b - 1) \<le> x" if "b < int p"
    unfolding x(1) by (rule sorted_nth_mono[OF assms(2)]) (use that x in auto)
  moreover have "x \<le> ?xs ! (nat b - 1)" if "int p \<le> b"
    unfolding x(1) by (rule sorted_nth_mono[OF assms(2)]) (use that y x(3) in auto)
  ultimately show "(b < int p \<longrightarrow> 0 \<le> y) \<and> (int p \<le> b \<longrightarrow> y \<le> 0)" using b(3) y(1) by auto
qed

section \<open>Properties\<close>

lemma take_filter_all:
  assumes "\<forall>x \<in> set (take n xs). P x"
  shows "take n (filter P xs) = take n xs"
proof -
  have "filter P xs = take n xs @ filter P (drop n xs)"
    using assms filter_append[of P "take n xs" "drop n xs"] by (simp add: filter_True)
  then show ?thesis by (cases "n \<le> length xs") simp_all
qed

lemma take_filter_keeps: "x \<in> set (take n xs) \<Longrightarrow> P x \<Longrightarrow> x \<in> set (take n (filter P xs))"
proof (induction xs arbitrary: n)
  case (Cons y ys)
  then obtain m where m: "n = Suc m" by (cases n) auto
  show ?case
  proof (cases "x = y")
    case False
    then have "x \<in> set (take m (filter P ys))" using Cons m by simp
    then show ?thesis using set_take_subset_set_take[of m n "filter P ys"] m by auto
  qed (use Cons.prems m in simp)
qed simp

text \<open>What the semantic path serves, read off the full ranking.\<close>

lemma served_ids:
  assumes "list_all (\<lambda>m. m_subject m = s \<and> m_actor m = a \<and> m_deleted m = None \<longrightarrow>
      m_superseded m = None \<and> m_stale m = None) (d_mems d)"
    and "fst (embed_query env text c) = (Inr (Some v), waits)" "v \<noteq> []" "strip text \<noteq> []"
    and "fst (semantic_search env \<lparr> q_text = text, q_subject = s, q_actor = a, q_semantic_top_k = None,
      q_keyword_top_k = None \<rparr> now k d c) = Inr cs"
  shows "map c_id cs = take semantic_top_k (filter (se_reach env v semantic_top_k (d_mems d))
    (map fst (ranked_corpus env s v (session s a now k d))))"
proof -
  let ?t = "session s a now k d"
  let ?Q = "\<lambda>m. m_subject m = s \<and> m_deleted m = None \<and> m_embedding m \<noteq> None"
  let ?R = "\<lambda>m :: real list mem. se_reach env v semantic_top_k (d_mems d) (m_id m)"
  have sel: "select_rows (\<lambda>m. retrievable s m \<and> m_embedding m \<noteq> None \<and> reached env v semantic_top_k (x_db ?t) m) ?t =
      filter ?R (select_rows ?Q ?t)"
    unfolding select_rows_def filter_filter
    by (rule filter_cong) (use assms(1) in \<open>auto simp: retrievable_def reached_def list_all_iff visible_def session_def\<close>)
  have "cs = map (semantic_candidate env v) (semantic_rows env s v semantic_top_k ?t)"
    using assms(2-) by (simp add: semantic_search_def is_blank_def Let_def split_beta limit_or_def)
  then show ?thesis
    unfolding semantic_rows_def sel ranked_corpus_def filter_sort[symmetric]
    by (simp add: take_map comp_def semantic_candidate_def path_candidate_def filter_map)
qed

text \<open>C40. What a probe's separation says of retrieval, for a subject without superseded or stale rows. The
  margin of a target outside the cut is not negative, and of one inside it is not positive. A target
  inside the cut that the index scan of the semantic path reaches is served. And as far as the scan
  finds the true nearest rows, the report and the path agree: when it reaches every row ranked inside
  the cut, the path leaves out every labelled row exactly when the report puts the nearest of them
  outside. (A scan that misses one of those rows can serve a target from outside the cut, or miss a
  target inside it. With superseded or stale rows the report still counts them, and retrieval does
  not.)\<close>

theorem separation_predicts_retrieval:
  assumes vector: "fst (embed_query env text c) = (Inr (Some v), waits)" "v \<noteq> []"
    and current: "list_all (\<lambda>m. m_subject m = s \<and> m_actor m = a \<and> m_deleted m = None \<longrightarrow>
      m_superseded m = None \<and> m_stale m = None) (d_mems d)"
    and found: "fst (semantic_search env \<lparr> q_text = text, q_subject = s, q_actor = a, q_semantic_top_k = None,
      q_keyword_top_k = None \<rparr> now k d c) = Inr cs" "strip text \<noteq> []"
    and report: "measure_separation env s a (int semantic_top_k) now k d c text expected = Inr r" "sp_target_id r = Some i"
  shows "(\<forall>y. sp_margin r = Some y \<longrightarrow> (if is_outside r then 0 \<le> y else y \<le> 0)) \<and>
    (\<not> is_outside r \<and> se_reach env v semantic_top_k (d_mems d) i \<longrightarrow> i \<in> set (map c_id cs)) \<and>
    (list_all (\<lambda>(j, x). se_reach env v semantic_top_k (d_mems d) j)
        (take semantic_top_k (ranked_corpus env s v (session s a now k d))) \<longrightarrow>
      (is_outside r \<longleftrightarrow> list_all (\<lambda>c. c_id c \<notin> set expected) cs))"
proof -
  let ?rs = "ranked_corpus env s v (session s a now k d)"
  let ?R = "se_reach env v semantic_top_k (d_mems d)"
  note served = served_ids[OF current vector found(2,1)]
  have r: "r = report_of ?rs expected (int semantic_top_k)"
    using report(1) vector by (simp add: measure_separation_def)
  obtain p x where target: "first_target (Suc 0) expected ?rs = Some (p, i, x)"
    using report(2) by (auto simp: r report_of_def Let_def split: option.splits)
  note t = report_of_target[OF target ranked_corpus_sorted, of "int semantic_top_k", folded r]
  note at = first_target_spec[OF target]
  have margin: "if is_outside r then 0 \<le> y else y \<le> 0" if "sp_margin r = Some y" for y
    using t(2) t(3)[OF that] by auto
  have inside: "i \<in> set (map c_id cs)" if "\<not> is_outside r" "?R i"
  proof -
    have "?rs ! (p - 1) \<in> set (take semantic_top_k ?rs)"
      using at that(1) t(2) by (auto simp: in_set_conv_nth intro!: exI[of _ "p - 1"])
    then have "i \<in> set (take semantic_top_k (map fst ?rs))" using at by (force simp: take_map)
    then show ?thesis unfolding served using that(2) by (rule take_filter_keeps)
  qed
  have "is_outside r \<longleftrightarrow> list_all (\<lambda>c. c_id c \<notin> set expected) cs"
    if "list_all (\<lambda>(j, x). ?R j) (take semantic_top_k ?rs)"
  proof -
    have "map c_id cs = map fst (take semantic_top_k ?rs)"
      unfolding served take_map[symmetric] by (rule take_filter_all) (use that in \<open>auto simp: list_all_iff take_map\<close>)
    then have "list_all (\<lambda>c. c_id c \<notin> set expected) cs \<longleftrightarrow> \<not> (\<exists>j \<in> set (map fst (take semantic_top_k ?rs)). j \<in> set expected)"
      by (metis (mono_tags, lifting) image_eqI list.set_map list_all_iff imageE)
    also have "\<dots> \<longleftrightarrow> \<not> p \<le> semantic_top_k" by (simp only: first_target_within[OF target])
    finally show ?thesis using t(2) by linarith
  qed
  then show ?thesis using margin inside by blast
qed

text \<open>A corpus smaller than the cut has no margin, and a keyword-only probe whose target it holds stops the whole run.\<close>

lemma small_corpus_stops_the_run:
  assumes "measure_separation env s a boundary now k d c (sr_query r) (sr_expected r) = Inr rep"
    and "sp_target_rank rep \<noteq> None" "int (sp_corpus_size rep) < boundary" "sr_expectation r = ''keyword_only''"
    and "search (suite_query s r) = Inr result"
  shows "eval_records search (measure_separation env s a boundary now k d c) s top_k (r # rs) = Inl NoMargin"
proof -
  have "sp_margin rep = None"
    using assms(1,3) by (auto simp: measure_separation_def report_of_def Let_def split: sum.splits option.splits if_splits)
  then show ?thesis using assms by (simp add: eval_record_def Let_def)
qed

lemma forgotten_never_resurface:
  assumes "db_ok d" "history d d'" "suite_records js = Inr records"
    and "list_all (\<lambda>r. list_all (\<lambda>i. \<exists>m. row d i = Some m \<and> forgotten m) (sr_forbidden r)) records"
    and "run_queries su sc d' js = Inr out"
  shows "eo_forbidden_failures out = [] \<and> (main_code (Inr out) = 2 \<longrightarrow> eo_expectation_failures out \<noteq> [])"
proof -
  have g: "grows UNIV Owner d d'" by (rule history_grows[OF assms(2,1)])
  have ok: "db_ok d'" using grows_db_ok[OF g assms(1)] .
  have later: "\<exists>m. row d' i = Some m \<and> forgotten m" if m: "row d i = Some m" "forgotten m" for i m
    using grows_row_of[OF g assms(1) m(1)] m(2) by (auto simp: evolves_for_def dest: evolves_forgotten)
  have "list_all (\<lambda>i. \<exists>m. row d' i = Some m \<and> forgotten m) (sr_forbidden r)" if "r \<in> set records" for r
    using assms(4) that later unfolding list_all_iff by blast
  then have none: "\<not> list_ex (resurfaces (suite_search sc' d') subject) records" for sc' subject
    using no_forgotten_resurfaces[OF ok] by (auto simp: list_ex_iff)
  obtain sc' sep base where "run_eval (suite_search sc' d') sep (su_subject su) (su_top_k su) base records = Inr out"
    using assms(5) by (auto simp: run_queries_def assms(3) Let_def split: prod.splits sum.splits)
  then have "eo_forbidden_failures out = []" using run_eval_checks(2) none by blast
  then show ?thesis by (simp add: main_code_def exit_code_def exit_regression_def)
qed

text \<open>C33. An erased memory never breaks a suite. If every memory a suite forbids was erased, superseded or
  a stale summary at some time, then however the database changed since, a run over it that ends by
  itself reports no forbidden memory; it exits with 2 only when a path expectation is not met.\<close>

theorem erased_memories_never_resurface:
  assumes "db_ok d" "history d d'" "suite_records js = Inr records"
    and "list_all (\<lambda>r. list_all (\<lambda>i. \<exists>m. row d i = Some m \<and> forgotten m) (sr_forbidden r)) records"
    and "run_queries su sc d' js = Inr out"
  shows "eo_forbidden_failures out = [] \<and> (main_code (Inr out) = 2 \<longrightarrow> eo_expectation_failures out \<noteq> [])"
  using assms by (rule forgotten_never_resurface)

section \<open>An example\<close>

lemma ex_embed_query: "fst (embed_query ex_senv ''tea'' \<lparr> qc_memory = [], qc_disk = None \<rparr>) = (Inr (Some [1]), [])"
  by (simp add: embed_query_def load_disk_cache_def ex_embed_batch Let_def)

theorem separation_predicts_retrieval_witness:
  "''m1'' \<in> set (map c_id [semantic_candidate ex_senv [1] (hd (d_mems ex_sdb))]) \<and>
   (is_outside (report_of [(''m1'', 0)] [''m1''] 5) \<longleftrightarrow>
     list_all (\<lambda>c. c_id c \<notin> set [''m1'']) [semantic_candidate ex_senv [1] (hd (d_mems ex_sdb))])"
proof -
  let ?c = "\<lparr> qc_memory = [], qc_disk = None \<rparr>"
  have rows: "semantic_rows ex_senv ''s'' [1] 5 (session ''s'' ''a'' 9 True ex_sdb) = [hd (d_mems ex_sdb)]"
    by (simp add: semantic_rows_def select_rows_def ex_sdb_def new_memory_def retrievable_def reached_def ex_senv_def)
  have found: "fst (semantic_search ex_senv \<lparr> q_text = ''tea'', q_subject = ''s'', q_actor = ''a'', q_semantic_top_k = None,
      q_keyword_top_k = None \<rparr> 9 True ex_sdb ?c) = Inr [semantic_candidate ex_senv [1] (hd (d_mems ex_sdb))]"
    by (simp add: semantic_search_def is_blank_def strip_def py_space_def Let_def split_beta ex_embed_query rows
        limit_or_def semantic_top_k_def)
  have ranked: "ranked_corpus ex_senv ''s'' [1] (session ''s'' ''a'' 9 True ex_sdb) = [(''m1'', 0)]"
    by (simp add: ranked_corpus_def select_rows_def ex_sdb_def new_memory_def distance_to_def ex_senv_def)
  have report: "measure_separation ex_senv ''s'' ''a'' (int semantic_top_k) 9 True ex_sdb ?c ''tea'' [''m1''] =
      Inr (report_of [(''m1'', 0)] [''m1''] 5)"
    by (simp add: measure_separation_def ex_embed_query ranked semantic_top_k_def)
  have reach: "se_reach ex_senv w n ms i" for w n ms i by (simp add: ex_senv_def)
  show ?thesis
    using separation_predicts_retrieval[OF ex_embed_query _ _ found _ report, of "''m1''"]
    by (simp add: ex_sdb_def new_memory_def strip_def py_space_def report_of_def ranked[unfolded ex_sdb_def new_memory_def]
        is_outside_def reach)
qed

definition ex_setup :: suite_setup where
  "ex_setup = \<lparr> su_wide = (\<lambda>n. CHR ''?''), su_file = None, su_all_files = [], su_corpora = [], su_corpus = [],
     su_lifecycle = [], su_subject = ''s'', su_top_k = 5, su_seed = False, su_seed_at = 0, su_corpus_cache = [],
     su_baseline = None \<rparr>"

definition ex_suite :: json where
  "ex_suite = JObj [(''query_id'', JStr ''v2-006''), (''query'', JStr ''tea''), (''expected_memory_ids'', JList []),
     (''forbidden_memory_ids'', JList [JStr ''m1''])]"

lemma ex_suite_records: "suite_records [ex_suite] = Inr [\<lparr> sr_id = ''v2-006'', sr_query = ''tea'', sr_expected = [],
    sr_forbidden = [''m1''], sr_expectation = ''any'', sr_tier = gate_tier \<rparr>]"
  by (simp add: ex_suite_def suite_record_of_def json_get_def str_field_def ids_field_def)

lemma path_searches_ok:
  assumes "db_ok d"
  shows "\<exists>h. suite_search sc d q = Inr h"
proof (cases "is_blank q")
  case True
  then show ?thesis by (simp add: suite_search_def hybrid_search_def)
next
  case False
  show ?thesis
    using hybrid_search_ok[OF False] database_paths_ok[OF assms assms False, of sc] by (auto simp: suite_search_def)
qed

theorem erased_memories_never_resurface_witness:
  "\<exists>out. run_queries ex_setup ex_conditions ex_erased_db [ex_suite] = Inr out \<and> eo_forbidden_failures out = []"
proof -
  obtain c where w: "warm_query_cache ex_senv [''tea''] \<lparr> qc_memory = [], qc_disk = None \<rparr> = (Inr 1, c)"
    by (simp add: warm_query_cache_def load_disk_cache_def ex_embed_batch Let_def)
  let ?sc = "ex_conditions \<lparr> sc_cache := snd (prune_persistent_cache ex_senv [] c) \<rparr>"
  let ?r = "\<lparr> sr_id = ''v2-006'', sr_query = ''tea'', sr_expected = [], sr_forbidden = [''m1''], sr_expectation = ''any'',
      sr_tier = gate_tier \<rparr>"
  obtain h where h: "suite_search ?sc ex_erased_db (suite_query ''s'' ?r) = Inr h"
    using path_searches_ok[OF ex_erased_db_ok(2)] by blast
  have "\<exists>out. run_queries ex_setup ex_conditions ex_erased_db [ex_suite] = Inr out"
    using h unfolding run_queries_def ex_suite_records
    by (simp add: ex_conditions_def ex_setup_def w run_eval_def eval_record_def Let_def)
  then obtain out where out: "run_queries ex_setup ex_conditions ex_erased_db [ex_suite] = Inr out" by blast
  have forbidden: "list_all (\<lambda>r. list_all (\<lambda>i. \<exists>m. row ex_erased_db i = Some m \<and> forgotten m) (sr_forbidden r)) [?r]"
    using ex_erased by (simp add: ex_erased_db_def forgotten_def stamp_deleted_def)
  show ?thesis
    using erased_memories_never_resurface[OF ex_erased_db_ok(2) rtranclp.rtrancl_refl ex_suite_records forbidden out] out by blast
qed

end
