(* ===== verification/Pools.thy ===== *)
theory Pools
  imports Prelude
begin

text \<open>
  The registry of connection pools (\<^verbatim>\<open>store/db.py\<close>: \<^verbatim>\<open>get_pool\<close>, \<^verbatim>\<open>close_pools\<close>). Tasks of one event
  loop interleave at every \<^verbatim>\<open>await\<close>, so a call of \<^verbatim>\<open>get_pool\<close> is the steps between its awaits: the
  check outside the lock, the check under the lock with the creation of a pool, the end of its
  \<^verbatim>\<open>open()\<close>. A lock is an object of its own that a waiting task keeps hold of, whatever happens to the
  registry. Sizes, timeouts and the health check of a pool are its own business and left out.
\<close>

section \<open>The registry\<close>

type_synonym dsn = string
type_synonym task = nat

datatype stage =
    Idle
  | Waits dsn nat
  | Opens dsn nat nat
  | Has nat
  | OpenFailed

record registry =
  rg_pools :: "dsn \<Rightarrow> nat option"
  rg_locks :: "dsn \<Rightarrow> nat option"
  rg_holder :: "nat \<Rightarrow> task option"
  rg_live :: "nat \<Rightarrow> bool"
  rg_dsn :: "nat \<Rightarrow> dsn"
  rg_next :: nat
  rg_stage :: "task \<Rightarrow> stage"

definition new_registry :: registry where
  "new_registry = \<lparr> rg_pools = (\<lambda>_. None), rg_locks = (\<lambda>_. None), rg_holder = (\<lambda>_. None), rg_live = (\<lambda>_. False),
     rg_dsn = (\<lambda>_. []), rg_next = 0, rg_stage = (\<lambda>_. Idle) \<rparr>"

text \<open>\<^verbatim>\<open>pool is not None and not pool.closed\<close>\<close>

definition usable :: "registry \<Rightarrow> dsn \<Rightarrow> nat option" where
  "usable r d = (case rg_pools r d of None \<Rightarrow> None | Some p \<Rightarrow> if rg_live r p then Some p else None)"

definition at_stage :: "task \<Rightarrow> stage \<Rightarrow> registry \<Rightarrow> registry" where
  "at_stage t s r = r \<lparr> rg_stage := (rg_stage r)(t := s) \<rparr>"

text \<open>Up to the first await: a hit, or the lock of the DSN, made on first use.\<close>

definition get_pool_start :: "task \<Rightarrow> dsn \<Rightarrow> registry \<Rightarrow> registry" where
  "get_pool_start t d r =
     (case usable r d of
        Some p \<Rightarrow> at_stage t (Has p) r
      | None \<Rightarrow>
          (case rg_locks r d of
             Some l \<Rightarrow> at_stage t (Waits d l) r
           | None \<Rightarrow> at_stage t (Waits d (rg_next r))
               (r \<lparr> rg_locks := (rg_locks r)(d := Some (rg_next r)), rg_next := Suc (rg_next r) \<rparr>)))"

text \<open>The lock was free: the second check, or the creation and the call of \<^verbatim>\<open>open()\<close> with the lock held.\<close>

definition get_pool_locked :: "task \<Rightarrow> dsn \<Rightarrow> nat \<Rightarrow> registry \<Rightarrow> registry" where
  "get_pool_locked t d l r =
     (case usable r d of
        Some p \<Rightarrow> at_stage t (Has p) r
      | None \<Rightarrow> at_stage t (Opens d l (rg_next r))
          (r \<lparr> rg_holder := (rg_holder r)(l := Some t), rg_live := (rg_live r)(rg_next r := True),
             rg_dsn := (rg_dsn r)(rg_next r := d), rg_next := Suc (rg_next r) \<rparr>))"

definition get_pool_opened :: "task \<Rightarrow> dsn \<Rightarrow> nat \<Rightarrow> nat \<Rightarrow> registry \<Rightarrow> registry" where
  "get_pool_opened t d l p r = at_stage t (Has p)
     (r \<lparr> rg_pools := (rg_pools r)(d := Some p), rg_holder := (rg_holder r)(l := None) \<rparr>)"

definition get_pool_failed :: "task \<Rightarrow> dsn \<Rightarrow> nat \<Rightarrow> nat \<Rightarrow> registry \<Rightarrow> registry" where
  "get_pool_failed t d l p r = at_stage t OpenFailed
     (r \<lparr> rg_live := (rg_live r)(p := False), rg_holder := (rg_holder r)(l := None) \<rparr>)"

text \<open>\<^verbatim>\<open>close_pools\<close> over the DSNs registered, in order; a \<^verbatim>\<open>close()\<close> that raises ends the loop after its own
  entry is dropped, and the locks are cleared in any case. The code awaits each \<^verbatim>\<open>close()\<close>, so other tasks may
  run between two pools; here the whole call is one step.\<close>

fun close_each :: "(nat \<Rightarrow> bool) \<Rightarrow> dsn list \<Rightarrow> registry \<Rightarrow> registry" where
  "close_each raises [] r = r"
| "close_each raises (d # ds) r =
     (case rg_pools r d of
        None \<Rightarrow> close_each raises ds r
      | Some p \<Rightarrow>
          (let r' = r \<lparr> rg_live := (rg_live r)(p := False), rg_pools := (rg_pools r)(d := None) \<rparr>
           in if raises p then r' else close_each raises ds r'))"

definition close_pools :: "(nat \<Rightarrow> bool) \<Rightarrow> dsn list \<Rightarrow> registry \<Rightarrow> registry" where
  "close_pools raises ds r = (close_each raises ds r) \<lparr> rg_locks := \<lambda>_. None \<rparr>"

definition quiet :: "registry \<Rightarrow> bool" where
  "quiet r \<longleftrightarrow> (\<forall>t. case rg_stage r t of Waits _ _ \<Rightarrow> False | Opens _ _ _ \<Rightarrow> False | _ \<Rightarrow> True)"

text \<open>The steps of any number of tasks. With the flag, pools are closed only when no call is under way.\<close>

inductive pool_step :: "bool \<Rightarrow> registry \<Rightarrow> registry \<Rightarrow> bool" for careful :: bool where
  start: "rg_stage r t = Idle \<Longrightarrow> pool_step careful r (get_pool_start t d r)"
| locked: "rg_stage r t = Waits d l \<Longrightarrow> rg_holder r l = None \<Longrightarrow> pool_step careful r (get_pool_locked t d l r)"
| opened: "rg_stage r t = Opens d l p \<Longrightarrow> pool_step careful r (get_pool_opened t d l p r)"
| failed: "rg_stage r t = Opens d l p \<Longrightarrow> pool_step careful r (get_pool_failed t d l p r)"
| return: "rg_stage r t = Has p \<or> rg_stage r t = OpenFailed \<Longrightarrow> pool_step careful r (at_stage t Idle r)"
| cancelled: "rg_stage r t = Waits d l \<Longrightarrow> pool_step careful r (at_stage t OpenFailed r)"
| close: "careful \<longrightarrow> quiet r \<Longrightarrow> distinct ds \<Longrightarrow> set ds = dom (rg_pools r) \<Longrightarrow>
    pool_step careful r (close_pools raises ds r)"

abbreviation pool_runs :: "bool \<Rightarrow> registry \<Rightarrow> registry \<Rightarrow> bool" where
  "pool_runs careful \<equiv> (pool_step careful)\<^sup>*\<^sup>*"

section \<open>The invariant\<close>

definition being_opened :: "registry \<Rightarrow> dsn \<Rightarrow> nat \<Rightarrow> bool" where
  "being_opened r d p \<longleftrightarrow> (\<exists>t l. rg_stage r t = Opens d l p)"

text \<open>An orphan holds connections, and nobody will ever close it.\<close>

definition orphan :: "registry \<Rightarrow> nat \<Rightarrow> bool" where
  "orphan r p \<longleftrightarrow> rg_live r p \<and> rg_pools r (rg_dsn r p) \<noteq> Some p \<and> \<not> being_opened r (rg_dsn r p) p"

definition registry_ok :: "registry \<Rightarrow> bool" where
  "registry_ok r \<longleftrightarrow>
     (\<forall>t d l. rg_stage r t = Waits d l \<longrightarrow> rg_locks r d = Some l) \<and>
     (\<forall>t d l p. rg_stage r t = Opens d l p \<longrightarrow> rg_locks r d = Some l \<and> rg_holder r l = Some t \<and> rg_live r p \<and>
        rg_dsn r p = d \<and> usable r d = None) \<and>
     (\<forall>d d' l. rg_locks r d = Some l \<longrightarrow> rg_locks r d' = Some l \<longrightarrow> d = d') \<and>
     (\<forall>d l. rg_locks r d = Some l \<longrightarrow> l < rg_next r) \<and>
     (\<forall>l t. rg_holder r l = Some t \<longrightarrow> (\<exists>d p. rg_stage r t = Opens d l p)) \<and>
     (\<forall>p. rg_live r p \<longrightarrow> p < rg_next r \<and> \<not> orphan r p) \<and>
     (\<forall>d p. rg_pools r d = Some p \<longrightarrow> rg_dsn r p = d \<and> p < rg_next r)"

lemma at_stage_simps [simp]:
  "rg_pools (at_stage t s r) = rg_pools r" "rg_locks (at_stage t s r) = rg_locks r"
  "rg_holder (at_stage t s r) = rg_holder r" "rg_live (at_stage t s r) = rg_live r"
  "rg_dsn (at_stage t s r) = rg_dsn r" "rg_next (at_stage t s r) = rg_next r"
  "rg_stage (at_stage t s r) = (rg_stage r)(t := s)"
  by (simp_all add: at_stage_def)

lemma being_opened_elim:
  assumes "being_opened r d p"
  obtains t l where "rg_stage r t = Opens d l p"
  using assms by (auto simp: being_opened_def)

lemma being_opened_kept:
  assumes "being_opened r d p" "\<And>e l q. rg_stage r t \<noteq> Opens e l q" "rg_stage r' = (rg_stage r)(t := s)"
  shows "being_opened r' d p"
proof -
  obtain u l where u: "rg_stage r u = Opens d l p" using assms(1) by (rule being_opened_elim)
  then have "u \<noteq> t" using assms(2) by auto
  then show ?thesis using u by (auto simp: being_opened_def assms(3))
qed

lemma usable_Some: "usable r d = Some p \<longleftrightarrow> rg_pools r d = Some p \<and> rg_live r p"
  by (auto simp: usable_def split: option.splits)

lemma usable_None: "usable r d = None \<longleftrightarrow> (\<forall>p. rg_pools r d = Some p \<longrightarrow> \<not> rg_live r p)"
  by (auto simp: usable_def split: option.splits)

lemma registry_okD:
  assumes "registry_ok r"
  shows "rg_stage r t = Waits d l \<Longrightarrow> rg_locks r d = Some l"
    "rg_stage r t = Opens d l p \<Longrightarrow> rg_locks r d = Some l \<and> rg_holder r l = Some t \<and> rg_live r p \<and>
       rg_dsn r p = d \<and> usable r d = None"
    "rg_locks r d = Some l \<Longrightarrow> rg_locks r d' = Some l \<Longrightarrow> d = d'"
    "rg_locks r d = Some l \<Longrightarrow> l < rg_next r"
    "rg_holder r l = Some t \<Longrightarrow> \<exists>d p. rg_stage r t = Opens d l p"
    "rg_live r p \<Longrightarrow> p < rg_next r" "rg_live r p \<Longrightarrow> \<not> orphan r p"
    "rg_pools r d = Some p \<Longrightarrow> rg_dsn r p = d \<and> p < rg_next r"
  using assms unfolding registry_ok_def by blast+

text \<open>In a good registry two pools that hold connections to the same DSN are the same pool.\<close>

lemma live_unique:
  assumes ok: "registry_ok r" and "rg_live r p" "rg_live r q" "rg_dsn r p = rg_dsn r q"
  shows "p = q"
proof -
  note D = registry_okD[OF ok]
  have known: "rg_pools r (rg_dsn r x) = Some x \<or> being_opened r (rg_dsn r x) x" if "rg_live r x" for x
    using D(7)[OF that] that by (simp add: orphan_def)
  have clash: "rg_pools r d \<noteq> Some y" if "being_opened r d x" "rg_live r y" for d x y
    using D(2) that by (fastforce simp: being_opened_def usable_None)
  have two: "x = y" if b: "being_opened r d x" "being_opened r d y" for d x y
  proof -
    obtain t l where t1: "rg_stage r t = Opens d l x" by (rule being_opened_elim[OF b(1)])
    obtain u k where t2: "rg_stage r u = Opens d k y" by (rule being_opened_elim[OF b(2)])
    note t = t1 t2
    have "l = k" using D(2)[OF t(1)] D(2)[OF t(2)] by simp
    then have "t = u" using D(2)[OF t(1)] D(2)[OF t(2)] by simp
    then show ?thesis using t by simp
  qed
  have p: "rg_pools r (rg_dsn r p) = Some p \<or> being_opened r (rg_dsn r p) p" using known assms(2) .
  have q: "rg_pools r (rg_dsn r p) = Some q \<or> being_opened r (rg_dsn r p) q" using known[OF assms(3)] assms(4) by simp
  from p show ?thesis
  proof
    assume reg: "rg_pools r (rg_dsn r p) = Some p"
    then have "\<not> being_opened r (rg_dsn r p) q" using clash assms(2) by blast
    then show ?thesis using q reg by simp
  next
    assume opn: "being_opened r (rg_dsn r p) p"
    then have "rg_pools r (rg_dsn r p) \<noteq> Some q" using clash assms(3) by blast
    then show ?thesis using q opn two by blast
  qed
qed

lemma registry_okI:
  assumes "\<And>t d l. rg_stage r t = Waits d l \<Longrightarrow> rg_locks r d = Some l"
    "\<And>t d l p. rg_stage r t = Opens d l p \<Longrightarrow> rg_locks r d = Some l \<and> rg_holder r l = Some t \<and> rg_live r p \<and>
       rg_dsn r p = d \<and> usable r d = None"
    "\<And>d d' l. rg_locks r d = Some l \<Longrightarrow> rg_locks r d' = Some l \<Longrightarrow> d = d'"
    "\<And>d l. rg_locks r d = Some l \<Longrightarrow> l < rg_next r"
    "\<And>l t. rg_holder r l = Some t \<Longrightarrow> \<exists>d p. rg_stage r t = Opens d l p"
    "\<And>p. rg_live r p \<Longrightarrow> p < rg_next r \<and> \<not> orphan r p"
    "\<And>d p. rg_pools r d = Some p \<Longrightarrow> rg_dsn r p = d \<and> p < rg_next r"
  shows "registry_ok r"
  using assms unfolding registry_ok_def by blast

lemma new_registry_ok: "registry_ok new_registry"
  by (rule registry_okI) (simp_all add: new_registry_def)

text \<open>Moving a task that opens nothing to a stage where it opens and waits for nothing.\<close>

lemma at_stage_ok:
  assumes ok: "registry_ok r" and t: "\<And>d l p. rg_stage r t \<noteq> Opens d l p" and s: "s = Idle \<or> (\<exists>p. s = Has p) \<or> s = OpenFailed"
  shows "registry_ok (at_stage t s r)"
proof (rule registry_okI)
  note D = registry_okD[OF ok]
  have u: "usable (at_stage t s r) d = usable r d" for d by (simp add: usable_def split: option.split)
  have o: "being_opened (at_stage t s r) d p" if "being_opened r d p" for d p
    by (rule being_opened_kept[OF that t]) simp
  show "\<exists>d p. rg_stage (at_stage t s r) u = Opens d l p" if "rg_holder (at_stage t s r) l = Some u" for l u
    using D(5)[of l u] that t by (metis at_stage_simps(3,7) fun_upd_apply)
  show "p < rg_next (at_stage t s r) \<and> \<not> orphan (at_stage t s r) p" if "rg_live (at_stage t s r) p" for p
    using D(6,7)[of p] that o by (auto simp: orphan_def)
  show "rg_locks (at_stage t s r) d = Some l" if "rg_stage (at_stage t s r) u = Waits d l" for u d l
    using that s D(1)[of u d l] by (auto split: if_splits)
  show "rg_locks (at_stage t s r) d = Some l \<and> rg_holder (at_stage t s r) l = Some u \<and> rg_live (at_stage t s r) p \<and>
       rg_dsn (at_stage t s r) p = d \<and> usable (at_stage t s r) d = None" if "rg_stage (at_stage t s r) u = Opens d l p" for u d l p
    using that s D(2)[of u d l p] by (auto simp: u split: if_splits)
qed (use registry_okD[OF ok] in auto)

lemma get_pool_start_ok:
  assumes ok: "registry_ok r" and t: "rg_stage r t = Idle"
  shows "registry_ok (get_pool_start t d r)"
proof (cases "usable r d")
  case (Some p)
  then show ?thesis using at_stage_ok[OF ok, of t "Has p"] t by (simp add: get_pool_start_def)
next
  case None
  note D = registry_okD[OF ok]
  define r' where "r' = get_pool_start t d r"
  obtain l where l: "rg_locks r' d = Some l" "rg_stage r' = (rg_stage r)(t := Waits d l)" "rg_pools r' = rg_pools r"
    "rg_live r' = rg_live r" "rg_dsn r' = rg_dsn r" "rg_holder r' = rg_holder r" "rg_next r \<le> rg_next r'" "l < rg_next r'"
    "\<And>e. e \<noteq> d \<Longrightarrow> rg_locks r' e = rg_locks r e" "rg_locks r d = Some l \<or> rg_locks r d = None \<and> l = rg_next r"
    using None D(4)[of d] by (cases "rg_locks r d") (auto simp: r'_def get_pool_start_def)
  have u: "usable r' e = usable r e" for e by (simp add: usable_def l(3,4) split: option.split)
  have o: "being_opened r' e p" if "being_opened r e p" for e p by (rule being_opened_kept[OF that _ l(2)]) (simp add: t)
  have old: "rg_locks r' e = rg_locks r e" if "rg_locks r e \<noteq> None" for e using l(1,9,10) that by (cases "e = d") auto
  have "registry_ok r'"
  proof (rule registry_okI)
    show "rg_locks r' e = Some k" if "rg_stage r' u = Waits e k" for u e k
      using that l(1) D(1)[of u e k] old[of e] by (auto simp: l(2) split: if_splits)
    show "rg_locks r' e = Some k \<and> rg_holder r' k = Some u \<and> rg_live r' p \<and> rg_dsn r' p = e \<and> usable r' e = None"
      if "rg_stage r' u = Opens e k p" for u e k p
      using that D(2)[of u e k p] old[of e] by (auto simp: l(2,4,5,6) u split: if_splits)
    show "e = e'" if "rg_locks r' e = Some k" "rg_locks r' e' = Some k" for e e' k
      using that D(3)[of e k e'] D(4)[of e k] D(4)[of e' k] l(1,9,10) by (cases "e = d"; cases "e' = d") auto
    show "k < rg_next r'" if "rg_locks r' e = Some k" for e k
      using that D(4)[of e k] l(1,7,8,9) by (cases "e = d") auto
    show "\<exists>e p. rg_stage r' u = Opens e k p" if "rg_holder r' k = Some u" for k u
      using that D(5)[of k u] t by (auto simp: l(2,6))
    show "p < rg_next r' \<and> \<not> orphan r' p" if "rg_live r' p" for p
      using that D(6,7)[of p] l(7) by (auto simp: orphan_def l(3,4,5) o)
    show "rg_dsn r' p = e \<and> p < rg_next r'" if "rg_pools r' e = Some p" for e p
      using that D(8)[of e p] l(7) by (simp add: l(3,5))
  qed
  then show ?thesis by (simp add: r'_def)
qed

lemma get_pool_locked_ok:
  assumes ok: "registry_ok r" and t: "rg_stage r t = Waits d l" and free: "rg_holder r l = None"
  shows "registry_ok (get_pool_locked t d l r)"
proof (cases "usable r d")
  case (Some p)
  then show ?thesis using at_stage_ok[OF ok, of t "Has p"] t by (simp add: get_pool_locked_def)
next
  case None
  note D = registry_okD[OF ok]
  let ?n = "rg_next r"
  define r' where "r' = get_pool_locked t d l r"
  have r': "rg_locks r' = rg_locks r" "rg_stage r' = (rg_stage r)(t := Opens d l ?n)" "rg_pools r' = rg_pools r"
    "rg_live r' = (rg_live r)(?n := True)" "rg_dsn r' = (rg_dsn r)(?n := d)" "rg_holder r' = (rg_holder r)(l := Some t)"
    "rg_next r' = Suc ?n"
    using None by (simp_all add: r'_def get_pool_locked_def)
  have lock: "rg_locks r d = Some l" using D(1)[OF t] .
  have new: "rg_pools r e \<noteq> Some ?n" "\<not> rg_live r ?n" for e using D(8)[of e ?n] D(6)[of ?n] by auto
  have u: "usable r' e = usable r e" for e using new by (auto simp: usable_def r' split: option.split)
  have o: "being_opened r' e p" if "being_opened r e p" for e p by (rule being_opened_kept[OF that _ r'(2)]) (simp add: t)
  have other: "rg_stage r u \<noteq> Opens e l p" for u e p using D(2)[of u e l p] free by auto
  have "registry_ok r'"
  proof (rule registry_okI)
    show "rg_locks r' e = Some k" if "rg_stage r' u = Waits e k" for u e k
      using that D(1)[of u e k] by (auto simp: r' split: if_splits)
    show "rg_locks r' e = Some k \<and> rg_holder r' k = Some u \<and> rg_live r' p \<and> rg_dsn r' p = e \<and> usable r' e = None"
      if "rg_stage r' u = Opens e k p" for u e k p
    proof (cases "u = t")
      case True
      then show ?thesis using that None lock by (simp add: r' u)
    next
      case False
      then have "rg_stage r u = Opens e k p" using that by (simp add: r')
      then show ?thesis using D(2)[of u e k p] other[of u e p] new(2) unfolding u by (auto simp: r')
    qed
    show "\<exists>e p. rg_stage r' u = Opens e k p" if "rg_holder r' k = Some u" for k u
      using that D(5)[of k u] t by (cases "k = l"; cases "u = t") (auto simp: r')
    show "p < rg_next r' \<and> \<not> orphan r' p" if "rg_live r' p" for p
    proof (cases "p = ?n")
      case True
      then show ?thesis by (auto simp: orphan_def r' being_opened_def)
    next
      case False
      then have "p < ?n" "\<not> orphan r p" "rg_live r p" using that D(6,7)[of p] by (auto simp: r')
      then show ?thesis using False o by (auto simp: orphan_def r'(3,4,5,7))
    qed
    show "rg_dsn r' p = e \<and> p < rg_next r'" if "rg_pools r' e = Some p" for e p
      using that D(8)[of e p] by (auto simp: r')
  qed (use D(3,4) in \<open>auto simp: r' less_Suc_eq\<close>)
  then show ?thesis by (simp add: r'_def)
qed

text \<open>The end of \<^verbatim>\<open>open()\<close>, well or badly: \<^term>\<open>r'\<close> is the registry with the lock free, the caller out of the
  opening stage, and the pool either registered or closed.\<close>

lemma pool_end_ok:
  assumes ok: "registry_ok r" and t: "rg_stage r t = Opens d l p"
    and r': "rg_locks r' = rg_locks r" "rg_stage r' = (rg_stage r)(t := s)" "rg_dsn r' = rg_dsn r" "rg_next r' = rg_next r"
      "rg_holder r' = (rg_holder r)(l := None)" "rg_pools r' = (rg_pools r)(d := w)"
      "\<And>q. q \<noteq> p \<Longrightarrow> rg_live r' q = rg_live r q"
    and s: "s = Has p \<or> s = OpenFailed"
    and w: "w = Some p \<or> \<not> rg_live r' p \<and> w = rg_pools r d"
  shows "registry_ok r'"
proof (rule registry_okI)
  note D = registry_okD[OF ok]
  note mine = D(2)[OF t]
  have alone: "u = t" if "rg_stage r u = Opens e l q" for u e q using D(2)[OF that] mine by simp
  have away: "e \<noteq> d \<and> k \<noteq> l \<and> q \<noteq> p" if u: "rg_stage r u = Opens e k q" "u \<noteq> t" for u e k q
    using D(2)[OF u(1)] mine alone[of u e q] u by auto
  have busy: "being_opened r' e q" if b: "being_opened r e q" "q \<noteq> p" for e q
  proof -
    obtain u k where u: "rg_stage r u = Opens e k q" by (rule being_opened_elim[OF b(1)])
    then have "u \<noteq> t" using t b(2) by auto
    then show ?thesis using u by (auto simp: being_opened_def r'(2))
  qed
  show "rg_locks r' e = Some k" if "rg_stage r' u = Waits e k" for u e k
    using that s D(1)[of u e k] by (auto simp: r' split: if_splits)
  show "rg_locks r' e = Some k \<and> rg_holder r' k = Some u \<and> rg_live r' q \<and> rg_dsn r' q = e \<and> usable r' e = None"
    if op: "rg_stage r' u = Opens e k q" for u e k q
  proof -
    have u: "rg_stage r u = Opens e k q" "u \<noteq> t" using op s by (auto simp: r'(2) split: if_splits)
    have "rg_pools r e \<noteq> Some p" using D(8)[of e p] mine away[OF u] by auto
    then have "usable r' e = usable r e" using away[OF u] r'(7) by (auto simp: usable_def r'(6) split: option.split)
    then show ?thesis using D(2)[OF u(1)] away[OF u] by (simp add: r'(1,3,5,7))
  qed
  show "\<exists>e q. rg_stage r' u = Opens e k q" if h: "rg_holder r' k = Some u" for k u
  proof -
    have "k \<noteq> l" "rg_holder r k = Some u" using h by (auto simp: r'(5) split: if_splits)
    then obtain e q where "rg_stage r u = Opens e k q" using D(5) by blast
    moreover from this have "u \<noteq> t" using t \<open>k \<noteq> l\<close> by auto
    ultimately show ?thesis by (auto simp: r'(2))
  qed
  show "q < rg_next r' \<and> \<not> orphan r' q" if v: "rg_live r' q" for q
  proof (cases "q = p")
    case True
    then show ?thesis using v w mine D(6)[of p] by (auto simp: orphan_def r'(3,4,6))
  next
    case False
    then have q: "q < rg_next r" "\<not> orphan r q" "rg_live r q" using v D(6,7)[of q] r'(7) by auto
    have "rg_pools r' (rg_dsn r q) = Some q" if "rg_pools r (rg_dsn r q) = Some q"
      using that mine q(3) w by (cases "rg_dsn r q = d") (auto simp: usable_None r'(6))
    then show ?thesis using q busy[of "rg_dsn r q" q] False by (auto simp: orphan_def r'(3,4))
  qed
  show "rg_dsn r' q = e \<and> q < rg_next r'" if "rg_pools r' e = Some q" for e q
    using that D(6)[of p] D(8)[of e q] mine w by (auto simp: r'(3,4,6) split: if_splits)
qed (use r'(1,4) registry_okD(3,4)[OF ok] in simp_all)

lemma get_pool_opened_ok:
  assumes "registry_ok r" "rg_stage r t = Opens d l p"
  shows "registry_ok (get_pool_opened t d l p r)"
  by (rule pool_end_ok[OF assms, where s = "Has p" and w = "Some p"]) (simp_all add: get_pool_opened_def)

lemma get_pool_failed_ok:
  assumes "registry_ok r" "rg_stage r t = Opens d l p"
  shows "registry_ok (get_pool_failed t d l p r)"
  by (rule pool_end_ok[OF assms, where s = OpenFailed and w = "rg_pools r d"]) (simp_all add: get_pool_failed_def)

text \<open>Closing, with no call under way.\<close>

lemma close_each_keeps [simp]:
  "rg_locks (close_each raises ds r) = rg_locks r" "rg_holder (close_each raises ds r) = rg_holder r"
  "rg_dsn (close_each raises ds r) = rg_dsn r" "rg_next (close_each raises ds r) = rg_next r"
  "rg_stage (close_each raises ds r) = rg_stage r"
  by (induction ds arbitrary: r) (simp_all add: Let_def split: option.split)

lemma close_each_pools:
  "rg_pools (close_each raises ds r) d = Some p \<Longrightarrow> rg_pools r d = Some p"
proof (induction ds arbitrary: r)
  case (Cons e ds)
  show ?case
  proof (cases "rg_pools r e")
    case None
    then show ?thesis using Cons.IH[of r] Cons.prems by simp
  next
    case (Some q)
    show ?thesis
      using Cons.IH[of "r \<lparr> rg_live := (rg_live r)(q := False), rg_pools := (rg_pools r)(e := None) \<rparr>"] Cons.prems Some
      by (cases "raises q"; cases "d = e") (simp_all add: Let_def)
  qed
qed simp

text \<open>What is still live was live, and is still in the registry if it was.\<close>

lemma close_each_live:
  "(\<forall>d p. rg_pools r d = Some p \<longrightarrow> rg_dsn r p = d) \<Longrightarrow> rg_live (close_each raises ds r) p \<Longrightarrow>
    rg_live r p \<and> (rg_pools r (rg_dsn r p) = Some p \<longrightarrow> rg_pools (close_each raises ds r) (rg_dsn r p) = Some p)"
proof (induction ds arbitrary: r)
  case Nil
  show ?case using Nil.prems(2) by simp
next
  case (Cons d ds)
  show ?case
  proof (cases "rg_pools r d")
    case None
    then show ?thesis using Cons.IH[OF Cons.prems(1)] Cons.prems(2) by simp
  next
    case (Some q)
    define r' where "r' = r \<lparr> rg_live := (rg_live r)(q := False), rg_pools := (rg_pools r)(d := None) \<rparr>"
    have r': "rg_live r' = (rg_live r)(q := False)" "rg_pools r' = (rg_pools r)(d := None)" "rg_dsn r' = rg_dsn r"
      by (simp_all add: r'_def)
    have keep: "rg_pools r' (rg_dsn r p) = Some p" if "rg_pools r (rg_dsn r p) = Some p" "p \<noteq> q"
      using that Some by (auto simp: r')
    have e: "close_each raises (d # ds) r = (if raises q then r' else close_each raises ds r')"
      using Some by (simp add: r'_def Let_def)
    have g: "\<forall>e x. rg_pools r' e = Some x \<longrightarrow> rg_dsn r' x = e" using Cons.prems(1) unfolding r' by (metis fun_upd_apply option.distinct(1))
    have l: "rg_live r' p \<Longrightarrow> rg_live r p \<and> p \<noteq> q" by (simp add: r' split: if_splits)
    show ?thesis
    proof (cases "raises q")
      case True
      then show ?thesis using Cons.prems(2) keep l unfolding e by auto
    next
      case False
      then show ?thesis using Cons.IH[OF g] Cons.prems(2) keep l unfolding e r'(3) by auto
    qed
  qed
qed

lemma close_pools_ok:
  assumes ok: "registry_ok r" and q: "quiet r"
  shows "registry_ok (close_pools raises ds r)"
proof (rule registry_okI)
  note D = registry_okD[OF ok]
  let ?r = "close_pools raises ds r"
  have no: "rg_stage r t \<noteq> Waits d l" "rg_stage r t \<noteq> Opens d l p" for t d l p
    using q by (auto simp: quiet_def dest: spec[of _ t])
  have st: "rg_stage ?r = rg_stage r" by (simp add: close_pools_def)
  show "rg_locks ?r d = Some l" if "rg_stage ?r t = Waits d l" for t d l using that no by (simp add: st)
  show "rg_locks ?r d = Some l \<and> rg_holder ?r l = Some t \<and> rg_live ?r p \<and> rg_dsn ?r p = d \<and> usable ?r d = None"
    if "rg_stage ?r t = Opens d l p" for t d l p using that no by (simp add: st)
  show "\<exists>d p. rg_stage ?r t = Opens d l p" if "rg_holder ?r l = Some t" for l t
    using that D(5)[of l t] no by (simp add: close_pools_def)
  have nb: "\<not> being_opened r e p" for e p using no by (auto simp: being_opened_def)
  show "p < rg_next ?r \<and> \<not> orphan ?r p" if "rg_live ?r p" for p
  proof -
    have "rg_live (close_each raises ds r) p" using that by (simp add: close_pools_def)
    from close_each_live[OF _ this] have "rg_live r p"
      "rg_pools r (rg_dsn r p) = Some p \<longrightarrow> rg_pools (close_each raises ds r) (rg_dsn r p) = Some p" using D(8) by metis+
    then show ?thesis using D(6,7)[of p] nb by (auto simp: orphan_def close_pools_def)
  qed
  show "rg_dsn ?r p = d \<and> p < rg_next ?r" if "rg_pools ?r d = Some p" for d p
    using that D(8)[of d p] close_each_pools[of raises ds r d p] by (simp add: close_pools_def)
qed (simp_all add: close_pools_def)

lemma pool_step_ok: "pool_step True r r' \<Longrightarrow> registry_ok r \<Longrightarrow> registry_ok r'"
  by (induction rule: pool_step.induct)
    (auto intro!: get_pool_start_ok get_pool_locked_ok get_pool_opened_ok get_pool_failed_ok at_stage_ok close_pools_ok)

lemma pool_runs_ok: "pool_runs True r r' \<Longrightarrow> registry_ok r \<Longrightarrow> registry_ok r'"
  by (induction rule: rtranclp_induct) (auto intro: pool_step_ok)

text \<open>With no \<^verbatim>\<open>close()\<close> raising, nothing that was registered is live afterwards.\<close>

lemma close_each_dead:
  "\<not> rg_live r p \<Longrightarrow> \<not> rg_live (close_each raises ds r) p"
  by (induction ds arbitrary: r) (simp_all add: Let_def split: option.split)

lemma close_each_closes:
  "rg_pools r d = Some p \<Longrightarrow> d \<in> set ds \<Longrightarrow> \<not> rg_live (close_each (\<lambda>_. False) ds r) p"
proof (induction ds arbitrary: r)
  case (Cons e ds)
  show ?case
  proof (cases "rg_pools r e")
    case None
    then show ?thesis using Cons.IH[of r] Cons.prems by (cases "e = d") simp_all
  next
    case (Some q)
    let ?r = "r \<lparr> rg_live := (rg_live r)(q := False), rg_pools := (rg_pools r)(e := None) \<rparr>"
    show ?thesis
    proof (cases "e = d")
      case True
      then show ?thesis using Some Cons.prems(1) close_each_dead[of ?r p] by simp
    next
      case False
      then show ?thesis using Some Cons.prems Cons.IH[of ?r] by simp
    qed
  qed
qed simp

lemma quiet_live_registered:
  assumes "registry_ok r" "quiet r" "rg_live r p"
  shows "rg_pools r (rg_dsn r p) = Some p"
proof -
  have "\<not> being_opened r (rg_dsn r p) p"
    using assms(2) by (auto simp: quiet_def being_opened_def split: stage.splits)
  then show ?thesis using registry_okD(7)[OF assms(1,3)] assms(3) by (simp add: orphan_def)
qed

lemma close_pools_empties:
  assumes "registry_ok r" "quiet r" "set ds = dom (rg_pools r)"
  shows "\<not> rg_live (close_pools (\<lambda>_. False) ds r) p"
proof (cases "rg_live r p")
  case True
  then have "rg_pools r (rg_dsn r p) = Some p" by (rule quiet_live_registered[OF assms(1,2)])
  then show ?thesis using close_each_closes[of r "rg_dsn r p" p ds] assms(3) by (auto simp: close_pools_def)
qed (simp add: close_pools_def close_each_dead)

section \<open>The properties\<close>

text \<open>C18. However the calls of \<^verbatim>\<open>get_pool\<close> interleave, fail or are cancelled, two open pools of one DSN are the
  same pool, and every open pool is in the registry or still being opened; with no call under way \<^verbatim>\<open>close_pools\<close>
  leaves none open unless a close raises. Closing is assumed to happen only with no call under way.\<close>

theorem one_pool_per_dsn:
  assumes "pool_runs True new_registry r"
  shows "(rg_live r p \<longrightarrow> rg_live r q \<longrightarrow> rg_dsn r p = rg_dsn r q \<longrightarrow> p = q) \<and> \<not> orphan r p \<and>
    (quiet r \<longrightarrow> set ds = dom (rg_pools r) \<longrightarrow> \<not> rg_live (close_pools (\<lambda>_. False) ds r) p)"
proof -
  have ok: "registry_ok r" using pool_runs_ok[OF assms new_registry_ok] .
  have "\<not> orphan r p" using registry_okD(7)[OF ok, of p] by (auto simp: orphan_def)
  then show ?thesis using live_unique[OF ok, of p q] close_pools_empties[OF ok] by blast
qed

text \<open>Two first callers of one DSN, the second behind the lock of the first; then everybody has the one pool.\<close>

definition two_callers :: registry where
  "two_callers = get_pool_locked 1 ''d'' 0 (get_pool_opened 0 ''d'' 0 1 (get_pool_locked 0 ''d'' 0
     (get_pool_start 1 ''d'' (get_pool_start 0 ''d'' new_registry))))"

lemmas pool_run_simps = get_pool_start_def get_pool_locked_def get_pool_opened_def usable_def new_registry_def
  close_pools_def

lemma two_callers_run: "pool_runs True new_registry two_callers"
proof -
  let ?a = "get_pool_start 0 ''d'' new_registry" let ?b = "get_pool_start 1 ''d'' ?a"
  let ?c = "get_pool_locked 0 ''d'' 0 ?b" let ?d = "get_pool_opened 0 ''d'' 0 1 ?c"
  have "pool_step True new_registry ?a" by (rule pool_step.start) (simp add: pool_run_simps)
  moreover have "pool_step True ?a ?b" by (rule pool_step.start) (simp add: pool_run_simps)
  moreover have "pool_step True ?b ?c" by (rule pool_step.locked) (simp_all add: pool_run_simps)
  moreover have "pool_step True ?c ?d" by (rule pool_step.opened) (simp_all add: pool_run_simps)
  moreover have "pool_step True ?d two_callers"
    unfolding two_callers_def by (rule pool_step.locked) (simp_all add: pool_run_simps)
  ultimately show ?thesis by (meson rtranclp.rtrancl_into_rtrancl rtranclp.rtrancl_refl)
qed

theorem one_pool_per_dsn_witness:
  "rg_stage two_callers 0 = Has 1 \<and> rg_stage two_callers 1 = Has 1 \<and> rg_live two_callers 1 \<and> \<not> orphan two_callers 1"
  using one_pool_per_dsn[OF two_callers_run, of 1]
  by (simp add: two_callers_def pool_run_simps)

text \<open>Closing while a pool is being opened forgets the lock of its DSN: the next caller makes a lock and a pool of
  its own, and the first pool is registered, overwritten and never closed.\<close>

lemma careless_close_orphans: "\<exists>r p. pool_runs False new_registry r \<and> orphan r p"
proof (intro exI conjI)
  let ?a = "get_pool_start 0 ''d'' new_registry" let ?b = "get_pool_locked 0 ''d'' 0 ?a"
  let ?c = "close_pools (\<lambda>_. False) [] ?b" let ?d = "get_pool_start 1 ''d'' ?c"
  let ?e = "get_pool_locked 1 ''d'' 2 ?d" let ?f = "get_pool_opened 0 ''d'' 0 1 ?e" let ?g = "get_pool_opened 1 ''d'' 2 3 ?f"
  have "pool_step False new_registry ?a" by (rule pool_step.start) (simp add: pool_run_simps)
  moreover have "pool_step False ?a ?b" by (rule pool_step.locked) (simp_all add: pool_run_simps)
  moreover have "pool_step False ?b ?c" by (rule pool_step.close) (simp_all add: pool_run_simps)
  moreover have "pool_step False ?c ?d" by (rule pool_step.start) (simp add: pool_run_simps)
  moreover have "pool_step False ?d ?e" by (rule pool_step.locked) (simp_all add: pool_run_simps)
  moreover have "pool_step False ?e ?f" by (rule pool_step.opened) (simp_all add: pool_run_simps)
  moreover have "pool_step False ?f ?g" by (rule pool_step.opened) (simp_all add: pool_run_simps)
  ultimately show "pool_runs False new_registry ?g" by (meson rtranclp.rtrancl_into_rtrancl rtranclp.rtrancl_refl)
  show "orphan ?g 1" by (auto simp: orphan_def being_opened_def pool_run_simps split: if_splits)
qed

end
