(* ===== verification/Service.thy ===== *)
theory Service
  imports Metrics System
begin

text \<open>
  The edge of the service (\<^verbatim>\<open>api/chat.py\<close>, \<^verbatim>\<open>api/retrieval_service.py\<close>): a chat turn with what it hands to the
  capture worker, and the internal retrieval endpoint. What they add to theories Response and Hybrid is the
  end of a turn, complete or not, and the payload.
\<close>

section \<open>A chat turn and its capture\<close>

definition enqueue_capture :: "nat \<Rightarrow> uuid \<Rightarrow> uuid \<times> uuid \<times> string \<times> string \<Rightarrow> worker \<Rightarrow> worker" where
  "enqueue_capture maxsize job_id captured w =
     (case captured of (subject, actor, message, reply) \<Rightarrow>
        enqueue maxsize \<lparr> j_id = job_id, j_subject = subject, j_actor = actor,
          j_turn = \<lparr> t_user = message, t_assistant = reply \<rparr> \<rparr> w)"

text \<open>The pieces of a streamed body, as the client receives them.\<close>

fun is_token :: "event \<Rightarrow> bool" where
  "is_token (Token _) = True"
| "is_token _ = False"

definition body_pieces :: "turn_env \<Rightarrow> uuid \<Rightarrow> chat_request \<Rightarrow> string list" where
  "body_pieces env anew req =
     (case identity anew req of (subject, actor) \<Rightarrow>
        map token_text (filter is_token (fst (stream_response env subject actor
          [\<lparr> m_role = Some ''user'', m_content = Some (cr_message req) \<rparr>]))))"

text \<open>A client of a stream may leave after some pieces, the last one included: the generator is closed where
  it stands and nothing is captured.\<close>

definition serve_turn ::
  "turn_env \<Rightarrow> uuid \<Rightarrow> chat_request \<Rightarrow> nat option \<Rightarrow> nat \<Rightarrow> uuid \<Rightarrow> worker \<Rightarrow> chat_turn \<times> worker" where
  "serve_turn env anew req leaves maxsize job_id w =
     (let turn = chat env anew req;
          full = (turn, case ct_capture turn of None \<Rightarrow> w | Some c \<Rightarrow> enqueue_capture maxsize job_id c w)
      in case leaves of
           None \<Rightarrow> full
         | Some n \<Rightarrow>
             if cr_stream req \<and> ct_headers turn \<noteq> None \<and> n \<le> length (body_pieces env anew req)
             then (turn \<lparr> ct_body := concat (take n (body_pieces env anew req)), ct_capture := None \<rparr>, w)
             else full)"

section \<open>The retrieval endpoint\<close>

record payload_row =
  pl_id :: uuid
  pl_content :: string
  pl_score :: pyfloat
  pl_path :: path
  pl_paths :: "path set"
  pl_path_scores :: "(path \<times> pyfloat) list"
  pl_raw_scores :: "(path \<times> pyfloat) list"
  pl_metadata :: "string \<Rightarrow> pyval option"

fun round6 :: "pyfloat \<Rightarrow> pyfloat" where
  "round6 (Fin x) = Fin (py_round 6 x)"
| "round6 y = y"

definition candidate_dict :: "candidate \<Rightarrow> payload_row" where
  "candidate_dict c = \<lparr> pl_id = c_id c, pl_content = c_content c, pl_score = round6 (c_score c), pl_path = c_path c,
     pl_paths = c_paths c, pl_path_scores = map (map_prod id round6) (c_path_scores c),
     pl_raw_scores = map (map_prod id round6) (c_raw_scores c), pl_metadata = c_metadata c \<rparr>"

record payload =
  pl_query :: string
  pl_subject :: uuid
  pl_count :: nat
  pl_candidates :: "payload_row list"
  pl_path_counts :: "(path \<times> nat) list"
  pl_degraded :: "(path \<times> degradation) list"

definition retrieve_memories ::
  "(query \<Rightarrow> path_outcome) \<Rightarrow> (query \<Rightarrow> path_outcome) \<Rightarrow> uuid \<Rightarrow> uuid option \<Rightarrow> string \<Rightarrow> int option \<Rightarrow>
     nat option \<Rightarrow> nat option \<Rightarrow> payload res" where
  "retrieve_memories sem kw subject actor text limit semantic_k keyword_k =
     bind_res (hybrid_search sem kw \<lparr> q_text = text, q_subject = subject,
         q_actor = (case actor of Some a \<Rightarrow> if a = [] then subject else a | None \<Rightarrow> subject),
         q_semantic_top_k = semantic_k, q_keyword_top_k = keyword_k \<rparr>)
       (\<lambda>result.
          (let candidates = cut_at limit (h_candidates result)
           in Inr \<lparr> pl_query = text, pl_subject = subject, pl_count = length candidates,
                pl_candidates = map candidate_dict candidates, pl_path_counts = h_path_counts result,
                pl_degraded = h_degraded result \<rparr>))"

text \<open>The endpoint validates the limit (422) before it calls.\<close>

definition retrieval_probe ::
  "(query \<Rightarrow> path_outcome) \<Rightarrow> (query \<Rightarrow> path_outcome) \<Rightarrow> uuid \<Rightarrow> string \<Rightarrow> int option \<Rightarrow> nat + payload res" where
  "retrieval_probe sem kw subject text limit =
     (let n = (case limit of Some n \<Rightarrow> n | None \<Rightarrow> 10)
      in if 1 \<le> n \<and> n \<le> 50 then Inr (retrieve_memories sem kw subject None text (Some n) None None) else Inl 422)"

section \<open>Facts\<close>

lemma chat_capture:
  assumes "ct_capture (chat env anew req) = Some c"
  shows "\<exists>h. ct_headers (chat env anew req) = Some h \<and> cr_capture req \<and>
    c = (hd_subject h, hd_actor h, cr_message req, ct_body (chat env anew req))"
  using assms
  by (auto simp: chat_def Let_def metadata_headers_def split: prod.splits if_splits sum.splits list.splits event.splits)

text \<open>Both transports capture the reply of the graph.\<close>

lemma chat_complete:
  assumes "identity anew req = (subject, actor)" "cr_capture req"
    "run_response env subject actor [\<lparr> m_role = Some ''user'', m_content = Some (cr_message req) \<rparr>] = Inr st"
  shows "ct_body (chat env anew req) = rs_reply st \<and>
    ct_capture (chat env anew req) = Some (subject, actor, cr_message req, rs_reply st)"
proof (cases "cr_stream req")
  case False
  then show ?thesis using assms by (simp add: chat_def)
next
  case True
  let ?ms = "[\<lparr> m_role = Some ''user'', m_content = Some (cr_message req) \<rparr>]"
  obtain events err where s: "stream_response env subject actor ?ms = (events, err)" by fastforce
  have "events \<noteq> []" and err: "err = None"
    using s assms(3) by (auto simp: stream_response_def run_response_def invoke_eq Let_def respond_node_eq split: sum.splits option.splits prod.splits)
  then obtain d ids why n tokens where e: "events = Metadata d ids why n # map Token tokens @ [Finished (length (concat tokens))]"
    "rs_reply st = concat tokens"
    using events_are_metadata_tokens_done[OF s] assms(3) by auto
  have "map (token_text \<circ> Token) tokens = tokens" by (simp add: comp_def)
  then show ?thesis using True assms(1,2) s err e by (simp add: chat_def Let_def)
qed

section \<open>The properties\<close>

text \<open>C9. What is captured is what was delivered. Whenever a turn changes the capture queue, capture was asked for, the
  turn has its headers, and the job handed over is the turn of exactly those identities with exactly the user's
  message and the body the client received. A turn of the graph that succeeds is handed over with the graph's
  reply on both transports, unless the client left a stream early.\<close>

theorem captured_turn_is_the_delivered_turn:
  assumes "serve_turn env anew req leaves maxsize job_id w = (t, w')" "identity anew req = (subject, actor)"
  shows "(w' \<noteq> w \<longrightarrow> (\<exists>h. ct_headers t = Some h \<and> cr_capture req \<and>
      w' = enqueue maxsize \<lparr> j_id = job_id, j_subject = hd_subject h, j_actor = hd_actor h,
        j_turn = \<lparr> t_user = cr_message req, t_assistant = ct_body t \<rparr> \<rparr> w)) \<and>
    (\<forall>st. run_response env subject actor [\<lparr> m_role = Some ''user'', m_content = Some (cr_message req) \<rparr>] = Inr st \<longrightarrow>
      cr_capture req \<longrightarrow> leaves = None \<longrightarrow> ct_body t = rs_reply st \<and>
        w' = enqueue maxsize \<lparr> j_id = job_id, j_subject = subject, j_actor = actor,
          j_turn = \<lparr> t_user = cr_message req, t_assistant = rs_reply st \<rparr> \<rparr> w)"
proof (intro conjI allI impI)
  assume "w' \<noteq> w"
  then have "(t, w') = (chat env anew req, case ct_capture (chat env anew req) of None \<Rightarrow> w | Some c \<Rightarrow> enqueue_capture maxsize job_id c w)"
    using assms(1) unfolding serve_turn_def Let_def by (cases leaves) (auto split: if_splits)
  then obtain c where c: "ct_capture (chat env anew req) = Some c" "t = chat env anew req" "w' = enqueue_capture maxsize job_id c w"
    using \<open>w' \<noteq> w\<close> by (cases "ct_capture (chat env anew req)") auto
  then show "\<exists>h. ct_headers t = Some h \<and> cr_capture req \<and>
      w' = enqueue maxsize \<lparr> j_id = job_id, j_subject = hd_subject h, j_actor = hd_actor h,
        j_turn = \<lparr> t_user = cr_message req, t_assistant = ct_body t \<rparr> \<rparr> w"
    using chat_capture[OF c(1)] by (auto simp: enqueue_capture_def)
next
  fix st
  assume r: "run_response env subject actor [\<lparr> m_role = Some ''user'', m_content = Some (cr_message req) \<rparr>] = Inr st"
    "cr_capture req" "leaves = None"
  note c = chat_complete[OF assms(2) r(2,1)]
  have t: "t = chat env anew req" "w' = enqueue_capture maxsize job_id (subject, actor, cr_message req, rs_reply st) w"
    using assms(1) r(3) c by (auto simp: serve_turn_def)
  show "ct_body t = rs_reply st" using c t by simp
  show "w' = enqueue maxsize \<lparr> j_id = job_id, j_subject = subject, j_actor = actor,
          j_turn = \<lparr> t_user = cr_message req, t_assistant = rs_reply st \<rparr> \<rparr> w"
    using t by (simp add: enqueue_capture_def)
qed

definition ex_request :: chat_request where
  "ex_request = \<lparr> cr_message = ''hi'', cr_subject = Some ''s'', cr_actor = None, cr_stream = True, cr_capture = True \<rparr>"

theorem captured_turn_is_the_delivered_turn_witness:
  "wk_queue (snd (serve_turn Response.ex_env ''f'' ex_request None 256 ''j'' idle_worker)) =
     [\<lparr> j_id = ''j'', j_subject = ''s'', j_actor = ''s'', j_turn = \<lparr> t_user = ''hi'', t_assistant = ''Hello'' \<rparr> \<rparr>]"
proof -
  obtain st where st: "run_response Response.ex_env ''s'' ''s'' [ex_message] = Inr st" "rs_reply st = ''Hello''"
    using reply_despite_unavailable_memory_witness by blast
  have i: "identity ''f'' ex_request = (''s'', ''s'')" by (simp add: identity_def ex_request_def Let_def)
  show ?thesis
    using captured_turn_is_the_delivered_turn[OF surjective_pairing i, of Response.ex_env None 256 "''j''" idle_worker] st
    by (simp add: ex_request_def ex_message_def enqueue_def idle_worker_def)
qed

text \<open>The payload holds the best candidates of the search, and live rows only.\<close>

lemma probe_payload:
  assumes "db_ok d" "retrieval_probe (semantic_fn sc d) (keyword_fn sc d) subject text limit = Inr (Inr p)"
  shows "pl_count p = length (pl_candidates p) \<and> pl_count p \<le> (case limit of Some n \<Rightarrow> nat n | None \<Rightarrow> 10) \<and>
    list_all (\<lambda>r. list_ex (\<lambda>m. m_id m = pl_id r \<and> m_subject m = subject \<and> \<not> forgotten m) (d_mems d)) (pl_candidates p)"
proof -
  define n where "n = (case limit of Some n \<Rightarrow> n | None \<Rightarrow> 10)"
  let ?q = "\<lparr> q_text = text, q_subject = subject, q_actor = subject, q_semantic_top_k = None, q_keyword_top_k = None \<rparr>"
  have n: "1 \<le> n" "retrieve_memories (semantic_fn sc d) (keyword_fn sc d) subject None text (Some n) None None = Inr p"
    using assms(2) by (auto simp: retrieval_probe_def n_def Let_def split: if_splits)
  obtain h where h: "hybrid_search (semantic_fn sc d) (keyword_fn sc d) ?q = Inr h"
    "pl_candidates p = map candidate_dict (take (nat n) (h_candidates h))" "pl_count p = length (pl_candidates p)"
    using n by (auto simp: retrieve_memories_def bind_res_Inr_iff cut_at_def slice_to_def Let_def)
  have "list_ex (\<lambda>m. m_id m = c_id c \<and> m_subject m = subject \<and> \<not> forgotten m) (d_mems d)" if "c \<in> set (h_candidates h)" for c
    using hybrid_search_live[OF assms(1) h(1) that] by (auto simp: live_candidate_def list_ex_iff)
  then have "list_all (\<lambda>r. list_ex (\<lambda>m. m_id m = pl_id r \<and> m_subject m = subject \<and> \<not> forgotten m) (d_mems d)) (pl_candidates p)"
    using in_set_takeD by (fastforce simp: h(2) list_all_iff candidate_dict_def)
  moreover have "(case limit of Some n \<Rightarrow> nat n | None \<Rightarrow> 10) = nat n" by (simp add: n_def split: option.split)
  ultimately show ?thesis using h(2,3) by simp
qed

end
