(* ===== verification/Jobs.thy ===== *)
theory Jobs
  imports Reflection Dsn
begin

text \<open>
  The command line around the jobs (\<^verbatim>\<open>jobs/run.py\<close>) and their schedule (\<^verbatim>\<open>jobs/scheduler.py\<close>): the start
  barrier, the dispatch, the stats file, the exit code, and the two cron entries with the store they are kept
  in. Argument parsing, logging and the scheduler's own clockwork are left out; batch sizes are natural
  numbers.
\<close>

section \<open>The command line\<close>

datatype job = DecayJob | ReflectionJob | SchedulerJob

record job_args =
  ja_job :: job
  ja_run :: "uuid option"
  ja_batch :: "nat option"
  ja_subjects :: "uuid list option"
  ja_actor :: "uuid option"
  ja_stats_out :: bool
  ja_wait_for :: bool

text \<open>What a process meets: when the awaited file appears and how many polls the timeout allows, the run
  identifier it would make, the clock, the completions and sessions of a reflection run, whether the stats file
  can be written (by the success path, by the failure path) and whether closing the pools raises.\<close>

record job_world =
  jw_appears :: "nat \<Rightarrow> bool"
  jw_polls :: nat
  jw_new_run :: uuid
  jw_clock :: "nat \<Rightarrow> timestamp"
  jw_reflection :: "nat \<Rightarrow> reflection_env"
  jw_now :: timestamp
  jw_can_write :: bool
  jw_can_report :: bool
  jw_closes :: bool

datatype job_exn =
    BarrierTimeout
  | DecayRaised run_stats
  | ReflectionRaised reflection_outcome
  | StatsUnwritable
  | CloseRaised

datatype job_stats = DecayStats run_stats | ReflectionStats nat nat

datatype stats_file = Stats job_stats | FailureRecord job job_exn

fun await_barrier :: "(nat \<Rightarrow> bool) \<Rightarrow> nat \<Rightarrow> nat \<Rightarrow> bool" where
  "await_barrier appears i 0 = appears i"
| "await_barrier appears i (Suc n) = (appears i \<or> await_barrier appears (Suc i) n)"

definition run_decay :: "job_world \<Rightarrow> job_args \<Rightarrow> real list db \<Rightarrow> (job_exn + job_stats) \<times> real list db" where
  "run_decay w args d =
     (let run = (case ja_run args of Some r \<Rightarrow> if r = [] then jw_new_run w else r | None \<Rightarrow> jw_new_run w)
      in case run_decay_worker (jw_clock w) run (ja_batch args) (ja_subjects args) None d of
           ((outcome, r), d') \<Rightarrow> (if outcome = ''ok'' then Inr (DecayStats r) else Inl (DecayRaised r), d'))"

text \<open>Of several subjects a reflection run takes the first.\<close>

definition run_reflection_job :: "job_world \<Rightarrow> job_args \<Rightarrow> real list db \<Rightarrow> (job_exn + job_stats) \<times> real list db" where
  "run_reflection_job w args d =
     (let subject = (case ja_subjects args of Some (s # _) \<Rightarrow> Some s | _ \<Rightarrow> None)
      in case run_reflection_worker (jw_reflection w) subject (ja_actor args) (jw_now w) d of
           (Reflected n m, d') \<Rightarrow> (Inr (ReflectionStats n m), d')
         | (failed, d') \<Rightarrow> (Inl (ReflectionRaised failed), d'))"

text \<open>Inside the \<^verbatim>\<open>try\<close>: a scheduler that is shut down returns without a record.\<close>

definition job_body ::
  "job_world \<Rightarrow> job_args \<Rightarrow> stats_file option \<Rightarrow> real list db \<Rightarrow>
     (job_exn + unit) \<times> stats_file option \<times> real list db" where
  "job_body w args file d =
     (if ja_wait_for args \<and> \<not> await_barrier (jw_appears w) 0 (jw_polls w) then (Inl BarrierTimeout, file, d)
      else if ja_job args = SchedulerJob then (Inr (), file, d)
      else (case (if ja_job args = DecayJob then run_decay w args d else run_reflection_job w args d) of
              (Inl e, d') \<Rightarrow> (Inl e, file, d')
            | (Inr stats, d') \<Rightarrow>
                if \<not> ja_stats_out args then (Inr (), file, d')
                else if jw_can_write w then (Inr (), Some (Stats stats), d') else (Inl StatsUnwritable, file, d')))"

text \<open>\<^verbatim>\<open>_main\<close> with its \<^verbatim>\<open>finally\<close>: an exception of closing the pools takes the place of any other outcome.\<close>

definition job_main ::
  "job_world \<Rightarrow> job_args \<Rightarrow> stats_file option \<Rightarrow> real list db \<Rightarrow>
     (job_exn + unit) \<times> stats_file option \<times> real list db" where
  "job_main w args file d =
     (case job_body w args file d of (r, rest) \<Rightarrow> (if jw_closes w then r else Inl CloseRaised, rest))"

definition cli_main ::
  "job_world \<Rightarrow> job_args \<Rightarrow> stats_file option \<Rightarrow> real list db \<Rightarrow> nat \<times> stats_file option \<times> real list db" where
  "cli_main w args file d =
     (case job_main w args file d of
        (Inr _, file', d') \<Rightarrow> (0, file', d')
      | (Inl e, file', d') \<Rightarrow>
          (1, if ja_stats_out args \<and> jw_can_report w then Some (FailureRecord (ja_job args) e) else file', d'))"

section \<open>The schedule\<close>

record cron =
  cr_day :: "string option"
  cr_hour :: nat
  cr_minute :: nat

record scheduled =
  sd_id :: string
  sd_job :: job
  sd_trigger :: cron
  sd_grace :: nat
  sd_max_instances :: nat
  sd_coalesce :: bool

definition decay_job_id :: string where "decay_job_id = ''memsys-decay''"
definition reflection_job_id :: string where "reflection_job_id = ''memsys-reflection''"

definition cron_table :: "scheduled list" where
  "cron_table =
     [\<lparr> sd_id = decay_job_id, sd_job = DecayJob, sd_trigger = \<lparr> cr_day = None, cr_hour = 3, cr_minute = 0 \<rparr>,
        sd_grace = 3600, sd_max_instances = 1, sd_coalesce = True \<rparr>,
      \<lparr> sd_id = reflection_job_id, sd_job = ReflectionJob, sd_trigger = \<lparr> cr_day = Some ''sun'', cr_hour = 4, cr_minute = 0 \<rparr>,
        sd_grace = 21600, sd_max_instances = 1, sd_coalesce = True \<rparr>]"

text \<open>\<^verbatim>\<open>add_job\<close> with \<^verbatim>\<open>replace_existing\<close>, over the entries already in the store.\<close>

definition add_job :: "scheduled \<Rightarrow> scheduled list \<Rightarrow> scheduled list" where
  "add_job j store = filter (\<lambda>k. sd_id k \<noteq> sd_id j) store @ [j]"

definition build_scheduler :: "scheduled list \<Rightarrow> scheduled list" where
  "build_scheduler store = fold add_job cron_table store"

definition jobstore_url :: "(string \<Rightarrow> bool) \<Rightarrow> environ \<Rightarrow> setup_exn + string" where
  "jobstore_url ip env =
     (case (case env_set env ''JOBS_SCHEDULER_URL'' of Some u \<Rightarrow> Inr u | None \<Rightarrow> admin_dsn env) of
        Inl e \<Rightarrow> Inl e
      | Inr dsn \<Rightarrow> (case urlsplit ip dsn of
          Inl e \<Rightarrow> Inl e
        | Inr parts \<Rightarrow> Inr (urlunsplit (if u_scheme parts \<in> {''postgresql'', ''postgres''}
            then parts \<lparr> u_scheme := ''postgresql+psycopg'' \<rparr> else parts))))"

definition scheduled_decay :: "job_world \<Rightarrow> real list db \<Rightarrow> (job_exn + job_stats) \<times> real list db" where
  "scheduled_decay w d = run_decay w \<lparr> ja_job = DecayJob, ja_run = None, ja_batch = None, ja_subjects = None, ja_actor = None,
     ja_stats_out = False, ja_wait_for = False \<rparr> d"

definition scheduled_reflection :: "job_world \<Rightarrow> real list db \<Rightarrow> (job_exn + job_stats) \<times> real list db" where
  "scheduled_reflection w d = run_reflection_job w \<lparr> ja_job = ReflectionJob, ja_run = None, ja_batch = None, ja_subjects = None,
     ja_actor = None, ja_stats_out = False, ja_wait_for = False \<rparr> d"

section \<open>Facts\<close>

lemma await_barrier_iff: "await_barrier appears i n \<longleftrightarrow> (\<exists>k \<le> n. appears (i + k))"
proof (induction n arbitrary: i)
  case (Suc n)
  have "(\<exists>k \<le> Suc n. appears (i + k)) \<longleftrightarrow> appears i \<or> (\<exists>k \<le> n. appears (Suc i + k))"
  proof
    assume "\<exists>k \<le> Suc n. appears (i + k)"
    then obtain k where "k \<le> Suc n" "appears (i + k)" by blast
    then show "appears i \<or> (\<exists>k \<le> n. appears (Suc i + k))" by (cases k) auto
  next
    assume "appears i \<or> (\<exists>k \<le> n. appears (Suc i + k))"
    then show "\<exists>k \<le> Suc n. appears (i + k)" by (metis Suc_le_mono add_0_right add_Suc_right add_Suc zero_le)
  qed
  then show ?case using Suc by simp
qed simp

text \<open>Whatever the store held, it then holds the two entries as the table has them, once each, and no other entry
  changed; building again changes nothing.\<close>

lemma build_scheduler_entries:
  "set (build_scheduler store) = set cron_table \<union> {k \<in> set store. sd_id k \<notin> {decay_job_id, reflection_job_id}}"
  "set (build_scheduler (build_scheduler store)) = set (build_scheduler store)"
  by (auto simp: build_scheduler_def cron_table_def add_job_def decay_job_id_def reflection_job_id_def)

text \<open>The store's connection string uses the driver that is installed.\<close>

lemma jobstore_url_scheme:
  assumes "jobstore_url ip env = Inr s" "env_set env ''JOBS_SCHEDULER_URL'' = None"
    "admin_dsn env = Inr dsn" "urlsplit ip dsn = Inr p" "u_scheme p \<in> {''postgresql'', ''postgres''}"
    "u_netloc p \<noteq> []" "list_all (\<lambda>c. c \<notin> set ''[]'') (u_netloc p)"
  shows "urlsplit ip s = Inr (p \<lparr> u_scheme := ''postgresql+psycopg'' \<rparr>)"
proof -
  let ?p = "p \<lparr> u_scheme := ''postgresql+psycopg'' \<rparr>"
  note parts = urlsplit_parts[OF assms(4,6)]
  have s: "s = urlunsplit ?p" using assms by (auto simp: jobstore_url_def)
  have "good_scheme (u_scheme ?p)"
    by (simp add: good_scheme_def ascii_alpha_def scheme_char_def digit_def lower_def lower_char_def)
  moreover have "good_tail ?p" "tail_of ?p = tail_of p" using parts(2) by (simp_all add: good_tail_def tail_of_def)
  moreover have "list_all (\<lambda>c. \<not> netloc_end c \<and> clean_char c \<and> c \<notin> set ''[]'') (u_netloc ?p)"
    using parts(3) assms(7) by (auto simp: list_all_iff)
  ultimately show ?thesis unfolding s using parts(4) assms(6) by (intro urlsplit_again) simp_all
qed

text \<open>While the clock stands still, a run at the time of its sessions is a run at that time.\<close>

lemma claim_batch_now: "x_now (snd (claim_batch locked run n subjects t)) = x_now t"
  by (simp add: claim_batch_def update_rows_def Let_def split_beta)

lemma run_decay_batch_now: "run_decay_batch locked run n subjects None t = run_decay_batch locked run n subjects (Some (x_now t)) t"
  using claim_batch_now[of locked run n subjects t]
  by (simp add: run_decay_batch_def claim_node_def compute_node_def Let_def split_beta)

lemma drain_now: "drain fuel (\<lambda>_. c) run n subjects None r d = drain fuel (\<lambda>_. c) run n subjects (Some c) r d"
proof (induction fuel arbitrary: r d)
  case (Suc fuel)
  have "run_decay_batch {} run n subjects None (admin_session c d) = run_decay_batch {} run n subjects (Some c) (admin_session c d)"
    using run_decay_batch_now[of "{}" run n subjects "admin_session c d"] by (simp add: admin_session_def)
  then show ?case using Suc by (simp add: Let_def split: prod.split bool.split)
qed simp

section \<open>The property\<close>

text \<open>The exit code tells the outcome. A process exits 0 exactly when its barrier came up in time, its job did
  not raise, its record could be written where one was asked for, and the pools closed; then the file holds the
  record of the very run. It exits 1 otherwise, and a file that was asked for and can be written holds the failure,
  never a record of success or of an earlier run. In both cases the batches committed stay committed.\<close>

lemma exit_code_tells_outcome:
  assumes "cli_main w args file d = (code, file', d')" "ja_job args \<noteq> SchedulerJob"
  defines "started \<equiv> ja_wait_for args \<longrightarrow> (\<exists>k \<le> jw_polls w. jw_appears w k)"
    and "outcome \<equiv> (if ja_job args = DecayJob then run_decay w args d else run_reflection_job w args d)"
  shows "(code = 0 \<longleftrightarrow> started \<and> \<not> isl (fst outcome) \<and> (ja_stats_out args \<longrightarrow> jw_can_write w) \<and> jw_closes w) \<and>
    (code = 0 \<longrightarrow> file' = (if ja_stats_out args then Some (Stats (projr (fst outcome))) else file)) \<and>
    (code \<noteq> 0 \<longrightarrow> code = 1 \<and> (ja_stats_out args \<longrightarrow> jw_can_report w \<longrightarrow>
       (\<exists>e. file' = Some (FailureRecord (ja_job args) e)))) \<and>
    d' = (if started then snd outcome else d)"
  using assms(1,2) unfolding started_def outcome_def
  by (auto simp: cli_main_def job_main_def job_body_def await_barrier_iff split: prod.splits sum.splits if_splits)

definition ex_world :: job_world where
  "ex_world = \<lparr> jw_appears = (\<lambda>i. i = 2), jw_polls = 3, jw_new_run = ''r'', jw_clock = (\<lambda>_. 7), jw_reflection = undefined,
     jw_now = 7, jw_can_write = True, jw_can_report = True, jw_closes = True \<rparr>"

definition ex_args :: job_args where
  "ex_args = \<lparr> ja_job = DecayJob, ja_run = Some ''run'', ja_batch = Some 50, ja_subjects = None, ja_actor = None,
     ja_stats_out = True, ja_wait_for = True \<rparr>"

lemma ex_outcome: "\<not> isl (fst (run_decay ex_world ex_args ex_rdb))"
  using decay_run_spec[where n = 50 and clock = "\<lambda>_. 7" and run = "''run''" and subjects = None and reference = 7, OF ex_rdb_ok]
  by (simp add: run_decay_def ex_world_def ex_args_def run_decay_worker_def drain_now split: prod.splits sum.splits)

lemma exit_code_tells_outcome_witness:
  "fst (cli_main ex_world ex_args None ex_rdb) = 0 \<and>
   (\<exists>stats. fst (snd (cli_main ex_world ex_args None ex_rdb)) = Some (Stats stats))"
proof -
  obtain code out d where c: "cli_main ex_world ex_args None ex_rdb = (code, out, d)" by (metis prod_cases3)
  have a: "ja_job ex_args = DecayJob" "ja_job ex_args \<noteq> SchedulerJob" "ja_stats_out ex_args" "ja_wait_for ex_args"
    "jw_can_write ex_world" "jw_closes ex_world" "\<exists>k \<le> jw_polls ex_world. jw_appears ex_world k"
    by (simp_all add: ex_args_def ex_world_def)
  show ?thesis using exit_code_tells_outcome[OF c a(2)] ex_outcome a by (simp add: c)
qed

text \<open>C24. The stats file of a decay process that exits 0 names exactly the rows it aged (while the clock stands still):
  no identifier twice, only rows that were due, those rows decayed and stamped and every other row as it was, and
  all that were due when the run stayed within its rail.\<close>

theorem recorded_ids_are_the_aged_rows:
  assumes "cli_main w args file d = (0, file', d')" "db_ok d" "ja_job args = DecayJob" "ja_stats_out args"
    and "ja_run args = Some run" "run \<noteq> []" "ja_batch args = Some n" "0 < n" "jw_clock w = (\<lambda>_. c)"
  shows "\<exists>r. file' = Some (Stats (DecayStats r)) \<and> distinct (r_processed r) \<and>
    set (r_processed r) \<subseteq> m_id ` set (todo run (ja_subjects args) d) \<and>
    map undated (d_mems d') =
      map (\<lambda>m. undated (if m_id m \<in> set (r_processed r) then decayed run 0 c m else m)) (d_mems d) \<and>
    (length (todo run (ja_subjects args) d) \<le> (max_batches - 1) * n \<longrightarrow>
       mset (r_processed r) = mset (map m_id (todo run (ja_subjects args) d)))"
proof -
  let ?out = "run_decay_worker (\<lambda>_. c) run (Some n) (ja_subjects args) (Some c) d"
  obtain label r d1 where o1: "?out = ((label, r), d1)" by (metis prod_cases3 surj_pair)
  note spec = decay_run_spec[OF assms(2,8), where clock = "\<lambda>_. c" and run = run and subjects = "ja_subjects args" and reference = c, unfolded o1 prod.case]
  have "run_decay w args d = (Inr (DecayStats r), d1)"
    using o1 spec by (simp add: run_decay_def run_decay_worker_def assms(5-7,9) drain_now)
  then have "file' = Some (Stats (DecayStats r))" "d' = d1"
    using assms(1,3,4) by (auto simp: cli_main_def job_main_def job_body_def split: prod.splits sum.splits if_splits)
  then show ?thesis using spec by (intro exI[of _ r]) auto
qed

theorem recorded_ids_are_the_aged_rows_witness:
  "\<exists>r. fst (snd (cli_main ex_world ex_args None ex_rdb)) = Some (Stats (DecayStats r)) \<and>
     mset (r_processed r) = mset (map m_id (todo ''run'' None ex_rdb))"
proof -
  have "fst (cli_main ex_world ex_args None ex_rdb) = 0"
    using ex_outcome by (auto simp: cli_main_def job_main_def job_body_def await_barrier_iff ex_args_def ex_world_def split: prod.splits sum.splits)
  then obtain out d where c: "cli_main ex_world ex_args None ex_rdb = (0, out, d)" by (metis prod.collapse)
  have a: "ja_job ex_args = DecayJob" "ja_stats_out ex_args" "ja_run ex_args = Some ''run''" "ja_batch ex_args = Some 50"
    "jw_clock ex_world = (\<lambda>_. 7)" "ja_subjects ex_args = None" by (simp_all add: ex_args_def ex_world_def)
  have "length (todo ''run'' None ex_rdb) \<le> length (d_mems ex_rdb)" by (simp add: todo_def)
  also have "\<dots> \<le> (max_batches - 1) * 50" by (simp add: ex_rdb_def max_batches_def)
  finally have small: "length (todo ''run'' None ex_rdb) \<le> (max_batches - 1) * 50" .
  have "''run'' \<noteq> []" "(0::nat) < 50" by simp_all
  from recorded_ids_are_the_aged_rows[OF c ex_rdb_ok a(1-3) this(1) a(4) this(2) a(5), unfolded a(6)] small
  show ?thesis by (auto simp: c)
qed

end
