(* ===== verification/Migrate.thy ===== *)
theory Migrate
  imports Dsn
begin

text \<open>
  The migration runner (\<^verbatim>\<open>store/migrate.py\<close>): the variables a migration may use, their substitution, the run over
  the files in order with one transaction each, the ledger, and the masking of a connection string for the
  log. Executing SQL is a parameter: a statement text maps the data to new data or fails, and no migration
  touches the ledger itself. The digest of a file is a parameter too.
\<close>

section \<open>Variables\<close>

datatype template_exn =
    UnsetVariable string
  | NoDefault string
  | NotPositive string
  | NotANumber string
  | ForeignVariable string

definition template_vars :: "string list" where
  "template_vars = [''EMBEDDING_DIM'', ''APP_DB_USER'', ''APP_DB_PASSWORD'', ''POSTGRES_DB'']"

definition template_defaults :: "(string \<times> string) list" where
  "template_defaults = [(''EMBEDDING_DIM'', ''1024''), (''APP_DB_USER'', ''memory_app''), (''POSTGRES_DB'', ''memory_system'')]"

definition no_default :: "string list" where
  "no_default = [''APP_DB_PASSWORD'']"

definition template_value :: "environ \<Rightarrow> string \<Rightarrow> template_exn + string" where
  "template_value env name =
     (case env_set env name of
        Some v \<Rightarrow> Inr v
      | None \<Rightarrow> if name \<in> set no_default then Inl (UnsetVariable name)
                else (case map_of template_defaults name of Some v \<Rightarrow> Inr v | None \<Rightarrow> Inl (NoDefault name)))"

fun template_pairs :: "environ \<Rightarrow> string list \<Rightarrow> template_exn + (string \<times> string) list" where
  "template_pairs env [] = Inr []"
| "template_pairs env (name # names) =
     (case template_value env name of
        Inl e \<Rightarrow> Inl e
      | Inr v \<Rightarrow> (case template_pairs env names of Inl e \<Rightarrow> Inl e | Inr ps \<Rightarrow> Inr ((name, v) # ps)))"

text \<open>\<^verbatim>\<open>str.isdigit\<close> also holds of superscript digits, which \<^verbatim>\<open>int\<close> does not read.\<close>

definition isdigit_char :: "char \<Rightarrow> bool" where
  "isdigit_char c \<longleftrightarrow> digit c \<or> (of_char c :: nat) \<in> {178, 179, 185}"

definition template_values :: "environ \<Rightarrow> template_exn + (string \<times> string) list" where
  "template_values env =
     (case template_pairs env template_vars of
        Inl e \<Rightarrow> Inl e
      | Inr ps \<Rightarrow>
          (let dim = (case map_of ps ''EMBEDDING_DIM'' of Some v \<Rightarrow> v | None \<Rightarrow> [])
           in if dim = [] \<or> \<not> list_all isdigit_char dim then Inl (NotPositive dim)
              else if \<not> list_all digit dim then Inl (NotANumber dim)
              else if digits_value dim = 0 then Inl (NotPositive dim)
              else Inr ps))"

section \<open>Substitution\<close>

definition key_char :: "char \<Rightarrow> bool" where
  "key_char c = (let n = (of_char c :: nat) in (65 \<le> n \<and> n \<le> 90) \<or> (48 \<le> n \<and> n \<le> 57) \<or> c = CHR ''_'')"

text \<open>A placeholder at the head of a text: its name and the text behind it.\<close>

definition placeholder_at :: "string \<Rightarrow> (string \<times> string) option" where
  "placeholder_at s =
     (if take 2 s = ''${''
      then (let name = takeWhile key_char (drop 2 s); rest = dropWhile key_char (drop 2 s)
            in if name \<noteq> [] \<and> take 1 rest = ''}'' then Some (name, drop 1 rest) else None)
      else None)"

lemma placeholder_at_text: "placeholder_at s = Some (name, rest) \<Longrightarrow> s = ''${'' @ name @ ''}'' @ rest"
proof -
  assume a: "placeholder_at s = Some (name, rest)"
  let ?n = "takeWhile key_char (drop 2 s)" and ?r = "dropWhile key_char (drop 2 s)"
  have h: "take 2 s = ''${''" "name = ?n" "rest = drop 1 ?r" "take 1 ?r = ''}''"
    using a by (auto simp: placeholder_at_def Let_def split: if_splits)
  have "?r = ''}'' @ rest" using h(3,4) append_take_drop_id[of 1 ?r] by simp
  then have "drop 2 s = name @ ''}'' @ rest" using takeWhile_dropWhile_id[of key_char "drop 2 s"] h(2) by simp
  moreover have "s = ''${'' @ drop 2 s" using append_take_drop_id[of 2 s] h(1) by simp
  ultimately show ?thesis by metis
qed

lemma placeholder_at_shorter: "placeholder_at s = Some (name, rest) \<Longrightarrow> length rest < length s"
  by (drule placeholder_at_text) simp

function render :: "(string \<times> string) list \<Rightarrow> string \<Rightarrow> template_exn + string" where
  "render values s =
     (case placeholder_at s of
        Some (name, rest) \<Rightarrow> (case map_of values name of
            None \<Rightarrow> Inl (ForeignVariable name)
          | Some v \<Rightarrow> (case render values rest of Inl e \<Rightarrow> Inl e | Inr t \<Rightarrow> Inr (v @ t)))
      | None \<Rightarrow> (case s of
            [] \<Rightarrow> Inr []
          | c # cs \<Rightarrow> (case render values cs of Inl e \<Rightarrow> Inl e | Inr t \<Rightarrow> Inr (c # t))))"
  by pat_completeness auto
termination
  by (relation "measure (\<lambda>(_, s). length s)") (auto dest: placeholder_at_shorter)

declare render.simps [simp del]

section \<open>The run\<close>

datatype 'e migrate_exn =
    Template template_exn
  | Setup setup_exn
  | NoMigrations
  | StatementFailed 'e

type_synonym ledger = "(string \<times> string \<times> nat) list"

record 'd schema =
  sc_data :: 'd
  sc_ledger :: "ledger option"

definition create_ledger :: "'d schema \<Rightarrow> 'd schema" where
  "create_ledger d = (case sc_ledger d of None \<Rightarrow> d \<lparr> sc_ledger := Some [] \<rparr> | Some _ \<Rightarrow> d)"

definition record_run :: "string \<Rightarrow> string \<Rightarrow> ledger \<Rightarrow> ledger" where
  "record_run file checksum l =
     (if file \<in> set (map fst l)
      then map (\<lambda>(f, c, n). if f = file then (f, checksum, Suc n) else (f, c, n)) l
      else l @ [(file, checksum, 1)])"

text \<open>One file in one transaction: its statements and its row of the ledger, or nothing.\<close>

definition apply_file ::
  "(string \<Rightarrow> 'd \<Rightarrow> 'e + 'd) \<Rightarrow> (string \<Rightarrow> string) \<Rightarrow> (string \<times> string) list \<Rightarrow> string \<times> string \<Rightarrow> 'd schema \<Rightarrow>
     'e migrate_exn + 'd schema" where
  "apply_file exec digest values file d =
     (case file of (name, raw) \<Rightarrow>
        (case render values raw of
           Inl e \<Rightarrow> Inl (Template e)
         | Inr sql \<Rightarrow> (case exec sql (sc_data d) of
             Inl e \<Rightarrow> Inl (StatementFailed e)
           | Inr data \<Rightarrow> Inr (d \<lparr> sc_data := data, sc_ledger := map_option (record_run name (take 16 (digest raw))) (sc_ledger d) \<rparr>))))"

fun apply_files ::
  "(string \<Rightarrow> 'd \<Rightarrow> 'e + 'd) \<Rightarrow> (string \<Rightarrow> string) \<Rightarrow> (string \<times> string) list \<Rightarrow> (string \<times> string) list \<Rightarrow> nat \<Rightarrow>
     'd schema \<Rightarrow> ('e migrate_exn + nat) \<times> 'd schema" where
  "apply_files exec digest values [] applied d = (Inr applied, d)"
| "apply_files exec digest values (file # files) applied d =
     (case apply_file exec digest values file d of
        Inl e \<Rightarrow> (Inl e, d)
      | Inr d' \<Rightarrow> apply_files exec digest values files (Suc applied) d')"

definition migration_files :: "(string \<times> string) list \<Rightarrow> (string \<times> string) list" where
  "migration_files files = sort_key fst files"

definition apply_all ::
  "(string \<Rightarrow> 'd \<Rightarrow> 'e + 'd) \<Rightarrow> (string \<Rightarrow> string) \<Rightarrow> environ \<Rightarrow> (string \<times> string) list \<Rightarrow> string option \<Rightarrow>
     'd schema \<Rightarrow> ('e migrate_exn + nat) \<times> 'd schema" where
  "apply_all exec digest env files dsn d =
     (case template_values env of
        Inl e \<Rightarrow> (Inl (Template e), d)
      | Inr values \<Rightarrow>
          if files = [] then (Inl NoMigrations, d)
          else (case (case dsn of Some x \<Rightarrow> if x = [] then admin_dsn env else Inr x | None \<Rightarrow> admin_dsn env) of
                  Inl e \<Rightarrow> (Inl (Setup e), d)
                | Inr _ \<Rightarrow> apply_files exec digest values (migration_files files) 0 (create_ledger d)))"

definition show_status :: "'d schema \<Rightarrow> ledger option" where
  "show_status d = map_option (sort_key fst) (sc_ledger d)"

section \<open>Masking\<close>

text \<open>\<^verbatim>\<open>://user:password@\<close> at the head of a text: the user and the text behind.\<close>

definition credentials_at :: "string \<Rightarrow> (string \<times> string) option" where
  "credentials_at s =
     (if take 3 s = ''://''
      then (let user = takeWhile (\<lambda>c. c \<notin> set '':/@'') (drop 3 s);
                behind = dropWhile (\<lambda>c. c \<notin> set '':/@'') (drop 3 s);
                rest = dropWhile (\<lambda>c. c \<noteq> CHR ''@'') (drop 1 behind)
            in if user \<noteq> [] \<and> take 1 behind = '':'' \<and> rest \<noteq> [] then Some (user, drop 1 rest) else None)
      else None)"

lemma length_behind: "length (dropWhile p (drop 1 (dropWhile q (drop n s)))) \<le> length s - n"
  using length_dropWhile_le[of p "drop 1 (dropWhile q (drop n s))"] length_dropWhile_le[of q "drop n s"] by simp

lemma credentials_at_shorter: "credentials_at s = Some (user, rest) \<Longrightarrow> length rest < length s"
proof -
  assume a: "credentials_at s = Some (user, rest)"
  let ?b = "dropWhile (\<lambda>c. c \<notin> set '':/@'') (drop 3 s)" and ?p = "\<lambda>c. c \<noteq> CHR ''@''"
  have h: "take 3 s = ''://''" "rest = drop 1 (dropWhile ?p (drop 1 ?b))"
    using a by (auto simp: credentials_at_def Let_def split: if_splits)
  have "0 < length s" using h(1) by auto
  then show ?thesis using length_behind[of ?p "\<lambda>c. c \<notin> set '':/@''" 3 s] unfolding h(2) length_drop by linarith
qed

function redact_dsn :: "string \<Rightarrow> string" where
  "redact_dsn s =
     (case credentials_at s of
        Some (user, rest) \<Rightarrow> ''://'' @ user @ '':***@'' @ redact_dsn rest
      | None \<Rightarrow> (case s of [] \<Rightarrow> [] | c # cs \<Rightarrow> c # redact_dsn cs))"
  by pat_completeness auto
termination
  by (relation "measure length") (auto dest: credentials_at_shorter)

declare redact_dsn.simps [simp del]

section \<open>Facts\<close>

text \<open>A text as literal characters and placeholders.\<close>

datatype piece = Lit char | Var string

function pieces :: "string \<Rightarrow> piece list" where
  "pieces s =
     (case placeholder_at s of
        Some (name, rest) \<Rightarrow> Var name # pieces rest
      | None \<Rightarrow> (case s of [] \<Rightarrow> [] | c # cs \<Rightarrow> Lit c # pieces cs))"
  by pat_completeness auto
termination
  by (relation "measure length") (auto dest: placeholder_at_shorter)

declare pieces.simps [simp del]

fun piece_text :: "piece \<Rightarrow> string" where
  "piece_text (Lit c) = [c]"
| "piece_text (Var name) = ''${'' @ name @ ''}''"

fun piece_value :: "(string \<times> string) list \<Rightarrow> piece \<Rightarrow> string" where
  "piece_value values (Lit c) = [c]"
| "piece_value values (Var name) = (case map_of values name of Some v \<Rightarrow> v | None \<Rightarrow> [])"

lemma no_placeholder_Nil [simp]: "placeholder_at [] = None"
  by (simp add: placeholder_at_def)

lemma pieces_cases:
  "pieces [] = []"
  "placeholder_at (c # cs) = None \<Longrightarrow> pieces (c # cs) = Lit c # pieces cs"
  "placeholder_at s = Some (name, rest) \<Longrightarrow> pieces s = Var name # pieces rest"
  by (simp_all add: pieces.simps[of "[]"] pieces.simps[of "c # cs"] pieces.simps[of s])

lemma render_cases:
  "render vs [] = Inr []"
  "placeholder_at (c # cs) = None \<Longrightarrow>
    render vs (c # cs) = (case render vs cs of Inl e \<Rightarrow> Inl e | Inr t \<Rightarrow> Inr (c # t))"
  "placeholder_at s = Some (name, rest) \<Longrightarrow> render vs s = (case map_of vs name of
     None \<Rightarrow> Inl (ForeignVariable name) | Some v \<Rightarrow> (case render vs rest of Inl e \<Rightarrow> Inl e | Inr t \<Rightarrow> Inr (v @ t)))"
  by (simp_all add: render.simps[of vs "[]"] render.simps[of vs "c # cs"] render.simps[of vs s])

lemma pieces_text: "concat (map piece_text (pieces s)) = s"
proof (induction s rule: pieces.induct)
  case (1 s)
  show ?case
  proof (cases "placeholder_at s")
    case (Some p)
    then obtain name rest where p: "placeholder_at s = Some (name, rest)" by (cases p) auto
    then show ?thesis using 1(2)[OF p refl] placeholder_at_text[OF p, symmetric] by (simp add: pieces_cases)
  next
    case None
    then show ?thesis using 1(1) by (cases s) (simp_all add: pieces_cases)
  qed
qed

lemma render_pieces:
  "render vs s = (case find (\<lambda>p. \<exists>n. p = Var n \<and> map_of vs n = None) (pieces s) of
     Some (Var n) \<Rightarrow> Inl (ForeignVariable n) | _ \<Rightarrow> Inr (concat (map (piece_value vs) (pieces s))))"
proof (induction s rule: pieces.induct)
  case (1 s)
  show ?case
  proof (cases "placeholder_at s")
    case (Some p)
    then obtain name rest where p: "placeholder_at s = Some (name, rest)" by (cases p) auto
    then show ?thesis using 1(2)[OF p refl]
      by (auto simp: pieces_cases(3)[OF p] render_cases(3)[OF p] split: option.splits piece.splits)
  next
    case None
    then show ?thesis using 1(1)
      by (cases s) (auto simp: pieces_cases render_cases split: option.splits piece.splits)
  qed
qed

text \<open>The run as a fold of successful files.\<close>

lemma apply_files_prefix:
  assumes "apply_files exec digest values files n d = (r, d')"
  shows "\<exists>k \<le> length files. apply_files exec digest values (take k files) n d = (Inr (n + k), d') \<and>
    (case r of Inr m \<Rightarrow> k = length files \<and> m = n + k
     | Inl e \<Rightarrow> k < length files \<and> apply_file exec digest values (files ! k) d' = Inl e)"
  using assms
proof (induction files arbitrary: n d)
  case (Cons x xs)
  show ?case
  proof (cases "apply_file exec digest values x d")
    case (Inl e)
    then show ?thesis using Cons.prems by (intro exI[of _ 0]) auto
  next
    case (Inr d1)
    then have "apply_files exec digest values xs (Suc n) d1 = (r, d')" using Cons.prems by simp
    from Cons.IH[OF this] obtain k where k: "k \<le> length xs"
      "apply_files exec digest values (take k xs) (Suc n) d1 = (Inr (Suc n + k), d')"
      "case r of Inr m \<Rightarrow> k = length xs \<and> m = Suc n + k
       | Inl e \<Rightarrow> k < length xs \<and> apply_file exec digest values (xs ! k) d' = Inl e" by blast
    then show ?thesis using Inr by (intro exI[of _ "Suc k"]) (auto split: sum.splits)
  qed
qed auto

lemma count_list_distinct: "distinct xs \<Longrightarrow> count_list xs x = of_bool (x \<in> set xs)"
  by (induction xs) auto

definition run_count :: "'d schema \<Rightarrow> string \<Rightarrow> nat" where
  "run_count d file = (case sc_ledger d of None \<Rightarrow> 0 | Some l \<Rightarrow> (case map_of l file of None \<Rightarrow> 0 | Some (_, n) \<Rightarrow> n))"

lemma map_of_record_run:
  "map_of (record_run file checksum l) f =
     (if f = file then Some (checksum, case map_of l file of None \<Rightarrow> 1 | Some (_, n) \<Rightarrow> Suc n) else map_of l f)"
proof -
  have m: "map_of (map (\<lambda>(f, c, n). if f = file then (f, checksum, Suc n) else (f, c, n)) l) f =
      (if f = file then (case map_of l file of None \<Rightarrow> None | Some (_, n) \<Rightarrow> Some (checksum, Suc n)) else map_of l f)"
    by (induction l) (auto split: option.splits)
  show ?thesis
  proof (cases "file \<in> set (map fst l)")
    case True
    then obtain c n where "map_of l file = Some (c, n)" by (metis list.set_map map_of_eq_None_iff not_Some_eq surj_pair)
    then show ?thesis using m True by (simp add: record_run_def)
  next
    case False
    then have "map_of l file = None" by (simp add: map_of_eq_None_iff)
    then show ?thesis using False by (simp add: record_run_def map_add_def split: option.split)
  qed
qed

lemma apply_file_count:
  assumes "apply_file exec digest values file d = Inr d'" "sc_ledger d \<noteq> None"
  shows "run_count d' f = run_count d f + of_bool (f = fst file) \<and> sc_ledger d' \<noteq> None"
  using assms by (auto simp: apply_file_def run_count_def map_of_record_run split: prod.splits sum.splits option.splits)

lemma apply_files_count:
  "apply_files exec digest values files n d = (Inr m, d') \<Longrightarrow> sc_ledger d \<noteq> None \<Longrightarrow>
    run_count d' f = run_count d f + count_list (map fst files) f"
proof (induction files arbitrary: n d)
  case (Cons x xs)
  obtain d1 where d1: "apply_file exec digest values x d = Inr d1" "apply_files exec digest values xs (Suc n) d1 = (Inr m, d')"
    using Cons.prems(1) by (auto split: sum.splits)
  show ?case using Cons.IH[OF d1(2)] apply_file_count[OF d1(1) Cons.prems(2)] by auto
qed simp

text \<open>What a file leaves: the data its text made of them, its row with the checksum of its text.\<close>

fun exec_rendered ::
  "(string \<Rightarrow> 'd \<Rightarrow> 'e + 'd) \<Rightarrow> (string \<times> string) list \<Rightarrow> (string \<times> string) list \<Rightarrow> 'd \<Rightarrow> 'd option" where
  "exec_rendered exec vs [] x = Some x"
| "exec_rendered exec vs ((name, raw) # files) x =
     (case render vs raw of
        Inl _ \<Rightarrow> None
      | Inr sql \<Rightarrow> (case exec sql x of Inl _ \<Rightarrow> None | Inr y \<Rightarrow> exec_rendered exec vs files y))"

definition checksum_of :: "'d schema \<Rightarrow> string \<Rightarrow> string option" where
  "checksum_of d f = (case sc_ledger d of None \<Rightarrow> None | Some l \<Rightarrow> map_option fst (map_of l f))"

lemma render_Inr: "render vs s = Inr t \<longleftrightarrow>
    list_all (\<lambda>p. \<forall>n. p = Var n \<longrightarrow> map_of vs n \<noteq> None) (pieces s) \<and> t = concat (map (piece_value vs) (pieces s))"
proof -
  have "find (\<lambda>p. \<exists>n. p = Var n \<and> map_of vs n = None) (pieces s) = None \<longleftrightarrow>
      list_all (\<lambda>p. \<forall>n. p = Var n \<longrightarrow> map_of vs n \<noteq> None) (pieces s)"
    by (auto simp: find_None_iff list_all_iff)
  moreover have "\<exists>n. p = Var n" if "find (\<lambda>p. \<exists>n. p = Var n \<and> map_of vs n = None) (pieces s) = Some p" for p
    using that by (auto simp: find_Some_iff)
  ultimately show ?thesis unfolding render_pieces by (auto split: option.split piece.split)
qed

lemma apply_files_data:
  fixes exec :: "string \<Rightarrow> 'd \<Rightarrow> 'e + 'd"
  shows "apply_files exec digest vs files n d = (Inr m, d') \<Longrightarrow> exec_rendered exec vs files (sc_data d) = Some (sc_data d')"
proof (induction files arbitrary: n d)
  case (Cons x xs)
  obtain name raw where x: "x = (name, raw)" by fastforce
  obtain d1 where d1: "apply_file exec digest vs x d = Inr d1" "apply_files exec digest vs xs (Suc n) d1 = (Inr m, d')"
    using Cons.prems by (auto split: sum.splits)
  obtain sql where "render vs raw = Inr sql" "exec sql (sc_data d) = Inr (sc_data d1)"
    using d1(1) by (auto simp: apply_file_def x split: sum.splits)
  then show ?case using Cons.IH[OF d1(2)] by (simp add: x)
qed simp

lemma apply_files_checksums:
  "apply_files exec digest vs files n d = (Inr m, d') \<Longrightarrow> sc_ledger d \<noteq> None \<Longrightarrow> distinct (map fst files) \<Longrightarrow>
    (f \<notin> set (map fst files) \<longrightarrow> checksum_of d' f = checksum_of d f) \<and>
    ((f, raw) \<in> set files \<longrightarrow> checksum_of d' f = Some (take 16 (digest raw)))"
proof (induction files arbitrary: n d)
  case (Cons x xs)
  obtain d1 where d1: "apply_file exec digest vs x d = Inr d1" "apply_files exec digest vs xs (Suc n) d1 = (Inr m, d')"
    using Cons.prems(1) by (auto split: sum.splits)
  have l: "checksum_of d1 g = (if g = fst x then Some (take 16 (digest (snd x))) else checksum_of d g) \<and> sc_ledger d1 \<noteq> None" for g
    using d1(1) Cons.prems(2)
    by (auto simp: apply_file_def checksum_of_def map_of_record_run split: prod.splits sum.splits)
  have "distinct (map fst xs)" using Cons.prems(3) by simp
  from Cons.IH[OF d1(2) conjunct2[OF l] this] show ?case using l[of f] Cons.prems(3) by force
qed simp

text \<open>Masking depends on the user and on what stands behind the last character of the password only.\<close>

lemma redact_plain: "CHR '':'' \<notin> set a \<Longrightarrow> redact_dsn (a @ s) = a @ redact_dsn s"
proof (induction a)
  case (Cons c a)
  then have "credentials_at (c # a @ s) = None" by (auto simp: credentials_at_def)
  then show ?case using Cons redact_dsn.simps[of "c # a @ s"] by simp
qed simp

lemma redact_credentials:
  assumes "CHR '':'' \<notin> set scheme" "user \<noteq> []" "set user \<inter> set '':/@'' = {}" "CHR ''@'' \<notin> set password"
  shows "redact_dsn (scheme @ ''://'' @ user @ '':'' @ password @ ''@'' @ rest) =
    scheme @ ''://'' @ user @ '':***@'' @ redact_dsn rest"
proof -
  let ?s = "''://'' @ user @ '':'' @ password @ ''@'' @ rest"
  have u: "takeWhile (\<lambda>c. c \<notin> set '':/@'') (user @ CHR '':'' # x) = user"
    "dropWhile (\<lambda>c. c \<notin> set '':/@'') (user @ CHR '':'' # x) = CHR '':'' # x" for x
    using assms(3) by (induction user) auto
  have p: "dropWhile (\<lambda>c. c \<noteq> CHR ''@'') (password @ CHR ''@'' # rest) = CHR ''@'' # rest"
    using assms(4) by (induction password) auto
  have "credentials_at ?s = Some (user, rest)"
    using u[of "password @ CHR ''@'' # rest"] p assms(2) by (simp add: credentials_at_def)
  then show ?thesis using redact_dsn.simps[of ?s] redact_plain[OF assms(1), of ?s] by simp
qed

text \<open>Running again over data that every file leaves as they are only counts.\<close>

lemma rerun_only_counts:
  assumes "list_all (\<lambda>(name, raw). \<exists>sql. render vs raw = Inr sql \<and> exec sql (sc_data d) = Inr (sc_data d)) files"
  shows "\<exists>d'. apply_files exec digest vs files n d = (Inr (n + length files), d') \<and> sc_data d' = sc_data d"
  using assms
proof (induction files arbitrary: n d)
  case (Cons x xs)
  obtain name raw where x: "x = (name, raw)" by fastforce
  obtain sql where sql: "render vs raw = Inr sql" "exec sql (sc_data d) = Inr (sc_data d)"
    using Cons.prems by (auto simp: x)
  define d1 where "d1 = d \<lparr> sc_ledger := map_option (record_run name (take 16 (digest raw))) (sc_ledger d) \<rparr>"
  have d1: "apply_file exec digest vs x d = Inr d1" "sc_data d1 = sc_data d"
    by (simp_all add: apply_file_def x sql d1_def)
  have "list_all (\<lambda>(name, raw). \<exists>sql. render vs raw = Inr sql \<and> exec sql (sc_data d1) = Inr (sc_data d1)) xs"
    using Cons.prems d1(2) by simp
  from Cons.IH[OF this, of "Suc n"] show ?case using d1 by simp
qed simp

section \<open>The properties\<close>

text \<open>C31. Migrations apply in order and stop at the first failure. Whatever ends a run, the database holds exactly
  the effects of a prefix of the files in name order: their rendered texts executed one after the other, one more
  run in the ledger for each of them and for no other file, and the checksums of their texts. The run succeeds
  only if the prefix is everything.\<close>

theorem migrations_apply_in_order:
  fixes exec :: "string \<Rightarrow> 'd \<Rightarrow> 'e + 'd"
  assumes "apply_all exec digest env files dsn d = (r, d')" "distinct (map fst files)"
  shows "\<exists>k \<le> length files.
    (case r of Inl _ \<Rightarrow> k < length files \<or> files = [] | Inr n \<Rightarrow> k = length files \<and> n = k \<and> files \<noteq> []) \<and>
    (\<forall>vs. template_values env = Inr vs \<longrightarrow>
       exec_rendered exec vs (take k (migration_files files)) (sc_data d) = Some (sc_data d')) \<and>
    (\<forall>f. run_count d' f = run_count d f + of_bool (f \<in> set (map fst (take k (migration_files files))))) \<and>
    (\<forall>(f, raw) \<in> set (take k (migration_files files)). checksum_of d' f = Some (take 16 (digest raw)))"
proof (cases "template_values env")
  case (Inl e)
  then show ?thesis using assms(1) by (intro exI[of _ 0]) (auto simp: apply_all_def)
next
  case (Inr vs)
  show ?thesis
  proof (cases "apply_all exec digest env files dsn d = apply_files exec digest vs (migration_files files) 0 (create_ledger d) \<and> files \<noteq> []")
    case False
    then have "\<exists>e. r = Inl e \<and> d' = d"
      using assms(1) unfolding apply_all_def Inr by (cases "files = []") (auto split: sum.splits)
    then show ?thesis by (intro exI[of _ 0]) auto
  next
    case True
    let ?fs = "migration_files files"
    have len: "length ?fs = length files" "distinct (map fst ?fs)" using assms(2)
      by (simp_all add: migration_files_def distinct_map_sort_key)
    have f: "apply_files exec digest vs ?fs 0 (create_ledger d) = (r, d')" using assms(1) True by simp
    obtain k where k: "k \<le> length files" "apply_files exec digest vs (take k ?fs) 0 (create_ledger d) = (Inr k, d')"
      "case r of Inr m \<Rightarrow> k = length files \<and> m = k | Inl e \<Rightarrow> k < length files"
      using apply_files_prefix[OF f] len(1) by (cases r) auto
    have c: "sc_ledger (create_ledger d) \<noteq> None" "sc_data (create_ledger d) = sc_data d"
      "run_count (create_ledger d) f = run_count d f" for f
      by (auto simp: create_ledger_def run_count_def split: option.split)
    have dt: "distinct (map fst (take k ?fs))" using len(2) by (rule distinct_map_take)
    have "run_count d' f = run_count d f + of_bool (f \<in> set (map fst (take k ?fs)))" for f
      using apply_files_count[OF k(2) c(1), of f] c(3)[of f] dt by (simp add: count_list_distinct)
    moreover have "exec_rendered exec vs (take k ?fs) (sc_data d) = Some (sc_data d')"
      using apply_files_data[OF k(2)] c(2) by simp
    moreover have "checksum_of d' f = Some (take 16 (digest raw))" if "(f, raw) \<in> set (take k ?fs)" for f raw
      using apply_files_checksums[OF k(2) c(1) dt] that by blast
    ultimately show ?thesis using k(1,3) True Inr by (intro exI[of _ k]) (auto split: sum.splits)
  qed
qed

text \<open>Three files, the second of which fails: the data is the list of statements executed.\<close>

definition ex_exec :: "string \<Rightarrow> string list \<Rightarrow> string + string list" where
  "ex_exec sql done = (if sql = ''bad'' then Inl sql else Inr (done @ [sql]))"

definition ex_env :: environ where
  "ex_env = map_of [(''APP_DB_PASSWORD'', ''x''), (''DATABASE_URL'', ''postgresql://db'')]"

definition ex_run :: "(string migrate_exn + nat) \<times> string list schema" where
  "ex_run = apply_all ex_exec (\<lambda>s. s) ex_env [(''2'', ''bad''), (''1'', ''a''), (''3'', ''c'')] None
     \<lparr> sc_data = [], sc_ledger = None \<rparr>"

lemma ex_files: "migration_files [(''2'', ''bad''), (''1'', ''a''), (''3'', ''c'')] = [(''1'', ''a''), (''2'', ''bad''), (''3'', ''c'')]"
  by (simp add: migration_files_def)

lemma ex_render: "render vs ''bad'' = Inr ''bad''" "render vs ''a'' = Inr ''a''"
  by (simp_all add: render_cases placeholder_at_def)

lemma ex_run_fails: "fst ex_run = Inl (StatementFailed ''bad'')"
proof -
  have "\<exists>vs. template_values ex_env = Inr vs"
    by (simp add: template_values_def template_vars_def template_value_def env_set_def ex_env_def no_default_def
        template_defaults_def isdigit_char_def digit_def digits_value_def)
  then obtain vs where vs: "template_values ex_env = Inr vs" by blast
  have a: "admin_dsn ex_env = Inr ''postgresql://db''" by (simp add: admin_dsn_def env_set_def ex_env_def)
  show ?thesis
    by (simp add: ex_run_def apply_all_def vs a ex_files apply_file_def ex_render ex_exec_def create_ledger_def)
qed

theorem migrations_apply_in_order_witness:
  "\<exists>k < 3. \<forall>f. run_count (snd ex_run) f = of_bool (f \<in> set (take k [''1'', ''2'', ''3'']))"
proof -
  have r: "apply_all ex_exec (\<lambda>s. s) ex_env [(''2'', ''bad''), (''1'', ''a''), (''3'', ''c'')] None
     \<lparr> sc_data = [], sc_ledger = None \<rparr> = (Inl (StatementFailed ''bad''), snd ex_run)"
    using ex_run_fails unfolding ex_run_def by (metis prod.collapse)
  have d: "distinct (map fst [(''2'', ''bad''), (''1'', ''a''), (''3'', ''c'')])" by simp
  from migrations_apply_in_order[OF r d, unfolded ex_files sum.case] show ?thesis
  proof (elim exE conjE)
    fix k
    assume k: "k < length [(''2'', ''bad''), (''1'', ''a''), (''3'', ''c'')] \<or> [(''2'', ''bad''), (''1'', ''a''), (''3'', ''c'')] = []"
      "\<forall>f. run_count (snd ex_run) f = run_count \<lparr> sc_data = [], sc_ledger = None \<rparr> f +
         of_bool (f \<in> set (map fst (take k [(''1'', ''a''), (''2'', ''bad''), (''3'', ''c'')])))"
    then show ?thesis by (intro exI[of _ k]) (simp add: run_count_def flip: take_map)
  qed
qed

text \<open>A masked connection string does not depend on the password, as long as it holds no raw \<^verbatim>\<open>@\<close>: two strings
  that differ in it only are printed alike.\<close>

lemma printed_dsn_hides_password:
  assumes "CHR '':'' \<notin> set scheme" "user \<noteq> []" "set user \<inter> set '':/@'' = {}"
    and "CHR ''@'' \<notin> set password" "CHR ''@'' \<notin> set other"
  shows "redact_dsn (scheme @ ''://'' @ user @ '':'' @ password @ ''@'' @ rest) =
    redact_dsn (scheme @ ''://'' @ user @ '':'' @ other @ ''@'' @ rest)"
  by (rule trans[OF redact_credentials[OF assms(1-4)] redact_credentials[OF assms(1-3,5), symmetric]])

lemma printed_dsn_hides_password_witness:
  "redact_dsn ''postgresql://app:one@db/x'' = redact_dsn ''postgresql://app:two:/@db/x''"
  using printed_dsn_hides_password[of "''postgresql''" "''app''" "''one''" "''two:/''" "''db/x''"] by simp

text \<open>Without a user nothing is masked; a raw \<^verbatim>\<open>@\<close> ends the masked part.\<close>

lemma password_shown:
  "redact_dsn ''postgresql://:secret@db/x'' = ''postgresql://:secret@db/x''"
  "redact_dsn ''postgresql://app:p@ss@db/x'' = ''postgresql://app:***@ss@db/x''"
  by (simp_all add: redact_dsn.simps credentials_at_def)

end
