(* ===== verification/Settings.thy ===== *)
theory Settings
  imports Dsn Reflection Breaker Capture Search Composer
begin

text \<open>
  Where every setting of the program comes from: \<^verbatim>\<open>load_env\<close>, which reads the environment file once, the \<^verbatim>\<open>_env\<close> function
  of each package with its table of defaults, and the conversions \<^verbatim>\<open>int\<close> and \<^verbatim>\<open>float\<close> of a string, as CPython
  does them for code points below 256. The environment is a function from names to optional values; the pairs
  that \<^verbatim>\<open>dotenv\<close> finds in the file are a parameter. The other theories use a setting at its default, or take it
  as an argument; the last section relates the two.
\<close>

section \<open>The environment file\<close>

text \<open>What \<^verbatim>\<open>load_dotenv\<close> can find: no library, no file, or the variables of the file in order.\<close>

datatype dotenv = NoLibrary | NoFile | Pairs "(string \<times> string option) list"

fun load_dotenv :: "bool \<Rightarrow> (string \<times> string option) list \<Rightarrow> environ \<Rightarrow> environ" where
  "load_dotenv override [] env = env"
| "load_dotenv override ((k, v) # ps) env =
     load_dotenv override ps
       (if (env k \<noteq> None \<and> \<not> override) \<or> v = None then env else env(k := v))"

text \<open>The state is the flag \<^verbatim>\<open>_env_loaded\<close> with the environment.\<close>

definition load_env :: "dotenv \<Rightarrow> bool \<Rightarrow> bool \<times> environ \<Rightarrow> bool \<times> environ" where
  "load_env found override s =
     (if fst s \<and> \<not> override then s
      else case found of
          NoLibrary \<Rightarrow> (True, snd s)
        | NoFile \<Rightarrow> (True, snd s)
        | Pairs ps \<Rightarrow> (True, load_dotenv override ps (snd s)))"

section \<open>Reading numbers\<close>

text \<open>The white space \<^verbatim>\<open>int\<close> and \<^verbatim>\<open>float\<close> step over is not that of \<^verbatim>\<open>str.strip\<close>: the separators 28 to 31 are missing.\<close>

definition number_space :: "char \<Rightarrow> bool" where
  "number_space c \<longleftrightarrow> (let n = (of_char c :: nat) in (9 \<le> n \<and> n \<le> 13) \<or> n = 32 \<or> n = 133 \<or> n = 160)"

definition trim_number :: "string \<Rightarrow> string" where
  "trim_number s = rev (dropWhile number_space (rev (dropWhile number_space s)))"

text \<open>An underscore may stand between two digits only. The flag says whether a digit has just been read.\<close>

fun drop_underscores :: "bool \<Rightarrow> string \<Rightarrow> string option" where
  "drop_underscores d [] = Some []"
| "drop_underscores d (c # cs) =
     (if c = CHR ''_'' then (if d \<and> (case cs of e # _ \<Rightarrow> digit e | [] \<Rightarrow> False) then drop_underscores False cs else None)
      else map_option ((#) c) (drop_underscores (digit c) cs))"

definition split_sign :: "string \<Rightarrow> bool \<times> string" where
  "split_sign s = (if take 1 s = ''-'' then (True, drop 1 s) else (False, if take 1 s = ''+'' then drop 1 s else s))"

definition py_int :: "string \<Rightarrow> int res" where
  "py_int s = (case drop_underscores False (trim_number s) of
       None \<Rightarrow> Inl ValueError
     | Some t \<Rightarrow>
         (let (neg, ds) = split_sign t
          in if ds = [] \<or> \<not> list_all digit ds \<or> digit_limit < length ds then Inl ValueError
             else Inr ((if neg then - 1 else 1) * int (digits_value ds))))"

definition special_float :: "string \<Rightarrow> pyfloat option" where
  "special_float s = map_of [(''inf'', PosInf), (''infinity'', PosInf), (''nan'', NaN)] (lower s)"

fun float_neg :: "pyfloat \<Rightarrow> pyfloat" where
  "float_neg (Fin x) = Fin (- x)"
| "float_neg NaN = NaN"
| "float_neg PosInf = NegInf"
| "float_neg NegInf = PosInf"

definition float_parts :: "string \<Rightarrow> string \<times> string \<times> int \<times> string" where
  "float_parts s =
     (let whole = takeWhile digit s;
          r0 = dropWhile digit s;
          dot = (take 1 r0 = ''.'');
          fraction = (if dot then takeWhile digit (drop 1 r0) else []);
          r1 = (if dot then dropWhile digit (drop 1 r0) else r0);
          (ex, r2) = scan_exponent r1
      in (whole, fraction, (case ex of None \<Rightarrow> 0 | Some e \<Rightarrow> e), r2))"

definition py_float_str :: "string \<Rightarrow> pyfloat res" where
  "py_float_str s = (case drop_underscores False (trim_number s) of
       None \<Rightarrow> Inl ValueError
     | Some t \<Rightarrow>
         (let (neg, u) = split_sign t
          in case special_float u of
               Some x \<Rightarrow> Inr (if neg then float_neg x else x)
             | None \<Rightarrow>
                 (let (whole, fraction, e, r) = float_parts u
                  in if whole @ fraction = [] \<or> r \<noteq> [] then Inl ValueError
                     else Inr (float_literal neg whole fraction e))))"

section \<open>The defaults and the lookup of each package\<close>

definition retrieve_defaults :: "(string \<times> string) list" where
  "retrieve_defaults =
     [(''RANKING_TOP_K'', ''5''), (''RANKING_DEBUG'', ''0''), (''SEMANTIC_TOP_K'', ''5''), (''KEYWORD_TOP_K'', ''5''),
      (''PATH_TIMEOUT_MS'', ''5000''), (''BREAKER_FAILURE_THRESHOLD'', ''3''), (''BREAKER_COOLDOWN_SECONDS'', ''30''),
      (''RETRIEVAL_TIMEOUT_MS'', ''6000''), (''BREAKER_REDIS_KEY'', ''memsys:breaker:retrieval'')]"

definition capture_defaults :: "(string \<times> string) list" where
  "capture_defaults =
     [(''CAPTURE_CONFIDENCE_FLOOR'', ''0.45''), (''CAPTURE_DEDUP_COSINE_THRESHOLD'', ''0.82''),
      (''CAPTURE_MAX_CANDIDATES_PER_TURN'', ''8''), (''CAPTURE_TIMEOUT_SECONDS'', ''600''),
      (''CAPTURE_WORKER_CONCURRENCY'', ''2''), (''CAPTURE_QUEUE_MAXSIZE'', ''256''),
      (''CAPTURE_WEIGHT_INCREMENT'', ''0.25''), (''CAPTURE_WEIGHT_MAX'', ''5.0''),
      (''CAPTURE_PII_SCORE_THRESHOLD'', ''0.30''), (''CAPTURE_LOCK_TIMEOUT_MS'', ''30000'')]"

definition context_defaults :: "(string \<times> string) list" where
  "context_defaults = [(''TOKEN_BUDGET'', ''512''), (''FALLBACK_ENCODING'', ''o200k_base'')]"

definition decay_defaults :: "(string \<times> string) list" where
  "decay_defaults =
     [(''DECAY_HALF_LIFE_DAYS'', ''30.0''), (''DECAY_DAMPING_REFERENCE'', ''3.0''), (''DECAY_FLOOR'', ''0.05''),
      (''DECAY_ARCHIVE_THRESHOLD'', ''0.10''), (''DECAY_BATCH_SIZE'', ''50''), (''DECAY_MAX_BATCHES'', ''10000'')]"

definition reflection_defaults :: "(string \<times> string) list" where
  "reflection_defaults =
     [(''REFLECTION_MAX_DISTANCE'', ''0.45''), (''REFLECTION_MIN_CLUSTER'', ''3''), (''REFLECTION_MAX_CLUSTER'', ''8''),
      (''REFLECTION_CANDIDATE_LIMIT'', ''200'')]"

definition llm_defaults :: "(string \<times> string) list" where
  "llm_defaults =
     [(''LLM_MODEL'', ''groq/openai/gpt-oss-120b''), (''LLM_FALLBACK_MODEL'', ''groq/qwen/qwen3.8-27b''),
      (''EMBEDDING_MODEL'', ''voyage/voyage-3.5''), (''EMBEDDING_DIM'', ''1024''), (''LLM_MAX_TOKENS'', ''1024''),
      (''LLM_TIMEOUT_SECONDS'', ''60''), (''LLM_MAX_RETRIES'', ''2''), (''LLM_RATE_LIMIT_ATTEMPTS'', ''6''),
      (''LLM_RATE_LIMIT_BASE_DELAY'', ''4.0''), (''LLM_RATE_LIMIT_MAX_DELAY'', ''60.0'')]"

text \<open>A name of the table: the variable if it is set and not empty, the default otherwise. Each package has its copy
  of the function; two of them look the variable up under a prefix.\<close>

definition default_of :: "(string \<times> string) list \<Rightarrow> string \<Rightarrow> string res" where
  "default_of table name = (case map_of table name of Some v \<Rightarrow> Inr v | None \<Rightarrow> Inl KeyError)"

definition retrieve_env :: "environ \<Rightarrow> string \<Rightarrow> string res" where
  "retrieve_env env name = (case env (''RETRIEVE_'' @ name) of
       None \<Rightarrow> default_of retrieve_defaults name
     | Some v \<Rightarrow> if v = [] then default_of retrieve_defaults name else Inr v)"

definition capture_env_var :: "environ \<Rightarrow> string \<Rightarrow> string res" where
  "capture_env_var env name = (case env name of
       None \<Rightarrow> default_of capture_defaults name
     | Some v \<Rightarrow> if v = [] then default_of capture_defaults name else Inr v)"

definition context_env :: "environ \<Rightarrow> string \<Rightarrow> string res" where
  "context_env env name = (case env (''CONTEXT_'' @ name) of
       None \<Rightarrow> default_of context_defaults name
     | Some v \<Rightarrow> if v = [] then default_of context_defaults name else Inr v)"

definition decay_env :: "environ \<Rightarrow> string \<Rightarrow> string res" where
  "decay_env env name = (case env name of
       None \<Rightarrow> default_of decay_defaults name
     | Some v \<Rightarrow> if v = [] then default_of decay_defaults name else Inr v)"

definition reflection_env_var :: "environ \<Rightarrow> string \<Rightarrow> string res" where
  "reflection_env_var env name = (case env name of
       None \<Rightarrow> default_of reflection_defaults name
     | Some v \<Rightarrow> if v = [] then default_of reflection_defaults name else Inr v)"

definition llm_env :: "environ \<Rightarrow> string \<Rightarrow> string res" where
  "llm_env env name = (case env name of
       None \<Rightarrow> default_of llm_defaults name
     | Some v \<Rightarrow> if v = [] then default_of llm_defaults name else Inr v)"

lemmas env_defs = retrieve_env_def capture_env_var_def context_env_def decay_env_def reflection_env_var_def llm_env_def

definition map_ok :: "('a \<Rightarrow> 'b) \<Rightarrow> 'a res \<Rightarrow> 'b res" where
  "map_ok f m = bind_res m (\<lambda>x. Inr (f x))"

section \<open>Retrieval\<close>

definition ranking_top_k_setting :: "environ \<Rightarrow> int res" where
  "ranking_top_k_setting env = bind_res (retrieve_env env ''RANKING_TOP_K'') py_int"

definition ranking_debug :: "environ \<Rightarrow> bool res" where
  "ranking_debug env =
     map_ok (\<lambda>v. lower (strip v) \<in> {''1'', ''true'', ''yes'', ''on''}) (retrieve_env env ''RANKING_DEBUG'')"

definition semantic_top_k_setting :: "environ \<Rightarrow> int res" where
  "semantic_top_k_setting env = bind_res (retrieve_env env ''SEMANTIC_TOP_K'') py_int"

definition keyword_top_k_setting :: "environ \<Rightarrow> int res" where
  "keyword_top_k_setting env = bind_res (retrieve_env env ''KEYWORD_TOP_K'') py_int"

definition path_timeout_ms :: "environ \<Rightarrow> int res" where
  "path_timeout_ms env = bind_res (retrieve_env env ''PATH_TIMEOUT_MS'') py_int"

definition path_timeout_seconds :: "environ \<Rightarrow> real res" where
  "path_timeout_seconds env = map_ok (\<lambda>n. of_int n / 1000) (path_timeout_ms env)"

definition breaker_failure_threshold :: "environ \<Rightarrow> int res" where
  "breaker_failure_threshold env = map_ok (max 1) (bind_res (retrieve_env env ''BREAKER_FAILURE_THRESHOLD'') py_int)"

definition breaker_cooldown_seconds :: "environ \<Rightarrow> pyfloat res" where
  "breaker_cooldown_seconds env = bind_res (retrieve_env env ''BREAKER_COOLDOWN_SECONDS'') py_float_str"

definition retrieval_timeout_ms :: "environ \<Rightarrow> int res" where
  "retrieval_timeout_ms env = bind_res (retrieve_env env ''RETRIEVAL_TIMEOUT_MS'') py_int"

definition retrieval_timeout_seconds :: "environ \<Rightarrow> real res" where
  "retrieval_timeout_seconds env = map_ok (\<lambda>n. of_int n / 1000) (retrieval_timeout_ms env)"

definition breaker_redis_key :: "environ \<Rightarrow> string res" where
  "breaker_redis_key env = retrieve_env env ''BREAKER_REDIS_KEY''"

definition embed_cache_path :: "environ \<Rightarrow> string option" where
  "embed_cache_path env = env_set env ''RETRIEVE_EMBED_CACHE''"

section \<open>Capture\<close>

definition confidence_floor_setting :: "environ \<Rightarrow> pyfloat res" where
  "confidence_floor_setting env = bind_res (capture_env_var env ''CAPTURE_CONFIDENCE_FLOOR'') py_float_str"

definition dedup_cosine_threshold_setting :: "environ \<Rightarrow> pyfloat res" where
  "dedup_cosine_threshold_setting env = bind_res (capture_env_var env ''CAPTURE_DEDUP_COSINE_THRESHOLD'') py_float_str"

definition max_candidates_setting :: "environ \<Rightarrow> int res" where
  "max_candidates_setting env = bind_res (capture_env_var env ''CAPTURE_MAX_CANDIDATES_PER_TURN'') py_int"

definition capture_timeout_seconds :: "environ \<Rightarrow> pyfloat res" where
  "capture_timeout_seconds env = bind_res (capture_env_var env ''CAPTURE_TIMEOUT_SECONDS'') py_float_str"

definition worker_concurrency_setting :: "environ \<Rightarrow> int res" where
  "worker_concurrency_setting env = map_ok (max 1) (bind_res (capture_env_var env ''CAPTURE_WORKER_CONCURRENCY'') py_int)"

definition queue_maxsize_setting :: "environ \<Rightarrow> int res" where
  "queue_maxsize_setting env = bind_res (capture_env_var env ''CAPTURE_QUEUE_MAXSIZE'') py_int"

definition weight_increment_setting :: "environ \<Rightarrow> pyfloat res" where
  "weight_increment_setting env = bind_res (capture_env_var env ''CAPTURE_WEIGHT_INCREMENT'') py_float_str"

definition weight_max_setting :: "environ \<Rightarrow> pyfloat res" where
  "weight_max_setting env = bind_res (capture_env_var env ''CAPTURE_WEIGHT_MAX'') py_float_str"

definition lock_timeout_ms :: "environ \<Rightarrow> int res" where
  "lock_timeout_ms env = bind_res (capture_env_var env ''CAPTURE_LOCK_TIMEOUT_MS'') py_int"

definition pii_score_threshold_setting :: "environ \<Rightarrow> pyfloat res" where
  "pii_score_threshold_setting env = bind_res (capture_env_var env ''CAPTURE_PII_SCORE_THRESHOLD'') py_float_str"

definition spacy_model_name :: "environ \<Rightarrow> string" where
  "spacy_model_name env = (case env ''PII_SPACY_MODEL'' of Some v \<Rightarrow> v | None \<Rightarrow> ''en_core_web_sm'')"

section \<open>Context and jobs\<close>

definition token_budget_setting :: "environ \<Rightarrow> int res" where
  "token_budget_setting env = bind_res (context_env env ''TOKEN_BUDGET'') py_int"

definition fallback_encoding :: "environ \<Rightarrow> string res" where
  "fallback_encoding env = context_env env ''FALLBACK_ENCODING''"

definition half_life_days_setting :: "environ \<Rightarrow> pyfloat res" where
  "half_life_days_setting env = bind_res (decay_env env ''DECAY_HALF_LIFE_DAYS'') py_float_str"

definition damping_reference_setting :: "environ \<Rightarrow> pyfloat res" where
  "damping_reference_setting env =
     map_ok (py_max (Fin (1 / 1000000000))) (bind_res (decay_env env ''DECAY_DAMPING_REFERENCE'') py_float_str)"

definition decay_floor_setting :: "environ \<Rightarrow> pyfloat res" where
  "decay_floor_setting env = bind_res (decay_env env ''DECAY_FLOOR'') py_float_str"

definition archive_threshold_setting :: "environ \<Rightarrow> pyfloat res" where
  "archive_threshold_setting env = bind_res (decay_env env ''DECAY_ARCHIVE_THRESHOLD'') py_float_str"

definition batch_size_setting :: "environ \<Rightarrow> int res" where
  "batch_size_setting env = map_ok (max 1) (bind_res (decay_env env ''DECAY_BATCH_SIZE'') py_int)"

definition max_batches_setting :: "environ \<Rightarrow> int res" where
  "max_batches_setting env = map_ok (max 1) (bind_res (decay_env env ''DECAY_MAX_BATCHES'') py_int)"

definition cluster_max_distance_setting :: "environ \<Rightarrow> pyfloat res" where
  "cluster_max_distance_setting env = bind_res (reflection_env_var env ''REFLECTION_MAX_DISTANCE'') py_float_str"

definition min_cluster_size_setting :: "environ \<Rightarrow> int res" where
  "min_cluster_size_setting env = map_ok (max 2) (bind_res (reflection_env_var env ''REFLECTION_MIN_CLUSTER'') py_int)"

definition max_cluster_size_setting :: "environ \<Rightarrow> int res" where
  "max_cluster_size_setting env =
     bind_res (min_cluster_size_setting env)
       (\<lambda>m. map_ok (max m) (bind_res (reflection_env_var env ''REFLECTION_MAX_CLUSTER'') py_int))"

definition candidate_limit_setting :: "environ \<Rightarrow> int res" where
  "candidate_limit_setting env =
     bind_res (min_cluster_size_setting env)
       (\<lambda>m. map_ok (max m) (bind_res (reflection_env_var env ''REFLECTION_CANDIDATE_LIMIT'') py_int))"

section \<open>The model seam and the database\<close>

definition resolve_completion_model :: "environ \<Rightarrow> string res" where
  "resolve_completion_model env = llm_env env ''LLM_MODEL''"

definition resolve_fallback_model :: "environ \<Rightarrow> string res" where
  "resolve_fallback_model env = llm_env env ''LLM_FALLBACK_MODEL''"

definition resolve_embedding_model :: "environ \<Rightarrow> string res" where
  "resolve_embedding_model env = llm_env env ''EMBEDDING_MODEL''"

definition resolve_embedding_dim :: "environ \<Rightarrow> int res" where
  "resolve_embedding_dim env = bind_res (llm_env env ''EMBEDDING_DIM'') py_int"

definition default_max_tokens_setting :: "environ \<Rightarrow> int res" where
  "default_max_tokens_setting env = map_ok (max min_max_tokens) (bind_res (llm_env env ''LLM_MAX_TOKENS'') py_int)"

definition request_timeout :: "environ \<Rightarrow> pyfloat res" where
  "request_timeout env = bind_res (llm_env env ''LLM_TIMEOUT_SECONDS'') py_float_str"

definition max_retries :: "environ \<Rightarrow> int res" where
  "max_retries env = bind_res (llm_env env ''LLM_MAX_RETRIES'') py_int"

definition rate_limit_attempts :: "environ \<Rightarrow> int res" where
  "rate_limit_attempts env = bind_res (llm_env env ''LLM_RATE_LIMIT_ATTEMPTS'') py_int"

text \<open>\<^verbatim>\<open>store/db.py\<close> has its own reader of the vector width, without the rule for empty values.\<close>

definition embedding_dim :: "environ \<Rightarrow> int res" where
  "embedding_dim env = py_int (case env ''EMBEDDING_DIM'' of Some v \<Rightarrow> v | None \<Rightarrow> ''1024'')"

text \<open>The import-time check of \<^verbatim>\<open>jobs/decay.py\<close>: the module raises when the comparison holds.\<close>

definition pf_le :: "pyfloat \<Rightarrow> pyfloat \<Rightarrow> bool" where
  "pf_le a b \<longleftrightarrow> pf_lt a b \<or> (a = b \<and> a \<noteq> NaN)"

definition decay_import :: "environ \<Rightarrow> bool res" where
  "decay_import env =
     bind_res (archive_threshold_setting env) (\<lambda>a. map_ok (\<lambda>f. \<not> pf_le a f) (decay_floor_setting env))"

section \<open>Lookup and conversion\<close>

lemma map_ok_simps [simp]: "map_ok f (Inr x) = Inr (f x)" "map_ok f (Inl e) = Inl e"
  by (simp_all add: map_ok_def)

lemma load_dotenv_keeps: "env k = Some v \<Longrightarrow> load_dotenv False ps env k = Some v"
proof (induction ps arbitrary: env)
  case (Cons p ps)
  obtain a w where p: "p = (a, w)" by (cases p)
  show ?case
    unfolding p load_dotenv.simps
    by (rule Cons.IH) (use Cons.prems in auto)
qed simp

lemma load_env_keeps:
  "snd s k = Some v \<Longrightarrow> snd (load_env found False s) k = Some v"
  by (auto simp: load_env_def load_dotenv_keeps split: dotenv.splits)

text \<open>The file is read once: after the first call every further one changes nothing, whatever it would find.\<close>

lemma load_env_once: "load_env found' False (load_env found override s) = load_env found override s"
  by (auto simp: load_env_def split: dotenv.splits)

lemma drop_underscores_plain: "CHR ''_'' \<notin> set s \<Longrightarrow> drop_underscores d s = Some s"
  by (induction s arbitrary: d) auto

lemma dropWhile_all: "list_all P xs \<Longrightarrow> dropWhile P (xs @ ys) = dropWhile P ys"
  by (induction xs) auto

lemma trim_number_pad:
  assumes "list_all number_space l" "list_all number_space r" "s \<noteq> []"
    "\<not> number_space (hd s)" "\<not> number_space (last s)"
  shows "trim_number (l @ s @ r) = s"
proof -
  have h: "dropWhile number_space (s @ r) = s @ r" using assms(3,4) by (cases s) auto
  have rs: "rev s = last s # rev (butlast s)" using assms(3) by (metis append_butlast_last_id rev_eq_Cons_iff rev_rev_ident)
  have t: "dropWhile number_space (rev s) = rev s" by (subst (1 2) rs) (simp add: assms(5))
  have "list_all number_space (rev r)" using assms(2) by (simp add: list_all_iff)
  then show ?thesis by (simp add: trim_number_def dropWhile_all[OF assms(1)] h dropWhile_all t)
qed

lemma digit_not_space: "digit c \<Longrightarrow> \<not> number_space c"
  by (auto simp: digit_def number_space_def Let_def)

lemma digit_not_mark: "digit c \<Longrightarrow> c \<noteq> CHR ''_'' \<and> c \<noteq> CHR ''-'' \<and> c \<noteq> CHR ''+''"
  by (auto simp: digit_def Let_def)

text \<open>An integer with its sign and white space around it is read as the number its digits denote.\<close>

lemma py_int_reads:
  assumes ds: "ds \<noteq> []" "list_all digit ds" "length ds \<le> digit_limit"
    and pad: "list_all number_space l" "list_all number_space r"
  shows "py_int (l @ ds @ r) = Inr (int (digits_value ds))"
    and "py_int (l @ (CHR ''-'' # ds) @ r) = Inr (- int (digits_value ds))"
proof -
  have dig: "digit (hd ds)" "digit (last ds)" using ds(1,2) by (auto simp: list_all_iff)
  have no: "CHR ''_'' \<notin> set ds" "CHR ''_'' \<notin> set (CHR ''-'' # ds)"
    using ds(2) by (auto simp: list_all_iff dest: digit_not_mark)
  have sp: "\<not> number_space (CHR ''-'')" by (simp add: number_space_def)
  have 1: "trim_number (l @ ds @ r) = ds"
    by (rule trim_number_pad[OF pad ds(1)]) (use dig digit_not_space in auto)
  have 2: "trim_number (l @ (CHR ''-'' # ds) @ r) = CHR ''-'' # ds"
    by (rule trim_number_pad[OF pad]) (use ds(1) dig digit_not_space sp in auto)
  have s1: "split_sign ds = (False, ds)"
    using ds(1) digit_not_mark[OF dig(1)] by (cases ds) (auto simp: split_sign_def)
  have s2: "split_sign (CHR ''-'' # ds) = (True, ds)" by (simp add: split_sign_def)
  show "py_int (l @ ds @ r) = Inr (int (digits_value ds))"
    unfolding py_int_def 1 drop_underscores_plain[OF no(1)] using ds by (simp add: s1)
  show "py_int (l @ (CHR ''-'' # ds) @ r) = Inr (- int (digits_value ds))"
    unfolding py_int_def 2 drop_underscores_plain[OF no(2)] using ds by (simp add: s2)
qed

lemma nat_str_length: "n < 10 ^ Suc k \<Longrightarrow> length (nat_str n) \<le> Suc k"
proof (induction k arbitrary: n)
  case 0 then show ?case by (simp add: nat_str.simps[of n])
next
  case (Suc k)
  then have "n div 10 < 10 ^ Suc k" by (simp add: less_mult_imp_div_less mult.commute)
  then show ?case using Suc.IH[of "n div 10"] by (cases "n < 10") (simp_all add: nat_str.simps[of n])
qed

text \<open>Writing an integer and reading it back, up to the length \<^verbatim>\<open>int\<close> accepts.\<close>

lemma int_str_length:
  assumes "\<bar>k\<bar> < 10 ^ n" "0 < n"
  shows "length (nat_str (nat \<bar>k\<bar>)) \<le> n"
proof -
  obtain j where j: "n = Suc j" using assms(2) by (cases n) auto
  have "int (nat \<bar>k\<bar>) < int (10 ^ n)" using assms(1) by simp
  then have "nat \<bar>k\<bar> < 10 ^ n" by (simp only: of_nat_less_iff)
  then show ?thesis using nat_str_length[of "nat \<bar>k\<bar>" j] j by simp
qed

lemma py_int_reads_back:
  assumes "\<bar>k\<bar> < 10 ^ digit_limit"
  shows "py_int (int_str k) = Inr k"
proof -
  have len: "length (nat_str (nat \<bar>k\<bar>)) \<le> digit_limit"
    using int_str_length[OF assms] by (simp add: digit_limit_def)
  note d = nat_str_digits[of "nat \<bar>k\<bar>"]
  note r = py_int_reads[of "nat_str (nat \<bar>k\<bar>)" "[]" "[]"]
  show ?thesis
  proof (cases "k < 0")
    case True
    then have "int_str k = CHR ''-'' # nat_str (nat \<bar>k\<bar>)" by (simp add: int_str_def)
    then show ?thesis using r(2) d len True by simp
  next
    case False
    then have "int_str k = nat_str (nat \<bar>k\<bar>)" by (simp add: int_str_def)
    then show ?thesis using r(1) d len False by simp
  qed
qed

lemma py_int_error: "py_int s = Inl e \<Longrightarrow> e = ValueError"
  by (auto simp: py_int_def Let_def split: option.splits if_splits prod.splits)

lemma py_float_str_error: "py_float_str s = Inl e \<Longrightarrow> e = ValueError"
  by (auto simp: py_float_str_def Let_def split: option.splits if_splits prod.splits)

section \<open>One law for every lookup\<close>

definition unset :: "string \<Rightarrow> (string \<times> string) list \<Rightarrow> environ \<Rightarrow> bool" where
  "unset pre table env \<longleftrightarrow> list_all (\<lambda>n. env_set env (pre @ n) = None) (map fst table)"

text \<open>A conversion of a name of its own table fails in one way only.\<close>

definition sound_setting :: "('a \<Rightarrow> bool) \<Rightarrow> 'a res \<Rightarrow> bool" where
  "sound_setting P r = (case r of Inr x \<Rightarrow> P x | Inl e \<Rightarrow> e = ValueError)"

lemma sound_map_ok: "sound_setting (\<lambda>x. P (f x)) r \<Longrightarrow> sound_setting P (map_ok f r)"
  by (cases r) (auto simp: sound_setting_def map_ok_def)

text \<open>What the packages' functions share: a variable that is set and not empty wins, the table answers otherwise.\<close>

locale env_lookup =
  fixes lookup :: "environ \<Rightarrow> string \<Rightarrow> string res" and pre :: string and table :: "(string \<times> string) list"
  assumes lookup: "lookup env name = (case env_set env (pre @ name) of Some v \<Rightarrow> Inr v | None \<Rightarrow> default_of table name)"
begin

lemma total: "map_of table name \<noteq> None \<Longrightarrow> lookup env name \<noteq> Inl e"
  by (auto simp: lookup default_of_def split: option.splits)

lemma configured: "env_set env (pre @ name) = Some v \<Longrightarrow> lookup env name = Inr v"
  by (simp add: lookup)

lemma unset_lookup: "unset pre table env \<Longrightarrow> map_of table name = Some v \<Longrightarrow> lookup env name = Inr v"
  using map_of_SomeD[of table name v] by (auto simp: lookup unset_def list_all_iff default_of_def)

lemma sound_int: "map_of table name \<noteq> None \<Longrightarrow> (\<And>n. P n) \<Longrightarrow> sound_setting P (bind_res (lookup env name) py_int)"
  using total[of name] by (cases "lookup env name") (auto simp: sound_setting_def dest: py_int_error split: sum.splits)

lemma sound_float: "map_of table name \<noteq> None \<Longrightarrow> (\<And>x. P x) \<Longrightarrow> sound_setting P (bind_res (lookup env name) py_float_str)"
  using total[of name] by (cases "lookup env name") (auto simp: sound_setting_def dest: py_float_str_error split: sum.splits)

end

lemma env_set_case:
  "(case env n of None \<Rightarrow> d | Some v \<Rightarrow> if v = [] then d else Inr v) = (case env_set env n of None \<Rightarrow> d | Some v \<Rightarrow> Inr v)"
  by (auto simp: env_set_def split: option.splits)

interpretation rt: env_lookup retrieve_env "''RETRIEVE_''" retrieve_defaults
  by unfold_locales (auto simp: retrieve_env_def env_set_case split: option.split)

interpretation cp: env_lookup capture_env_var "[]" capture_defaults
  by unfold_locales (auto simp: capture_env_var_def env_set_case split: option.split)

interpretation cx: env_lookup context_env "''CONTEXT_''" context_defaults
  by unfold_locales (auto simp: context_env_def env_set_case split: option.split)

interpretation dc: env_lookup decay_env "[]" decay_defaults
  by unfold_locales (auto simp: decay_env_def env_set_case split: option.split)

interpretation rf: env_lookup reflection_env_var "[]" reflection_defaults
  by unfold_locales (auto simp: reflection_env_var_def env_set_case split: option.split)

interpretation lm: env_lookup llm_env "[]" llm_defaults
  by unfold_locales (auto simp: llm_env_def env_set_case split: option.split)

section \<open>The settings\<close>

text \<open>The lookups, the numbers and the clamps in one collection.\<close>

lemmas setting_defs =
  ranking_top_k_setting_def ranking_debug_def semantic_top_k_setting_def keyword_top_k_setting_def path_timeout_ms_def
  path_timeout_seconds_def breaker_failure_threshold_def breaker_cooldown_seconds_def retrieval_timeout_ms_def
  retrieval_timeout_seconds_def breaker_redis_key_def confidence_floor_setting_def
  dedup_cosine_threshold_setting_def max_candidates_setting_def capture_timeout_seconds_def
  worker_concurrency_setting_def queue_maxsize_setting_def weight_increment_setting_def weight_max_setting_def
  lock_timeout_ms_def pii_score_threshold_setting_def token_budget_setting_def fallback_encoding_def
  half_life_days_setting_def damping_reference_setting_def decay_floor_setting_def archive_threshold_setting_def
  batch_size_setting_def max_batches_setting_def cluster_max_distance_setting_def min_cluster_size_setting_def
  max_cluster_size_setting_def candidate_limit_setting_def resolve_completion_model_def
  resolve_fallback_model_def resolve_embedding_model_def resolve_embedding_dim_def default_max_tokens_setting_def
  request_timeout_def max_retries_def rate_limit_attempts_def

lemmas default_tables =
  retrieve_defaults_def capture_defaults_def context_defaults_def decay_defaults_def reflection_defaults_def
  llm_defaults_def

lemma map_ok_Inr_iff: "map_ok f m = Inr y \<longleftrightarrow> (\<exists>x. m = Inr x \<and> y = f x)"
  by (cases m) auto

lemma map_ok_Inl [simp]: "map_ok f m = Inl e \<longleftrightarrow> m = Inl e"
  by (cases m) auto

lemma bind_res_Inl: "bind_res m f = Inl e \<longleftrightarrow> m = Inl e \<or> (\<exists>x. m = Inr x \<and> f x = Inl e)"
  by (cases m) auto

text \<open>The bounds the clamps give, in whatever environment a value comes out at all.\<close>

lemma clamps:
  "breaker_failure_threshold env = Inr n \<Longrightarrow> 1 \<le> n"
  "worker_concurrency_setting env = Inr n \<Longrightarrow> 1 \<le> n"
  "batch_size_setting env = Inr n \<Longrightarrow> 1 \<le> n"
  "max_batches_setting env = Inr n \<Longrightarrow> 1 \<le> n"
  "min_cluster_size_setting env = Inr n \<Longrightarrow> 2 \<le> n"
  "default_max_tokens_setting env = Inr n \<Longrightarrow> min_max_tokens \<le> n"
  by (auto simp: setting_defs map_ok_Inr_iff)

lemma cluster_bounds:
  assumes "min_cluster_size_setting env = Inr m"
  shows "max_cluster_size_setting env = Inr n \<Longrightarrow> m \<le> n"
    and "candidate_limit_setting env = Inr n \<Longrightarrow> m \<le> n"
  using assms by (auto simp: max_cluster_size_setting_def candidate_limit_setting_def map_ok_Inr_iff)

text \<open>The damping reference stays positive: Python's \<^verbatim>\<open>max\<close> drops a NaN in second position.\<close>

lemma damping_positive: "damping_reference_setting env = Inr x \<Longrightarrow> pf_lt (Fin 0) x \<and> x \<noteq> NaN"
  by (auto simp: damping_reference_setting_def map_ok_Inr_iff py_max_def split: if_splits
      elim!: pf_lt.elims)

section \<open>The defaults are the constants of the other theories\<close>

text \<open>A plain decimal numeral of moderate size is read as the number it denotes.\<close>

lemma float_literal_plain:
  assumes "digits_value (whole @ fraction) \<le> 10 ^ 9"
  shows "float_literal False whole fraction 0 = Fin (real (digits_value (whole @ fraction)) / 10 ^ length fraction)"
proof -
  let ?x = "real (digits_value (whole @ fraction)) * 10 powi (0 - int (length fraction))"
  have x: "?x = real (digits_value (whole @ fraction)) / 10 ^ length fraction"
    by (simp add: power_int_minus divide_inverse)
  have "real (digits_value (whole @ fraction)) \<le> real (10 ^ 9)" using assms by (simp only: of_nat_le_iff)
  then have num: "real (digits_value (whole @ fraction)) \<le> 10 ^ 9" by simp
  have "?x \<le> real (digits_value (whole @ fraction)) / 1"
    unfolding x by (rule divide_left_mono) auto
  also have "\<dots> \<le> 10 ^ 9" using num by simp
  also have "(10::real) ^ 9 < 2 ^ 40" by simp
  also have "(2::real) ^ 40 \<le> 2 ^ 970" by (rule power_increasing) auto
  also have "(2::real) ^ 970 \<le> 2 ^ 1024 - 2 ^ 970"
  proof -
    have "(2::real) ^ 1024 = 2 ^ 53 * (2 * 2 ^ 970)" by (simp only: power_add[symmetric] power_Suc[symmetric]) simp
    moreover have "1 * (2 * 2 ^ 970) \<le> (2::real) ^ 53 * (2 * 2 ^ 970)" by (rule mult_right_mono) auto
    ultimately show ?thesis by linarith
  qed
  finally show ?thesis by (simp only: float_literal_def Let_def x) simp
qed

lemma takeWhile_all: "list_all P xs \<Longrightarrow> takeWhile P (xs @ ys) = xs @ takeWhile P ys"
  by (induction xs) auto

lemma span_all: "list_all P xs \<Longrightarrow> takeWhile P xs = xs" "list_all P xs \<Longrightarrow> dropWhile P xs = []"
  by (induction xs) auto

lemma not_special:
  assumes "\<not> digit c \<longrightarrow> c = CHR ''.''"
  shows "special_float (c # cs) = None"
proof -
  have "lower_char c \<noteq> CHR ''i'' \<and> lower_char c \<noteq> CHR ''n''"
    using assms by (auto simp: lower_char_def digit_def Let_def char_of_def)
  then show ?thesis by (auto simp: special_float_def lower_def)
qed

lemma plain_char:
  assumes "digit c \<or> c = CHR ''.''"
  shows "\<not> number_space c" "c \<noteq> CHR ''_''" "c \<noteq> CHR ''-''" "c \<noteq> CHR ''+''"
  using assms digit_not_space[of c] digit_not_mark[of c] by (auto simp: number_space_def)

lemma plain_text:
  assumes "s \<noteq> []" "list_all (\<lambda>c. digit c \<or> c = CHR ''.'') s"
  shows "drop_underscores False (trim_number s) = Some s" "split_sign s = (False, s)" "special_float s = None"
proof -
  have all: "\<And>c. c \<in> set s \<Longrightarrow> digit c \<or> c = CHR ''.''" using assms(2) by (auto simp: list_all_iff)
  have "trim_number ([] @ s @ []) = s"
    by (rule trim_number_pad) (use assms(1) all plain_char(1) in auto)
  then show "drop_underscores False (trim_number s) = Some s"
    using all plain_char(2) by (auto intro!: drop_underscores_plain)
  show "split_sign s = (False, s)"
  proof (cases s)
    case (Cons c cs)
    then have "c \<noteq> CHR ''-''" "c \<noteq> CHR ''+''" using all[of c] plain_char(3,4) by auto
    then show ?thesis by (simp add: split_sign_def Cons)
  qed (simp add: assms(1))
  show "special_float s = None"
  proof (cases s)
    case (Cons c cs)
    then have "\<not> digit c \<longrightarrow> c = CHR ''.''" using all[of c] by auto
    from not_special[OF this] show ?thesis by (simp add: Cons)
  qed (simp add: assms(1))
qed

lemma scan_exponent_nil [simp]: "scan_exponent [] = (None, [])"
  by (simp add: scan_exponent_def)

lemma py_float_str_plain:
  assumes "list_all digit whole" "list_all digit fraction" "whole @ fraction \<noteq> []"
    and small: "digits_value (whole @ fraction) \<le> 10 ^ 9"
  shows "py_float_str (whole @ CHR ''.'' # fraction) = Inr (Fin (real (digits_value (whole @ fraction)) / 10 ^ length fraction))"
proof -
  let ?s = "whole @ CHR ''.'' # fraction"
  have dot: "\<not> digit (CHR ''.'')" by (simp add: digit_def)
  have "list_all (\<lambda>c. digit c \<or> c = CHR ''.'') ?s" using assms(1,2) by (auto simp: list_all_iff)
  note t = plain_text[OF _ this]
  have parts: "float_parts ?s = (whole, fraction, 0, [])"
    using takeWhile_all[OF assms(1), of "CHR ''.'' # fraction"] dropWhile_all[OF assms(1), of "CHR ''.'' # fraction"]
      dot
    by (simp add: float_parts_def span_all[OF assms(2)])
  show ?thesis
    using t assms(3) by (simp add: py_float_str_def parts float_literal_plain[OF small] del: append_is_Nil_conv)
qed

lemma py_float_str_whole:
  assumes "list_all digit whole" "whole \<noteq> []" and small: "digits_value whole \<le> 10 ^ 9"
  shows "py_float_str whole = Inr (Fin (real (digits_value whole)))"
proof -
  have "list_all (\<lambda>c. digit c \<or> c = CHR ''.'') whole" using assms(1) by (auto simp: list_all_iff)
  note t = plain_text[OF assms(2) this]
  have parts: "float_parts whole = (whole, [], 0, [])"
    by (simp add: float_parts_def span_all[OF assms(1)])
  have "digits_value (whole @ []) \<le> 10 ^ 9" using small by simp
  from float_literal_plain[OF this]
  have "float_literal False whole [] 0 = Fin (real (digits_value whole))" by simp
  then show ?thesis using t assms(2) by (simp add: py_float_str_def parts)
qed

lemma read_float:
  assumes "digits_value (whole @ fraction) = n" "n \<le> 10 ^ 9" "list_all digit (whole @ fraction)" "whole @ fraction \<noteq> []"
  shows "py_float_str (whole @ CHR ''.'' # fraction) = Inr (Fin (real n / 10 ^ length fraction))"
  using py_float_str_plain[of whole fraction] assms by simp

lemma read_defaults:
  "py_float_str ''0.45'' = Inr (Fin 0.45)" "py_float_str ''0.82'' = Inr (Fin 0.82)"
  "py_float_str ''0.25'' = Inr (Fin 0.25)" "py_float_str ''0.30'' = Inr (Fin 0.30)"
  "py_float_str ''0.05'' = Inr (Fin 0.05)" "py_float_str ''0.10'' = Inr (Fin 0.10)"
  "py_float_str ''5.0'' = Inr (Fin 5)" "py_float_str ''30.0'' = Inr (Fin 30)" "py_float_str ''3.0'' = Inr (Fin 3)"
  "py_float_str ''4.0'' = Inr (Fin 4)" "py_float_str ''60.0'' = Inr (Fin 60)"
  "py_float_str ''600'' = Inr (Fin 600)" "py_float_str ''30'' = Inr (Fin 30)" "py_float_str ''60'' = Inr (Fin 60)"
  using read_float[of "''0''" "''45''" 45] read_float[of "''0''" "''82''" 82] read_float[of "''0''" "''25''" 25]
    read_float[of "''0''" "''30''" 30] read_float[of "''0''" "''05''" 5] read_float[of "''0''" "''10''" 10]
    read_float[of "''5''" "''0''" 50] read_float[of "''30''" "''0''" 300] read_float[of "''3''" "''0''" 30]
    read_float[of "''4''" "''0''" 40] read_float[of "''60''" "''0''" 600]
    py_float_str_whole[of "''600''"] py_float_str_whole[of "''30''"] py_float_str_whole[of "''60''"]
  by (simp_all add: digits_value_def digit_def power2_eq_square)

lemma read_int: "list_all digit ds \<Longrightarrow> ds \<noteq> [] \<Longrightarrow> length ds \<le> digit_limit \<Longrightarrow> py_int ds = Inr (int (digits_value ds))"
  using py_int_reads(1)[of ds "[]" "[]"] by simp

lemma read_numbers:
  "py_int ''5'' = Inr 5" "py_int ''5000'' = Inr 5000" "py_int ''3'' = Inr 3" "py_int ''6000'' = Inr 6000"
  "py_int ''8'' = Inr 8" "py_int ''2'' = Inr 2" "py_int ''256'' = Inr 256" "py_int ''30000'' = Inr 30000"
  "py_int ''512'' = Inr 512" "py_int ''50'' = Inr 50" "py_int ''10000'' = Inr 10000" "py_int ''200'' = Inr 200"
  "py_int ''1024'' = Inr 1024" "py_int ''6'' = Inr 6"
  by (simp_all add: read_int digits_value_def digit_def digit_limit_def)

text \<open>With its variables unset, or empty, every package runs on the constants the other theories use.\<close>

lemma retrieve_defaults_used:
  assumes "unset ''RETRIEVE_'' retrieve_defaults env"
  shows "semantic_top_k_setting env = Inr (int semantic_top_k)" "keyword_top_k_setting env = Inr (int keyword_top_k)"
    "ranking_top_k_setting env = Inr 5" "path_timeout_seconds env = Inr 5" "retrieval_timeout_seconds env = Inr 6"
    "breaker_failure_threshold env = Inr 3" "breaker_cooldown_seconds env = Inr (Fin 30)"
    "breaker_redis_key env = Inr ''memsys:breaker:retrieval''" "ranking_debug env = Inr False"
  by (simp_all add: rt.unset_lookup[OF assms] retrieve_defaults_def setting_defs
      read_numbers read_defaults semantic_top_k_def keyword_top_k_def py_defs)

lemma capture_defaults_used:
  assumes "unset '''' capture_defaults env"
  shows "confidence_floor_setting env = Inr (Fin confidence_floor)"
    "dedup_cosine_threshold_setting env = Inr (Fin dedup_cosine_threshold)"
    "max_candidates_setting env = Inr (int max_candidates_per_turn)"
    "capture_timeout_seconds env = Inr (Fin capture_timeout)"
    "worker_concurrency_setting env = Inr (int worker_concurrency)" "queue_maxsize_setting env = Inr (int queue_maxsize)"
    "weight_increment_setting env = Inr (Fin weight_increment)" "weight_max_setting env = Inr (Fin weight_max)"
    "pii_score_threshold_setting env = Inr (Fin pii_score_threshold)" "lock_timeout_ms env = Inr 30000"
  by (simp_all add: cp.unset_lookup[OF assms] capture_defaults_def setting_defs
      read_numbers read_defaults confidence_floor_def dedup_cosine_threshold_def max_candidates_per_turn_def
      capture_timeout_def worker_concurrency_def queue_maxsize_def weight_increment_def weight_max_def
      pii_score_threshold_def)

lemma decay_defaults_used:
  assumes "unset '''' decay_defaults env"
  shows "half_life_days_setting env = Inr (Fin half_life_days)" "decay_floor_setting env = Inr (Fin decay_floor)"
    "damping_reference_setting env = Inr (Fin damping_reference)"
    "archive_threshold_setting env = Inr (Fin archive_threshold)"
    "batch_size_setting env = Inr (int batch_size)" "max_batches_setting env = Inr (int max_batches)"
    "decay_import env = Inr threshold_guard"
  by (simp_all add: dc.unset_lookup[OF assms] decay_defaults_def setting_defs decay_import_def
      read_numbers read_defaults half_life_days_def decay_floor_def damping_reference_def archive_threshold_def
      batch_size_def max_batches_def py_max_def pf_le_def threshold_guard_def)

lemma reflection_defaults_used:
  assumes "unset '''' reflection_defaults env"
  shows "cluster_max_distance_setting env = Inr (Fin cluster_max_distance)"
    "min_cluster_size_setting env = Inr (int min_cluster_size)"
    "max_cluster_size_setting env = Inr (int max_cluster_size)"
    "candidate_limit_setting env = Inr (int candidate_limit)"
  by (simp_all add: rf.unset_lookup[OF assms] reflection_defaults_def setting_defs
      read_numbers read_defaults cluster_max_distance_def min_cluster_size_def max_cluster_size_def candidate_limit_def)

lemma llm_defaults_used:
  assumes "unset '''' llm_defaults env"
  shows "resolve_completion_model env = Inr (ls_model default_settings)"
    "resolve_embedding_model env = Inr (ls_embedding_model default_settings)"
    "resolve_embedding_dim env = Inr (int (ls_dim default_settings))"
    "default_max_tokens_setting env = Inr (default_max_tokens default_settings)"
    "rate_limit_attempts env = Inr (ls_attempts default_settings)"
    "bind_res (llm_env env ''LLM_RATE_LIMIT_BASE_DELAY'') py_float_str = Inr (Fin (ls_base_delay default_settings))"
    "bind_res (llm_env env ''LLM_RATE_LIMIT_MAX_DELAY'') py_float_str = Inr (Fin (ls_max_delay default_settings))"
    "request_timeout env = Inr (Fin 60)" "max_retries env = Inr 2"
  by (simp_all add: lm.unset_lookup[OF assms] llm_defaults_def setting_defs
      read_numbers read_defaults default_settings_def default_max_tokens_def min_max_tokens_def)

text \<open>The two readers of the vector width part ways on a variable that is set but empty.\<close>

lemma empty_width_splits_the_readers:
  assumes "env ''EMBEDDING_DIM'' = Some []"
  shows "resolve_embedding_dim env = Inr 1024" "embedding_dim env = Inl ValueError"
proof -
  have "py_int [] = Inl ValueError" by code_simp
  then show "embedding_dim env = Inl ValueError" by (simp add: embedding_dim_def assms)
  show "resolve_embedding_dim env = Inr 1024"
    by (simp add: resolve_embedding_dim_def llm_env_def assms default_of_def llm_defaults_def read_numbers)
qed

section \<open>Bad values are loud, good ones are safe\<close>

text \<open>Whatever the variables say, a setting that is read at all is within its clamp, and one that cannot be read is
  a \<^verbatim>\<open>ValueError\<close>: no default is taken silently in place of a bad value.\<close>

lemma above_damping_floor: "pf_lt (Fin (1 / 1000000000)) x \<Longrightarrow> pf_lt (Fin 0) x"
  by (cases x) auto

lemmas sound_intros = sound_map_ok rt.sound_int cp.sound_int dc.sound_int dc.sound_float rf.sound_int lm.sound_int

lemma settings_are_sound:
  "sound_setting (\<lambda>n. 1 \<le> n) (breaker_failure_threshold env)"
  "sound_setting (\<lambda>n. 1 \<le> n) (worker_concurrency_setting env)"
  "sound_setting (\<lambda>n. 1 \<le> n) (batch_size_setting env)"
  "sound_setting (\<lambda>n. 1 \<le> n) (max_batches_setting env)"
  "sound_setting (\<lambda>n. 2 \<le> n) (min_cluster_size_setting env)"
  "sound_setting (\<lambda>n. min_max_tokens \<le> n) (default_max_tokens_setting env)"
  "sound_setting (\<lambda>x. pf_lt (Fin 0) x) (damping_reference_setting env)"
  unfolding setting_defs
  by (auto intro!: sound_intros simp: default_tables py_max_def above_damping_floor)

end
