(* ===== verification/Lifecycle.thy ===== *)
theory Lifecycle
  imports Settings
begin

text \<open>
  What is bound to an event loop: the capture worker as a singleton of the process (\<^verbatim>\<open>capture/worker.py\<close>:
  \<^verbatim>\<open>ensure_started\<close>, \<^verbatim>\<open>enqueue\<close>, \<^verbatim>\<open>stop\<close>, \<^verbatim>\<open>drain\<close>, \<^verbatim>\<open>get_worker\<close>, \<^verbatim>\<open>reset_worker\<close>) and the default circuit breaker with its
  client (\<^verbatim>\<open>retrieve/breaker.py\<close>: the constructor, \<^verbatim>\<open>_redis\<close>, \<^verbatim>\<open>aclose\<close>, \<^verbatim>\<open>get_breaker\<close>, \<^verbatim>\<open>reset_breaker\<close>). An event loop is
  a number; at most one runs at a time. The queue, the jobs in hand and the record of runs are those of theory
  Capture; here loops come and go. The state is the code's and nothing else: when a pool is rebuilt, its old
  queue and the jobs in hand are gone. What was handed over and what was recorded is read off the trace of a
  history, never off a ledger in its states. (The one list the code keeps only in its log and in a counter is
  \<open>wk_dropped\<close> of theory Capture, the turns a full queue refused.) Should a loop that was left alive run again,
  a consumer in the middle of an abandoned job could still finish it; the model counts that job as gone.
\<close>

section \<open>The capture worker and the running loop\<close>

type_synonym event_loop = nat

text \<open>\<open>bw_tasks\<close> says of each consumer task whether it is still alive, \<open>bw_home\<close> is the loop they were created on.\<close>

record bound_worker =
  bw_loop :: "event_loop option"
  bw_maxsize :: int
  bw_has_queue :: bool
  bw_pool :: worker
  bw_tasks :: "bool list"
  bw_home :: "event_loop option"

definition new_worker :: bound_worker where
  "new_worker = \<lparr> bw_loop = None, bw_maxsize = 0, bw_has_queue = False, bw_pool = idle_worker, bw_tasks = [],
     bw_home = None \<rparr>"

datatype worker_exn = NotOnEventLoop | BadSetting py_exn

text \<open>A rebuilt pool starts with an empty queue and idle consumers; the rolling record belongs to the worker and
  stays. The jobs of the old queue and of the old consumers go with them.\<close>

definition fresh_pool :: "worker \<Rightarrow> worker" where
  "fresh_pool w = w \<lparr> wk_queue := [], wk_running := [] \<rparr>"

definition ensure_started ::
  "environ \<Rightarrow> event_loop option \<Rightarrow> bound_worker \<Rightarrow> (worker_exn + unit) \<times> bound_worker" where
  "ensure_started env running b =
     (case running of
        None \<Rightarrow> (Inl NotOnEventLoop, b)
      | Some l \<Rightarrow>
          if bw_loop b = Some l \<and> bw_tasks b \<noteq> [] \<and> \<not> list_all Not (bw_tasks b) then (Inr (), b)
          else (let b0 = b \<lparr> bw_loop := Some l \<rparr>
                in case queue_maxsize_setting env of
                     Inl e \<Rightarrow> (Inl (BadSetting e), b0)
                   | Inr m \<Rightarrow>
                       (let b1 = b0 \<lparr> bw_maxsize := m, bw_has_queue := True, bw_pool := fresh_pool (bw_pool b0) \<rparr>
                        in case worker_concurrency_setting env of
                             Inl e \<Rightarrow> (Inl (BadSetting e), b1)
                           | Inr n \<Rightarrow> (Inr (), b1 \<lparr> bw_tasks := replicate (nat n) True, bw_home := Some l \<rparr>))))"

definition enqueue_on :: "environ \<Rightarrow> event_loop option \<Rightarrow> capture_job \<Rightarrow> bound_worker \<Rightarrow>
    (worker_exn + uuid) \<times> bound_worker" where
  "enqueue_on env running j b =
     (case ensure_started env running b of
        (Inl e, b') \<Rightarrow> (Inl e, b')
      | (Inr _, b') \<Rightarrow> (Inr (j_id j), b' \<lparr> bw_pool := enqueue (nat (bw_maxsize b')) j (bw_pool b') \<rparr>))"

definition stop_worker :: "bound_worker \<Rightarrow> bound_worker" where
  "stop_worker b =
     b \<lparr> bw_tasks := [], bw_loop := None, bw_has_queue := False, bw_pool := fresh_pool (bw_pool b), bw_home := None \<rparr>"

definition depth :: "bound_worker \<Rightarrow> nat" where
  "depth b = (if bw_has_queue b then length (wk_queue (bw_pool b)) else 0)"

text \<open>\<^verbatim>\<open>drain\<close> waits for \<^verbatim>\<open>Queue.join\<close>: the states the pool goes through before the timeout are an argument.\<close>

definition unfinished :: "worker \<Rightarrow> nat" where
  "unfinished w = length (wk_queue w) + length (wk_running w)"

definition drain_worker :: "bound_worker \<Rightarrow> worker list \<Rightarrow> bool" where
  "drain_worker b later \<longleftrightarrow> \<not> bw_has_queue b \<or> list_ex (\<lambda>w. unfinished w = 0) (bw_pool b # later)"

section \<open>The process\<close>

text \<open>The running loop and the singleton.\<close>

record process =
  pr_loop :: "event_loop option"
  pr_worker :: "bound_worker option"

definition new_process :: process where
  "new_process = \<lparr> pr_loop = None, pr_worker = None \<rparr>"

definition get_worker :: "environ \<Rightarrow> process \<Rightarrow> (worker_exn + unit) \<times> process" where
  "get_worker env p =
     (let b = (case pr_worker p of None \<Rightarrow> new_worker | Some b \<Rightarrow> b);
          (r, b') = ensure_started env (pr_loop p) b
      in (r, p \<lparr> pr_worker := Some b' \<rparr>))"

text \<open>\<^verbatim>\<open>get_worker().enqueue(...)\<close>, the call the chat handler makes.\<close>

definition hand_over :: "environ \<Rightarrow> capture_job \<Rightarrow> process \<Rightarrow> (worker_exn + uuid) \<times> process" where
  "hand_over env j p =
     (case get_worker env p of
        (Inl e, p') \<Rightarrow> (Inl e, p')
      | (Inr _, p') \<Rightarrow>
          (case pr_worker p' of
             None \<Rightarrow> (Inl NotOnEventLoop, p')
           | Some b \<Rightarrow> (let (r, b') = enqueue_on env (pr_loop p') j b in (r, p' \<lparr> pr_worker := Some b' \<rparr>))))"

text \<open>The singleton is stopped and let go, with all it holds.\<close>

definition reset_worker :: "process \<Rightarrow> process" where
  "reset_worker p = p \<lparr> pr_worker := None \<rparr>"

text \<open>When a loop shuts down its tasks are cancelled, and a cancelled job leaves no record.\<close>

definition cancel_tasks :: "process \<Rightarrow> process" where
  "cancel_tasks p =
     (case pr_worker p of
        None \<Rightarrow> p
      | Some b \<Rightarrow>
          p \<lparr> pr_worker := Some (b \<lparr> bw_tasks := map (\<lambda>_. False) (bw_tasks b), bw_pool := (bw_pool b) \<lparr> wk_running := [] \<rparr> \<rparr>) \<rparr>)"

text \<open>The consumers work while their loop runs.\<close>

definition served :: "process \<Rightarrow> bound_worker \<Rightarrow> bool" where
  "served p b \<longleftrightarrow> pr_loop p \<noteq> None \<and> bw_home b = pr_loop p \<and> bw_has_queue b \<and> bw_tasks b \<noteq> [] \<and> list_all id (bw_tasks b)"

text \<open>What can happen to the process, and the histories as traces of that.\<close>

datatype process_event =
    Switched "event_loop option"
  | ShutDown
  | Handed capture_job
  | Refused capture_job
  | Took
  | Ended capture_job job_record
  | Stopped
  | ResetWorker

inductive process_step :: "environ \<Rightarrow> process \<Rightarrow> process_event \<Rightarrow> process \<Rightarrow> bool" for env where
  switched: "process_step env p (Switched l) (p \<lparr> pr_loop := l \<rparr>)"
| shut: "process_step env p ShutDown (cancel_tasks p)"
| handed: "hand_over env j p = (Inr i, p') \<Longrightarrow> process_step env p (Handed j) p'"
| refused: "hand_over env j p = (Inl e, p') \<Longrightarrow> process_step env p (Refused j) p'"
| took: "pr_worker p = Some b \<Longrightarrow> served p b \<Longrightarrow> take_job (length (bw_tasks b)) (bw_pool b) = Some w \<Longrightarrow>
    process_step env p Took (p \<lparr> pr_worker := Some (b \<lparr> bw_pool := w \<rparr>) \<rparr>)"
| ended: "pr_worker p = Some b \<Longrightarrow> served p b \<Longrightarrow> j \<in> set (wk_running (bw_pool b)) \<Longrightarrow> r = fst (run_job ce c j d) \<Longrightarrow>
    process_step env p (Ended j r) (p \<lparr> pr_worker := Some (b \<lparr> bw_pool := finish_job j r (bw_pool b) \<rparr>) \<rparr>)"
| stopped: "pr_worker p = Some b \<Longrightarrow> process_step env p Stopped (p \<lparr> pr_worker := Some (stop_worker b) \<rparr>)"
| reset: "process_step env p ResetWorker (reset_worker p)"

inductive process_steps :: "environ \<Rightarrow> process \<Rightarrow> process_event list \<Rightarrow> process \<Rightarrow> bool" for env p where
  none: "process_steps env p [] p"
| more: "process_steps env p es q \<Longrightarrow> process_step env q e q' \<Longrightarrow> process_steps env p (es @ [e]) q'"

abbreviation process_life :: "environ \<Rightarrow> process_event list \<Rightarrow> process \<Rightarrow> bool" where
  "process_life env \<equiv> process_steps env new_process"

text \<open>The turns a trace accepts and the turns it records, and the events that leave the worker where it is.\<close>

definition handed_turns :: "process_event list \<Rightarrow> capture_job list" where
  "handed_turns es = List.map_filter (\<lambda>e. case e of Handed j \<Rightarrow> Some j | _ \<Rightarrow> None) es"

definition recorded_turns :: "process_event list \<Rightarrow> (capture_job \<times> job_record) list" where
  "recorded_turns es = List.map_filter (\<lambda>e. case e of Ended j r \<Rightarrow> Some (j, r) | _ \<Rightarrow> None) es"

definition standing :: "process_event list \<Rightarrow> bool" where
  "standing es \<longleftrightarrow> list_all (\<lambda>e. case e of Switched _ \<Rightarrow> False | ShutDown \<Rightarrow> False | Stopped \<Rightarrow> False | ResetWorker \<Rightarrow> False | _ \<Rightarrow> True) es"

definition working :: "process_event list \<Rightarrow> bool" where
  "working es \<longleftrightarrow> list_all (\<lambda>e. case e of Took \<Rightarrow> True | Ended _ _ \<Rightarrow> True | _ \<Rightarrow> False) es"

lemma trace_append [simp]:
  "handed_turns (es @ es') = handed_turns es @ handed_turns es'"
  "recorded_turns (es @ es') = recorded_turns es @ recorded_turns es'"
  "standing (es @ es') \<longleftrightarrow> standing es \<and> standing es'" "working (es @ es') \<longleftrightarrow> working es \<and> working es'"
  by (simp_all add: handed_turns_def recorded_turns_def standing_def working_def List.map_filter_def)

lemma trace_single [simp]:
  "handed_turns [e] = (case e of Handed j \<Rightarrow> [j] | _ \<Rightarrow> [])"
  "recorded_turns [e] = (case e of Ended j r \<Rightarrow> [(j, r)] | _ \<Rightarrow> [])"
  "standing [e] \<longleftrightarrow> (case e of Switched _ \<Rightarrow> False | ShutDown \<Rightarrow> False | Stopped \<Rightarrow> False | ResetWorker \<Rightarrow> False | _ \<Rightarrow> True)"
  "working [e] \<longleftrightarrow> (case e of Took \<Rightarrow> True | Ended _ _ \<Rightarrow> True | _ \<Rightarrow> False)"
  by (cases e; simp add: handed_turns_def recorded_turns_def standing_def working_def List.map_filter_def)+

lemma trace_Nil [simp]: "handed_turns [] = []" "recorded_turns [] = []" "standing []" "working []"
  by (simp_all add: handed_turns_def recorded_turns_def standing_def working_def List.map_filter_def)

section \<open>Turns survive while the loop stands\<close>

text \<open>The turns a worker answers for: refused by its full queue, waiting, or in a consumer's hands.\<close>

definition pool_jobs :: "bound_worker \<Rightarrow> capture_job list" where
  "pool_jobs b = wk_dropped (bw_pool b) @ wk_queue (bw_pool b) @ wk_running (bw_pool b)"

text \<open>Either no consumer was ever created, or both settings are good and the consumers are those of the bound loop,
  all alive or all cancelled together.\<close>

definition bound_ok :: "environ \<Rightarrow> bound_worker \<Rightarrow> bool" where
  "bound_ok env b \<longleftrightarrow> bw_tasks b = [] \<or>
     (\<exists>m n. queue_maxsize_setting env = Inr m \<and> worker_concurrency_setting env = Inr n \<and> length (bw_tasks b) = nat n \<and> bw_has_queue b \<and>
        bw_home b = bw_loop b \<and> (list_all id (bw_tasks b) \<or> list_all Not (bw_tasks b)))"

lemma list_all_id_Not: "xs \<noteq> [] \<Longrightarrow> list_all id xs \<Longrightarrow> \<not> list_all Not xs"
  by (cases xs) auto

lemma ensure_started_cases:
  assumes "ensure_started env running b = (r, b')"
  obtains (off) "r = Inl NotOnEventLoop" "b' = b"
  | (kept) "running \<noteq> None" "bw_loop b = running" "bw_tasks b \<noteq> []" "\<not> list_all Not (bw_tasks b)"
      "r = Inr ()" "b' = b"
  | (size) e where "queue_maxsize_setting env = Inl e" "r = Inl (BadSetting e)" "b' = b \<lparr> bw_loop := running \<rparr>"
  | (count) e m where "worker_concurrency_setting env = Inl e" "r = Inl (BadSetting e)"
      "b' = b \<lparr> bw_loop := running, bw_maxsize := m, bw_has_queue := True, bw_pool := fresh_pool (bw_pool b) \<rparr>"
  | (built) m n where "running \<noteq> None" "queue_maxsize_setting env = Inr m" "worker_concurrency_setting env = Inr n"
      "r = Inr ()"
      "b' = b \<lparr> bw_loop := running, bw_maxsize := m, bw_has_queue := True, bw_pool := fresh_pool (bw_pool b),
         bw_tasks := replicate (nat n) True, bw_home := running \<rparr>"
proof (cases running)
  case None
  show ?thesis by (rule off) (use assms None in \<open>simp_all add: ensure_started_def\<close>)
next
  case (Some l)
  show ?thesis
  proof (cases "bw_loop b = Some l \<and> bw_tasks b \<noteq> [] \<and> \<not> list_all Not (bw_tasks b)")
    case True
    show ?thesis by (rule kept) (use assms True Some in \<open>simp_all add: ensure_started_def\<close>)
  next
    case False
    note e = assms[unfolded ensure_started_def Some option.case if_not_P[OF False] Let_def]
    show ?thesis
    proof (cases "queue_maxsize_setting env")
      case (Inl x)
      show ?thesis by (rule size[of x]) (use e in \<open>simp_all add: Inl Some\<close>)
    next
      case (Inr m)
      note m = Inr
      show ?thesis
      proof (cases "worker_concurrency_setting env")
        case (Inl x)
        show ?thesis by (rule count[of x m]) (use e in \<open>simp_all add: Inl m Some\<close>)
      next
        case (Inr n)
        show ?thesis by (rule built[of m n]) (use e in \<open>simp_all add: Inr m Some\<close>)
      qed
    qed
  qed
qed

lemma ensure_started_spec:
  assumes "ensure_started env running b = (r, b')" "bound_ok env b"
  shows "bound_ok env b'"
    and "r = Inr () \<Longrightarrow> running \<noteq> None \<and> bw_loop b' = running \<and> bw_home b' = running \<and> bw_has_queue b' \<and>
      bw_tasks b' \<noteq> [] \<and> list_all id (bw_tasks b')"
proof -
  show "bound_ok env b'" using assms(1)
  proof (cases rule: ensure_started_cases)
    case size then show ?thesis using assms(2) by (auto simp: bound_ok_def)
  next
    case (count e m) then show ?thesis using assms(2) by (auto simp: bound_ok_def)
  next
    case (built m n) then show ?thesis by (auto simp: bound_ok_def list_all_iff)
  qed (use assms(2) in simp_all)
  show "running \<noteq> None \<and> bw_loop b' = running \<and> bw_home b' = running \<and> bw_has_queue b' \<and>
      bw_tasks b' \<noteq> [] \<and> list_all id (bw_tasks b')" if "r = Inr ()"
    using assms(1)
  proof (cases rule: ensure_started_cases)
    case kept then show ?thesis using assms(2) by (auto simp: bound_ok_def)
  next
    case (built m n)
    then have "1 \<le> n" using clamps(2) by blast
    then show ?thesis using built by (auto simp: list_all_iff)
  qed (use that in simp_all)
qed

lemma new_worker_ok: "bound_ok env new_worker"
  by (simp add: bound_ok_def new_worker_def)

definition process_ok :: "environ \<Rightarrow> process \<Rightarrow> bool" where
  "process_ok env p \<longleftrightarrow> (case pr_worker p of None \<Rightarrow> True | Some b \<Rightarrow> bound_ok env b)"

lemma get_worker_spec:
  assumes "get_worker env p = (r, p')" "process_ok env p"
  shows "process_ok env p'" and "pr_loop p' = pr_loop p" and "\<exists>b. pr_worker p' = Some b"
    and "r = Inr () \<Longrightarrow> pr_worker p' = Some b \<Longrightarrow> served p' b"
proof -
  let ?b = "case pr_worker p of None \<Rightarrow> new_worker | Some b \<Rightarrow> b"
  obtain b' where e: "ensure_started env (pr_loop p) ?b = (r, b')" and p': "p' = p \<lparr> pr_worker := Some b' \<rparr>"
    using assms(1) by (auto simp: get_worker_def Let_def split: prod.splits)
  have ok: "bound_ok env ?b" using assms(2) by (cases "pr_worker p") (simp_all add: process_ok_def new_worker_ok)
  note spec = ensure_started_spec[OF e ok]
  show "process_ok env p'" using spec(1) by (simp add: process_ok_def p')
  show "pr_loop p' = pr_loop p" "\<exists>b. pr_worker p' = Some b" by (simp_all add: p')
  show "served p' b" if "r = Inr ()" "pr_worker p' = Some b"
    using spec(2)[OF that(1)] that(2) by (simp add: served_def p')
qed

lemma served_settled: "served p b \<Longrightarrow> bound_ok env b \<Longrightarrow> ensure_started env (pr_loop p) b = (Inr (), b)"
  by (auto simp: served_def bound_ok_def ensure_started_def dest: list_all_id_Not split: option.splits)

lemma hand_over_ok:
  assumes "hand_over env j p = (Inr i, p')" "process_ok env p"
  obtains q b where "get_worker env p = (Inr (), q)" "pr_worker q = Some b" "served q b" "bound_ok env b" "i = j_id j"
    "p' = q \<lparr> pr_worker := Some (b \<lparr> bw_pool := enqueue (nat (bw_maxsize b)) j (bw_pool b) \<rparr>) \<rparr>"
proof -
  obtain r q where g: "get_worker env p = (r, q)" by fastforce
  then have r: "r = Inr ()" using assms(1) by (cases r) (auto simp: hand_over_def)
  note spec = get_worker_spec[OF g assms(2)]
  obtain b where b: "pr_worker q = Some b" using spec(3) by blast
  have s: "served q b" using spec(4) r b by simp
  have ok: "bound_ok env b" using spec(1) b by (simp add: process_ok_def)
  show ?thesis
    using that[OF g[unfolded r] b s ok] assms(1) served_settled[OF s ok] g r b
    by (simp add: hand_over_def enqueue_on_def)
qed

lemma hand_over_failed:
  assumes "hand_over env j p = (Inl e, p')" "process_ok env p"
  shows "get_worker env p = (Inl e, p')"
proof -
  obtain r q where g: "get_worker env p = (r, q)" by fastforce
  note spec = get_worker_spec[OF g assms(2)]
  show ?thesis
  proof (cases r)
    case (Inl x) then show ?thesis using assms(1) g by (simp add: hand_over_def)
  next
    case (Inr u)
    then have r: "r = Inr ()" by simp
    obtain b where b: "pr_worker q = Some b" using spec(3) by blast
    have s: "served q b" using spec(4) r b by simp
    have "bound_ok env b" using spec(1) b by (simp add: process_ok_def)
    then show ?thesis using assms(1) served_settled[OF s] g r b by (simp add: hand_over_def enqueue_on_def)
  qed
qed

lemma bound_ok_pool [simp]: "bound_ok env (b \<lparr> bw_pool := w \<rparr>) = bound_ok env b"
  and served_pool [simp]: "served (p \<lparr> pr_worker := x \<rparr>) (b \<lparr> bw_pool := w \<rparr>) = served p b"
  by (simp_all add: bound_ok_def served_def)

lemma step_ok: "process_step env p e p' \<Longrightarrow> process_ok env p \<Longrightarrow> process_ok env p'"
proof (induction rule: process_step.induct)
  case (shut p)
  then show ?case by (auto simp: process_ok_def cancel_tasks_def bound_ok_def list_all_iff split: option.splits)
next
  case (handed j p i p')
  show ?case by (rule hand_over_ok[OF handed]) (simp add: process_ok_def)
next
  case (refused j p e p')
  then show ?case using get_worker_spec(1)[OF hand_over_failed] by blast
qed (auto simp: process_ok_def reset_worker_def stop_worker_def bound_ok_def)

lemma steps_ok: "process_steps env p es p' \<Longrightarrow> process_ok env p \<Longrightarrow> process_ok env p'"
  by (induction rule: process_steps.induct) (auto dest: step_ok)

lemma life_ok: "process_life env es p \<Longrightarrow> process_ok env p"
  by (erule steps_ok) (simp add: process_ok_def new_process_def)

text \<open>A worker that is served keeps its pool, and its books balance.\<close>

lemma enqueue_jobs: "mset (pool_jobs (b \<lparr> bw_pool := enqueue n j (bw_pool b) \<rparr>)) = mset (pool_jobs b) + {#j#}"
  by (simp add: pool_jobs_def enqueue_def)

lemma served_hand_over:
  assumes "served p b" "bound_ok env b" "pr_worker p = Some b"
  shows "hand_over env j p = (Inr (j_id j), p \<lparr> pr_worker := Some (b \<lparr> bw_pool := enqueue (nat (bw_maxsize b)) j (bw_pool b) \<rparr>) \<rparr>)"
  using served_settled[OF assms(1,2)] assms(3) by (simp add: hand_over_def get_worker_def enqueue_on_def)

lemma standing_step:
  assumes "process_step env p e p'" "standing [e]" "pr_worker p = Some b" "served p b" "bound_ok env b"
  obtains w where "p' = p \<lparr> pr_worker := Some (b \<lparr> bw_pool := w \<rparr>) \<rparr>"
    "mset (pool_jobs b) + mset (handed_turns [e]) = mset (pool_jobs (b \<lparr> bw_pool := w \<rparr>)) + mset (map fst (recorded_turns [e]))"
    "list_all (\<lambda>(j, r). jr_job r = j_id j) (recorded_turns [e])"
  using assms(1)
proof cases
  case (handed j i)
  have "p' = p \<lparr> pr_worker := Some (b \<lparr> bw_pool := enqueue (nat (bw_maxsize b)) j (bw_pool b) \<rparr>) \<rparr>"
    using served_hand_over[OF assms(4,5,3), of j] handed(2) by simp
  then show ?thesis using that enqueue_jobs[where b = b and n = "nat (bw_maxsize b)" and j = j] handed(1) by simp
next
  case (refused j x)
  then show ?thesis using served_hand_over[OF assms(4,5,3), of j] by simp
next
  case (took b' w)
  show ?thesis
    by (rule that[of w]) (use took assms(3) in \<open>auto simp: pool_jobs_def take_job_def split: list.splits if_splits\<close>)
next
  case (ended b' j r ce c d)
  show ?thesis
    by (rule that[of "finish_job j r (bw_pool b)"])
      (use ended assms(3) in \<open>auto simp: pool_jobs_def finish_job_def Let_def\<close>)
qed (use assms(2) in simp_all)

lemma balance_trans:
  fixes a :: "'a multiset"
  assumes "a + h = c + r" "c + h' = c' + r'"
  shows "a + (h + h') = c' + (r + r')"
proof -
  have "a + (h + h') = c + h' + r" by (metis assms(1) add.assoc add.commute)
  also have "\<dots> = c' + (r + r')" unfolding assms(2) by (simp only: add.assoc add.commute[of r])
  finally show ?thesis .
qed

lemma standing_steps:
  assumes "process_steps env p es p'" "standing es" "pr_worker p = Some b" "served p b" "bound_ok env b"
  shows "\<exists>w. p' = p \<lparr> pr_worker := Some (b \<lparr> bw_pool := w \<rparr>) \<rparr> \<and>
    mset (pool_jobs b) + mset (handed_turns es) = mset (pool_jobs (b \<lparr> bw_pool := w \<rparr>)) + mset (map fst (recorded_turns es)) \<and>
    list_all (\<lambda>(j, r). jr_job r = j_id j) (recorded_turns es)"
  using assms(1,2)
proof (induction rule: process_steps.induct)
  case none
  show ?case by (intro exI[of _ "bw_pool b"]) (simp add: assms(3)[symmetric])
next
  case (more es q e q')
  let ?b = "\<lambda>w. b \<lparr> bw_pool := w \<rparr>"
  obtain w where w: "q = p \<lparr> pr_worker := Some (?b w) \<rparr>"
    "mset (pool_jobs b) + mset (handed_turns es) = mset (pool_jobs (?b w)) + mset (map fst (recorded_turns es))"
    "list_all (\<lambda>(j, r). jr_job r = j_id j) (recorded_turns es)"
    using more.IH more.prems by auto
  have q: "pr_worker q = Some (?b w)" "served q (?b w)" "bound_ok env (?b w)" using assms(4,5) w(1) by simp_all
  obtain w' where w': "q' = q \<lparr> pr_worker := Some (?b w \<lparr> bw_pool := w' \<rparr>) \<rparr>"
    "mset (pool_jobs (?b w)) + mset (handed_turns [e]) = mset (pool_jobs (?b w \<lparr> bw_pool := w' \<rparr>)) + mset (map fst (recorded_turns [e]))"
    "list_all (\<lambda>(j, r). jr_job r = j_id j) (recorded_turns [e])"
    using standing_step[OF more.hyps(2) _ q] more.prems by auto
  have "mset (pool_jobs b) + mset (handed_turns (es @ [e])) =
      mset (pool_jobs (?b w')) + mset (map fst (recorded_turns (es @ [e])))"
    using balance_trans[OF w(2)] w'(2) by simp
  then show ?case using w w'(1,3) by (intro exI[of _ w']) simp
qed

text \<open>The consumers of a served worker can always work off whatever waits.\<close>

lemma consumes_step:
  assumes "consumes (length (bw_tasks b)) (bw_pool b) w" "pr_worker p = Some b" "served p b"
  shows "\<exists>e. process_step env p e (p \<lparr> pr_worker := Some (b \<lparr> bw_pool := w \<rparr>) \<rparr>) \<and> working [e]"
  using assms(1)
proof (cases rule: consumes.cases)
  case 1
  then show ?thesis using process_step.took[OF assms(2,3)] by (intro exI[of _ Took]) simp
next
  case (2 j ce c d)
  then show ?thesis using process_step.ended[OF assms(2,3) 2(2) refl, of env ce c d]
    by (intro exI[of _ "Ended j (fst (run_job ce c j d))"]) simp
qed

lemma consumes_run:
  assumes "(consumes (length (bw_tasks b)))\<^sup>*\<^sup>* (bw_pool b) w" "pr_worker p = Some b" "served p b"
  shows "\<exists>es. process_steps env p es (p \<lparr> pr_worker := Some (b \<lparr> bw_pool := w \<rparr>) \<rparr>) \<and> working es"
  using assms(1)
proof (induction rule: rtranclp_induct)
  case base
  have "p \<lparr> pr_worker := Some (b \<lparr> bw_pool := bw_pool b \<rparr>) \<rparr> = p" by (simp add: assms(2)[symmetric])
  then show ?case using process_steps.none[of env p] trace_Nil(4) by metis
next
  case (step w v)
  let ?q = "\<lambda>w. p \<lparr> pr_worker := Some (b \<lparr> bw_pool := w \<rparr>) \<rparr>"
  obtain es where es: "process_steps env p es (?q w)" "working es" using step.IH by blast
  obtain e where e: "process_step env (?q w) e (?q v)" "working [e]"
    using consumes_step[of "b \<lparr> bw_pool := w \<rparr>" v "?q w" env] step.hyps(2) assms(3) by auto
  have "process_steps env p (es @ [e]) (?q v)" by (rule process_steps.more[OF es(1) e(1)])
  moreover have "working (es @ [e])" using es(2) e(2) by simp
  ultimately show ?case by blast
qed

lemma served_drains:
  assumes "pr_worker p = Some b" "served p b"
  shows "\<exists>es q b'. process_steps env p es q \<and> working es \<and> pr_worker q = Some b' \<and>
    wk_queue (bw_pool b') = [] \<and> wk_running (bw_pool b') = []"
proof -
  have "0 < length (bw_tasks b)" using assms(2) by (simp add: served_def)
  then obtain w where w: "(consumes (length (bw_tasks b)))\<^sup>*\<^sup>* (bw_pool b) w" "wk_queue w = []" "wk_running w = []"
    using consumes_drains by blast
  then show ?thesis using consumes_run[OF w(1) assms, of env] by fastforce
qed

lemma hand_over_serves:
  assumes "hand_over env j p = (Inr i, p')" "process_ok env p"
  shows "i = j_id j \<and> (\<exists>b. pr_worker p' = Some b \<and> served p' b \<and> (j \<in> set (wk_queue (bw_pool b)) \<or>
    j \<in> set (wk_dropped (bw_pool b)) \<and> 0 < bw_maxsize b \<and> bw_maxsize b \<le> int (length (wk_queue (bw_pool b)))))"
proof -
  obtain q b where g: "served q b" "i = j_id j"
    "p' = q \<lparr> pr_worker := Some (b \<lparr> bw_pool := enqueue (nat (bw_maxsize b)) j (bw_pool b) \<rparr>) \<rparr>"
    by (rule hand_over_ok[OF assms])
  show ?thesis using g by (auto simp: enqueue_def)
qed

lemma off_loop:
  assumes "pr_loop p = None"
  shows "fst (hand_over env j p) = Inl NotOnEventLoop"
    "pr_worker (snd (hand_over env j p)) = Some (case pr_worker p of None \<Rightarrow> new_worker | Some b \<Rightarrow> b)"
  using assms by (auto simp: hand_over_def get_worker_def ensure_started_def split: option.split)

text \<open>Handing over on another loop than the worker's leaves nothing of the old pool but its record.\<close>

lemma rebinding_abandons:
  assumes "hand_over env j p = (Inr i, p')" "process_ok env p" "pr_worker p = Some b" "bw_loop b \<noteq> pr_loop p"
  shows "\<exists>b'. pr_worker p' = Some b' \<and> wk_queue (bw_pool b') = [j] \<and> wk_running (bw_pool b') = [] \<and>
    wk_completed (bw_pool b') = wk_completed (bw_pool b)"
proof -
  obtain q b1 where g: "get_worker env p = (Inr (), q)" "pr_worker q = Some b1"
    "p' = q \<lparr> pr_worker := Some (b1 \<lparr> bw_pool := enqueue (nat (bw_maxsize b1)) j (bw_pool b1) \<rparr>) \<rparr>"
    by (rule hand_over_ok[OF assms(1,2)])
  have "ensure_started env (pr_loop p) b = (Inr (), b1)"
    using g(1,2) assms(3) by (auto simp: get_worker_def split: prod.splits)
  then have "wk_queue (bw_pool b1) = [] \<and> wk_running (bw_pool b1) = [] \<and> wk_completed (bw_pool b1) = wk_completed (bw_pool b)"
    by (cases rule: ensure_started_cases) (use assms(4) in \<open>simp_all add: fresh_pool_def\<close>)
  then show ?thesis using g(3) by (simp add: enqueue_def)
qed

text \<open>C35. A turn that is handed over is captured as long as the event loop stands, and only as long. A hand-over that
  succeeds puts its turn into the queue of consumers that are alive on the running loop, unless the queue is
  full; off any loop it is refused, and nothing that waits is touched. From then on, while the process stays on
  the loop and the worker is neither shut down nor stopped nor reset, whatever else happens: the worker stays served; the
  turns it had and the turns handed over are exactly those refused by the full queue, waiting, in a
  consumer's hands, and recorded, each as often as it was handed over and each record under its turn's
  identifier; and its consumers can always work on until nothing waits or runs. But the next hand-over on
  another loop rebuilds the pool: what waited or ran is gone, with no record of it, against the contract the
  module states.\<close>

theorem turns_survive_while_the_loop_stands:
  assumes life: "process_life env before p"
  shows "(\<forall>j i p'. hand_over env j p = (Inr i, p') \<longrightarrow> i = j_id j \<and>
      (\<exists>b. pr_worker p' = Some b \<and> served p' b \<and> (j \<in> set (wk_queue (bw_pool b)) \<or>
        j \<in> set (wk_dropped (bw_pool b)) \<and> 0 < bw_maxsize b \<and> bw_maxsize b \<le> int (length (wk_queue (bw_pool b)))))) \<and>
    (\<forall>j. pr_loop p = None \<longrightarrow> fst (hand_over env j p) = Inl NotOnEventLoop \<and>
      pr_worker (snd (hand_over env j p)) = Some (case pr_worker p of None \<Rightarrow> new_worker | Some b \<Rightarrow> b)) \<and>
    (\<forall>b es p'. pr_worker p = Some b \<and> served p b \<and> process_steps env p es p' \<and> standing es \<longrightarrow>
      (\<exists>b'. pr_worker p' = Some b' \<and> served p' b' \<and>
        mset (pool_jobs b) + mset (handed_turns es) = mset (pool_jobs b') + mset (map fst (recorded_turns es)) \<and>
        list_all (\<lambda>(j, r). jr_job r = j_id j) (recorded_turns es) \<and>
        (\<exists>es' q c. process_steps env p' es' q \<and> working es' \<and> pr_worker q = Some c \<and>
           wk_queue (bw_pool c) = [] \<and> wk_running (bw_pool c) = []))) \<and>
    (\<forall>b j i p'. pr_worker p = Some b \<and> bw_loop b \<noteq> pr_loop p \<and> hand_over env j p = (Inr i, p') \<longrightarrow>
      (\<exists>b'. pr_worker p' = Some b' \<and> wk_queue (bw_pool b') = [j] \<and> wk_running (bw_pool b') = [] \<and>
        wk_completed (bw_pool b') = wk_completed (bw_pool b)))"
proof -
  have ok: "process_ok env p" by (rule life_ok[OF life])
  have stands: "\<exists>b'. pr_worker p' = Some b' \<and> served p' b' \<and>
        mset (pool_jobs b) + mset (handed_turns es) = mset (pool_jobs b') + mset (map fst (recorded_turns es)) \<and>
        list_all (\<lambda>(j, r). jr_job r = j_id j) (recorded_turns es) \<and>
        (\<exists>es' q c. process_steps env p' es' q \<and> working es' \<and> pr_worker q = Some c \<and>
           wk_queue (bw_pool c) = [] \<and> wk_running (bw_pool c) = [])"
    if "pr_worker p = Some b" "served p b" "process_steps env p es p'" "standing es" for b :: bound_worker and es p'
  proof -
    note steps = standing_steps[OF that(3,4,1,2)]
    have "bound_ok env b" using ok that(1) by (simp add: process_ok_def)
    then obtain w where w: "p' = p \<lparr> pr_worker := Some (b \<lparr> bw_pool := w \<rparr>) \<rparr>"
      "mset (pool_jobs b) + mset (handed_turns es) = mset (pool_jobs (b \<lparr> bw_pool := w \<rparr>)) + mset (map fst (recorded_turns es))"
      "list_all (\<lambda>(j, r). jr_job r = j_id j) (recorded_turns es)"
      using steps by blast
    have "pr_worker p' = Some (b \<lparr> bw_pool := w \<rparr>)" "served p' (b \<lparr> bw_pool := w \<rparr>)" using w(1) that(2) by simp_all
    note stood = this
    show ?thesis using stood w(2,3) served_drains[of p' "b \<lparr> bw_pool := w \<rparr>" env] by blast
  qed
  show ?thesis using hand_over_serves[OF _ ok] off_loop stands rebinding_abandons[OF _ ok] by (intro conjI allI impI) blast+
qed

definition ex_job :: "uuid \<Rightarrow> capture_job" where
  "ex_job i = \<lparr> j_id = i, j_subject = ''s'', j_actor = ''a'', j_turn = ex_turn \<rparr>"

lemma ex_env_unset: "queue_maxsize_setting (\<lambda>_. None) = Inr 256" "worker_concurrency_setting (\<lambda>_. None) = Inr 2"
  using capture_defaults_used[of "\<lambda>_. None"]
  by (simp_all add: unset_def env_set_def capture_defaults_def queue_maxsize_def worker_concurrency_def)

text \<open>A turn waits on loop 1; the process moves to loop 2 and hands another turn over: the first is gone.\<close>

theorem turns_survive_while_the_loop_stands_witness:
  "\<exists>p p' b. process_life (\<lambda>_. None) [Switched (Some 1), Handed (ex_job ''i''), Switched (Some 2)] p \<and>
     hand_over (\<lambda>_. None) (ex_job ''j'') p = (Inr ''j'', p') \<and>
     pr_worker p' = Some b \<and> served p' b \<and> pool_jobs b = [ex_job ''j''] \<and> wk_completed (bw_pool b) = []"
proof -
  let ?env = "\<lambda>_. None"
  let ?p1 = "new_process \<lparr> pr_loop := Some (1 :: nat) \<rparr>"
  let ?p2 = "snd (hand_over ?env (ex_job ''i'') ?p1)"
  let ?p3 = "?p2 \<lparr> pr_loop := Some 2 \<rparr>"
  let ?p4 = "snd (hand_over ?env (ex_job ''j'') ?p3)"
  note defs = hand_over_def get_worker_def ensure_started_def enqueue_on_def new_process_def new_worker_def
    ex_env_unset fresh_pool_def idle_worker_def enqueue_def ex_job_def
  have h1: "hand_over ?env (ex_job ''i'') ?p1 = (Inr ''i'', ?p2)" by (simp add: defs numeral_2_eq_2)
  have h2: "hand_over ?env (ex_job ''j'') ?p3 = (Inr ''j'', ?p4)" by (simp add: defs numeral_2_eq_2)
  have life: "process_life ?env [Switched (Some 1), Handed (ex_job ''i''), Switched (Some 2)] ?p3"
    using process_steps.more[OF process_steps.more[OF process_steps.more[OF process_steps.none process_step.switched]
      process_step.handed[OF h1]] process_step.switched, of "Some 2"] by simp
  have old: "\<exists>b. pr_worker ?p3 = Some b \<and> bw_loop b \<noteq> pr_loop ?p3 \<and> wk_completed (bw_pool b) = []"
    by (simp add: defs numeral_2_eq_2)
  have dropped: "wk_dropped (bw_pool b) = []" if "pr_worker ?p4 = Some b" for b
    using that by (auto simp: defs numeral_2_eq_2)
  obtain b where b: "pr_worker ?p4 = Some b" "served ?p4 b"
    using turns_survive_while_the_loop_stands[OF life] h2 by blast
  obtain b' where b': "pr_worker ?p4 = Some b'" "wk_queue (bw_pool b') = [ex_job ''j'']" "wk_running (bw_pool b') = []"
    "wk_completed (bw_pool b') = []"
    using turns_survive_while_the_loop_stands[OF life] h2 old by metis
  have "b' = b" using b(1) b'(1) by simp
  then have "pool_jobs b = [ex_job ''j'']" using b' dropped[OF b(1)] by (simp add: pool_jobs_def)
  then show ?thesis using life h2 b b'(4) \<open>b' = b\<close> by blast
qed

section \<open>The default circuit breaker\<close>

text \<open>A client is known by the loop it was built on; \<open>None\<close> stands for no loop.\<close>

datatype client = Client "event_loop option"

record breaker_handle =
  bh_key :: string
  bh_probe_key :: string
  bh_url :: string
  bh_client :: "client option"
  bh_owns :: bool
  bh_threshold :: "int option"
  bh_cooldown :: "pyfloat option"
  bh_ttl :: real
  bh_shas :: "string set"

text \<open>The constructor: an absent key, URL or lock lifetime comes from the settings, and no client is built yet.\<close>

definition new_breaker :: "environ \<Rightarrow> string option \<Rightarrow> string option \<Rightarrow> client option \<Rightarrow> int option \<Rightarrow> pyfloat option \<Rightarrow>
    real option \<Rightarrow> breaker_handle res" where
  "new_breaker env key url client threshold cooldown ttl =
     bind_res (case key of Some k \<Rightarrow> if k = [] then breaker_redis_key env else Inr k | None \<Rightarrow> breaker_redis_key env)
       (\<lambda>k. bind_res (case ttl of Some t \<Rightarrow> Inr t | None \<Rightarrow> map_ok (\<lambda>t. t * 2 + 1) (retrieval_timeout_seconds env))
         (\<lambda>t. Inr \<lparr> bh_key = k, bh_probe_key = k @ '':probe'',
            bh_url = (case url of Some u \<Rightarrow> if u = [] then redis_url env else u | None \<Rightarrow> redis_url env),
            bh_client = client, bh_owns = (client = None), bh_threshold = threshold, bh_cooldown = cooldown,
            bh_ttl = t, bh_shas = {} \<rparr>))"

definition failure_threshold :: "environ \<Rightarrow> breaker_handle \<Rightarrow> int res" where
  "failure_threshold env h = (case bh_threshold h of Some n \<Rightarrow> Inr n | None \<Rightarrow> breaker_failure_threshold env)"

definition cooldown_seconds :: "environ \<Rightarrow> breaker_handle \<Rightarrow> pyfloat res" where
  "cooldown_seconds env h = (case bh_cooldown h of Some c \<Rightarrow> Inr c | None \<Rightarrow> breaker_cooldown_seconds env)"

definition redis_client :: "event_loop option \<Rightarrow> breaker_handle \<Rightarrow> client \<times> breaker_handle" where
  "redis_client running h =
     (case bh_client h of Some c \<Rightarrow> (c, h) | None \<Rightarrow> (Client running, h \<lparr> bh_client := Some (Client running) \<rparr>))"

definition aclose :: "breaker_handle \<Rightarrow> breaker_handle \<times> client list" where
  "aclose h =
     (if bh_owns h then (h \<lparr> bh_client := None, bh_shas := {} \<rparr>, (case bh_client h of Some c \<Rightarrow> [c] | None \<Rightarrow> []))
      else (h, []))"

type_synonym breaker_cache = "(event_loop option \<times> breaker_handle) option"

definition get_breaker ::
  "environ \<Rightarrow> (event_loop \<Rightarrow> bool) \<Rightarrow> event_loop option \<Rightarrow> breaker_cache \<Rightarrow> breaker_handle res \<times> breaker_cache" where
  "get_breaker env gone running cache =
     (case cache of
        Some (l, h) \<Rightarrow>
          if l = running \<and> (case running of None \<Rightarrow> True | Some k \<Rightarrow> \<not> gone k) then (Inr h, cache)
          else (case new_breaker env None None None None None None of
              Inl e \<Rightarrow> (Inl e, cache)
            | Inr h' \<Rightarrow> (Inr h', Some (running, h')))
      | None \<Rightarrow> (case new_breaker env None None None None None None of
            Inl e \<Rightarrow> (Inl e, cache)
          | Inr h' \<Rightarrow> (Inr h', Some (running, h'))))"

definition reset_breaker :: "breaker_cache \<Rightarrow> breaker_cache \<times> client list" where
  "reset_breaker cache = (None, case cache of None \<Rightarrow> [] | Some (_, h) \<Rightarrow> snd (aclose h))"

text \<open>One call through the default breaker: fetch the handle, use its client, keep the handle.\<close>

definition default_client ::
  "environ \<Rightarrow> (event_loop \<Rightarrow> bool) \<Rightarrow> event_loop option \<Rightarrow> breaker_cache \<Rightarrow> client res \<times> breaker_cache" where
  "default_client env gone running cache =
     (case get_breaker env gone running cache of
        (Inl e, cache') \<Rightarrow> (Inl e, cache')
      | (Inr h, cache') \<Rightarrow>
          (let (c, h') = redis_client running h in (Inr c, Some (running, h'))))"

definition cache_ok :: "breaker_cache \<Rightarrow> bool" where
  "cache_ok cache \<longleftrightarrow> (case cache of None \<Rightarrow> True
     | Some (l, h) \<Rightarrow> bh_owns h \<and> (bh_client h = None \<or> bh_client h = Some (Client l)))"

lemma new_breaker_default:
  "new_breaker env None None None None None None = Inr h \<Longrightarrow>
     bh_owns h \<and> bh_client h = None \<and> bh_shas h = {} \<and> bh_threshold h = None \<and> bh_cooldown h = None"
  by (auto simp: new_breaker_def bind_res_Inr_iff map_ok_Inr_iff)

lemma get_breaker_ok:
  assumes "get_breaker env gone running cache = (Inr h, cache')" "cache_ok cache"
  shows "cache' = Some (running, h)" "cache_ok cache'"
  using assms new_breaker_default[of env h]
  by (auto simp: get_breaker_def cache_ok_def split: option.splits if_splits sum.splits prod.splits)

text \<open>However loops come and go, the default breaker only ever talks through a client of the running loop.\<close>

lemma client_of_the_running_loop:
  assumes "default_client env gone running cache = (Inr c, cache')" "cache_ok cache"
  shows "c = Client running" "cache_ok cache'"
proof -
  obtain h cache1 where g: "get_breaker env gone running cache = (Inr h, cache1)"
    and r: "redis_client running h = (c, snd (redis_client running h))" "cache' = Some (running, snd (redis_client running h))"
    using assms(1) by (auto simp: default_client_def split: prod.splits sum.splits)
  note ok = get_breaker_ok[OF g assms(2)]
  show "c = Client running" "cache_ok cache'"
    using ok r by (auto simp: redis_client_def cache_ok_def split: option.splits)
qed

text \<open>Changing loops leaves the old client open: only \<^verbatim>\<open>reset_breaker\<close> closes one.\<close>

lemma rebinding_drops_the_client:
  assumes "retrieval_timeout_seconds env = Inr t" "running \<noteq> l"
  shows "\<exists>h'. get_breaker env gone running (Some (l, h)) = (Inr h', Some (running, h')) \<and> bh_client h' = None"
  using assms
  by (auto simp: get_breaker_def new_breaker_def breaker_redis_key_def retrieve_env_def default_of_def
      retrieve_defaults_def split: option.splits)

section \<open>The settings give the breaker the timing it needs\<close>

definition breaker_config_of :: "environ \<Rightarrow> breaker_handle \<Rightarrow> breaker_config res" where
  "breaker_config_of env h =
     bind_res (failure_threshold env h) (\<lambda>n. bind_res (cooldown_seconds env h) (\<lambda>c.
       Inr \<lparr> bc_threshold = nat n, bc_cooldown = fin_val c, bc_ttl = bh_ttl h \<rparr>))"

text \<open>The lock of a probe outlives the retrieval it admits, and with a cooldown longer than a retrieval the fleet
  theorems of theory Breaker apply. The defaults satisfy this.\<close>

lemma configured_timing:
  assumes "retrieval_timeout_seconds env = Inr t" "0 \<le> t" "breaker_cooldown_seconds env = Inr (Fin c)" "t + 1 / 20000 < c"
    and "new_breaker env None None None None None None = Inr h" "breaker_config_of env h = Inr cfg"
  shows "timing_ok cfg t" "1 \<le> bc_threshold cfg"
proof -
  have h: "bh_ttl h = t * 2 + 1" "bh_threshold h = None" "bh_cooldown h = None"
    using assms(1,5) by (auto simp: new_breaker_def bind_res_Inr_iff)
  obtain n where n: "breaker_failure_threshold env = Inr n" "cfg = \<lparr> bc_threshold = nat n, bc_cooldown = c, bc_ttl = t * 2 + 1 \<rparr>"
    using assms(3,6) h by (auto simp: breaker_config_of_def failure_threshold_def cooldown_seconds_def bind_res_Inr_iff)
  show "timing_ok cfg t" using assms(2,4) by (simp add: timing_ok_def n)
  show "1 \<le> bc_threshold cfg" using clamps(1)[OF n(1)] by (simp add: n)
qed

lemma default_timing:
  assumes "unset ''RETRIEVE_'' retrieve_defaults env"
  shows "\<exists>h cfg. new_breaker env None None None None None None = Inr h \<and> breaker_config_of env h = Inr cfg \<and>
    timing_ok cfg 6 \<and> bc_threshold cfg = 3"
  using retrieve_defaults_used[OF assms]
  by (simp add: new_breaker_def breaker_config_of_def failure_threshold_def cooldown_seconds_def timing_ok_def)

end
