(* ===== verification/Corpora.thy ===== *)
theory Corpora
  imports Evaluation
begin

text \<open>
  The corpora of the evaluation as data (\<^verbatim>\<open>evals/fixtures/seed_memories.py\<close>): the rows of both generations, the life
  cycle of four of them, the labels a report uses, and what seeding the second corpus leaves in the database.
  \<^verbatim>\<open>uuid.uuid5\<close> of the URL namespace is a parameter, from names to printed identifiers.
\<close>

section \<open>Identifiers\<close>

definition v1_prefix :: string where "v1_prefix = ''memory-system/evals/golden_set_v1''"

definition v2_prefix :: string where "v2_prefix = ''memory-system/evals/golden_set_v2''"

definition golden_set_subject_id :: "(string \<Rightarrow> uuid) \<Rightarrow> uuid" where
  "golden_set_subject_id uuid5 = uuid5 (v1_prefix @ ''/subject'')"

definition golden_set_actor_id :: "(string \<Rightarrow> uuid) \<Rightarrow> uuid" where
  "golden_set_actor_id uuid5 = golden_set_subject_id uuid5"

definition memory_id :: "(string \<Rightarrow> uuid) \<Rightarrow> string \<Rightarrow> uuid" where
  "memory_id uuid5 slug = uuid5 (v1_prefix @ ''/memory/'' @ slug)"

definition memory_id_v2 :: "(string \<Rightarrow> uuid) \<Rightarrow> string \<Rightarrow> uuid" where
  "memory_id_v2 uuid5 slug = uuid5 (v2_prefix @ ''/memory/'' @ slug)"

text \<open>A row with the defaults of \<^verbatim>\<open>SeedMemory\<close>, in a namespace.\<close>

definition namespaced_row :: "(string \<Rightarrow> uuid) \<Rightarrow> string \<Rightarrow> string \<Rightarrow> string \<Rightarrow> real \<Rightarrow> seed_memory" where
  "namespaced_row uuid5 namespace slug content importance =
     \<lparr> sm_slug = slug, sm_id = uuid5 (namespace @ ''/memory/'' @ slug), sm_content = content,
       sm_source = ''eval_fixture'', sm_importance = importance, sm_confidence = 9 / 10 \<rparr>"

definition v1_row :: "(string \<Rightarrow> uuid) \<Rightarrow> string \<Rightarrow> string \<Rightarrow> real \<Rightarrow> seed_memory" where
  "v1_row uuid5 = namespaced_row uuid5 v1_prefix"

definition v2_row :: "(string \<Rightarrow> uuid) \<Rightarrow> string \<Rightarrow> string \<Rightarrow> real \<Rightarrow> seed_memory" where
  "v2_row uuid5 = namespaced_row uuid5 v2_prefix"

section \<open>The rows\<close>

definition v1_daily_life :: "(string \<Rightarrow> uuid) \<Rightarrow> seed_memory list" where
  "v1_daily_life uuid5 =
    [v1_row uuid5 ''lactose'' ''I am lactose intolerant, so I skip dairy entirely.'' (4 / 5),
     v1_row uuid5 ''onions'' ''Raw onions give me heartburn for hours.'' (3 / 5),
     v1_row uuid5 ''catallergy'' ''Antihistamines are necessary whenever I visit friends who keep cats.'' (3 / 5),
     v1_row uuid5 ''tortoise'' ''Priya named her tortoise Zbigniewicz after her great-uncle.'' (3 / 10),
     v1_row uuid5 ''halina'' ''My grandmother Halina emigrated from Krakow in 1962.'' (7 / 10),
     v1_row uuid5 ''surname'' ''Our family surname was shortened from Wojciechowski when we arrived.'' (7 / 10),
     v1_row uuid5 ''godmother'' ''My godmother is called Agnieszka and she lives in Gdansk.'' (1 / 2),
     v1_row uuid5 ''duolingo'' ''I practise Polish vocabulary on Duolingo most evenings.'' (2 / 5),
     v1_row uuid5 ''sister'' ''My sister Mira is finishing her doctorate in marine biology.'' (3 / 5),
     v1_row uuid5 ''uncle'' ''My uncle Tadeusz Nowak still farms outside Poznan.'' (1 / 2),
     v1_row uuid5 ''cousin'' ''My cousin Kasia Lewandowska got married last spring.'' (1 / 2),
     v1_row uuid5 ''neighbour'' ''The neighbours at number 14 are the Szymanskis.'' (2 / 5),
     v1_row uuid5 ''bristol'' ''I run the Bristol half marathon every October.'' (7 / 10),
     v1_row uuid5 ''shoes'' ''My running shoes are Saucony Endorphin, size 11.'' (2 / 5),
     v1_row uuid5 ''physio'' ''My physiotherapist told me to stretch my calves before long runs.'' (3 / 5),
     v1_row uuid5 ''commute'' ''I cycle to the office on Tuesdays and Thursdays.'' (2 / 5),
     v1_row uuid5 ''deadline'' ''The Q3 compliance report is due on the fifteenth of September.'' (4 / 5),
     v1_row uuid5 ''manager'' ''My manager Dara prefers written updates over stand-up meetings.'' (7 / 10),
     v1_row uuid5 ''guitar'' ''I have been learning fingerstyle guitar for about two years.'' (1 / 2),
     v1_row uuid5 ''strings''
       ''I restring the guitar with phosphor bronze strings every couple of months.'' (2 / 5),
     v1_row uuid5 ''amp'' ''I want a small valve amplifier for practising at home.'' (2 / 5),
     v1_row uuid5 ''lessons'' ''My guitar teacher moved the Thursday lesson to Wednesday evenings.'' (1 / 2),
     v1_row uuid5 ''chords'' ''I still cannot play a clean barre chord on the fifth fret.'' (2 / 5),
     v1_row uuid5 ''openmic'' ''There is an open mic night at the pub on the last Friday of the month.'' (2 / 5)]"

definition v1_medical :: "(string \<Rightarrow> uuid) \<Rightarrow> seed_memory list" where
  "v1_medical uuid5 =
    [v1_row uuid5 ''transplant'' ''My father has been on the kidney transplant list since March.'' (4 / 5),
     v1_row uuid5 ''donorcard'' ''I registered as a donor when I renewed my driving licence.'' (3 / 5),
     v1_row uuid5 ''heartvalve'' ''My aunt had a heart valve replaced at the Royal Infirmary.'' (7 / 10),
     v1_row uuid5 ''liverscan'' ''The liver specialist wants another scan before Christmas.'' (7 / 10),
     v1_row uuid5 ''anatomy'' ''She is studying human anatomy in her second year of medicine.'' (1 / 2),
     v1_row uuid5 ''coordinator'' ''The transplant coordinator rang about a possible match.'' (4 / 5),
     v1_row uuid5 ''tissue'' ''The surgeon explained how the donated tissue would be preserved.'' (3 / 5),
     v1_row uuid5 ''cornea'' ''Her cornea graft restored most of the sight in one eye.'' (3 / 5),
     v1_row uuid5 ''lungs'' ''My lungs took months to recover after the pneumonia.'' (3 / 5),
     v1_row uuid5 ''blooddonation'' ''I gave blood for the twelfth time last month.'' (1 / 2),
     v1_row uuid5 ''pipeinstrument''
       ''The church has a Victorian pipe instrument that still needs restoring.'' (2 / 5),
     v1_row uuid5 ''pedalkeyboard''
       (''He plays the pedal keyboard at St Mary'' @ [CHR 0x27] @ ''s on Sunday mornings.'') (2 / 5)]"

definition v1_home :: "(string \<Rightarrow> uuid) \<Rightarrow> seed_memory list" where
  "v1_home uuid5 =
    [v1_row uuid5 ''wifi''
       ''The wifi network in the flat is still called Beethoven because the previous tenant set the router up years ago and the landlord has never once changed the password or the network name since then.'' (2 / 5),
     v1_row uuid5 ''veg'' ''I buy organic vegetables from the market stall on Saturday mornings.'' (2 / 5),
     v1_row uuid5 ''charger'' ''The universal charger for the old laptop lives in the hall cupboard.'' (3 / 10),
     v1_row uuid5 ''coffee'' ''I drink my coffee black, two cups before noon.'' (3 / 10),
     v1_row uuid5 ''flat'' ''The flat I rent in Totterdown has a leaking skylight.'' (3 / 5),
     v1_row uuid5 ''tiles'' ''The original tiles in the hallway are cracked beyond repair.'' (2 / 5),
     v1_row uuid5 ''holiday'' ''We booked a fortnight in the Dolomites for next summer.'' (1 / 2),
     v1_row uuid5 ''dentist'' ''My dentist appointment is always the first Monday of the quarter.'' (2 / 5)]"

definition v1_memories :: "(string \<Rightarrow> uuid) \<Rightarrow> seed_memory list" where
  "v1_memories uuid5 = v1_daily_life uuid5 @ v1_medical uuid5 @ v1_home uuid5"

definition v2_extra :: "(string \<Rightarrow> uuid) \<Rightarrow> seed_memory list" where
  "v2_extra uuid5 =
    [v2_row uuid5 ''lens85'' ''The 85mm prime is the lens I reach for whenever I shoot portraits.'' (1 / 2),
     v2_row uuid5 ''lens35'' ''The 35mm sits on the camera almost permanently for street photography.'' (2 / 5),
     v2_row uuid5 ''lenscap''
       ''I lost the rear cap for the 85mm somewhere at the bottom of the camera bag.'' (3 / 10),
     v2_row uuid5 ''tripod''
       ''The carbon tripod is the only one steady enough for long night exposures.'' (1 / 2),
     v2_row uuid5 ''compactcam''
       ''The little compact camera is what actually ends up coming away with me for a fortnight abroad.'' (2 / 5),
     v2_row uuid5 ''perseids'' ''The Perseid meteor shower peaks in the middle of August every year.'' (1 / 2),
     v2_row uuid5 ''astroclub'' ''The astronomy club meets in the village hall on the first Tuesday.'' (1 / 2),
     v2_row uuid5 ''lightpollution''
       ''Light pollution from the retail park washes out anything faint seen from the garden.'' (2 / 5),
     v2_row uuid5 ''allotmentplot'' ''My allotment plot is number 31 on the site behind the cemetery.'' (1 / 2),
     v2_row uuid5 ''runnerbeans''
       ''Runner beans and courgettes are the only things that reliably crop on the allotment.'' (1 / 2),
     v2_row uuid5 ''greenhouse'' ''The greenhouse glass needs replacing before the frosts arrive.'' (1 / 2),
     v2_row uuid5 ''shedtools''
       ''The good secateurs and the border fork live in the shed, not the car boot.'' (2 / 5),
     v2_row uuid5 ''compostbin'' ''The compost bin took two summers to produce anything usable.'' (3 / 10),
     (v2_row uuid5 ''allotmentsummary''
       ''The user keeps allotment plot 31 behind the cemetery, grows runner beans and courgettes there, and looks after a greenhouse and a compost bin on the same site.'' (3 / 5))
       \<lparr> sm_source := ''reflection'', sm_confidence := 7 / 10 \<rparr>,
     v2_row uuid5 ''chessclub'' ''The chess club plays at the library on Thursday evenings.'' (2 / 5),
     v2_row uuid5 ''chessnumber''
       ''My chess club membership number is written on the back of the fixture card.'' (2 / 5),
     v2_row uuid5 ''filmscanner''
       ''The flatbed film scanner in the loft still handles medium format negatives.'' (2 / 5),
     v2_row uuid5 ''chisels'' ''The bevel edge chisels want sharpening again before the next project.'' (3 / 10),
     v2_row uuid5 ''workbench''
       ''The workbench wobbles unless the back leg is shimmed with a folded beer mat.'' (3 / 10)]"

text \<open>The first generation, then the additions.\<close>

definition v2_memories :: "(string \<Rightarrow> uuid) \<Rightarrow> seed_memory list" where
  "v2_memories uuid5 = v1_memories uuid5 @ v2_extra uuid5"

definition all_corpora :: "(string \<Rightarrow> uuid) \<Rightarrow> seed_memory list list" where
  "all_corpora uuid5 = [v1_memories uuid5, v2_memories uuid5]"

definition days_ago :: "string \<Rightarrow> string" where
  "days_ago n = interval_head @ n @ '' days'' @ [CHR 0x27]"

definition lifecycle_v2 :: "(string \<times> (string \<times> override) list) list" where
  "lifecycle_v2 =
     [(''astroclub'', [(''archived_at'', Text ''now()''), (''weight'', Number (8 / 100)), (''last_accessed_at'', Text (days_ago ''500''))]),
      (''filmscanner'', [(''weight'', Number (5 / 100)), (''last_accessed_at'', Text (days_ago ''1100''))]),
      (''chessnumber'', [(''deleted_at'', Text ''now()'')]),
      (''allotmentsummary'', [(''last_accessed_at'', Text (days_ago ''2''))])]"

text \<open>\<^verbatim>\<open>CORPORA\<close> of the runner: each suite seeds its own rows and states.\<close>

definition suite_corpora :: "(string \<Rightarrow> uuid) \<Rightarrow> (string \<times> seed_memory list \<times> (string \<times> (string \<times> override) list) list) list" where
  "suite_corpora uuid5 =
     [(''golden_set_v1'', v1_memories uuid5, []), (''golden_set_v2'', v2_memories uuid5, lifecycle_v2)]"

text \<open>\<^verbatim>\<open>_slug\<close> of a report: the slug behind an identifier, or its first eight characters.\<close>

definition slug_of :: "(string \<Rightarrow> uuid) \<Rightarrow> uuid \<Rightarrow> string" where
  "slug_of uuid5 i = (case find (\<lambda>sm. sm_id sm = i) (rev (v2_memories uuid5)) of Some sm \<Rightarrow> sm_slug sm | None \<Rightarrow> take 8 i)"

section \<open>The data keeps its own rules\<close>

lemmas corpus_defs = v2_memories_def v1_memories_def v1_daily_life_def v1_medical_def v1_home_def v2_extra_def v1_row_def v2_row_def namespaced_row_def

lemma corpus_size: "length (v1_memories uuid5) = 44" "length (v2_memories uuid5) = 63"
  by (simp_all add: v1_memories_def v1_daily_life_def v1_medical_def v1_home_def v2_memories_def v2_extra_def)

lemma corpus_slugs: "distinct (map sm_slug (v2_memories uuid5))"
  by (simp add: corpus_defs)

lemma corpus_texts: "distinct (map sm_content (v2_memories uuid5))"
  by (simp add: corpus_defs)

definition v2_slugs :: "string list" where
  "v2_slugs = [''lens85'', ''lens35'', ''lenscap'', ''tripod'', ''compactcam'', ''perseids'', ''astroclub'', ''lightpollution'',
     ''allotmentplot'', ''runnerbeans'', ''greenhouse'', ''shedtools'', ''compostbin'', ''allotmentsummary'', ''chessclub'',
     ''chessnumber'', ''filmscanner'', ''chisels'', ''workbench'']"

lemma v2_extra_slugs: "map sm_slug (v2_extra uuid5) = v2_slugs"
  by (simp add: v2_extra_def v2_row_def namespaced_row_def v2_slugs_def)

lemma v1_ids: "sm \<in> set (v1_memories uuid5) \<Longrightarrow> sm_id sm = memory_id uuid5 (sm_slug sm)"
  by (auto simp: v1_memories_def v1_daily_life_def v1_medical_def v1_home_def v1_row_def namespaced_row_def memory_id_def)

lemma v2_extra_ids: "sm \<in> set (v2_extra uuid5) \<Longrightarrow> sm_id sm = memory_id_v2 uuid5 (sm_slug sm)"
  by (auto simp: v2_extra_def v2_row_def namespaced_row_def memory_id_v2_def)

end
