(* ===== verification/Golden.thy ===== *)
theory Golden
  imports Corpora
begin

text \<open>
  Seeding the second corpus (\<^verbatim>\<open>seed(memories=V2_MEMORIES, lifecycle=LIFECYCLE_V2)\<close>): when the statements of theory Fixtures
  succeed, what each override reaches, and that the row the suite forbids is erased from the start.
\<close>

section \<open>When seeding succeeds\<close>

lemma insert_seeds_ok:
  assumes "distinct (map (sm_id \<circ> fst) ps)" "sm_id ` fst ` set ps \<inter> m_id ` set (d_mems (x_db t)) = {}"
  shows "\<exists>t'. insert_seeds s a ps t = Inr t' \<and> d_gen (x_db t') = d_gen (x_db t) \<and> d_next (x_db t') = d_next (x_db t)"
  using assms
proof (induction s a ps t rule: insert_seeds.induct)
  case (2 s a sm v rest t)
  then obtain u where u: "insert_seed s a sm v t = Inr u" by (auto simp: insert_seed_def Let_def)
  have "m_id ` set (d_mems (x_db u)) = insert (sm_id sm) (m_id ` set (d_mems (x_db t)))"
    and gen: "d_gen (x_db u) = d_gen (x_db t)" "d_next (x_db u) = d_next (x_db t)"
    using u by (auto simp: insert_seed_def Let_def new_memory_def split: if_splits)
  then have "sm_id ` fst ` set rest \<inter> m_id ` set (d_mems (x_db u)) = {}" using "2.prems" by auto
  then show ?case using "2.IH"[OF u] "2.prems"(1) u gen by simp
qed simp

text \<open>An override that works on every row: the identifier it reaches and what it does to the row.\<close>

definition override_ok :: "seed_memory list \<Rightarrow> timestamp \<Rightarrow> string \<times> (string \<times> override) list \<Rightarrow> uuid \<times> ('v mem \<Rightarrow> 'v mem) \<Rightarrow> bool" where
  "override_ok ms now e u \<longleftrightarrow>
     (\<exists>sm fs. find (\<lambda>sm. sm_slug sm = fst e) (rev ms) = Some sm \<and> sm_id sm = fst u \<and>
        assignments now (snd e) = Inr fs \<and> fs \<noteq> [] \<and> (\<forall>m. assign_all fs m = Some (snd u m)))"

definition touch :: "role \<Rightarrow> uuid \<Rightarrow> uuid \<times> ('v mem \<Rightarrow> 'v mem) \<Rightarrow> 'v mem \<Rightarrow> 'v mem" where
  "touch r s u m = (if visible r m \<and> m_id m = fst u \<and> m_subject m = s then snd u m else m)"

definition reached :: "uuid \<Rightarrow> uuid \<Rightarrow> 'v tx \<Rightarrow> 'v mem list" where
  "reached s i t = select_rows (\<lambda>m. m_id m = i \<and> m_subject m = s) t"

lemma override_row_ok:
  assumes "override_ok ms (x_now t) e u" "length (reached s (fst u) t) = 1"
  shows "\<exists>t'. override_row s ms e t = Inr t' \<and> x_role t' = x_role t \<and> x_now t' = x_now t \<and>
    x_db t' = (x_db t) \<lparr> d_mems := map (touch (x_role t) s u) (d_mems (x_db t)) \<rparr>"
proof -
  obtain slug ov where e: "e = (slug, ov)" by (cases e)
  obtain sm fs where o: "find (\<lambda>sm. sm_slug sm = slug) (rev ms) = Some sm" "sm_id sm = fst u"
    "assignments (x_now t) ov = Inr fs" "fs \<noteq> []" "\<And>m. assign_all fs m = Some (snd u m)"
    using assms(1) by (auto simp: override_ok_def e)
  have "override_row s ms e t = Inr (snd (update_rows (\<lambda>m. m_id m = fst u \<and> m_subject m = s) (snd u) t))"
    using assms(2) o by (simp add: override_row_def e reached_def list_ex_iff)
  then show ?thesis
    by (auto simp: update_rows_def update_table_def touch_def)
qed

lemma touch_id [simp]: "(\<And>m. written_as m (snd u m)) \<Longrightarrow> m_id (touch r s u m) = m_id m"
  "(\<And>m. written_as m (snd u m)) \<Longrightarrow> m_subject (touch r s u m) = m_subject m"
  "(\<And>m. written_as m (snd u m)) \<Longrightarrow> visible r' (touch r s u m) = visible r' m"
  by (auto simp: touch_def written_as_def visible_def split: role.split)

lemma override_written: "override_ok ms now e u \<Longrightarrow> written_as m (snd u m)"
  using assign_all_written by (fastforce simp: override_ok_def)

lemma reached_touched:
  assumes "\<And>m. written_as m (snd u m)" "x_role t' = x_role t" "d_mems (x_db t') = map (touch r s' u) (d_mems (x_db t))"
  shows "length (reached s i t') = length (reached s i t)"
  using assms by (simp add: reached_def select_rows_def filter_map comp_def)

lemma apply_lifecycle_ok:
  assumes "list_all2 (override_ok ms (x_now t)) es us" "\<forall>u \<in> set us. length (reached s (fst u) t) = 1"
  shows "\<exists>t'. apply_lifecycle s ms es t = Inr (length es, t') \<and>
    x_db t' = (x_db t) \<lparr> d_mems := map (fold (touch (x_role t) s) us) (d_mems (x_db t)) \<rparr>"
  using assms
proof (induction es arbitrary: us t)
  case (Cons e es)
  then obtain u vs where us: "us = u # vs" "override_ok ms (x_now t) e u" "list_all2 (override_ok ms (x_now t)) es vs"
    by (auto simp: list_all2_Cons1)
  obtain t1 where t1: "override_row s ms e t = Inr t1" "x_role t1 = x_role t" "x_now t1 = x_now t"
    "x_db t1 = (x_db t) \<lparr> d_mems := map (touch (x_role t) s u) (d_mems (x_db t)) \<rparr>"
    using override_row_ok[OF us(2)] Cons.prems(2) us(1) by auto
  have "length (reached s i t1) = length (reached s i t)" for i
    by (rule reached_touched[OF override_written[OF us(2)] t1(2), of "x_role t" s]) (simp add: t1(4))
  then have "\<forall>u \<in> set vs. length (reached s (fst u) t1) = 1" using Cons.prems(2) us(1) by simp
  from Cons.IH[OF us(3)[folded t1(3)] this] obtain t2 where
    "apply_lifecycle s ms es t1 = Inr (length es, t2)"
    "x_db t2 = (x_db t1) \<lparr> d_mems := map (fold (touch (x_role t1) s) vs) (d_mems (x_db t1)) \<rparr>" by blast
  then show ?case using t1 us(1) by (auto simp: comp_def)
qed simp

section \<open>The life cycle of the second corpus\<close>

text \<open>What the four overrides do, each to the row of its slug.\<close>

definition days :: "int \<Rightarrow> int" where "days n = n * 86400 * 1000000"

definition aged_by :: "(string \<Rightarrow> uuid) \<Rightarrow> timestamp \<Rightarrow> (uuid \<times> ('v mem \<Rightarrow> 'v mem)) list" where
  "aged_by uuid5 now =
     [(memory_id_v2 uuid5 ''astroclub'',
         \<lambda>m. m \<lparr> m_archived := Some now, m_weight := 8 / 100, m_accessed := now - days 500 \<rparr>),
      (memory_id_v2 uuid5 ''filmscanner'', \<lambda>m. m \<lparr> m_weight := 5 / 100, m_accessed := now - days 1100 \<rparr>),
      (memory_id_v2 uuid5 ''chessnumber'', \<lambda>m. m \<lparr> m_deleted := Some now \<rparr>),
      (memory_id_v2 uuid5 ''allotmentsummary'', \<lambda>m. m \<lparr> m_accessed := now - days 2 \<rparr>)]"

lemma lifecycle_days:
  assumes "list_all digit n" "n \<noteq> []" "length n \<le> 6"
  shows "lifecycle_sql (days_ago n) now = Some (Some (now - days (int (digits_value n))))"
proof -
  have nd: "\<not> digit (CHR '' '')" by (simp add: digit_def)
  have "takeWhile digit (n @ '' days'' @ [CHR 0x27]) = n" "dropWhile digit (n @ '' days'' @ [CHR 0x27]) = '' days'' @ [CHR 0x27]"
    using assms(1) nd by (induction n) auto
  then show ?thesis
    using assms(2,3)
    by (simp add: lifecycle_sql_def days_ago_def interval_head_def interval_units_def days_def)
qed

lemma find_by_slug:
  "distinct (map sm_slug ms) \<Longrightarrow> sm \<in> set ms \<Longrightarrow> find (\<lambda>x. sm_slug x = sm_slug sm) (rev ms) = Some sm"
proof -
  assume "distinct (map sm_slug ms)" "sm \<in> set ms"
  moreover have "distinct (map sm_slug ns) \<Longrightarrow> sm \<in> set ns \<Longrightarrow> find (\<lambda>x. sm_slug x = sm_slug sm) ns = Some sm" for ns
    by (induction ns) force+
  ultimately show ?thesis by (simp add: rev_map[symmetric])
qed

lemma lifecycle_overrides: "list_all2 (override_ok (v2_memories uuid5) now) lifecycle_v2 (aged_by uuid5 now)"
proof -
  have sql: "lifecycle_sql ''now()'' now = Some (Some now)" by (simp add: lifecycle_sql_def)
  have d: "lifecycle_sql (days_ago ''500'') now = Some (Some (now - days 500))"
    "lifecycle_sql (days_ago ''1100'') now = Some (Some (now - days 1100))"
    "lifecycle_sql (days_ago ''2'') now = Some (Some (now - days 2))"
    by (simp_all add: lifecycle_days digit_def digits_value_def)
  have f: "\<exists>sm. find (\<lambda>sm. sm_slug sm = slug) (rev (v2_memories uuid5)) = Some sm \<and> sm_id sm = memory_id_v2 uuid5 slug"
    if slug: "slug \<in> set v2_slugs" for slug
  proof -
    obtain sm where sm: "sm \<in> set (v2_extra uuid5)" "sm_slug sm = slug" 
      using slug[folded v2_extra_slugs[of uuid5]] by auto
    then have "find (\<lambda>x. sm_slug x = sm_slug sm) (rev (v2_memories uuid5)) = Some sm"
      by (intro find_by_slug corpus_slugs) (simp add: v2_memories_def)
    then show ?thesis using v2_extra_ids sm by auto
  qed
  have m: "''astroclub'' \<in> set v2_slugs" "''filmscanner'' \<in> set v2_slugs" "''chessnumber'' \<in> set v2_slugs"
    "''allotmentsummary'' \<in> set v2_slugs" by (simp_all add: v2_slugs_def)
  show ?thesis
    using f[OF m(1)] f[OF m(2)] f[OF m(3)] f[OF m(4)]
    by (simp add: lifecycle_v2_def aged_by_def override_ok_def assignment_def lifecycle_columns_def sql d
        set_time_def set_number_def)
qed

section \<open>The seeded database\<close>

text \<open>The conditions under which the corpus fits: \<^verbatim>\<open>uuid5\<close> tells its names apart, no foreign row has one of its
  identifiers, and neither will a later row.\<close>

definition corpus_ids :: "(string \<Rightarrow> uuid) \<Rightarrow> uuid set" where
  "corpus_ids uuid5 = sm_id ` set (v2_memories uuid5)"

definition corpus_fits :: "(string \<Rightarrow> uuid) \<Rightarrow> uuid \<Rightarrow> uuid \<Rightarrow> 'v db \<Rightarrow> bool" where
  "corpus_fits uuid5 s a d \<longleftrightarrow> distinct (map sm_id (v2_memories uuid5)) \<and>
     list_all (\<lambda>m. visible (App s a) m \<or> m_id m \<notin> corpus_ids uuid5) (d_mems d) \<and>
     (\<forall>n \<ge> d_next d. d_gen d n \<notin> corpus_ids uuid5)"

lemma inj_by_distinct: "distinct (map f xs) \<Longrightarrow> x \<in> set xs \<Longrightarrow> y \<in> set xs \<Longrightarrow> f x = f y \<longleftrightarrow> x = y"
  by (auto simp: distinct_map inj_on_def)

lemma id_slug:
  assumes "distinct (map sm_id (v2_memories uuid5))" "sm \<in> set (v2_memories uuid5)" "slug \<in> set v2_slugs"
  shows "sm_id sm = memory_id_v2 uuid5 slug \<longleftrightarrow> sm_slug sm = slug"
proof -
  obtain x where x: "x \<in> set (v2_extra uuid5)" "sm_slug x = slug" using assms(3)[folded v2_extra_slugs[of uuid5]] by auto
  then have "x \<in> set (v2_memories uuid5)" "sm_id x = memory_id_v2 uuid5 slug" using v2_extra_ids by (auto simp: v2_memories_def)
  then show ?thesis
    using inj_by_distinct[OF assms(1,2), of x] inj_by_distinct[OF corpus_slugs assms(2), of x] x(2) by simp
qed

lemma four_slugs [simp]: "''astroclub'' \<in> set v2_slugs" "''filmscanner'' \<in> set v2_slugs" "''chessnumber'' \<in> set v2_slugs"
    "''allotmentsummary'' \<in> set v2_slugs"
  by (simp_all add: v2_slugs_def)

text \<open>A seeded row after the overrides.\<close>

definition golden_row :: "(string \<Rightarrow> uuid) \<Rightarrow> uuid \<Rightarrow> uuid \<Rightarrow> timestamp \<Rightarrow> seed_memory \<times> 'v \<Rightarrow> 'v mem" where
  "golden_row uuid5 s a now p = fold (touch (App s a) s) (aged_by uuid5 now) (seeded s a now p)"

lemma golden_row_of:
  assumes "distinct (map sm_id (v2_memories uuid5))" "sm \<in> set (v2_memories uuid5)"
  shows "golden_row uuid5 s a now (sm, v) =
    (let m = seeded s a now (sm, v) in
     if sm_slug sm = ''astroclub'' then m \<lparr> m_archived := Some now, m_weight := 8 / 100, m_accessed := now - days 500 \<rparr>
     else if sm_slug sm = ''filmscanner'' then m \<lparr> m_weight := 5 / 100, m_accessed := now - days 1100 \<rparr>
     else if sm_slug sm = ''chessnumber'' then m \<lparr> m_deleted := Some now \<rparr>
     else if sm_slug sm = ''allotmentsummary'' then m \<lparr> m_accessed := now - days 2 \<rparr> else m)"
proof -
  have touched: "touch (App s a) s (memory_id_v2 uuid5 slug, f) m = (if sm_slug sm = slug then f m else m)"
    if "slug \<in> set v2_slugs" "m_id m = sm_id sm" "m_subject m = s" "m_actor m = a" for slug f m
    using that id_slug[OF assms that(1)] by (auto simp: touch_def visible_def)
  show ?thesis
    by (cases "sm_slug sm = ''astroclub''"; cases "sm_slug sm = ''filmscanner''"; cases "sm_slug sm = ''chessnumber''";
        cases "sm_slug sm = ''allotmentsummary''")
       (simp_all add: golden_row_def aged_by_def touched seeded_def new_memory_def)
qed

lemma golden_row_state:
  assumes "distinct (map sm_id (v2_memories uuid5))" "sm \<in> set (v2_memories uuid5)"
  shows "m_id (golden_row uuid5 s a now (sm, v)) = sm_id sm"
    and "mem.m_content (golden_row uuid5 s a now (sm, v)) = sm_content sm"
    and "m_deleted (golden_row uuid5 s a now (sm, v)) = (if sm_slug sm = ''chessnumber'' then Some now else None)"
    and "m_archived (golden_row uuid5 s a now (sm, v)) = (if sm_slug sm = ''astroclub'' then Some now else None)"
    and "retrievable s (golden_row uuid5 s a now (sm, v)) \<longleftrightarrow> sm_slug sm \<noteq> ''chessnumber''"
  by (simp_all add: golden_row_of[OF assms] seeded_def new_memory_def retrievable_def Let_def)

lemma one_by_key: "distinct (map m_id ms) \<Longrightarrow> length (filter (\<lambda>m. P m \<and> m_id m = i \<and> Q m) ms) \<le> 1"
proof (induction ms)
  case (Cons m ms)
  then have "filter (\<lambda>x. P x \<and> m_id x = i \<and> Q x) ms = []" if "m_id m = i"
    using that by (auto simp: filter_empty_conv image_iff)
  then show ?case using Cons by auto
qed simp

lemma fold_touch_foreign: "\<not> visible r m \<Longrightarrow> fold (touch r s) us m = m"
  by (induction us) (auto simp: touch_def)

lemma fold_touch_id: "(\<And>u m. u \<in> set us \<Longrightarrow> written_as m (snd u m)) \<Longrightarrow> m_id (fold (touch r s) us m) = m_id m"
  by (induction us arbitrary: m) simp_all

lemma aged_slugs: "fst ` set (aged_by uuid5 now) \<subseteq> memory_id_v2 uuid5 ` set v2_slugs"
  by (simp add: aged_by_def)

lemma seed_v2_session:
  assumes ok: "db_ok d" and fits: "corpus_fits uuid5 s a d" and len: "length vs = length (v2_memories uuid5)"
  shows "\<exists>t. seed_session s a (v2_memories uuid5) vs lifecycle_v2 (session s a now k d) =
      Inr ((length (filter (visible (App s a)) (d_mems d)), 4), t) \<and>
    d_mems (x_db t) = filter (\<lambda>m. \<not> visible (App s a) m) (d_mems d) @
      map (golden_row uuid5 s a now) (zip (v2_memories uuid5) vs) \<and> db_ok (x_db t)"
proof -
  let ?ms = "v2_memories uuid5" and ?r = "App s a" and ?ps = "zip (v2_memories uuid5) vs"
  let ?t1 = "snd (delete_rows (\<lambda>m. m_subject m = s) (session s a now k d))"
  let ?old = "filter (\<lambda>m. \<not> visible ?r m) (d_mems d)"
  have dist: "distinct (map sm_id ?ms)" using fits by (simp add: corpus_fits_def)
  have ids: "map (sm_id \<circ> fst) ?ps = map sm_id ?ms" using len by (simp flip: map_map)
  have t1: "d_mems (x_db ?t1) = ?old" "x_role ?t1 = ?r" "x_now ?t1 = now" by (simp_all only: own_session_rows delete_rows_frame) (simp_all add: session_def)
  have g1: "d_gen (x_db ?t1) = d_gen d" "d_next (x_db ?t1) = d_next d" by (simp_all add: delete_rows_def session_def Let_def)
  have foreign: "m_id ` set ?old \<inter> corpus_ids uuid5 = {}" using fits by (auto simp: corpus_fits_def list_all_iff)
  have "sm_id ` fst ` set ?ps = corpus_ids uuid5"
    using arg_cong[OF ids, of set] by (simp add: corpus_ids_def image_comp)
  then obtain t2 where t2: "insert_seeds s a ?ps ?t1 = Inr t2" "d_gen (x_db t2) = d_gen d" "d_next (x_db t2) = d_next d"
    using insert_seeds_ok[of ?ps ?t1 s a] foreign dist ids t1(1) g1 by (auto simp: Int_commute)
  have m2: "x_role t2 = ?r" "x_now t2 = now" "d_mems (x_db t2) = ?old @ map (seeded s a now) ?ps"
    using insert_seeds_effect[OF t2(1)] t1 by simp_all
  have key: "distinct (map m_id (d_mems (x_db t2)))"
  proof -
    have "distinct (map m_id ?old)" using ok by (simp add: db_ok_def distinct_map_filter)
    moreover have "map m_id (map (seeded s a now) ?ps) = map sm_id ?ms"
      using ids by (simp add: seeded_def new_memory_def split_beta comp_def)
    ultimately show ?thesis using dist foreign m2(3) by (simp add: corpus_ids_def image_image del: map_map)
  qed
  have one: "length (reached s (fst u) t2) = 1" if u: "u \<in> set (aged_by uuid5 now)" for u :: "uuid \<times> ('a mem \<Rightarrow> 'a mem)"
  proof -
    obtain slug where slug: "slug \<in> set v2_slugs" "fst u = memory_id_v2 uuid5 slug"
      using u aged_slugs[of uuid5 now] by blast
    obtain sm where sm: "sm \<in> set (v2_extra uuid5)" "sm_slug sm = slug" using slug(1)[folded v2_extra_slugs[of uuid5]] by auto
    have "sm \<in> set (map fst ?ps)" using sm(1) len by (simp add: v2_memories_def)
    then obtain v where v: "(sm, v) \<in> set ?ps" by auto
    have "sm_id sm = fst u" using v2_extra_ids[OF sm(1)] sm(2) slug(2) by simp
    then have "seeded s a now (sm, v) \<in> set (reached s (fst u) t2)"
      using v by (force simp: reached_def select_rows_def m2 seeded_def new_memory_def visible_def)
    moreover have "length (reached s (fst u) t2) \<le> 1"
      unfolding reached_def select_rows_def by (rule one_by_key[OF key])
    ultimately show ?thesis by (cases "reached s (fst u) t2") auto
  qed
  have overrides: "list_all2 (override_ok ?ms (x_now t2)) lifecycle_v2 (aged_by uuid5 now :: (uuid \<times> ('a mem \<Rightarrow> 'a mem)) list)"
    unfolding m2(2) by (rule lifecycle_overrides)
  have all_one: "\<forall>u \<in> set (aged_by uuid5 now :: (uuid \<times> ('a mem \<Rightarrow> 'a mem)) list). length (reached s (fst u) t2) = 1"
    using one by blast
  note applied = apply_lifecycle_ok[OF overrides all_one, unfolded m2(1)]
  then obtain t where t0: "apply_lifecycle s ?ms lifecycle_v2 t2 = Inr (length lifecycle_v2, t) \<and>
    x_db t = (x_db t2) \<lparr> d_mems := map (fold (touch ?r s) (aged_by uuid5 now)) (d_mems (x_db t2)) \<rparr>" ..
  note t = conjunct1[OF t0] conjunct2[OF t0]
  have old: "map (fold (touch ?r s) (aged_by uuid5 now)) ?old = ?old"
    by (rule map_idI, rule fold_touch_foreign) (simp del: visible_App)
  have mems: "d_mems (x_db t) = ?old @ map (golden_row uuid5 s a now) ?ps"
    unfolding t(2) by (simp add: m2(3) old comp_def golden_row_def[abs_def] del: visible_App)
  have state: "map m_id (d_mems (x_db t)) = map m_id (d_mems (x_db t2))"
  proof -
    have "m_id (fold (touch ?r s) (aged_by uuid5 now) m) = m_id m" for m :: "'a mem"
      by (rule fold_touch_id) (auto simp: aged_by_def written_as_def)
    then show ?thesis by (simp add: t(2))
  qed
  have "ids (x_db t) \<subseteq> ids d \<union> corpus_ids uuid5"
  proof -
    have "m_id ` set (d_mems (x_db t2)) \<subseteq> ids d \<union> corpus_ids uuid5"
      by (auto simp: m2(3) ids_def corpus_ids_def seeded_def new_memory_def split_beta dest: set_zip_leftD)
    then show ?thesis using arg_cong[OF state, of set] by (simp add: ids_def)
  qed
  then have "db_ok (x_db t)"
    using ok fits key[folded state] t2(2,3) unfolding db_ok_def corpus_fits_def by (auto simp: t(2) simp del: map_map)
  then show ?thesis
    using t2(1) t(1) mems
    by (simp add: seed_session_def split_beta delete_rows_count own_session_rows lifecycle_v2_def del: visible_App)
qed

lemma golden_rows:
  assumes "db_ok d'" "distinct (map sm_id (v2_memories uuid5))" "length vs = length (v2_memories uuid5)"
    and "d_mems d' = old @ map (golden_row uuid5 s a now) (zip (v2_memories uuid5) vs)" "sm \<in> set (v2_memories uuid5)"
  shows "\<exists>m. row d' (sm_id sm) = Some m \<and> m_subject m = s \<and> mem.m_content m = sm_content sm \<and>
    (retrievable s m \<longleftrightarrow> sm_slug sm \<noteq> ''chessnumber'') \<and> (forgotten m \<longleftrightarrow> sm_slug sm = ''chessnumber'') \<and>
    (m_archived m \<noteq> None \<longleftrightarrow> sm_slug sm = ''astroclub'')"
proof -
  have "sm \<in> set (map fst (zip (v2_memories uuid5) vs))" using assms(3,5) by simp
  then obtain v where v: "(sm, v) \<in> set (zip (v2_memories uuid5) vs)" by auto
  let ?m = "golden_row uuid5 s a now (sm, v)"
  note state = golden_row_state[OF assms(2,5), of s a now v]
  have "?m \<in> set (d_mems d')" using v assms(4) by auto
  then have "row d' (sm_id sm) = Some ?m" using row_eq[OF assms(1)] state(1) by metis
  moreover have "m_subject ?m = s" "m_superseded ?m = None" "m_stale ?m = None"
    by (simp_all add: golden_row_of[OF assms(2,5)] seeded_def new_memory_def Let_def)
  ultimately show ?thesis using state by (auto simp: forgotten_def)
qed

lemma chessnumber_row: "\<exists>sm \<in> set (v2_memories uuid5). sm_slug sm = ''chessnumber'' \<and> sm_id sm = memory_id_v2 uuid5 ''chessnumber''"
proof -
  have "''chessnumber'' \<in> sm_slug ` set (v2_extra uuid5)" using four_slugs(3)[folded v2_extra_slugs[of uuid5]] by simp
  then obtain sm where "sm \<in> set (v2_extra uuid5)" "sm_slug sm = ''chessnumber''" by auto
  then show ?thesis using v2_extra_ids[of sm] by (intro bexI[of _ sm]) (auto simp: v2_memories_def)
qed

lemma seed_v2:
  assumes "db_ok d" "corpus_fits uuid5 s a d"
    and "embeddings_for env (map sm_content (v2_memories uuid5)) True file = (Inr vs, file1)"
  obtains summary file' d' old where
    "seed env (all_corpora uuid5) s a (v2_memories uuid5) lifecycle_v2 True now file d = (Inr summary, file', d')"
    "ss_inserted summary = 63" "ss_lifecycle_applied summary = 4" "db_ok d'"
    "d_mems d' = old @ map (golden_row uuid5 s a now) (zip (v2_memories uuid5) vs)" "length vs = length (v2_memories uuid5)"
proof -
  have len: "length vs = length (v2_memories uuid5)"
    using embeddings_for_Inr[OF assms(3)] by (simp add: cached_vectors_Inr)
  obtain n file' where p: "prune_cache env (all_corpus_texts (all_corpora uuid5)) file1 = (n, file')" by fastforce
  obtain t where t: "seed_session s a (v2_memories uuid5) vs lifecycle_v2 (session s a now True d) =
      Inr ((length (filter (visible (App s a)) (d_mems d)), 4), t)"
    "d_mems (x_db t) = filter (\<lambda>m. \<not> visible (App s a) m) (d_mems d) @
      map (golden_row uuid5 s a now) (zip (v2_memories uuid5) vs)" "db_ok (x_db t)"
    using seed_v2_session[OF assms(1,2) len, of now True] by blast
  show ?thesis
    by (rule that[OF _ _ _ t(3,2) len]) (simp add: seed_def assms(3) p t(1) corpus_size del: visible_App, simp_all)
qed

section \<open>Property\<close>

text \<open>C38. The golden corpus is what its suite asks about. On a database the corpus fits, with vectors for its texts, seeding
  the second generation succeeds, writes all 63 rows and ages four; every row is there with its text, all but one
  can be retrieved, among them the archived one, and the one the user erased is forgotten. However the database changes
  afterwards, no run of a suite that forbids that row ever reports it.\<close>

theorem golden_corpus_is_sound:
  assumes "db_ok d" "corpus_fits uuid5 s a d"
    and "embeddings_for env (map sm_content (v2_memories uuid5)) True file = (Inr vs, file1)"
  shows "\<exists>summary file' d'.
    seed env (all_corpora uuid5) s a (v2_memories uuid5) lifecycle_v2 True now file d = (Inr summary, file', d') \<and>
    ss_inserted summary = 63 \<and> ss_lifecycle_applied summary = 4 \<and>
    list_all (\<lambda>sm. \<exists>m. row d' (sm_id sm) = Some m \<and> m_subject m = s \<and> mem.m_content m = sm_content sm \<and>
      (retrievable s m \<longleftrightarrow> sm_slug sm \<noteq> ''chessnumber'') \<and> (forgotten m \<longleftrightarrow> sm_slug sm = ''chessnumber'') \<and>
      (m_archived m \<noteq> None \<longleftrightarrow> sm_slug sm = ''astroclub'')) (v2_memories uuid5) \<and>
    (\<forall>d'' su sc js records out. history d' d'' \<and> suite_records js = Inr records \<and>
       list_all (\<lambda>r. set (sr_forbidden r) \<subseteq> {memory_id_v2 uuid5 ''chessnumber''}) records \<and>
       run_queries su sc d'' js = Inr out \<longrightarrow> eo_forbidden_failures out = [])"
proof -
  obtain summary file' d' old where seeded:
    "seed env (all_corpora uuid5) s a (v2_memories uuid5) lifecycle_v2 True now file d = (Inr summary, file', d')"
    "ss_inserted summary = 63" "ss_lifecycle_applied summary = 4" "db_ok d'"
    "d_mems d' = old @ map (golden_row uuid5 s a now) (zip (v2_memories uuid5) vs)" "length vs = length (v2_memories uuid5)"
    by (rule seed_v2[OF assms])
  have dist: "distinct (map sm_id (v2_memories uuid5))" using assms(2) by (simp add: corpus_fits_def)
  note rows = golden_rows[OF seeded(4) dist seeded(6,5)]
  obtain sm where sm: "sm \<in> set (v2_memories uuid5)" "sm_slug sm = ''chessnumber''" "sm_id sm = memory_id_v2 uuid5 ''chessnumber''"
    using chessnumber_row by blast
  obtain m where m: "row d' (memory_id_v2 uuid5 ''chessnumber'') = Some m" "forgotten m" using rows[OF sm(1)] sm(2,3) by auto
  have "eo_forbidden_failures out = []"
    if "history d' d''" "suite_records js = Inr records" "run_queries su sc d'' js = Inr out"
      "list_all (\<lambda>r. set (sr_forbidden r) \<subseteq> {memory_id_v2 uuid5 ''chessnumber''}) records" for d'' su sc js records out
  proof -
    have "list_all (\<lambda>r. list_all (\<lambda>i. \<exists>m. row d' i = Some m \<and> forgotten m) (sr_forbidden r)) records"
      using that(4) m by (auto simp: list_all_iff subset_iff)
    from forgotten_never_resurface[OF seeded(4) that(1,2) this that(3)] show ?thesis by simp
  qed
  moreover have "list_all (\<lambda>sm. \<exists>m. row d' (sm_id sm) = Some m \<and> m_subject m = s \<and> mem.m_content m = sm_content sm \<and>
      (retrievable s m \<longleftrightarrow> sm_slug sm \<noteq> ''chessnumber'') \<and> (forgotten m \<longleftrightarrow> sm_slug sm = ''chessnumber'') \<and>
      (m_archived m \<noteq> None \<longleftrightarrow> sm_slug sm = ''astroclub'')) (v2_memories uuid5)"
    using rows by (simp only: list_all_iff) blast
  ultimately show ?thesis using seeded(1-3) by blast
qed

section \<open>An example\<close>

text \<open>An empty database, identifiers that are the names themselves, and a cache that holds every vector.\<close>

definition ex_blank :: "real list db" where
  "ex_blank = \<lparr> d_mems = [], d_audits = [], d_gen = (\<lambda>n. replicate n (CHR ''x'')), d_next = 0 \<rparr>"

lemma distinct_map_comp: "distinct (map g xs) \<Longrightarrow> inj h \<Longrightarrow> (\<And>x. x \<in> set xs \<Longrightarrow> f x = h (g x)) \<Longrightarrow> distinct (map f xs)"
  by (auto simp: distinct_map inj_on_def dest: injD)

lemma ex_ids: "distinct (map sm_id (v2_memories (\<lambda>x. x)))" "\<forall>i \<in> corpus_ids (\<lambda>x. x). take 1 i = ''m''"
proof -
  let ?u = "\<lambda>x :: string. x"
  have inj: "inj (memory_id ?u)" "inj (memory_id_v2 ?u)" by (auto simp: inj_def memory_id_def memory_id_v2_def)
  have two: "memory_id ?u x \<noteq> memory_id_v2 ?u y" for x y
    by (simp add: memory_id_def memory_id_v2_def v1_prefix_def v2_prefix_def)
  have slugs: "distinct (map sm_slug (v1_memories ?u))" "distinct (map sm_slug (v2_extra ?u))"
    using corpus_slugs[of ?u] by (simp_all add: v2_memories_def)
  have "distinct (map sm_id (v1_memories ?u))" by (rule distinct_map_comp[OF slugs(1) inj(1) v1_ids])
  moreover have "distinct (map sm_id (v2_extra ?u))" by (rule distinct_map_comp[OF slugs(2) inj(2) v2_extra_ids])
  moreover have "sm_id x \<noteq> sm_id y" if "x \<in> set (v1_memories ?u)" "y \<in> set (v2_extra ?u)" for x y
    using v1_ids[OF that(1)] v2_extra_ids[OF that(2)] two by simp
  ultimately show "distinct (map sm_id (v2_memories ?u))" by (auto simp: v2_memories_def)
  have "take 1 (memory_id ?u x) = ''m''" "take 1 (memory_id_v2 ?u x) = ''m''" for x
    by (simp_all add: memory_id_def memory_id_v2_def v1_prefix_def v2_prefix_def)
  then show "\<forall>i \<in> corpus_ids ?u. take 1 i = ''m''"
    using v1_ids[of _ ?u] v2_extra_ids[of _ ?u] by (auto simp: corpus_ids_def v2_memories_def simp del: One_nat_def)
qed

lemma ex_blank_fits: "db_ok ex_blank" "corpus_fits (\<lambda>x. x) ''s'' ''a'' ex_blank"
proof -
  have "inj (\<lambda>n. replicate n (CHR ''x''))" by (metis injI length_replicate)
  then show "db_ok ex_blank" by (simp add: db_ok_def ex_blank_def ids_def)
  have "replicate n (CHR ''x'') \<notin> corpus_ids (\<lambda>x. x)" for n
    using ex_ids(2) by (cases n) auto
  then show "corpus_fits (\<lambda>x. x) ''s'' ''a'' ex_blank" using ex_ids(1) by (simp add: corpus_fits_def ex_blank_def)
qed

lemma all_cached:
  "embeddings_for env texts True (map (\<lambda>t. (cache_key env t, [1])) texts) =
     (Inr (map (\<lambda>t. the (map_of (map (\<lambda>t. (cache_key env t, [1])) texts) (cache_key env t))) texts),
      map (\<lambda>t. (cache_key env t, [1])) texts)"
proof -
  have hit: "map_of (map (\<lambda>t. (cache_key env t, [1])) texts) (cache_key env t) \<noteq> None" if "t \<in> set texts" for t
    using that by (auto simp: map_of_eq_None_iff image_image)
  then have "missing_vectors env (map (\<lambda>t. (cache_key env t, [1])) texts) texts = []"
    by (auto simp: missing_vectors_def filter_empty_conv)
  then show ?thesis by (simp add: embeddings_for_def cached_vectors_def Let_def)
qed

theorem golden_corpus_is_sound_witness:
  "\<exists>summary file file' d'. seed ex_senv (all_corpora (\<lambda>x. x)) ''s'' ''a'' (v2_memories (\<lambda>x. x)) lifecycle_v2 True 9 file ex_blank =
     (Inr summary, file', d') \<and> ss_inserted summary = 63 \<and> ss_lifecycle_applied summary = 4"
  using golden_corpus_is_sound[OF ex_blank_fits all_cached, of ex_senv 9] by blast

end
