(* ===== verification/Health.thy ===== *)
theory Health
  imports Settings
begin

text \<open>
  What an operator looks at: the dependency probes (\<^verbatim>\<open>store/db.py\<close>) and the health endpoint built on them
  (\<^verbatim>\<open>api/main.py\<close>), the probe of the model providers (\<^verbatim>\<open>llm/config.py\<close>), the set-up of the log
  (\<^verbatim>\<open>capture/metrics.py\<close>), and the script that waits until capture has settled (\<^verbatim>\<open>scripts/e2e_settle.py\<close>).
  The drivers are parameters: what connecting, selecting and pinging answer, and which URLs the Redis client
  accepts at all.
\<close>

section \<open>Probes\<close>

text \<open>The driver raises, or answers the row of \<^verbatim>\<open>SELECT 1\<close>. The connection string is built inside the \<^verbatim>\<open>try\<close>.\<close>

definition ping_postgres ::
  "(string \<Rightarrow> bool) \<Rightarrow> (string \<Rightarrow> int \<Rightarrow> unit + int option) \<Rightarrow> environ \<Rightarrow> real \<Rightarrow> bool" where
  "ping_postgres is_ip connect env timeout =
     (case app_dsn is_ip env of
        Inl _ \<Rightarrow> False
      | Inr dsn \<Rightarrow> (case connect dsn (max 1 \<lfloor>timeout\<rfloor>) of Inl _ \<Rightarrow> False | Inr r \<Rightarrow> r = Some 1))"

text \<open>The client is built before the \<^verbatim>\<open>try\<close>; a URL it does not accept raises \<^verbatim>\<open>ValueError\<close>. Closing it never raises.\<close>

definition ping_redis :: "(string \<Rightarrow> bool) \<Rightarrow> (string \<Rightarrow> unit + bool) \<Rightarrow> environ \<Rightarrow> bool res" where
  "ping_redis url_ok ping env =
     (if \<not> url_ok (redis_url env) then Inl ValueError
      else Inr (case ping (redis_url env) of Inl _ \<Rightarrow> False | Inr b \<Rightarrow> b))"

section \<open>The endpoint\<close>

record health_report =
  hr_status :: string
  hr_postgres :: bool
  hr_redis :: bool
  hr_completion :: string
  hr_embedding :: string
  hr_latency :: real

text \<open>\<^verbatim>\<open>gather\<close> hands an exception of a probe on, and so does the handler.\<close>

definition health :: "bool \<Rightarrow> bool res \<Rightarrow> environ \<Rightarrow> real \<Rightarrow> health_report res" where
  "health postgres_ok redis env elapsed =
     bind_res redis (\<lambda>redis_ok.
       bind_res (resolve_completion_model env) (\<lambda>completion. bind_res (resolve_embedding_model env) (\<lambda>embedding.
         Inr \<lparr> hr_status = (if postgres_ok \<and> redis_ok then ''ok'' else ''degraded''), hr_postgres = postgres_ok,
           hr_redis = redis_ok, hr_completion = completion, hr_embedding = embedding,
           hr_latency = py_round 2 (elapsed * 1000) \<rparr>)))"

definition health_endpoint ::
  "(string \<Rightarrow> bool) \<Rightarrow> (string \<Rightarrow> int \<Rightarrow> unit + int option) \<Rightarrow> (string \<Rightarrow> bool) \<Rightarrow> (string \<Rightarrow> unit + bool) \<Rightarrow>
     environ \<Rightarrow> real \<Rightarrow> nat + health_report" where
  "health_endpoint is_ip connect url_ok ping env elapsed =
     (case health (ping_postgres is_ip connect env 3) (ping_redis url_ok ping env) env elapsed of
        Inl _ \<Rightarrow> Inl 500
      | Inr r \<Rightarrow> Inr r)"

section \<open>The providers\<close>

record provider_report =
  pr_completion_model :: string
  pr_embedding_model :: string
  pr_dim :: int
  pr_completion :: "string + bool \<times> string"
  pr_embedding :: "string + bool \<times> nat"

text \<open>The two calls are arguments: the printed exception, or the answer.\<close>

definition llm_health :: "environ \<Rightarrow> string + string \<Rightarrow> string + real list list \<Rightarrow> provider_report res" where
  "llm_health env completed vectors =
     bind_res (resolve_completion_model env) (\<lambda>model.
     bind_res (resolve_embedding_model env) (\<lambda>embedding_model.
     bind_res (resolve_embedding_dim env) (\<lambda>dim.
       Inr \<lparr> pr_completion_model = model, pr_embedding_model = embedding_model, pr_dim = dim,
         pr_completion = (case completed of Inl e \<Rightarrow> Inl e | Inr t \<Rightarrow> Inr (strip t \<noteq> [], take 120 (strip t))),
         pr_embedding = (case vectors of
             Inl e \<Rightarrow> Inl e
           | Inr vs \<Rightarrow> Inr (vs \<noteq> [] \<and> int (length (hd vs)) = dim, if vs = [] then 0 else length (hd vs))) \<rparr>)))"

section \<open>The log\<close>

text \<open>The handlers of our logger, marked when they are ours, and whether the root logger has any.\<close>

record log_setup =
  lg_level :: "string option"
  lg_ours :: "bool list"
  lg_root :: bool
  lg_propagate :: bool

definition level_names :: "string list" where
  "level_names = [''CRITICAL'', ''FATAL'', ''ERROR'', ''WARN'', ''WARNING'', ''INFO'', ''DEBUG'', ''NOTSET'']"

definition upper_char :: "char \<Rightarrow> char" where
  "upper_char c = (let n = (of_char c :: nat) in if 97 \<le> n \<and> n \<le> 122 then char_of (n - 32) else c)"

text \<open>\<^verbatim>\<open>setLevel\<close> refuses a name it does not know. Beyond ASCII no letter could complete a known name.\<close>

definition configure_logging :: "environ \<Rightarrow> string option \<Rightarrow> log_setup \<Rightarrow> log_setup res" where
  "configure_logging env level lg =
     (let chosen = (case level of Some l \<Rightarrow> if l = [] then None else Some l | None \<Rightarrow> None);
          name = (case chosen of Some l \<Rightarrow> l | None \<Rightarrow> (case env_set env ''LOG_LEVEL'' of Some l \<Rightarrow> l | None \<Rightarrow> ''INFO''));
          resolved = map upper_char name
      in if resolved \<notin> set level_names then Inl ValueError
         else Inr (lg \<lparr> lg_level := Some resolved,
                  lg_ours := (if \<not> lg_root lg \<and> \<not> list_ex id (lg_ours lg) then lg_ours lg @ [True] else lg_ours lg),
                  lg_propagate := True \<rparr>))"

section \<open>Waiting for capture to settle\<close>

definition stable_readings :: nat where "stable_readings = 3"

datatype settling = Settled nat | Unsettled int

text \<open>The readings the loop takes, each with the clock before it; the first one past the deadline ends the loop.\<close>

fun settle_loop :: "real \<Rightarrow> (real \<times> nat) list \<Rightarrow> int \<Rightarrow> nat \<Rightarrow> settling" where
  "settle_loop deadline [] previous repeats = Unsettled previous"
| "settle_loop deadline ((clock, current) # readings) previous repeats =
     (if \<not> clock < deadline then Unsettled previous
      else let repeats' = (if int current = previous then repeats + 1 else 0)
           in if stable_readings \<le> repeats' then Settled current
              else settle_loop deadline readings (int current) repeats')"

definition settle_main :: "real \<Rightarrow> (real \<times> nat) list \<Rightarrow> settling \<times> nat" where
  "settle_main deadline readings = (settle_loop deadline readings (- 1) 0, 0)"

section \<open>What they promise\<close>

lemma models_resolve: "\<exists>m. resolve_completion_model env = Inr m" "\<exists>m. resolve_embedding_model env = Inr m"
proof -
  have "resolve_completion_model env \<noteq> Inl e" "resolve_embedding_model env \<noteq> Inl e" for e
    by (simp_all add: resolve_completion_model_def resolve_embedding_model_def lm.total llm_defaults_def)
  then show "\<exists>m. resolve_completion_model env = Inr m" "\<exists>m. resolve_embedding_model env = Inr m"
    by (metis sum.exhaust)+
qed

text \<open>The endpoint answers whatever state PostgreSQL and a well-addressed Redis are in, and says \<^verbatim>\<open>ok\<close> only when both are up.\<close>

lemma health_answers:
  assumes "url_ok (redis_url env)"
  shows "\<exists>r. health_endpoint is_ip connect url_ok ping env elapsed = Inr r \<and>
    hr_postgres r = ping_postgres is_ip connect env 3 \<and> hr_redis r = (ping (redis_url env) = Inr True) \<and>
    (hr_status r = ''ok'' \<longleftrightarrow> hr_postgres r \<and> hr_redis r)"
  using models_resolve[of env] assms
  by (auto simp: health_endpoint_def health_def ping_redis_def split: sum.split)

text \<open>An unusable URL is not a dead dependency but a failed request; a variable set to nothing is such a URL, since the
  default of \<^verbatim>\<open>REDIS_URL\<close> stands in for an absent variable only.\<close>

lemma bad_redis_url_fails_the_endpoint:
  "\<not> url_ok (redis_url env) \<Longrightarrow> health_endpoint is_ip connect url_ok ping env elapsed = Inl 500"
  "env ''REDIS_URL'' = Some [] \<Longrightarrow> redis_url env = []"
  by (simp_all add: health_endpoint_def health_def ping_redis_def redis_url_def)

text \<open>A broken connection string is a dead PostgreSQL.\<close>

lemma unset_password_is_down:
  "env_set env ''APP_DATABASE_URL'' = None \<Longrightarrow> env_set env ''APP_DB_PASSWORD'' = None \<Longrightarrow>
     \<not> ping_postgres is_ip connect env timeout"
  by (simp add: ping_postgres_def app_dsn_def app_db_password_def)

lemma llm_health_dim:
  "llm_health env completed (Inr vs) = Inr r \<Longrightarrow>
     (\<exists>n. pr_embedding r = Inr (True, n)) \<longleftrightarrow> (\<exists>v ws. vs = v # ws \<and> int (length v) = pr_dim r)"
proof -
  assume "llm_health env completed (Inr vs) = Inr r"
  then have "pr_embedding r = Inr (vs \<noteq> [] \<and> int (length (hd vs)) = pr_dim r, if vs = [] then 0 else length (hd vs))"
    by (auto simp: llm_health_def bind_res_Inr_iff)
  then show ?thesis by (cases vs) auto
qed

text \<open>Configuring twice attaches one handler, and none where the host logs already.\<close>

lemma configure_logging_again:
  assumes "configure_logging env level lg = Inr lg'"
  shows "configure_logging env level lg' = Inr lg'" "lg_root lg \<Longrightarrow> lg_ours lg' = lg_ours lg"
    "\<not> lg_root lg \<Longrightarrow> list_ex id (lg_ours lg')"
  using assms by (auto simp: configure_logging_def Let_def split: if_splits)

text \<open>A settled count has been read four times in a row.\<close>

lemma settle_loop_sound:
  assumes "settle_loop deadline rs previous repeats = Settled n"
    and "(h = [] \<and> previous = - 1) \<or> (\<exists>e p. h = e @ replicate (Suc repeats) p \<and> previous = int p)"
  shows "\<exists>e l. h @ map snd rs = e @ replicate (Suc stable_readings) n @ l"
  using assms
proof (induction deadline rs previous repeats arbitrary: h rule: settle_loop.induct)
  case (2 deadline clock current readings previous repeats)
  let ?s = "if int current = previous then repeats + 1 else 0"
  have clock: "clock < deadline" using "2.prems"(1) by (auto split: if_splits)
  have seen: "\<exists>e. h @ [current] = e @ replicate (Suc ?s) current"
  proof (cases "int current = previous")
    case True
    then obtain e where "h = e @ replicate (Suc repeats) current" using "2.prems"(2) by auto
    then show ?thesis using True by (auto simp: replicate_append_same)
  qed simp
  show ?case
  proof (cases "stable_readings \<le> ?s")
    case True
    then have n: "n = current" using "2.prems"(1) clock by (simp add: Let_def)
    obtain e where e: "h @ [current] = e @ replicate (Suc ?s) current" using seen by blast
    have "replicate (Suc ?s) current = replicate (?s - stable_readings) current @ replicate (Suc stable_readings) current"
      using True by (simp only: replicate_add[symmetric]) simp
    then have "h @ map snd ((clock, current) # readings) =
        (e @ replicate (?s - stable_readings) current) @ replicate (Suc stable_readings) n @ map snd readings"
      using e n by (metis append.assoc append_Cons append_Nil list.simps(9) snd_conv)
    then show ?thesis by blast
  next
    case False
    have rest: "settle_loop deadline readings (int current) ?s = Settled n"
      using "2.prems"(1) clock False by (simp add: Let_def split: if_splits)
    have "\<exists>e l. (h @ [current]) @ map snd readings = e @ replicate (Suc stable_readings) n @ l"
      by (rule "2.IH"[OF _ refl False rest]) (use clock seen in auto)
    then show ?thesis by simp
  qed
qed simp

lemma settled_is_stable:
  "fst (settle_main deadline rs) = Settled n \<Longrightarrow> \<exists>e l. map snd rs = e @ replicate 4 n @ l"
  using settle_loop_sound[of deadline rs "- 1" 0 n "[]"]
  by (simp add: settle_main_def stable_readings_def eval_nat_numeral)

end
