(* ===== verification/Reports.thy ===== *)
theory Reports
  imports Evaluation Ranking Settings
begin

text \<open>
  What the program prints about its numbers: fixed-point formatting and \<^verbatim>\<open>repr\<close> as Python does them, the breakdown of a
  ranking (\<^verbatim>\<open>retrieve/ranking.py\<close>), the table of the regression gate and the file a suite is read from
  (\<^verbatim>\<open>evals/run_eval.py\<close>). A printed score can be read back: it is off by half a unit of its last digit at most.
\<close>

section \<open>Formatting\<close>

text \<open>\<^verbatim>\<open>f"{x:.nf}"\<close> of a number that is not negative, for \<open>n > 0\<close>.\<close>

definition fixed_digits :: "nat \<Rightarrow> real \<Rightarrow> string" where
  "fixed_digits n x =
     (let w = nat_str (nat (round_even (x * 10 ^ n)));
          padded = replicate (Suc n - length w) (CHR ''0'') @ w;
          k = length padded - n
      in take k padded @ CHR ''.'' # drop k padded)"

fun fixed :: "bool \<Rightarrow> nat \<Rightarrow> pyfloat \<Rightarrow> string" where
  "fixed signed n (Fin x) = (if x < 0 then ''-'' else if signed then ''+'' else '''') @ fixed_digits n \<bar>x\<bar>"
| "fixed signed n NaN = (if signed then ''+nan'' else ''nan'')"
| "fixed signed n PosInf = (if signed then ''+inf'' else ''inf'')"
| "fixed signed n NegInf = ''-inf''"

definition pad_right :: "nat \<Rightarrow> string \<Rightarrow> string" where
  "pad_right w s = s @ replicate (w - length s) (CHR '' '')"

definition pad_left :: "nat \<Rightarrow> string \<Rightarrow> string" where
  "pad_left w s = replicate (w - length s) (CHR '' '') @ s"

text \<open>\<^verbatim>\<open>repr\<close> of a string.\<close>

definition hex_lower :: "nat \<Rightarrow> char" where
  "hex_lower n = (if n < 10 then char_of (48 + n) else char_of (87 + n))"

definition repr_char :: "char \<Rightarrow> char \<Rightarrow> string" where
  "repr_char q c =
     (let n = (of_char c :: nat) in
      if c = q \<or> c = backslash then [backslash, c]
      else if n = 9 then [backslash, CHR ''t''] else if n = 10 then [backslash, CHR ''n'']
      else if n = 13 then [backslash, CHR ''r'']
      else if n < 32 \<or> (127 \<le> n \<and> n \<le> 160) \<or> n = 173 then [backslash, CHR ''x'', hex_lower (n div 16), hex_lower (n mod 16)]
      else [c])"

definition py_repr :: "string \<Rightarrow> string" where
  "py_repr s =
     (let q = (if CHR 0x27 \<in> set s \<and> CHR 0x22 \<notin> set s then CHR 0x22 else CHR 0x27)
      in q # concat (map (repr_char q) s) @ [q])"

section \<open>The ranking\<close>

definition breakdown_to_dict :: "score_breakdown \<Rightarrow> (string \<times> real) list" where
  "breakdown_to_dict b =
     [(''semantic'', py_round 6 (b_semantic b)), (''recency'', py_round 6 (b_recency b)),
      (''activation'', py_round 6 (b_activation b)), (''frequency'', py_round 6 (b_frequency b)),
      (''importance'', py_round 6 (b_importance b)), (''total'', py_round 6 (b_total b))]"

record ranked_dict =
  rk_memory_id :: uuid
  rk_content :: string
  rk_score :: real
  rk_breakdown :: "(string \<times> real) list"

definition ranked_to_dict :: "ranked \<Rightarrow> ranked_dict" where
  "ranked_to_dict r = \<lparr> rk_memory_id = r_id r, rk_content = r_content r, rk_score = py_round 6 (r_score r),
     rk_breakdown = breakdown_to_dict (r_breakdown r) \<rparr>"

definition explain :: "score_breakdown \<Rightarrow> string" where
  "explain b =
     ''0.35*'' @ fixed False 4 (Fin (b_semantic b)) @ ''(sem) + '' @
     ''0.25*'' @ fixed False 4 (Fin (b_recency b)) @ ''(rec:created) + '' @
     ''0.1*'' @ fixed False 4 (Fin (b_activation b)) @ ''(act:accessed) + '' @
     ''0.1*'' @ fixed False 4 (Fin (b_frequency b)) @ ''(freq) + '' @
     ''0.2*'' @ fixed False 4 (Fin (b_importance b)) @ ''(imp) = '' @ fixed False 6 (Fin (b_total b))"

datatype log_level = Debug | Info

text \<open>The weights as the log prints the dictionary.\<close>

definition printed_weights :: string where
  "printed_weights =
     (let item = (\<lambda>(name, w). py_repr name @ '': '' @ w)
      in ''{'' @ join '', '' (map item [(''semantic'', ''0.35''), (''recency'', ''0.25''), (''activation'', ''0.1''),
           (''frequency'', ''0.1''), (''importance'', ''0.2'')]) @ ''}'')"

definition breakdown_line :: "uuid set \<Rightarrow> nat \<times> ranked \<Rightarrow> string" where
  "breakdown_line kept pr =
     (let (position, item) = pr
      in ''  #'' @ nat_str position @ '' '' @ (if r_id item \<in> kept then ''KEEP'' else ''drop'') @ '' '' @ r_id item @ ''  ['' @
         explain (r_breakdown item) @ '']  '' @ py_repr (take 60 (r_content item)))"

definition log_breakdown :: "bool \<Rightarrow> bool \<Rightarrow> ranked list \<Rightarrow> ranked list \<Rightarrow> (log_level \<times> string) list" where
  "log_breakdown forced debug_enabled rs selected =
     (if \<not> forced \<and> \<not> debug_enabled then []
      else (let level = (if forced then Info else Debug);
                kept = set (map r_id selected);
                summary = ''ranking '' @ nat_str (length rs) @ '' candidates, keeping '' @ nat_str (length selected) @
                  '' (weights '' @ printed_weights @ '')''
            in (level, summary) # map (\<lambda>pr. (level, breakdown_line kept pr)) (zip [1..<Suc (length rs)] rs)))"

section \<open>The gate's table\<close>

fun status_text :: "gate_status \<Rightarrow> string" where
  "status_text NoBaseline = ''no_baseline''"
| "status_text Missing_metric = ''MISSING''"
| "status_text Regressed = ''REGRESSED''"
| "status_text Held = ''ok''"

definition gate_line :: "gate_row \<Rightarrow> string" where
  "gate_line r =
     (let cell = (\<lambda>signed v. pad_left 12 (case v of None \<Rightarrow> ''-'' | Some x \<Rightarrow> fixed signed 4 x))
      in ''    '' @ pad_right 22 (gr_metric r) @ cell False (gr_baseline r) @ cell False (gr_current r) @
         cell True (gr_delta r) @ ''   '' @ status_text (gr_status r))"

definition format_gate :: "gate_row list \<Rightarrow> string \<Rightarrow> string \<Rightarrow> string" where
  "format_gate rows tier baseline_name =
     join [newline]
       ((''REGRESSION GATE - '' @ py_repr tier @ '' queries vs '' @ baseline_name) #
        (''    '' @ pad_right 22 ''metric'' @ pad_left 12 ''baseline'' @ pad_left 12 ''current'' @ pad_left 12 ''delta'' @ ''   status'') #
        map gate_line rows)"

section \<open>The report of a run\<close>

text \<open>\<^verbatim>\<open>summary()\<close> formats the margin with a sign and five places; there is no text when the margin is missing.\<close>

definition separation_summary :: "separation_report \<Rightarrow> string option" where
  "separation_summary r =
     (case sp_target_rank r of
        None \<Rightarrow> Some (''target not present in corpus (n='' @ nat_str (sp_corpus_size r) @ '')'')
      | Some n \<Rightarrow> map_option (\<lambda>m. ''semantic rank '' @ nat_str n @ ''/'' @ nat_str (sp_corpus_size r) @ '', margin@'' @
          int_str (sp_boundary_rank r) @ '' '' @ fixed True 5 (Fin m) @ '' ('' @ (if is_outside r then ''outside'' else ''INSIDE'') @ '')'')
          (sp_margin r))"

record separation_dict =
  sd_corpus_size :: nat
  sd_target_id :: "uuid option"
  sd_target_rank :: "nat option"
  sd_target_distance :: "real option"
  sd_boundary_rank :: int
  sd_boundary_distance :: "real option"
  sd_margin :: "real option"
  sd_outside :: bool

definition separation_to_dict :: "separation_report \<Rightarrow> separation_dict" where
  "separation_to_dict r =
     \<lparr> sd_corpus_size = sp_corpus_size r, sd_target_id = sp_target_id r, sd_target_rank = sp_target_rank r,
       sd_target_distance = map_option (py_round 6) (sp_target_distance r), sd_boundary_rank = sp_boundary_rank r,
       sd_boundary_distance = map_option (py_round 6) (sp_boundary_distance r), sd_margin = map_option (py_round 6) (sp_margin r),
       sd_outside = is_outside r \<rparr>"

definition dashes :: string where
  "dashes = replicate 78 (CHR ''-'')"

definition path_lines :: "eval_outcome \<Rightarrow> string list" where
  "path_lines out =
     [dashes, ''PER-PATH BREAKDOWN (candidates inside top-k, summed over all queries)'',
      ''    found by BOTH paths        : '' @ nat_str (eo_both out),
      ''    found by SEMANTIC only     : '' @ nat_str (eo_semantic_only out),
      ''    found by KEYWORD only      : '' @ nat_str (eo_keyword_only out), dashes]"

text \<open>The metrics at their ceiling, and the lines about them. The dash of the text is outside the characters modelled.\<close>

definition saturated :: "aggregates \<Rightarrow> string list" where
  "saturated a = map fst (filter (\<lambda>(name, v). 1 \<le> v)
     [(''recall'', ag_macro_recall a), (''MRR'', ag_mrr a), (''mean P@R'', ag_mean_precision_at_r a)])"

definition saturated_lines :: "string \<Rightarrow> aggregates \<Rightarrow> string list" where
  "saturated_lines dash a =
     (if saturated a = [] then []
      else [''    SATURATED      : '' @ join '', '' (saturated a) @ '' at ceiling on this suite.'',
        ''          These can only regress, never improve, so M8's >= gate reads as'',
        ''          'do not regress'. golden_set_v2 needs harder queries '' @ dash @ '' near-miss'',
        ''          distractors, multi-hop phrasing, decayed/archived rows '' @ dash @ '' if the'',
        ''          baseline is to discriminate rather than merely tripwire.''])"

definition aggregate_lines :: "string \<Rightarrow> int \<Rightarrow> aggregates \<Rightarrow> real \<Rightarrow> real \<Rightarrow> string list" where
  "aggregate_lines dash top_k a mean_expected elapsed =
     (let num = (\<lambda>x. fixed False 4 (Fin x)); cap = mean_expected / of_int top_k
      in [''AGGREGATE'', ''    queries        : '' @ nat_str (ag_queries a),
          ''    precision      : '' @ num (ag_macro_precision a) @ ''   (macro)'',
          ''    recall         : '' @ num (ag_macro_recall a) @ ''   (macro)'',
          ''    f1             : '' @ num (ag_macro_f1 a) @ ''   (macro)'',
          ''    micro_precision: '' @ num (ag_micro_precision a),
          ''    micro_recall   : '' @ num (ag_micro_recall a),
          ''    micro_f1       : '' @ num (ag_micro_f1 a),
          ''    MRR            : '' @ num (ag_mrr a) @ ''   (rank-sensitive)'',
          ''    mean P@R       : '' @ num (ag_mean_precision_at_r a) @ ''   (rank-sensitive)'',
          ''    NOTE: with a full top-'' @ int_str top_k @ '' and recall '' @ fixed False 2 (Fin (ag_macro_recall a)) @ '', macro precision'',
          ''          is structurally pinned at mean(|expected|)/k = '' @ num mean_expected @ ''/'' @ int_str top_k @ '' = '' @
            num cap @ ''. It measures the'',
          ''          label counts, not the ranking. Use MRR / P@R to judge quality.''] @
         saturated_lines dash a @ [''    wall time      : '' @ fixed False 2 (Fin elapsed) @ ''s'', dashes])"

definition tier_lines :: "(string \<times> aggregates) list \<Rightarrow> string list" where
  "tier_lines tiers =
     (if length tiers \<le> 1 then []
      else ''BY TIER'' # map (\<lambda>(tier, a). ''    '' @ pad_right 12 tier @ '' n='' @ pad_right 3 (nat_str (ag_queries a)) @
          '' recall='' @ fixed False 4 (Fin (ag_macro_recall a)) @ ''  mrr='' @ fixed False 4 (Fin (ag_mrr a)) @
          ''  P@R='' @ fixed False 4 (Fin (ag_mean_precision_at_r a)) @ ''   ['' @
          (if tier = gate_tier then ''GATED against baseline'' else ''characterization only'') @ '']'') tiers @ [dashes])"

text \<open>The lines after the queries; a run that got this far has a record, so the mean is there and the cutoff is not 0.\<close>

definition report_lines :: "string \<Rightarrow> int \<Rightarrow> eval_outcome \<Rightarrow> real \<Rightarrow> string list" where
  "report_lines dash top_k out elapsed =
     path_lines out @
     (case ag_mean_expected_size (eo_aggregate out) of
        None \<Rightarrow> []
      | Some m \<Rightarrow> aggregate_lines dash top_k (eo_aggregate out) m elapsed) @
     tier_lines (eo_by_tier out)"

text \<open>The verdict of the gate; the size of the baseline's corpus is printed as the file has it.\<close>

definition gate_verdict :: "eval_outcome \<Rightarrow> nat \<Rightarrow> string \<Rightarrow> string list" where
  "gate_verdict out corpus baseline_size =
     (if eo_gate_passed out then
        [[], ''    GATE PASS - the '' @ nat_str (ag_queries (case map_of (eo_by_tier out) gate_tier of Some a \<Rightarrow> a | None \<Rightarrow> eo_aggregate out)) @
           '' held-out v1 queries hold their baseline against a corpus of '' @ nat_str corpus @ '' rows'',
         ''    (the baseline was measured over '' @ baseline_size @ '').'']
      else
        [[], ''    GATE FAIL - retrieval regressed on the held-out v1 queries.'',
         ''    These are the SAME nine queries the baseline was measured on, so'',
         ''    this is a real drop in retrieval quality, not an artefact of new'',
         ''    labels.''])"

text \<open>The line of a query that returned forbidden memories, by their slugs.\<close>

definition py_list :: "string list \<Rightarrow> string" where
  "py_list xs = ''['' @ join '', '' xs @ '']''"

definition forbidden_line :: "(uuid \<Rightarrow> string) \<Rightarrow> string \<times> (uuid \<times> nat) list \<Rightarrow> string" where
  "forbidden_line slug qr =
     (let (query_id, found) = qr
      in query_id @ '': '' @ py_list (map (\<lambda>(i, _). py_repr (slug i)) found) @
         '' must never be retrieved (soft-deleted) but came back at rank(s) '' @ py_list (map (\<lambda>(_, n). nat_str n) found))"

section \<open>The suite's file\<close>

text \<open>The names a file may have, the first that exists wins. \<open>base_dir\<close> is the repository's directory.\<close>

definition suites :: "(string \<times> string) list" where
  "suites = [(''golden_set_v1'', ''golden_set.jsonl''), (''golden_set_v2'', ''golden_set_v2.jsonl'')]"

definition resolve_suite :: "(string \<Rightarrow> bool) \<Rightarrow> string \<Rightarrow> string \<Rightarrow> string option" where
  "resolve_suite present base_dir suite =
     find present
       ((case map_of suites suite of Some f \<Rightarrow> [base_dir @ ''/evals/'' @ f] | None \<Rightarrow> []) @
        [base_dir @ ''/evals/'' @ suite @ ''.jsonl'', suite])"

section \<open>A printed number reads back\<close>

lemma digits_value_zeros: "digits_value (replicate m (CHR ''0'') @ s) = digits_value s"
  by (induction m) (simp_all add: digits_value_def)

lemma fixed_digits_shape:
  assumes "0 < n"
  obtains whole fraction where "fixed_digits n x = whole @ CHR ''.'' # fraction" "length fraction = n" "whole \<noteq> []"
    "list_all digit whole" "list_all digit fraction" "digits_value (whole @ fraction) = nat (round_even (x * 10 ^ n))"
proof -
  let ?w = "nat_str (nat (round_even (x * 10 ^ n)))"
  let ?p = "replicate (Suc n - length ?w) (CHR ''0'') @ ?w"
  let ?k = "length ?p - n"
  have len: "n < length ?p" by auto
  have dig: "list_all digit ?p" using nat_str_digits[of "nat (round_even (x * 10 ^ n))"]
    by (auto simp: list_all_iff) (simp add: digit_def)
  show ?thesis
  proof (rule that[of "take ?k ?p" "drop ?k ?p"])
    show "fixed_digits n x = take ?k ?p @ CHR ''.'' # drop ?k ?p" by (simp only: fixed_digits_def Let_def)
    show "length (drop ?k ?p) = n" using len by (simp only: length_drop) linarith
    show "take ?k ?p \<noteq> []" using len by (simp only: take_eq_Nil) auto
    show "list_all digit (take ?k ?p)" "list_all digit (drop ?k ?p)"
      using dig by (auto simp only: list_all_iff dest: in_set_takeD in_set_dropD)
    show "digits_value (take ?k ?p @ drop ?k ?p) = nat (round_even (x * 10 ^ n))"
      using nat_str_digits by (simp only: append_take_drop_id digits_value_zeros)
  qed
qed

lemma round_even_nonneg: "0 \<le> y \<Longrightarrow> 0 \<le> round_even y"
  using round_even_mono[of 0 y] round_even_of_int[of 0] by simp

text \<open>The number of a printed value that is not negative: the nearest multiple of the last digit's unit.\<close>

lemma printed_reads_back:
  assumes "0 < n" "0 \<le> x" "x * 10 ^ n \<le> 10 ^ 9 - 1"
  shows "py_float_str (fixed False n (Fin x)) = Inr (Fin (py_round n x))" "\<bar>py_round n x - x\<bar> \<le> 1 / 2 / 10 ^ n"
proof -
  obtain whole fraction where s: "fixed_digits n \<bar>x\<bar> = whole @ CHR ''.'' # fraction" "length fraction = n" "whole \<noteq> []"
    "list_all digit whole" "list_all digit fraction" "digits_value (whole @ fraction) = nat (round_even (\<bar>x\<bar> * 10 ^ n))"
    by (rule fixed_digits_shape[OF assms(1)])
  have x: "\<bar>x\<bar> = x" using assms(2) by simp
  have pos: "0 \<le> round_even (x * 10 ^ n)" by (rule round_even_nonneg) (use assms(2) in simp)
  have "round_even (x * 10 ^ n) \<le> round_even (of_int (10 ^ 9 - 1))" by (rule round_even_mono) (use assms(3) in simp)
  then have "round_even (x * 10 ^ n) \<le> 10 ^ 9 - 1" by (simp only: round_even_of_int)
  then have "nat (round_even (x * 10 ^ n)) \<le> 10 ^ 9" by simp
  then have "py_float_str (whole @ CHR ''.'' # fraction) = Inr (Fin (real (nat (round_even (x * 10 ^ n))) / 10 ^ n))"
    using py_float_str_plain[OF s(4,5)] s(2,3,6) x by simp
  then show "py_float_str (fixed False n (Fin x)) = Inr (Fin (py_round n x))"
    using pos assms(2) s(1) by (simp add: py_round_def)
  have "\<bar>of_int (round_even (x * 10 ^ n)) - x * 10 ^ n\<bar> \<le> 1 / 2" by (rule round_even_close)
  then have "\<bar>of_int (round_even (x * 10 ^ n)) - x * 10 ^ n\<bar> / 10 ^ n \<le> 1 / 2 / 10 ^ n" by (rule divide_right_mono) simp
  moreover have "py_round n x - x = (of_int (round_even (x * 10 ^ n)) - x * 10 ^ n) / 10 ^ n"
    by (simp add: py_round_def diff_divide_distrib)
  ultimately show "\<bar>py_round n x - x\<bar> \<le> 1 / 2 / 10 ^ n" by (simp add: abs_divide)
qed

text \<open>With distinct identifiers the log keeps exactly the selected lines, and it is silent when nobody listens.\<close>

lemma log_breakdown_silent: "log_breakdown forced debug rs selected = [] \<longleftrightarrow> \<not> forced \<and> \<not> debug"
  by (simp add: log_breakdown_def Let_def)

lemma kept_are_selected:
  assumes "distinct (map r_id rs)" "i < length rs"
  shows "r_id (rs ! i) \<in> set (map r_id (take k rs)) \<longleftrightarrow> i < k"
proof
  assume "r_id (rs ! i) \<in> set (map r_id (take k rs))"
  then obtain j where "j < length (take k rs)" "r_id (rs ! i) = r_id (rs ! j)" by (auto simp: in_set_conv_nth)
  moreover from this have "map r_id rs ! i = map r_id rs ! j" "j < length rs" using assms(2) by auto
  ultimately have "i = j" using nth_eq_iff_index_eq[OF assms(1), of i j] assms(2) by simp
  then show "i < k" using \<open>j < length (take k rs)\<close> by simp
next
  assume "i < k"
  then have "take k rs ! i = rs ! i" "i < length (take k rs)" using assms(2) by simp_all
  then have "rs ! i \<in> set (take k rs)" by (metis nth_mem)
  then show "r_id (rs ! i) \<in> set (map r_id (take k rs))" by simp
qed

text \<open>The summary of a probe fails exactly when it has a target and no margin; the run then stops, as \<^const>\<open>eval_record\<close> says.\<close>

lemma summary_fails_iff: "separation_summary r = None \<longleftrightarrow> sp_target_rank r \<noteq> None \<and> sp_margin r = None"
  by (auto simp: separation_summary_def split: option.splits)

lemma saturated_iff:
  "''MRR'' \<in> set (saturated a) \<longleftrightarrow> 1 \<le> ag_mrr a" "''recall'' \<in> set (saturated a) \<longleftrightarrow> 1 \<le> ag_macro_recall a"
  "''mean P@R'' \<in> set (saturated a) \<longleftrightarrow> 1 \<le> ag_mean_precision_at_r a"
  by (simp_all add: saturated_def)

text \<open>A run that ends by itself prints the whole report: the mean its cap divides is there, and the cutoff is not 0.\<close>

lemma report_is_whole:
  assumes "run_eval search separation subject top_k baseline records = Inr out"
  shows "top_k \<noteq> 0 \<and> (\<exists>m. report_lines dash top_k out elapsed =
    path_lines out @ aggregate_lines dash top_k (eo_aggregate out) m elapsed @ tier_lines (eo_by_tier out))"
proof -
  obtain qs where qs: "eval_records search separation subject top_k records = Inr qs"
    using assms by (cases "eval_records search separation subject top_k records") (simp_all add: run_eval_def)
  have ran: "qs \<noteq> [] \<and> top_k \<noteq> 0" using assms by (simp add: run_eval_def qs split: if_splits)
  then have "eo_aggregate out = aggregate (map qr_score qs)"
    using assms by (auto simp: run_eval_def qs Let_def split_beta split: option.splits sum.splits)
  moreover have "top_k \<noteq> 0" "qs \<noteq> []" using ran by simp_all
  moreover from this(2) have "ag_mean_expected_size (aggregate (map qr_score qs)) \<noteq> None"
    by (simp add: aggregate_def Let_def)
  ultimately show ?thesis by (auto simp: report_lines_def)
qed

text \<open>A file given by its name is found when the suite's own files are missing.\<close>

lemma resolve_suite_literal:
  "present suite \<Longrightarrow> resolve_suite present base_dir suite \<noteq> None"
  by (auto simp: resolve_suite_def find_None_iff)

end
