(* ===== verification/Recognizers.thy ===== *)
theory Recognizers
  imports Extract
begin

text \<open>
  The recognizers the scrubber adds to Presidio's registry (\<^verbatim>\<open>capture/pii.py\<close>): their patterns as data, what a pattern
  matches, the matches \<^verbatim>\<open>finditer\<close> lists, and the engines built once for all threads. What counts as a word
  character, a digit or white space differs a little between the regular expression engines Presidio may run on, so the
  three classes are an argument; the locale \<open>char_classes\<close> says what the patterns need of them, and Python's own classes
  are an instance.
\<close>

section \<open>Patterns\<close>

record char_table =
  is_word :: "char \<Rightarrow> bool"
  is_decimal :: "char \<Rightarrow> bool"
  is_white :: "char \<Rightarrow> bool"

text \<open>\<^verbatim>\<open>\d\<close>, a set of characters with or without white space, \<^verbatim>\<open>\b\<close>, \<^verbatim>\<open>(?!r)\<close>, \<^verbatim>\<open>rq\<close>, \<^verbatim>\<open>r|q\<close>, \<^verbatim>\<open>r?\<close>, \<^verbatim>\<open>r{n}\<close>.\<close>

datatype pattern =
    Decimal
  | AnyOf bool string
  | Boundary
  | NotAhead pattern
  | Then pattern pattern
  | Either pattern pattern
  | Maybe pattern
  | Exactly nat pattern

definition boundary_at :: "char_table \<Rightarrow> string \<Rightarrow> nat \<Rightarrow> bool" where
  "boundary_at cl s i =
     ((0 < i \<and> i \<le> length s \<and> is_word cl (s ! (i - 1))) \<noteq> (i < length s \<and> is_word cl (s ! i)))"

fun repeated :: "nat \<Rightarrow> (nat \<Rightarrow> nat list) \<Rightarrow> nat \<Rightarrow> nat list" where
  "repeated 0 f i = [i]"
| "repeated (Suc n) f i = concat (map (repeated n f) (f i))"

text \<open>Where a match that begins at \<open>i\<close> can end, in the order in which a backtracking matcher tries the ends.\<close>

fun ends :: "char_table \<Rightarrow> string \<Rightarrow> pattern \<Rightarrow> nat \<Rightarrow> nat list" where
  "ends cl s Decimal i = (if i < length s \<and> is_decimal cl (s ! i) then [Suc i] else [])"
| "ends cl s (AnyOf white cs) i =
     (if i < length s \<and> (s ! i \<in> set cs \<or> white \<and> is_white cl (s ! i)) then [Suc i] else [])"
| "ends cl s Boundary i = (if boundary_at cl s i then [i] else [])"
| "ends cl s (NotAhead r) i = (if ends cl s r i = [] then [i] else [])"
| "ends cl s (Then r q) i = concat (map (ends cl s q) (ends cl s r i))"
| "ends cl s (Either r q) i = ends cl s r i @ ends cl s q i"
| "ends cl s (Maybe r) i = ends cl s r i @ [i]"
| "ends cl s (Exactly n r) i = repeated n (ends cl s r) i"

text \<open>\<^verbatim>\<open>finditer\<close> for a pattern that matches no empty text: from left to right, going on behind each match.\<close>

function find_from :: "char_table \<Rightarrow> string \<Rightarrow> pattern \<Rightarrow> nat \<Rightarrow> (nat \<times> nat) list" where
  "find_from cl s r i =
     (if length s < i then []
      else case ends cl s r i of
             [] \<Rightarrow> find_from cl s r (Suc i)
           | j # _ \<Rightarrow> (i, j) # find_from cl s r (max j (Suc i)))"
  by pat_completeness auto
termination
  by (relation "measure (\<lambda>(cl, s, r, i). Suc (length s) - i)") auto

declare find_from.simps [simp del]

definition find_all :: "char_table \<Rightarrow> pattern \<Rightarrow> string \<Rightarrow> (nat \<times> nat) list" where
  "find_all cl r s = find_from cl s r 0"

section \<open>The recognizers\<close>

definition sequence :: "pattern list \<Rightarrow> pattern" where
  "sequence rs = foldr Then (butlast rs) (last rs)"

definition delimiter :: pattern where
  "delimiter = AnyOf True ''-.''"

definition literal :: "string \<Rightarrow> pattern" where
  "literal cs = sequence (map (\<lambda>c. AnyOf False [c]) cs)"

definition ssn_delimited :: pattern where
  "ssn_delimited =
     sequence [Boundary, Exactly 3 Decimal, delimiter, Exactly 2 Decimal, delimiter, Exactly 4 Decimal, Boundary]"

definition ssn_plain :: pattern where
  "ssn_plain =
     sequence [Boundary,
       NotAhead (Either (literal ''000'') (Either (literal ''666'') (sequence [literal ''9'', Decimal, Decimal]))),
       Exactly 3 Decimal, NotAhead (literal ''00''), Exactly 2 Decimal, NotAhead (literal ''0000''), Exactly 4 Decimal, Boundary]"

definition us_phone :: pattern where
  "us_phone =
     sequence [Boundary, Maybe (sequence [Maybe (literal ''+''), literal ''1'', Maybe delimiter]), Maybe (literal ''(''),
       Exactly 3 Decimal, Maybe (literal '')''), delimiter, Exactly 3 Decimal, delimiter, Exactly 4 Decimal, Boundary]"

record recognizer =
  rc_entity :: string
  rc_name :: string
  rc_patterns :: "(string \<times> pattern \<times> real) list"
  rc_context :: "string list"

definition reinforcement_recognizers :: "recognizer list" where
  "reinforcement_recognizers =
     [\<lparr> rc_entity = ''US_SSN'', rc_name = ''ssn_reinforcement'',
        rc_patterns = [(''ssn_delimited'', ssn_delimited, 0.85), (''ssn_plain'', ssn_plain, 0.45)],
        rc_context = [''ssn'', ''social security'', ''social-security'', ''social security number''] \<rparr>,
      \<lparr> rc_entity = ''PHONE_NUMBER'', rc_name = ''phone_reinforcement'',
        rc_patterns = [(''us_phone'', us_phone, 0.7)],
        rc_context = [''phone'', ''call'', ''mobile'', ''cell'', ''number''] \<rparr>]"

definition target_entities :: "string list" where
  "target_entities = [''US_SSN'', ''EMAIL_ADDRESS'', ''PHONE_NUMBER'', ''CREDIT_CARD'', ''IBAN_CODE'', ''IP_ADDRESS'',
     ''US_PASSPORT'', ''US_DRIVER_LICENSE'', ''US_BANK_NUMBER'']"

text \<open>The spans of one recognizer that clear a threshold, pattern by pattern.\<close>

definition recognized :: "char_table \<Rightarrow> recognizer \<Rightarrow> real \<Rightarrow> string \<Rightarrow> pii_span list" where
  "recognized cl rc threshold s =
     concat (map (\<lambda>(name, r, score). if threshold \<le> score then map (\<lambda>(i, j). (rc_entity rc, i, j)) (find_all cl r s) else [])
       (rc_patterns rc))"

section \<open>The engines\<close>

text \<open>\<^verbatim>\<open>get_engines\<close> under its lock: what building yields is kept once it worked, and a failure is tried again.\<close>

definition get_engines :: "('e + 'x) \<Rightarrow> 'x option \<Rightarrow> ('e + 'x) \<times> 'x option" where
  "get_engines build engines =
     (case engines of
        Some x \<Rightarrow> (Inr x, engines)
      | None \<Rightarrow> (case build of Inl e \<Rightarrow> (Inl e, None) | Inr x \<Rightarrow> (Inr x, Some x)))"

section \<open>Scanning\<close>

lemma find_from_end: "length s < i \<Longrightarrow> find_from cl s r i = []"
  by (simp add: find_from.simps)

lemma find_from_miss: "i \<le> length s \<Longrightarrow> ends cl s r i = [] \<Longrightarrow> find_from cl s r i = find_from cl s r (Suc i)"
  by (subst find_from.simps) simp

lemma find_from_hit: "i \<le> length s \<Longrightarrow> ends cl s r i = j # js \<Longrightarrow> find_from cl s r i = (i, j) # find_from cl s r (max j (Suc i))"
  by (subst find_from.simps) simp

text \<open>Whatever could match at a place, some match listed covers that place.\<close>

lemma match_is_covered:
  assumes "ends cl s r k \<noteq> []" "k \<le> length s" "i \<le> k"
    and nonempty: "\<And>i j. j \<in> set (ends cl s r i) \<Longrightarrow> i < j"
  shows "\<exists>(a, b) \<in> set (find_from cl s r i). a \<le> k \<and> k < b"
  using assms(3)
proof (induction "k - i" arbitrary: i rule: less_induct)
  case less
  show ?case
  proof (cases "ends cl s r i")
    case Nil
    then have "i \<noteq> k" using assms(1) by auto
    then have "i < k" using less.prems by simp
    then show ?thesis using less.hyps[of "Suc i"] Nil assms(2) by (simp add: find_from_miss)
  next
    case (Cons j js)
    then have j: "i < j" using nonempty by simp
    have step: "find_from cl s r i = (i, j) # find_from cl s r (max j (Suc i))"
      using Cons less.prems assms(2) by (simp add: find_from_hit)
    show ?thesis
    proof (cases "k < j")
      case True
      then show ?thesis using less.prems by (simp add: step)
    next
      case False
      then have "\<exists>(a, b) \<in> set (find_from cl s r (max j (Suc i))). a \<le> k \<and> k < b"
        by (intro less.hyps) (use j in auto)
      then show ?thesis by (simp add: step)
    qed
  qed
qed

text \<open>A pattern of fixed width whose matches never overlap: exactly the matches are listed.\<close>

lemma find_from_fixed:
  assumes shape: "\<And>i. ends cl s r i = (if M i then [i + w] else [])" and "0 < w"
    and apart: "\<And>i j. M i \<Longrightarrow> M j \<Longrightarrow> i < j \<Longrightarrow> i + w \<le> j" and inside: "\<And>i. M i \<Longrightarrow> i + w \<le> length s"
  shows "set (find_from cl s r i) = {(k, k + w) |k. i \<le> k \<and> M k}"
proof (induction "Suc (length s) - i" arbitrary: i rule: less_induct)
  case less
  consider "length s < i" | "i \<le> length s" "\<not> M i" | "i \<le> length s" "M i" by linarith
  then show ?case
  proof cases
    case 1
    then show ?thesis using inside by (fastforce simp: find_from_end)
  next
    case 2
    have "{(k, k + w) |k. i \<le> k \<and> M k} = {(k, k + w) |k. Suc i \<le> k \<and> M k}"
      using 2(2) by (auto simp: Suc_le_eq le_less)
    then show ?thesis using less[of "Suc i"] 2 by (simp add: find_from_miss shape)
  next
    case 3
    have "{(k, k + w) |k. i \<le> k \<and> M k} = insert (i, i + w) {(k, k + w) |k. i + w \<le> k \<and> M k}"
      using 3(2) apart[OF 3(2)] \<open>0 < w\<close> by (auto simp: le_less) 
    moreover have "max (i + w) (Suc i) = i + w" using \<open>0 < w\<close> by simp
    ultimately show ?thesis using less[of "i + w"] 3 \<open>0 < w\<close> by (simp add: find_from_hit shape)
  qed
qed

section \<open>What the patterns find\<close>

lemma all_below_Suc: "(\<forall>k < Suc n. P k) \<longleftrightarrow> P 0 \<and> (\<forall>k < n. P (Suc k))"
  using less_Suc_eq_0_disj by auto

lemma guarded_bind [simp]: "concat (map f (if P then [x] else [])) = (if P then f x else [])"
  by simp

lemma guarded_and: "(if P then if Q then xs else [] else []) = (if P \<and> Q then xs else [])"
  by simp

lemma ends_decimals:
  "ends cl s (Exactly n Decimal) i = (if (n = 0 \<or> i + n \<le> length s) \<and> (\<forall>k < n. is_decimal cl (s ! (i + k))) then [i + n] else [])"
proof (induction n arbitrary: i)
  case (Suc n)
  have "ends cl s (Exactly (Suc n) Decimal) i =
      (if i < length s \<and> is_decimal cl (s ! i) then ends cl s (Exactly n Decimal) (Suc i) else [])"
    by simp
  also have "\<dots> = (if i < length s \<and> is_decimal cl (s ! i) then
      if (n = 0 \<or> Suc i + n \<le> length s) \<and> (\<forall>k < n. is_decimal cl (s ! (Suc i + k))) then [Suc i + n] else [] else [])"
    by (simp only: Suc)
  finally show ?case by (auto simp: all_below_Suc)
qed simp

definition delimits :: "char_table \<Rightarrow> char \<Rightarrow> bool" where
  "delimits cl c \<longleftrightarrow> c \<in> {CHR ''-'', CHR ''.''} \<or> is_white cl c"

text \<open>The layout of a delimited number, by positions.\<close>

definition ssn_at :: "char_table \<Rightarrow> string \<Rightarrow> nat \<Rightarrow> bool" where
  "ssn_at cl s i \<longleftrightarrow> i + 11 \<le> length s \<and> list_all (\<lambda>k. is_decimal cl (s ! (i + k))) [0, 1, 2, 4, 5, 7, 8, 9, 10] \<and>
     list_all (\<lambda>k. delimits cl (s ! (i + k))) [3, 6] \<and> boundary_at cl s i \<and> boundary_at cl s (i + 11)"

lemma below_numerals: "(\<forall>k < (2 :: nat). P k) \<longleftrightarrow> P 0 \<and> P 1" "(\<forall>k < (3 :: nat). P k) \<longleftrightarrow> P 0 \<and> P 1 \<and> P 2"
  "(\<forall>k < (4 :: nat). P k) \<longleftrightarrow> P 0 \<and> P 1 \<and> P 2 \<and> P 3"
  by (auto simp: numeral_eq_Suc less_Suc_eq)

lemma ends_delimiter: "ends cl s delimiter i = (if i < length s \<and> delimits cl (s ! i) then [i + 1] else [])"
  by (simp add: delimiter_def delimits_def disj_commute)

lemma ends_numbers:
  "ends cl s (Exactly 2 Decimal) i = (if i + 2 \<le> length s \<and> is_decimal cl (s ! i) \<and> is_decimal cl (s ! (i + 1)) then [i + 2] else [])"
  "ends cl s (Exactly 3 Decimal) i = (if i + 3 \<le> length s \<and> is_decimal cl (s ! i) \<and> is_decimal cl (s ! (i + 1)) \<and>
     is_decimal cl (s ! (i + 2)) then [i + 3] else [])"
  "ends cl s (Exactly 4 Decimal) i = (if i + 4 \<le> length s \<and> is_decimal cl (s ! i) \<and> is_decimal cl (s ! (i + 1)) \<and>
     is_decimal cl (s ! (i + 2)) \<and> is_decimal cl (s ! (i + 3)) then [i + 4] else [])"
  unfolding ends_decimals below_numerals by simp_all

lemmas ends_fixed = ends.simps(3,5) guarded_bind guarded_and ends_delimiter ends_numbers

lemma offsets: "i + a + b = i + (a + b)" for i :: nat by simp

lemma ends_ssn_delimited: "ends cl s ssn_delimited i = (if ssn_at cl s i then [i + 11] else [])"
proof -
  have "ends cl s ssn_delimited i =
      ends cl s (Then Boundary (Then (Exactly 3 Decimal) (Then delimiter (Then (Exactly 2 Decimal) (Then delimiter
        (Then (Exactly 4 Decimal) Boundary)))))) i"
    by (simp add: ssn_delimited_def sequence_def)
  also have "\<dots> = (if ssn_at cl s i then [i + 11] else [])"
    unfolding ends_fixed offsets by (auto simp: ssn_at_def)
  finally show ?thesis .
qed

text \<open>Nine digits alone: no area 000, 666 or 9xx, no group 00, no serial 0000.\<close>

definition plain_at :: "char_table \<Rightarrow> string \<Rightarrow> nat \<Rightarrow> bool" where
  "plain_at cl s i \<longleftrightarrow> i + 9 \<le> length s \<and> list_all (\<lambda>k. is_decimal cl (s ! (i + k))) [0, 1, 2, 3, 4, 5, 6, 7, 8] \<and>
     take 3 (drop i s) \<notin> {''000'', ''666''} \<and> s ! i \<noteq> CHR ''9'' \<and> take 2 (drop (i + 3) s) \<noteq> ''00'' \<and>
     take 4 (drop (i + 5) s) \<noteq> ''0000'' \<and> boundary_at cl s i \<and> boundary_at cl s (i + 9)"

lemma ends_char: "ends cl s (AnyOf False [c]) i = (if i < length s \<and> s ! i = c then [i + 1] else [])"
  by simp

lemma take_char: "take (Suc n) (drop i s) = c # cs \<longleftrightarrow> i < length s \<and> s ! i = c \<and> take n (drop (Suc i) s) = cs"
  by (cases "i < length s") (simp_all add: Cons_nth_drop_Suc[symmetric])

lemma take_chars:
  "take 2 (drop i s) = [a, b] \<longleftrightarrow> i + 2 \<le> length s \<and> s ! i = a \<and> s ! (i + 1) = b"
  "take 3 (drop i s) = [a, b, c] \<longleftrightarrow> i + 3 \<le> length s \<and> s ! i = a \<and> s ! (i + 1) = b \<and> s ! (i + 2) = c"
  "take 4 (drop i s) = [a, b, c, d] \<longleftrightarrow> i + 4 \<le> length s \<and> s ! i = a \<and> s ! (i + 1) = b \<and> s ! (i + 2) = c \<and> s ! (i + 3) = d"
  by (auto simp: eval_nat_numeral take_char)

lemma ends_literal:
  "ends cl s (literal [a, b]) i = (if take 2 (drop i s) = [a, b] then [i + 2] else [])"
  "ends cl s (literal [a, b, c]) i = (if take 3 (drop i s) = [a, b, c] then [i + 3] else [])"
  "ends cl s (literal [a, b, c, d]) i = (if take 4 (drop i s) = [a, b, c, d] then [i + 4] else [])"
  by (auto simp: literal_def sequence_def eval_nat_numeral take_char)

definition area_nine :: "char_table \<Rightarrow> string \<Rightarrow> nat \<Rightarrow> bool" where
  "area_nine cl s i \<longleftrightarrow> i + 3 \<le> length s \<and> s ! i = CHR ''9'' \<and> is_decimal cl (s ! (i + 1)) \<and> is_decimal cl (s ! (i + 2))"

lemma ends_area_nine: "ends cl s (sequence [literal ''9'', Decimal, Decimal]) i = (if area_nine cl s i then [i + 3] else [])"
  by (auto simp: literal_def sequence_def area_nine_def eval_nat_numeral)

lemma ends_not_ahead:
  "ends cl s (NotAhead (Either (literal ''000'') (Either (literal ''666'') (sequence [literal ''9'', Decimal, Decimal])))) i =
     (if take 3 (drop i s) \<notin> {''000'', ''666''} \<and> \<not> area_nine cl s i then [i] else [])"
  "ends cl s (NotAhead (literal ''00'')) i = (if take 2 (drop i s) \<noteq> ''00'' then [i] else [])"
  "ends cl s (NotAhead (literal ''0000'')) i = (if take 4 (drop i s) \<noteq> ''0000'' then [i] else [])"
  unfolding ends.simps(4,6) ends_literal ends_area_nine by simp_all

lemma ends_ssn_plain: "ends cl s ssn_plain i = (if plain_at cl s i then [i + 9] else [])"
proof -
  have "ends cl s ssn_plain i = ends cl s (Then Boundary
      (Then (NotAhead (Either (literal ''000'') (Either (literal ''666'') (sequence [literal ''9'', Decimal, Decimal]))))
      (Then (Exactly 3 Decimal) (Then (NotAhead (literal ''00'')) (Then (Exactly 2 Decimal)
      (Then (NotAhead (literal ''0000'')) (Then (Exactly 4 Decimal) Boundary))))))) i"
    unfolding ssn_plain_def sequence_def[of "_ # _ # _ # _ # _"] by simp
  also have "\<dots> = (if plain_at cl s i then [i + 9] else [])"
    unfolding ends_fixed ends_not_ahead offsets by (auto simp: plain_at_def area_nine_def)
  finally show ?thesis .
qed

section \<open>What the patterns need of the character classes\<close>

locale char_classes =
  fixes cl :: char_table
  assumes decimal_word: "is_decimal cl c \<Longrightarrow> is_word cl c"
    and white_apart: "is_white cl c \<Longrightarrow> \<not> is_word cl c"
    and dash_dot_apart: "\<not> is_word cl (CHR ''-'')" "\<not> is_word cl (CHR ''.'')"
    and digit_decimal: "digit c \<Longrightarrow> is_decimal cl c"
begin

lemma delimits_apart: "delimits cl c \<Longrightarrow> \<not> is_word cl c"
  using white_apart dash_dot_apart by (auto simp: delimits_def)

lemma word_start: "boundary_at cl s j \<Longrightarrow> j < length s \<Longrightarrow> is_decimal cl (s ! j) \<Longrightarrow> 0 < j \<Longrightarrow> \<not> is_word cl (s ! (j - 1))"
  using decimal_word by (auto simp: boundary_at_def)

text \<open>Two delimited numbers never share a character.\<close>

lemma ssn_apart: "ssn_at cl s i \<Longrightarrow> ssn_at cl s j \<Longrightarrow> i < j \<Longrightarrow> i + 11 \<le> j"
proof (rule ccontr)
  assume i: "ssn_at cl s i" and j: "ssn_at cl s j" and less: "i < j" and "\<not> i + 11 \<le> j"
  then obtain k where k: "j = i + Suc k" "k < 10" using less_imp_Suc_add[OF less] by auto
  have "\<not> is_word cl (s ! (i + k))" using word_start[of s j] j k less by (simp add: ssn_at_def)
  then have "\<not> is_decimal cl (s ! (i + k))" using decimal_word by blast
  moreover have "k \<in> {0, 1, 2, 3, 4, 5, 6, 7, 8, 9}" using k(2) by auto
  ultimately have "k = 3 \<or> k = 6" using i by (auto simp: ssn_at_def)
  then show False
  proof
    assume "k = 3"
    then have "delimits cl (s ! (i + 6))" "is_decimal cl (s ! (i + 6))" using i j k by (simp_all add: ssn_at_def add.commute)
    then show False using delimits_apart decimal_word by blast
  next
    assume "k = 6"
    then have "delimits cl (s ! (i + 10))" "is_decimal cl (s ! (i + 10))" using i j k by (simp_all add: ssn_at_def add.commute)
    then show False using delimits_apart decimal_word by blast
  qed
qed

text \<open>Nine digits alone are nine word characters, so two such numbers are apart too.\<close>

lemma plain_apart: "plain_at cl s i \<Longrightarrow> plain_at cl s j \<Longrightarrow> i < j \<Longrightarrow> i + 9 \<le> j"
proof (rule ccontr)
  assume i: "plain_at cl s i" and j: "plain_at cl s j" and less: "i < j" and "\<not> i + 9 \<le> j"
  then obtain k where k: "j = i + Suc k" "k < 8" using less_imp_Suc_add[OF less] by auto
  have "\<not> is_word cl (s ! (i + k))" using word_start[of s j] j k less by (simp add: plain_at_def)
  then have "\<not> is_decimal cl (s ! (i + k))" using decimal_word by blast
  moreover have "k \<in> {0, 1, 2, 3, 4, 5, 6, 7}" using k(2) by auto
  ultimately show False using i by (auto simp: plain_at_def)
qed

lemma plain_found_exactly: "set (find_all cl ssn_plain s) = {(k, k + 9) |k. plain_at cl s k}"
  unfolding find_all_def
  by (subst find_from_fixed[OF ends_ssn_plain _ plain_apart]) (auto simp: plain_at_def)

text \<open>A text that stands alone: no word character before it or behind it.\<close>

lemma stands_alone:
  assumes "x \<noteq> []" "is_word cl (hd x)" "is_word cl (last x)" "pre = [] \<or> \<not> is_word cl (last pre)" "post = [] \<or> \<not> is_word cl (hd post)"
  shows "boundary_at cl (pre @ x @ post) (length pre)" "boundary_at cl (pre @ x @ post) (length pre + length x)"
proof -
  have "is_word cl ((pre @ x @ post) ! length pre)" using assms(1,2) by (simp add: nth_append hd_conv_nth)
  moreover have "\<not> is_word cl ((pre @ x @ post) ! (length pre - 1))" if "pre \<noteq> []"
    using assms(4) that by (simp add: nth_append last_conv_nth)
  ultimately show "boundary_at cl (pre @ x @ post) (length pre)" using assms(1) by (cases pre) (auto simp: boundary_at_def)
  have "(pre @ x @ post) ! (length pre + length x - 1) = last x"
    using assms(1) by (cases x) (auto simp: nth_append last_conv_nth)
  moreover have "\<not> is_word cl ((pre @ x @ post) ! (length pre + length x))" if "post \<noteq> []"
    using assms(5) that by (simp add: nth_append hd_conv_nth)
  ultimately show "boundary_at cl (pre @ x @ post) (length pre + length x)"
    using assms(1,3) by (cases post) (auto simp: boundary_at_def)
qed

lemma delimited_found_exactly: "set (find_all cl ssn_delimited s) = {(k, k + 11) |k. ssn_at cl s k}"
  unfolding find_all_def
  by (subst find_from_fixed[OF ends_ssn_delimited _ ssn_apart]) (auto simp: ssn_at_def)

lemma delimited_found:
  assumes "length a = 3" "length b = 2" "length c = 4" "list_all digit (a @ b @ c)" "delimits cl x" "delimits cl y"
    and "pre = [] \<or> \<not> is_word cl (last pre)" "post = [] \<or> \<not> is_word cl (hd post)"
  shows "(length pre, length pre + 11) \<in> set (find_all cl ssn_delimited (pre @ (a @ [x] @ b @ [y] @ c) @ post))"
proof -
  obtain a0 a1 a2 where a: "a = [a0, a1, a2]" using assms(1) by (auto simp: length_Suc_conv eval_nat_numeral)
  obtain b0 b1 where b: "b = [b0, b1]" using assms(2) by (auto simp: length_Suc_conv eval_nat_numeral)
  obtain c0 c1 c2 c3 where c: "c = [c0, c1, c2, c3]" using assms(3) by (auto simp: length_Suc_conv eval_nat_numeral)
  have dec: "list_all (is_decimal cl) (a @ b @ c)" using assms(4) digit_decimal by (auto simp: list_all_iff)
  let ?x = "a @ [x] @ b @ [y] @ c"
  have "boundary_at cl (pre @ ?x @ post) (length pre)" "boundary_at cl (pre @ ?x @ post) (length pre + length ?x)"
    by (rule stands_alone; use assms(7,8) dec decimal_word in \<open>simp add: a b c\<close>)+
  moreover have "length ?x = 11" by (simp add: a b c)
  ultimately have "boundary_at cl (pre @ ?x @ post) (length pre)" "boundary_at cl (pre @ ?x @ post) (length pre + 11)" by metis+
  then have "ssn_at cl (pre @ ?x @ post) (length pre)"
    using dec assms(5,6) by (simp add: ssn_at_def a b c nth_append)
  then show ?thesis using delimited_found_exactly by auto
qed

end

text \<open>The classes of Python's own engine, for the characters modelled.\<close>

definition python_word :: "char \<Rightarrow> bool" where
  "python_word c \<longleftrightarrow> (let n = (of_char c :: nat) in
     48 \<le> n \<and> n \<le> 57 \<or> 65 \<le> n \<and> n \<le> 90 \<or> 97 \<le> n \<and> n \<le> 122 \<or> n = 95 \<or> n \<in> {170, 178, 179, 181, 185, 186, 188, 189, 190} \<or>
     192 \<le> n \<and> n \<noteq> 215 \<and> n \<noteq> 247)"

definition python_classes :: char_table where
  "python_classes = \<lparr> is_word = python_word, is_decimal = digit, is_white = py_space \<rparr>"

interpretation py: char_classes python_classes
proof
  show "is_white python_classes c \<Longrightarrow> \<not> is_word python_classes c" for c
    by (auto simp: python_classes_def python_word_def py_space_def Let_def)
qed (auto simp: python_classes_def python_word_def digit_def Let_def)

text \<open>A social security number that stands alone, with its groups parted by a dash, a dot or a space, is among the
  spans its recognizer reports at the default threshold.\<close>

lemma delimited_ssn_recognized:
  assumes "length a = 3" "length b = 2" "length c = 4" "list_all digit (a @ b @ c)"
    "delimits python_classes x" "delimits python_classes y"
    "pre = [] \<or> \<not> python_word (last pre)" "post = [] \<or> \<not> python_word (hd post)"
  shows "(''US_SSN'', length pre, length pre + 11) \<in>
    set (recognized python_classes (reinforcement_recognizers ! 0) pii_score_threshold (pre @ (a @ [x] @ b @ [y] @ c) @ post))"
  using py.delimited_found[OF assms(1-6)] assms(7,8)
  by (auto simp: recognized_def reinforcement_recognizers_def pii_score_threshold_def python_classes_def)

text \<open>So does a ten-digit telephone number: a reported span covers its first digit, whatever of the text before
  it that span takes in.\<close>

lemma ends_then: "j \<in> set (ends cl s (Then r q) i) \<longleftrightarrow> (\<exists>k \<in> set (ends cl s r i). j \<in> set (ends cl s q k))"
  by simp

lemma repeated_le: "(\<And>i j. j \<in> set (f i) \<Longrightarrow> i \<le> j) \<Longrightarrow> j \<in> set (repeated n f i) \<Longrightarrow> i \<le> j"
  by (induction n arbitrary: i) (auto intro: order_trans)

lemma ends_le: "j \<in> set (ends cl s r i) \<Longrightarrow> i \<le> j"
proof (induction r arbitrary: i j)
  case (Then r q)
  then show ?case unfolding ends_then by (meson order_trans)
qed (auto split: if_splits intro: repeated_le)

text \<open>A sequence moves on if one of its parts does.\<close>

definition moves_on :: "char_table \<Rightarrow> string \<Rightarrow> pattern \<Rightarrow> bool" where
  "moves_on cl s r \<longleftrightarrow> (\<forall>i. \<forall>j \<in> set (ends cl s r i). i < j)"

lemma moves_on_then: "moves_on cl s r \<or> moves_on cl s q \<Longrightarrow> moves_on cl s (Then r q)"
  unfolding moves_on_def Ball_def ends_then by (meson ends_le le_less_trans less_le_trans)

definition phone_head :: pattern where
  "phone_head = Maybe (sequence [Maybe (literal ''+''), literal ''1'', Maybe delimiter])"

lemma us_phone_then:
  "us_phone = Then Boundary (Then phone_head (Then (Maybe (literal ''('')) (Then (Exactly 3 Decimal) (Then (Maybe (literal '')''))
     (Then delimiter (Then (Exactly 3 Decimal) (Then delimiter (Then (Exactly 4 Decimal) Boundary))))))))"
  unfolding us_phone_def phone_head_def[symmetric] by (simp add: sequence_def)

lemma us_phone_nonempty: "j \<in> set (ends cl s us_phone i) \<Longrightarrow> i < j"
proof -
  have "moves_on cl s (Exactly 3 Decimal)" unfolding moves_on_def ends_numbers by simp
  then have "moves_on cl s us_phone" unfolding us_phone_then by (blast intro: moves_on_then)
  then show "j \<in> set (ends cl s us_phone i) \<Longrightarrow> i < j" by (simp add: moves_on_def)
qed

lemma phone_recognized:
  assumes "length a = 3" "length b = 3" "length c = 4" "list_all digit (a @ b @ c)"
    "delimits python_classes x" "delimits python_classes y"
    "pre = [] \<or> \<not> python_word (last pre)" "post = [] \<or> \<not> python_word (hd post)"
  shows "\<exists>i j. (''PHONE_NUMBER'', i, j) \<in>
      set (recognized python_classes (reinforcement_recognizers ! 1) pii_score_threshold (pre @ (a @ [x] @ b @ [y] @ c) @ post)) \<and>
    i \<le> length pre \<and> length pre < j"
proof -
  obtain a0 a1 a2 where a: "a = [a0, a1, a2]" using assms(1) by (auto simp: length_Suc_conv eval_nat_numeral)
  obtain b0 b1 b2 where b: "b = [b0, b1, b2]" using assms(2) by (auto simp: length_Suc_conv eval_nat_numeral)
  obtain c0 c1 c2 c3 where c: "c = [c0, c1, c2, c3]" using assms(3) by (auto simp: length_Suc_conv eval_nat_numeral)
  let ?x = "a @ [x] @ b @ [y] @ c" let ?p = "length pre"
  define s where "s = pre @ ?x @ post"
  have cls: "is_decimal python_classes = digit" "is_word python_classes = python_word" by (simp_all add: python_classes_def)
  have word: "digit d \<Longrightarrow> python_word d" for d using py.decimal_word[of d] by (simp add: cls)
  have "boundary_at python_classes s ?p" "boundary_at python_classes s (?p + length ?x)"
    unfolding s_def by (rule py.stands_alone; use assms(4,7,8) word in \<open>simp add: a b c cls\<close>)+
  moreover have "length ?x = 12" by (simp add: a b c)
  ultimately have ends_at: "boundary_at python_classes s ?p" "boundary_at python_classes s (?p + 12)" by metis+
  have steps:
    "?p \<in> set (ends python_classes s Boundary ?p)" "?p \<in> set (ends python_classes s phone_head ?p)"
    "?p \<in> set (ends python_classes s (Maybe (literal ''('')) ?p)" "?p + 3 \<in> set (ends python_classes s (Exactly 3 Decimal) ?p)"
    "?p + 3 \<in> set (ends python_classes s (Maybe (literal '')'')) (?p + 3))" "?p + 4 \<in> set (ends python_classes s delimiter (?p + 3))"
    "?p + 7 \<in> set (ends python_classes s (Exactly 3 Decimal) (?p + 4))" "?p + 8 \<in> set (ends python_classes s delimiter (?p + 7))"
    "?p + 12 \<in> set (ends python_classes s (Exactly 4 Decimal) (?p + 8))" "?p + 12 \<in> set (ends python_classes s Boundary (?p + 12))"
    unfolding ends_numbers ends_delimiter phone_head_def
    using ends_at assms(4-6) by (simp_all add: s_def a b c nth_append cls)
  then have "?p + 12 \<in> set (ends python_classes s us_phone ?p)"
    unfolding us_phone_then ends_then by blast
  then have "\<exists>(i, j) \<in> set (find_from python_classes s us_phone 0). i \<le> ?p \<and> ?p < j"
    by (intro match_is_covered us_phone_nonempty) (auto simp: s_def)
  then show ?thesis
    unfolding s_def by (fastforce simp: recognized_def reinforcement_recognizers_def pii_score_threshold_def find_all_def)
qed

text \<open>The patterns serve entities the scrubber asks for, and all of them clear its default threshold.\<close>

lemma reinforcement_is_asked_for:
  "list_all (\<lambda>rc. rc_entity rc \<in> set target_entities \<and>
     list_all (\<lambda>(name, r, score). pii_score_threshold \<le> score \<and> score \<le> 1) (rc_patterns rc)) reinforcement_recognizers"
  by (simp add: reinforcement_recognizers_def target_entities_def pii_score_threshold_def)

text \<open>Examples: what is found, and what is left: a number in parentheses without its area bracket, an unissued area.\<close>

lemma recognized_examples:
  "find_all python_classes ssn_delimited ''id 123-45-6789.'' = [(3, 14)]"
  "find_all python_classes ssn_plain ''000123456 123456789'' = [(10, 19)]"
  "find_all python_classes us_phone ''(555) 123-4567'' = [(1, 14)]"
  "find_all python_classes us_phone ''+1 555.123.4567x'' = []"
  by code_simp+

lemma engines_built_once:
  "get_engines build None = (Inr x, e) \<Longrightarrow> get_engines build' e = (Inr x, e)"
  by (auto simp: get_engines_def split: sum.splits)

end
