(* ===== verification/AuditGuard.thy ===== *)
theory AuditGuard
  imports Store
begin

text \<open>
  The guard of the audit writer as the connection carries it (\<^verbatim>\<open>store/audit.py\<close>). Theory Store gives every
  transaction a guard of its own. In the code the guard is an attribute of the pooled connection, tagged with a
  transaction id that is read anew at every call and may be unreadable. Here is that guard, and the proof that on
  transactions with ids of their own it is the one of theory Store.
\<close>

type_synonym txid = string
type_synonym audit_key = "action \<times> uuid option"
type_synonym guard = "(txid \<times> audit_key set) option"

text \<open>The answer to \<^verbatim>\<open>txid_current()\<close>: an error, no row, or the id.\<close>

definition transaction_key :: "'e + txid option \<Rightarrow> txid option" where
  "transaction_key answer = (case answer of Inl _ \<Rightarrow> None | Inr r \<Rightarrow> r)"

definition seen_keys :: "guard \<Rightarrow> txid \<Rightarrow> audit_key set" where
  "seen_keys g x = (case g of None \<Rightarrow> {} | Some (y, keys) \<Rightarrow> if y = x then keys else {})"

definition write_audit_on ::
  "uuid \<Rightarrow> uuid \<Rightarrow> action \<Rightarrow> uuid option \<Rightarrow> audit_meta \<Rightarrow> bool \<Rightarrow> 'e + txid option \<Rightarrow> guard \<Rightarrow> 'v tx \<Rightarrow> bool \<times> guard \<times> 'v tx" where
  "write_audit_on subject actor act memory meta allow_repeat answer g t =
     (let a = \<lparr> a_subject = subject, a_actor = actor, a_memory = memory, a_action = act,
                a_meta = meta, a_at = x_now t \<rparr>;
          key = (act, memory)
      in case transaction_key answer of
           None \<Rightarrow> (True, g, add_audit a t)
         | Some x \<Rightarrow>
             (let seen = seen_keys g x
              in if key \<in> seen \<and> \<not> allow_repeat then (False, Some (x, seen), t)
                 else (True, Some (x, insert key seen), add_audit a t)))"

fun write_audit_many_on ::
  "uuid \<Rightarrow> uuid \<Rightarrow> action \<Rightarrow> uuid list \<Rightarrow> audit_meta \<Rightarrow> 'e + txid option \<Rightarrow> guard \<Rightarrow> 'v tx \<Rightarrow> uuid list \<times> guard \<times> 'v tx" where
  "write_audit_many_on subject actor act [] meta answer g t = ([], g, t)"
| "write_audit_many_on subject actor act (i # is) meta answer g t =
     (let (ok, g1, t1) = write_audit_on subject actor act (Some i) meta False answer g t;
          (written, g2, t2) = write_audit_many_on subject actor act is meta answer g1 t1
      in (if ok then i # written else written, g2, t2))"

section \<open>Facts\<close>

text \<open>How the two guards correspond while a transaction with the given id runs.\<close>

definition guards_agree :: "'e + txid option \<Rightarrow> guard \<Rightarrow> 'v tx \<Rightarrow> bool" where
  "guards_agree answer g t \<longleftrightarrow>
     x_guard t = (case transaction_key answer of None \<Rightarrow> None | Some x \<Rightarrow> Some (seen_keys g x))"

definition unguarded :: "'v tx \<Rightarrow> 'v tx" where
  "unguarded t = t \<lparr> x_guard := None \<rparr>"

lemma unguarded_add [simp]: "unguarded (add_audit a t) = add_audit a (unguarded t)" "x_now (unguarded t) = x_now t"
  "unguarded (t \<lparr> x_guard := g \<rparr>) = unguarded t"
  by (simp_all add: unguarded_def add_audit_def)

lemma add_audit_guard [simp]: "add_audit a (t \<lparr> x_guard := g \<rparr>) = (add_audit a t) \<lparr> x_guard := g \<rparr>"
  by (simp add: add_audit_def)

lemma seen_keys_same [simp]: "seen_keys (Some (x, keys)) x = keys"
  by (simp add: seen_keys_def)

text \<open>A transaction begins in agreement unless its id is the one the connection still carries.\<close>

lemma session_agrees:
  "transaction_key answer = (if known then Some x else None) \<Longrightarrow> (\<forall>keys. g \<noteq> Some (x, keys)) \<Longrightarrow>
    guards_agree answer g (session subject actor now known d)"
  by (auto simp: guards_agree_def session_def seen_keys_def split: option.split)

text \<open>One call: the same row or the same silence, the same database, and the guards agree again.\<close>

lemma write_audit_refines:
  assumes "guards_agree answer g t" "unguarded u = unguarded t"
    and "write_audit_on subject actor act memory meta repeat answer g u = (ok, g', u')"
  shows "\<exists>t'. write_audit subject actor act memory meta repeat t = (ok, t') \<and> guards_agree answer g' t' \<and> unguarded u' = unguarded t'"
proof -
  have now: "x_now u = x_now t" using arg_cong[OF assms(2), of x_now] by simp
  show ?thesis
    using assms(1,2,3)
    by (auto simp: write_audit_on_def write_audit_def guards_agree_def now Let_def split: option.splits if_splits)
qed

lemma write_audit_many_refines:
  assumes "guards_agree answer g t" "unguarded u = unguarded t"
    and "write_audit_many_on subject actor act is meta answer g u = (written, g', u')"
  shows "\<exists>t'. write_audit_many subject actor act is meta t = (written, t') \<and> guards_agree answer g' t' \<and> unguarded u' = unguarded t'"
  using assms
proof (induction "is" arbitrary: g t u written g' u')
  case (Cons i "is")
  obtain ok g1 u1 where one: "write_audit_on subject actor act (Some i) meta False answer g u = (ok, g1, u1)"
    by (metis prod_cases3)
  obtain w g2 u2 where many: "write_audit_many_on subject actor act is meta answer g1 u1 = (w, g2, u2)"
    by (metis prod_cases3)
  obtain t1 where t1: "write_audit subject actor act (Some i) meta False t = (ok, t1)" "guards_agree answer g1 t1" "unguarded u1 = unguarded t1"
    using write_audit_refines[OF Cons.prems(1,2) one] by blast
  obtain t2 where "write_audit_many subject actor act is meta t1 = (w, t2)" "guards_agree answer g2 t2" "unguarded u2 = unguarded t2"
    using Cons.IH[OF t1(2,3) many] by blast
  then show ?case using Cons.prems(3) by (auto simp: one many t1(1))
qed simp

text \<open>A guard that cannot name the transaction never withholds a row, and neither does one left by an earlier
  transaction of the same connection.\<close>

lemma unreadable_id_blocks_nothing:
  "transaction_key answer = None \<Longrightarrow> fst (write_audit_on s a act i m r answer g t) \<and> fst (snd (write_audit_on s a act i m r answer g t)) = g"
  by (simp add: write_audit_on_def Let_def)

lemma earlier_transaction_blocks_nothing:
  "transaction_key answer = Some x \<Longrightarrow> (\<forall>keys. g \<noteq> Some (x, keys)) \<Longrightarrow> fst (write_audit_on s a act i m r answer g t)"
  by (auto simp: write_audit_on_def seen_keys_def Let_def split: option.splits)

end
