(* ===== verification/Files.thy ===== *)
theory Files
  imports Fixtures
begin

text \<open>
  How vectors travel as text: the literal the statements over pgvector take (\<^verbatim>\<open>to_vector_literal\<close> of
  \<^verbatim>\<open>store/memories.py\<close>, \<^verbatim>\<open>retrieve/semantic.py\<close> and \<^verbatim>\<open>evals/fixtures/seed_memories.py\<close>), and the two
  embedding caches as the JSON files they are on disk. The other theories take a vector for its literal and a cache
  for its file; what is shown here is that nothing is lost on the way. \<^verbatim>\<open>repr\<close> of a float is a parameter.
\<close>

section \<open>Text\<close>

definition to_vector_literal :: "(real \<Rightarrow> string) \<Rightarrow> real list \<Rightarrow> string" where
  "to_vector_literal repr v = ''['' @ join '','' (map repr v) @ '']''"

text \<open>\<^verbatim>\<open>json.dumps\<close> of a cache.\<close>

definition dumps_vector :: "(real \<Rightarrow> string) \<Rightarrow> real list \<Rightarrow> string" where
  "dumps_vector repr v = ''['' @ join '', '' (map repr v) @ '']''"

definition dumps_cache :: "(real \<Rightarrow> string) \<Rightarrow> (string \<times> real list) list \<Rightarrow> string" where
  "dumps_cache repr cache = ''{'' @ join '', '' (map (\<lambda>(k, v). dumps_string k @ '': '' @ dumps_vector repr v) cache) @ ''}''"

text \<open>What is at the path of a cache: nothing, something the file system refuses to read, bytes that are not UTF-8, text.\<close>

datatype cache_file = Absent | Refused | Garbled | Holds string

datatype file_exn = NotUtf8 | TooManyDigits

text \<open>A missing file, one that cannot be read and one that is not JSON are the empty cache; the other failures are raised.\<close>

definition load_cache :: "(nat \<Rightarrow> char) \<Rightarrow> cache_file \<Rightarrow> file_exn + json" where
  "load_cache wide file =
     (case file of
        Absent \<Rightarrow> Inr (JObj [])
      | Refused \<Rightarrow> Inr (JObj [])
      | Garbled \<Rightarrow> Inl NotUtf8
      | Holds s \<Rightarrow> (case json_loads wide s of Inl DecodeError \<Rightarrow> Inr (JObj []) | Inl DigitLimit \<Rightarrow> Inl TooManyDigits | Inr v \<Rightarrow> Inr v))"

definition save_cache :: "(real \<Rightarrow> string) \<Rightarrow> (string \<times> real list) list \<Rightarrow> cache_file" where
  "save_cache repr cache = Holds (dumps_cache repr cache)"

text \<open>The value a cache is in memory.\<close>

definition vector_json :: "real list \<Rightarrow> json" where
  "vector_json v = JList (map (\<lambda>x. JFloat (Fin x)) v)"

definition cache_json :: "(string \<times> real list) list \<Rightarrow> json" where
  "cache_json cache = JObj (map (\<lambda>(k, v). (k, vector_json v)) cache)"

section \<open>Reading what was written\<close>

text \<open>What may follow a value, and a text that reads as a value whatever of that follows it.\<close>

definition follows :: "string \<Rightarrow> bool" where
  "follows r \<longleftrightarrow> r = [] \<or> hd r \<in> {CHR '','', CHR '']'', CHR ''}''}"

definition reads :: "(nat \<Rightarrow> char) \<Rightarrow> string \<Rightarrow> json \<Rightarrow> bool" where
  "reads wide t v \<longleftrightarrow> t \<noteq> [] \<and> \<not> json_space (hd t) \<and> hd t \<noteq> CHR '']'' \<and>
     (\<exists>k. \<forall>n \<ge> k. \<forall>r. follows r \<longrightarrow> decode_value wide n (t @ r) = Inr (v, r))"

text \<open>A text of a float: it begins as a number does and reads back, in front of what may follow it.\<close>

definition float_text :: "string \<Rightarrow> real \<Rightarrow> bool" where
  "float_text t x \<longleftrightarrow> (let d = (if take 1 t = ''-'' then drop 1 t else t) in d \<noteq> [] \<and> digit (hd d)) \<and>
     (\<forall>r. follows r \<longrightarrow> scan_number (t @ r) = Inr (JFloat (Fin x), r))"

lemma digit_chars: "digit c \<Longrightarrow> c \<noteq> quote \<and> c \<noteq> CHR ''['' \<and> c \<noteq> CHR '']'' \<and> c \<noteq> CHR ''{'' \<and> c \<noteq> CHR ''n'' \<and>
    c \<noteq> CHR ''t'' \<and> c \<noteq> CHR ''f'' \<and> c \<noteq> CHR ''N'' \<and> c \<noteq> CHR ''I'' \<and> c \<noteq> CHR ''-'' \<and> \<not> json_space c"
  by (auto simp: digit_def json_space_def Let_def)

text \<open>A number begins with a digit, after a sign at most.\<close>

lemma float_text_starts:
  assumes "float_text t x"
  obtains d ds where "t = d # ds" "digit d" | d ds where "t = CHR ''-'' # d # ds" "digit d"
proof (cases t)
  case Nil
  then show ?thesis using assms by (simp add: float_text_def Let_def)
next
  case (Cons c cs)
  show ?thesis
  proof (cases "c = CHR ''-''")
    case True
    then have "cs \<noteq> []" "digit (hd cs)" using assms Cons by (simp_all add: float_text_def Let_def)
    then show ?thesis using Cons True that(2)[of "hd cs" "tl cs"] by simp
  next
    case False
    then have "digit c" using assms Cons by (simp add: float_text_def Let_def)
    then show ?thesis using Cons that(1) by blast
  qed
qed

lemma plain_is_no_literal:
  "c \<noteq> CHR ''n'' \<Longrightarrow> c \<noteq> CHR ''t'' \<Longrightarrow> c \<noteq> CHR ''f'' \<Longrightarrow> c \<noteq> CHR ''N'' \<Longrightarrow> c \<noteq> CHR ''I'' \<Longrightarrow> c \<noteq> CHR ''-'' \<Longrightarrow> scan_literal (c # cs) = None"
  "d \<noteq> CHR ''I'' \<Longrightarrow> scan_literal (CHR ''-'' # d # cs) = None"
  by (simp_all add: scan_literal_def literals_def)

lemma float_reads:
  assumes "float_text t x"
  shows "reads wide t (JFloat (Fin x))"
proof -
  have shape: "\<exists>c cs. t = c # cs \<and> c \<noteq> quote \<and> c \<noteq> CHR ''['' \<and> c \<noteq> CHR '']'' \<and> c \<noteq> CHR ''{'' \<and> \<not> json_space c \<and>
      (\<forall>r. scan_literal (c # cs @ r) = None)"
    using assms
  proof (cases rule: float_text_starts)
    case (1 d ds)
    then show ?thesis using digit_chars[OF 1(2)] plain_is_no_literal(1) by simp
  next
    case (2 d ds)
    then show ?thesis using digit_chars[OF 2(2)] plain_is_no_literal(2) by (simp add: json_space_def)
  qed
  then obtain c cs where c: "t = c # cs" "c \<noteq> quote" "c \<noteq> CHR ''[''" "c \<noteq> CHR '']''" "c \<noteq> CHR ''{''" "\<not> json_space c"
      "\<And>r. scan_literal (c # cs @ r) = None" by blast
  have num: "scan_number (c # cs @ r) = Inr (JFloat (Fin x), r)" if "follows r" for r
    using assms that c(1) by (simp add: float_text_def)
  have "decode_value wide n (t @ r) = Inr (JFloat (Fin x), r)" if "1 \<le> n" "follows r" for n r
  proof -
    obtain m where "n = Suc m" using \<open>1 \<le> n\<close> by (cases n) auto
    then show ?thesis using c(2-) num[OF that(2)] by (simp add: c(1))
  qed
  then show ?thesis unfolding reads_def using c(1,4,6) by auto
qed

section \<open>Lists and objects\<close>

lemma skip_blanks: "list_all json_space sp \<Longrightarrow> t \<noteq> [] \<Longrightarrow> \<not> json_space (hd t) \<Longrightarrow> skip_ws (sp @ t @ r) = t @ r"
  by (induction sp) (auto simp: skip_ws_id skip_ws_def hd_append dropWhile_append3 neq_Nil_conv)

lemma join_starts: "ts \<noteq> [] \<Longrightarrow> hd ts \<noteq> [] \<Longrightarrow> join sep ts \<noteq> [] \<and> hd (join sep ts) = hd (hd ts)"
  by (cases ts; cases "tl ts") (auto simp: hd_append)

lemma follows_simps [simp]: "follows []" "follows (CHR '','' # r)" "follows (CHR '']'' # r)" "follows (CHR ''}'' # r)"
  by (simp_all add: follows_def)

lemma decode_items_reads:
  assumes "list_all2 (reads wide) ts vs" "ts \<noteq> []" "list_all json_space sp"
  shows "\<exists>k. \<forall>n \<ge> k. \<forall>r. decode_items wide n (join (CHR '','' # sp) ts @ CHR '']'' # r) = Inr (vs, r)"
  using assms(1,2)
proof (induction ts vs rule: list_all2_induct)
  case (Cons t ts v vs)
  obtain k where k: "\<And>n r. k \<le> n \<Longrightarrow> follows r \<Longrightarrow> decode_value wide n (t @ r) = Inr (v, r)"
    using Cons.hyps(1) by (auto simp: reads_def)
  have ts0: "ts = [] \<longleftrightarrow> vs = []" using Cons.hyps(2) by auto
  show ?case
  proof (cases "ts = []")
    case True
    have "decode_items wide n (join (CHR '','' # sp) (t # ts) @ CHR '']'' # r) = Inr (v # vs, r)" if n: "Suc k \<le> n" for n r
    proof -
      obtain m where m: "n = Suc m" "k \<le> m" using n by (cases n) auto
      show ?thesis using True ts0 k[OF m(2), of "CHR '']'' # r"] by (simp add: m skip_ws_id json_space_def)
    qed
    then show ?thesis by blast
  next
    case False
    then obtain k' where k': "\<And>n r. k' \<le> n \<Longrightarrow> decode_items wide n (join (CHR '','' # sp) ts @ CHR '']'' # r) = Inr (vs, r)"
      using Cons.IH by blast
    have head: "hd ts \<noteq> []" "\<not> json_space (hd (hd ts))" using Cons.hyps(2) False by (cases ts; auto simp: reads_def list_all2_Cons1)+
    have "decode_items wide n (join (CHR '','' # sp) (t # ts) @ CHR '']'' # r) = Inr (v # vs, r)" if n: "Suc (max k k') \<le> n" for n r
    proof -
      obtain m where m: "n = Suc m" "k \<le> m" "k' \<le> m" using n by (cases n) auto
      let ?rest = "join (CHR '','' # sp) ts @ CHR '']'' # r"
      have "skip_ws (sp @ ?rest) = ?rest"
        using skip_blanks[OF assms(3), of "join (CHR '','' # sp) ts" "CHR '']'' # r"] join_starts[OF False head(1)] head(2) by simp
      then show ?thesis
        using k[OF m(2), of "CHR '','' # sp @ ?rest"] k'[OF m(3), of r] False
        by (simp add: m(1) join_Cons skip_ws_id json_space_def)
    qed
    then show ?thesis by blast
  qed
qed simp

lemma hd_join_reads: "list_all2 (reads wide) ts vs \<Longrightarrow> ts \<noteq> [] \<Longrightarrow>
    join sep ts \<noteq> [] \<and> \<not> json_space (hd (join sep ts)) \<and> hd (join sep ts) \<noteq> CHR '']''"
  using join_starts[of ts sep] by (cases ts) (auto simp: list_all2_Cons1 reads_def)

lemma list_reads:
  assumes "list_all2 (reads wide) ts vs" "list_all json_space sp"
  shows "reads wide (''['' @ join (CHR '','' # sp) ts @ '']'') (JList vs)"
    and "\<exists>k. \<forall>n \<ge> k. \<forall>r. decode_value wide n (''['' @ join (CHR '','' # sp) ts @ '']'' @ r) = Inr (JList vs, r)"
proof -
  show *: "\<exists>k. \<forall>n \<ge> k. \<forall>r. decode_value wide n (''['' @ join (CHR '','' # sp) ts @ '']'' @ r) = Inr (JList vs, r)"
  proof (cases "ts = []")
    case True
    then have "vs = []" using assms(1) by simp
    have "decode_value wide n (''['' @ join (CHR '','' # sp) ts @ '']'' @ r) = Inr (JList vs, r)" if "1 \<le> n" for n r
      using that True \<open>vs = []\<close> by (cases n) (simp_all add: skip_ws_id json_space_def)
    then show ?thesis by blast
  next
    case False
    obtain k where k: "\<And>n r. k \<le> n \<Longrightarrow> decode_items wide n (join (CHR '','' # sp) ts @ CHR '']'' # r) = Inr (vs, r)"
      using decode_items_reads[OF assms(1) False assms(2)] by blast
    note h = hd_join_reads[OF assms(1) False, of "CHR '','' # sp"]
    have "decode_value wide n (''['' @ join (CHR '','' # sp) ts @ '']'' @ r) = Inr (JList vs, r)" if n: "Suc k \<le> n" for n r
    proof -
      obtain m where m: "n = Suc m" "k \<le> m" using n by (cases n) auto
      let ?b = "join (CHR '','' # sp) ts @ CHR '']'' # r"
      have "skip_ws ?b = ?b" "take 1 ?b \<noteq> '']''" using h by (auto intro: skip_ws_id simp: hd_append take_Suc)
      then show ?thesis using k[OF m(2), of r] by (simp add: m(1))
    qed
    then show ?thesis by blast
  qed
  then show "reads wide (''['' @ join (CHR '','' # sp) ts @ '']'') (JList vs)"
    by (simp add: reads_def json_space_def) blast
qed

lemma key_reads: "scan_string wide (drop 1 (dumps_string k @ r)) = Some (k, r)" "take 1 (dumps_string k @ r) = [quote]"
  using scan_dumps[of wide k r] by (simp_all add: dumps_string_def)

abbreviation pair_text :: "string \<times> string \<Rightarrow> string" where
  "pair_text p \<equiv> dumps_string (fst p) @ '': '' @ snd p"

lemma decode_pairs_reads:
  assumes "list_all2 (\<lambda>p q. fst p = fst q \<and> reads wide (snd p) (snd q)) ts vs" "ts \<noteq> []"
  shows "\<exists>k. \<forall>n \<ge> k. \<forall>r. decode_pairs wide n (join '', '' (map pair_text ts) @ CHR ''}'' # r) = Inr (vs, r)"
  using assms
proof (induction ts vs rule: list_all2_induct)
  case (Cons t ts v vs)
  obtain k where k: "\<And>n r. k \<le> n \<Longrightarrow> follows r \<Longrightarrow> decode_value wide n (snd t @ r) = Inr (snd v, r)"
    using Cons.hyps(1) by (auto simp: reads_def)
  have t: "fst v = fst t" "snd t \<noteq> []" "\<not> json_space (hd (snd t))" using Cons.hyps(1) by (auto simp: reads_def)
  have ts0: "ts = [] \<longleftrightarrow> vs = []" using Cons.hyps(2) by auto
  have colon: "take 1 (skip_ws ('': '' @ snd t @ r)) = '':''" "skip_ws (drop 1 (skip_ws ('': '' @ snd t @ r))) = snd t @ r" for r
    using skip_blanks[of "'' ''" "snd t" r] t(2,3) by (simp_all add: skip_ws_id json_space_def)
  show ?case
  proof (cases "ts = []")
    case True
    have "decode_pairs wide n (join '', '' (map pair_text (t # ts)) @ CHR ''}'' # r) = Inr (v # vs, r)" if n: "Suc k \<le> n" for n r
    proof -
      obtain m where m: "n = Suc m" "k \<le> m" using n by (cases n) auto
      show ?thesis
        using True ts0 k[OF m(2), of "CHR ''}'' # r"] colon[of "CHR ''}'' # r"] key_reads(1)[of wide "fst t" "'': '' @ snd t @ CHR ''}'' # r"]
          key_reads(2)[of "fst t" "'': '' @ snd t @ CHR ''}'' # r"] t(1)
        by (cases v) (simp add: m(1) skip_ws_id json_space_def)
    qed
    then show ?thesis by blast
  next
    case False
    then obtain k' where k': "\<And>n r. k' \<le> n \<Longrightarrow> decode_pairs wide n (join '', '' (map pair_text ts) @ CHR ''}'' # r) = Inr (vs, r)"
      using Cons.IH by blast
    have "decode_pairs wide n (join '', '' (map pair_text (t # ts)) @ CHR ''}'' # r) = Inr (v # vs, r)" if n: "Suc (max k k') \<le> n" for n r
    proof -
      obtain m where m: "n = Suc m" "k \<le> m" "k' \<le> m" using n by (cases n) auto
      let ?rest = "join '', '' (map pair_text ts) @ CHR ''}'' # r"
      have "hd (map pair_text ts) \<noteq> []" "hd (hd (map pair_text ts)) = quote" using False by (cases ts; simp add: dumps_string_def)+
      then have "skip_ws ('' '' @ ?rest) = ?rest"
        using skip_blanks[of "'' ''" "join '', '' (map pair_text ts)" "CHR ''}'' # r"] join_starts[of "map pair_text ts" "'', ''"] False
        by (simp add: json_space_def)
      then show ?thesis
        using k[OF m(2), of "'', '' @ ?rest"] k'[OF m(3), of r] False colon[of "'', '' @ ?rest"]
          key_reads(1)[of wide "fst t" "'': '' @ snd t @ '', '' @ ?rest"] key_reads(2)[of "fst t" "'': '' @ snd t @ '', '' @ ?rest"] t(1)
        by (cases v) (simp add: m(1) join_Cons skip_ws_id json_space_def)
    qed
    then show ?thesis by blast
  qed
qed simp

section \<open>Nothing is lost on the way\<close>

lemma skip_ws_Nil [simp]: "skip_ws [] = []"
  by (simp add: skip_ws_def)

lemma loads_whole:
  assumes "\<exists>k. \<forall>n \<ge> k. decode_value wide n t = Inr (v, [])" "t \<noteq> []" "\<not> json_space (hd t)"
  shows "json_loads wide t = Inr v"
proof -
  obtain k where k: "\<And>n. k \<le> n \<Longrightarrow> decode_value wide n t = Inr (v, [])" using assms(1) by blast
  have "decode_value wide (2 * length t + 1) t = decode_value wide (2 * length t + 1 + k) t"
    by (rule decode_fuel_enough[symmetric]) simp
  then show ?thesis
    using k[of "2 * length t + 1 + k"] by (simp add: json_loads_def skip_ws_id[OF assms(2,3)] del: decode_value.simps)
qed

lemma floats_read: "list_all (\<lambda>x. float_text (repr x) x) v \<Longrightarrow> list_all2 (reads wide) (map repr v) (map (\<lambda>x. JFloat (Fin x)) v)"
  by (induction v) (auto intro: float_reads)

text \<open>The literal of a vector reads as that vector; so two vectors with the same literal are the same.\<close>

lemma vector_literal_reads:
  assumes "list_all (\<lambda>x. float_text (repr x) x) v"
  shows "json_loads wide (to_vector_literal repr v) = Inr (vector_json v)"
proof (rule loads_whole)
  have "\<exists>k. \<forall>n \<ge> k. \<forall>r. decode_value wide n (''['' @ join '','' (map repr v) @ '']'' @ r) = Inr (vector_json v, r)"
    using list_reads(2)[OF floats_read[OF assms, of wide], of "[]"] by (simp add: vector_json_def)
  then obtain k where k: "\<forall>n \<ge> k. \<forall>r. decode_value wide n (''['' @ join '','' (map repr v) @ '']'' @ r) = Inr (vector_json v, r)"
    by blast
  have "decode_value wide n (to_vector_literal repr v) = Inr (vector_json v, [])" if "k \<le> n" for n
    using k[rule_format, OF that, of "[]"] by (simp add: to_vector_literal_def)
  then show "\<exists>k. \<forall>n \<ge> k. decode_value wide n (to_vector_literal repr v) = Inr (vector_json v, [])" by blast
qed (simp_all add: to_vector_literal_def json_space_def)

lemma vector_literal_injective:
  assumes "list_all (\<lambda>x. float_text (repr x) x) v" "list_all (\<lambda>x. float_text (repr x) x) w"
    and "to_vector_literal repr v = to_vector_literal repr w"
  shows "v = w"
proof -
  have "vector_json v = vector_json w" using vector_literal_reads[OF assms(1)] vector_literal_reads[OF assms(2)] assms(3)
    by (metis Inr_inject)
  moreover have "inj (\<lambda>x. JFloat (Fin x))" by (simp add: inj_def)
  ultimately show ?thesis by (simp add: vector_json_def inj_map_eq_map)
qed

lemma quote_start: "hd b = quote \<Longrightarrow> b \<noteq> [] \<Longrightarrow> skip_ws b = b" "hd b = quote \<Longrightarrow> b \<noteq> [] \<Longrightarrow> take 1 b \<noteq> ''}''"
  by (cases b; simp add: skip_ws_id json_space_def)+

text \<open>A cache file holds the cache it was written from, for every key and every vector.\<close>

lemma cache_reads_back:
  assumes "list_all (\<lambda>(key, v). list_all (\<lambda>x. float_text (repr x) x) v) cache"
  shows "load_cache wide (save_cache repr cache) = Inr (cache_json cache)"
proof -
  let ?ts = "map (\<lambda>(k, v). (k, dumps_vector repr v)) cache"
  let ?vs = "map (\<lambda>(k, v). (k, vector_json v)) cache"
  have shape: "dumps_cache repr cache = ''{'' @ join '', '' (map pair_text ?ts) @ ''}''"
    by (auto simp: dumps_cache_def intro!: arg_cong[where f = "join '', ''"])
  have "reads wide (dumps_vector repr v) (vector_json v)" if "list_all (\<lambda>x. float_text (repr x) x) v" for v
    using list_reads(1)[OF floats_read[OF that], of "'' ''"] by (simp add: dumps_vector_def vector_json_def json_space_def)
  then have rel: "list_all2 (\<lambda>p q. fst p = fst q \<and> reads wide (snd p) (snd q)) ?ts ?vs"
    using assms by (auto simp: list_all2_conv_all_nth list_all_length case_prod_beta)
  have "\<exists>k. \<forall>n \<ge> k. decode_value wide n (dumps_cache repr cache) = Inr (cache_json cache, [])"
  proof (cases "cache = []")
    case True
    have "decode_value wide n ''{}'' = Inr (JObj [], [])" if "1 \<le> n" for n
      using that by (cases n) (simp_all add: skip_ws_id json_space_def)
    then show ?thesis using True by (auto simp: dumps_cache_def cache_json_def)
  next
    case False
    then obtain k where k: "\<And>n r. k \<le> n \<Longrightarrow> decode_pairs wide n (join '', '' (map pair_text ?ts) @ CHR ''}'' # r) = Inr (?vs, r)"
      using decode_pairs_reads[OF rel] by auto
    let ?b = "join '', '' (map pair_text ?ts) @ ''}''"
    have "map pair_text ?ts \<noteq> []" "hd (map pair_text ?ts) \<noteq> []" "hd (hd (map pair_text ?ts)) = quote"
      using False by (cases cache; auto simp: dumps_string_def)+
    then have "hd ?b = quote" "?b \<noteq> []" using join_starts[of "map pair_text ?ts" "'', ''"] by simp_all
    then have b: "skip_ws ?b = ?b" "take 1 ?b \<noteq> ''}''" by (rule quote_start)+
    have "decode_value wide n (dumps_cache repr cache) = Inr (cache_json cache, [])" if n: "Suc k \<le> n" for n
    proof -
      obtain m where m: "n = Suc m" "k \<le> m" using n by (cases n) auto
      then show ?thesis using k[OF m(2), of "[]"] b unfolding shape m(1) by (simp add: cache_json_def del: map_map)
    qed
    then show ?thesis by blast
  qed
  then have "json_loads wide (dumps_cache repr cache) = Inr (cache_json cache)"
    by (rule loads_whole) (simp_all add: dumps_cache_def json_space_def)
  then show ?thesis by (simp add: load_cache_def save_cache_def)
qed

text \<open>The decimal text of a number is a text of it, so the assumption on \<^verbatim>\<open>repr\<close> holds of what it prints in plain notation.\<close>

lemma decimal_is_float_text:
  assumes "list_all digit w" "list_all digit f" "w \<noteq> []" "f \<noteq> []" "w = ''0'' \<or> hd w \<noteq> CHR ''0''"
    and "real (digits_value (w @ f)) / 10 ^ length f < 2 ^ 1024 - 2 ^ 970"
  shows "float_text (w @ ''.'' @ f) (real (digits_value (w @ f)) / 10 ^ length f)"
proof -
  have dot: "\<not> digit (CHR ''.'')" by (simp add: digit_def)
  have w: "takeWhile digit (w @ ''.'' @ f @ r) = w" for r
    using assms(1) dot by (simp add: takeWhile_append2 list_all_iff)
  have f: "takeWhile digit (f @ r) = f" "dropWhile digit (f @ r) = r" if "follows r" for r
  proof -
    have "r = [] \<or> \<not> digit (hd r)" using that by (auto simp: follows_def digit_def)
    then show "takeWhile digit (f @ r) = f" "dropWhile digit (f @ r) = r"
      using assms(2) by (cases r; simp add: takeWhile_append2 dropWhile_append2 list_all_iff)+
  qed
  have hd_w: "take 1 (w @ ''.'' @ f @ r) \<noteq> ''-''" "digit (hd w)" for r
    using assms(1,3) digit_chars[of "hd w"] by (cases w; auto)+
  have whole: "(if take 1 (w @ ''.'' @ f @ r) = ''0'' then ''0'' else takeWhile digit (w @ ''.'' @ f @ r)) = w" for r
    using w[of r] assms(3,5) by (cases w) auto
  have ex: "scan_exponent r = (None, r)" if "follows r" for r
    using that by (cases r) (auto simp: scan_exponent_def follows_def Let_def)
  have parts: "number_parts (w @ ''.'' @ f @ r) = (False, w, f, None, r)" if "follows r" for r
  proof -
    define s where "s = w @ ''.'' @ f @ r"
    have q: "(take 1 s = ''-'') = False" "(if take 1 s = ''0'' then ''0'' else takeWhile digit s) = w" "drop (length w) s = ''.'' @ f @ r"
      unfolding s_def by (simp only: hd_w(1), rule whole, simp)
    have "number_parts s = (False, w, f, None, r)"
      unfolding number_parts_def Let_def q(1) if_False q(2,3) using f[OF that] ex[OF that] assms(4) by (simp add: scan_fraction_def)
    then show ?thesis by (simp add: s_def)
  qed
  have "scan_number (w @ ''.'' @ f @ r) = Inr (JFloat (Fin (real (digits_value (w @ f)) / 10 ^ length f)), r)" if "follows r" for r
    using parts[OF that] assms(3,4,6)
    by (simp add: scan_number_def float_literal_def Let_def power_int_minus divide_inverse)
  then show ?thesis using hd_w(1)[of "[]"] hd_w(2) assms(3) by (cases w) (auto simp: float_text_def Let_def)
qed

end
