(* ===== verification/Spec2Isabelle.thy ===== *)
theory Spec2Isabelle
  imports System Sweep Evaluation Pools Service Jobs Migrate Lifecycle Golden Health Reports
    Recognizers AuditGuard Files
begin

text \<open>
  A verification development of the conversational memory service: a chat endpoint that answers every
  turn with the help of memories it retrieves, and background work that captures, edits, forgets,
  decays and summarises those memories.

  \<^bold>\<open>The program and its theories.\<close> Each theory models the files named with it and opens with a text of
  its own. Theory Prelude holds what they share: Python exceptions, floats with their special values
  and comparisons, string methods, insertion-ordered dictionaries, stable sorting by a key.

  \<^item> \<^bold>\<open>Read path.\<close> Types (\<^verbatim>\<open>retrieve/types.py\<close>): queries, candidates, merged results. Features
    (\<^verbatim>\<open>retrieve/features.py\<close>) and Ranking (\<^verbatim>\<open>retrieve/ranking.py\<close>): the five signals, the weighted
    score, the top \<open>k\<close>. Search (\<^verbatim>\<open>retrieve/semantic.py\<close>, \<^verbatim>\<open>retrieve/keyword.py\<close>): the query
    embedding with its caches and the two statements over the database. Hybrid
    (\<^verbatim>\<open>retrieve/hybrid.py\<close>): normalisation, isolation of the paths, the merge. Breaker
    (\<^verbatim>\<open>retrieve/breaker.py\<close>): the Lua scripts on the shared record, the replica's handle, the fleet as
    a step relation. Guarded (\<^verbatim>\<open>retrieve/guarded.py\<close>): the search behind timeout and breaker. Tokens
    (\<^verbatim>\<open>context/tokens.py\<close>) and Composer (\<^verbatim>\<open>context/composer.py\<close>): the budgeted memory block. Response
    (\<^verbatim>\<open>graphs/response_state.py\<close>, \<^verbatim>\<open>graphs/response_graph.py\<close>, \<^verbatim>\<open>api/chat.py\<close>): the turn and its two
    transports.
  \<^item> \<^bold>\<open>Storage.\<close> Store (\<^verbatim>\<open>store/db.py\<close>, \<^verbatim>\<open>store/audit.py\<close>): the tables, the two kinds of
    connection under row-level security, the audit writer. Attributes (\<^verbatim>\<open>capture/attributes.py\<close>): the
    registry of slots. Memories (\<^verbatim>\<open>store/memories.py\<close>, \<^verbatim>\<open>capture/dedup.py\<close>): every query and statement,
    and the guarded write path with its verdicts. AuditGuard (\<^verbatim>\<open>store/audit.py\<close>): the guard of the audit writer as a
    pooled connection carries it. Files: vectors as literals, the embedding caches as JSON files.
  \<^item> \<^bold>\<open>Capture.\<close> Json (\<^verbatim>\<open>json\<close> of Python's library, as the code calls it), Llm (\<^verbatim>\<open>llm/config.py\<close>),
    Extract (\<^verbatim>\<open>capture/extract.py\<close>, \<^verbatim>\<open>capture/pii.py\<close>, \<^verbatim>\<open>capture/evaluate.py\<close>, \<^verbatim>\<open>capture/embed.py\<close>), Capture
    (\<^verbatim>\<open>graphs/capture_state.py\<close>, \<^verbatim>\<open>graphs/capture_graph.py\<close>, \<^verbatim>\<open>capture/worker.py\<close>): from a turn to
    the rows it leaves. Recognizers (\<^verbatim>\<open>capture/pii.py\<close>): the patterns registered with the analyzer.
  \<^item> \<^bold>\<open>Governance.\<close> Identity and Governance (\<^verbatim>\<open>api/memories.py\<close>, \<^verbatim>\<open>api/governance.py\<close>): who the
    caller is, the curated view, deletion, edit, export.
  \<^item> \<^bold>\<open>Jobs.\<close> Decay (\<^verbatim>\<open>jobs/decay.py\<close>, \<^verbatim>\<open>jobs/claims.py\<close>, \<^verbatim>\<open>graphs/decay_graph.py\<close>,
    \<^verbatim>\<open>jobs/metrics.py\<close>): one worker's run. Sweep: several workers on one run, with crashes. Reflection
    (\<^verbatim>\<open>jobs/reflection.py\<close>, \<^verbatim>\<open>graphs/reflection_graph.py\<close>): clusters, summaries, retirement. Jobs
    (\<^verbatim>\<open>jobs/run.py\<close>, \<^verbatim>\<open>jobs/scheduler.py\<close>): the command line with its exit code and stats file, the two
    cron entries.
  \<^item> \<^bold>\<open>Plumbing.\<close> Pools (\<^verbatim>\<open>store/db.py\<close>): the registry of connection pools under concurrent callers. Dsn
    (\<^verbatim>\<open>store/db.py\<close>): the environment and the connection strings. Migrate (\<^verbatim>\<open>store/migrate.py\<close>): variables,
    substitution, the run with its ledger, masking. Service (\<^verbatim>\<open>api/chat.py\<close>, \<^verbatim>\<open>api/retrieval_service.py\<close>):
    the end of a turn and the capture job it queues, the internal retrieval endpoint. Settings
    (\<^verbatim>\<open>store/db.py\<close>, \<^verbatim>\<open>retrieve/config.py\<close> and its siblings): the environment file, \<^verbatim>\<open>int\<close> and \<^verbatim>\<open>float\<close> of a
    string, every setting with its default and its clamp. Lifecycle (\<^verbatim>\<open>capture/worker.py\<close>,
    \<^verbatim>\<open>retrieve/breaker.py\<close>): the singleton worker and the default breaker across event loops. Health
    (\<^verbatim>\<open>api/main.py\<close>, \<^verbatim>\<open>store/db.py\<close>, \<^verbatim>\<open>scripts/e2e_settle.py\<close>): the probes and their endpoint, the set-up of
    the log, the wait until capture settles.
  \<^item> \<^bold>\<open>Evaluation.\<close> Metrics (\<^verbatim>\<open>evals/metrics.py\<close>), Gate (\<^verbatim>\<open>evals/run_eval.py\<close>): the suite file, one query,
    the tiers, the regression gate, the exit code. Fixtures (\<^verbatim>\<open>evals/fixtures/seed_memories.py\<close>): the corpus
    written to the database. Evaluation (\<^verbatim>\<open>evals/separation.py\<close>, \<^verbatim>\<open>evals/run_eval.py\<close>): the separation of a
    probe and the whole run over the database. Corpora (\<^verbatim>\<open>evals/fixtures/seed_memories.py\<close>): both generations of
    the golden corpus as data. Golden: what seeding them leaves in the database. Reports
    (\<^verbatim>\<open>retrieve/ranking.py\<close>, \<^verbatim>\<open>evals/run_eval.py\<close>): the printed breakdown of a ranking and the table of the gate.
  \<^item> \<^bold>\<open>The whole.\<close> System: a chat turn over two databases, and the transactions of all components as one
    step relation; its histories are the runs of the program.

  \<^bold>\<open>State and effects.\<close> The database is a record of two lists of rows, with a generator of fresh
  identifiers. A statement is a function on a transaction (\<open>tx\<close>: the database, the role that
  row-level security sees, the timestamp that \<^verbatim>\<open>now()\<close> returns); a transaction is atomic, since the
  code commits at the end of each session and raises otherwise. Where a handler or a job uses several
  transactions, what others do in between is an argument, a function on the database. Exceptions are
  values of a sum type, HTTP errors their status codes. Finite floats are exact reals, so rounding of
  float arithmetic is not modelled; infinities and NaN are. Strings are lists of characters of the
  first 256 code points; where code points matter (token counting, JSON) they are modelled there.

  \<^bold>\<open>Parameters.\<close> Code outside the repository is an argument: the model provider, the tokenizer,
  Presidio's analyzer, the vector distance and text rank of PostgreSQL, the digest, printing and
  parsing of floats and dates, the execution of a migration's SQL. The plan of the vector statement is one
  too: the HNSW index of migration 0003 is approximate, and the parameter \<open>se_reach\<close> of theory Search says
  which rows its scan reaches; no theorem assumes that it reaches them all, and what depends on it says so.
  Interfaces between components are locales with their laws:
  \<open>token_counter\<close> (Composer on Tokens), \<open>settled_columns\<close> (a projection of a row that a write leaves alone), \<open>circuit_breaker\<close> (Guarded on Breaker), \<open>governed\<close> (a
  statement that keeps to the rows of its session), \<open>env_lookup\<close> (the settings of a package over its table
  of defaults) and \<open>char_classes\<close> (what the patterns need of a regular expression engine), interpreted on the definitions of the provider.

  \<^bold>\<open>What the lemmas show.\<close> Read path: scores are in the unit interval and the best are chosen, the
  merge is a union by identifier, the block is within budget and drops the lowest scores, the breaker
  admits one probe and recovers, every turn is answered. Storage and capture: a write changes only
  rows of its owner and erases none, slots stay single, a change of mind takes effect, a stored row is an
  extracted fact with its own scores and vector, a number that stands alone in one of the usual forms is
  recognised, a turn that is handed over is recorded unless the queue is full or the worker leaves its loop. Governance: deletion reaches summaries, edits are consistent, the
  export is complete, foreign rows stay untouched. Jobs: each row decays once in a run, whatever
  workers crash; summaries consume their sources and passes end. The whole: the invariant of the
  database, the append-only history, and that nothing forgotten is ever prompted again. Plumbing: no two
  open pools for one DSN and none out of reach, connection strings read back, migrations apply a prefix
  of the files, what is captured is what was delivered. Evaluation: the metrics agree on one cutoff, the
  gate misses no drop above a millionth, the exit codes mean what they are documented to mean, a suite
  never sees an erased memory, seeding is repeatable, the golden corpus has the rows its suites ask about.
  Settings: a default is read where nothing is set, and every clamp holds whatever is set. Some
  lemmas state what the code does where it is not what its documentation says: a paraphrase absorbs
  a preference, an erasure during a reflection pass is missed, sustained throttling ends in a timeout, an
  IPv6 host is lost from the connection string, closing pools while one opens orphans it, a change of
  the event loop loses the queued turns without a record.

  \<^bold>\<open>Termination and bounds.\<close> No definition uses fuel of its own invention: the batches of a decay run
  are bounded by \<open>max_batches\<close>, the retry loops by the attempts the code allows, the composer's loop by the
  number of memories, recursion in the JSON reader by the length of the input.

  \<^bold>\<open>Not modelled.\<close> Log lines, Prometheus metrics and tracing; HTTP routing and argument
  parsing; the clockwork of the scheduler; the SQL of the migrations, which is not Python (what it installs
  is the row-level security and the keys of theory Store); the lines an evaluation prints about single queries and
  the JSON file it writes; the front end. The timings reported beside results are left out too. Seeding
  deletes the rows of the evaluation subject for good, so it is not a step of the histories of theory
  System, whose theorems speak of rows that are never lost.

  \<^bold>\<open>Simplifications.\<close> The similarity queries of the write path (theory Memories) find the nearest row
  exactly, although the planner may answer them from the approximate index too. Distances are real numbers:
  pgvector's NaN for a vector of zeros does not occur. All replicas of the breaker read one clock, and a
  decay batch without a time of its own reads the transaction's clock instead of its host's. Closing the
  pools is one step. Weights and scores are exact reals, where columns store single precision. A job that an
  abandoned worker was in the middle of counts as gone, although its loop might run again.
\<close>

end
